(* ===== verification/Prelude.thy ===== *)
theory Prelude
  imports Main "HOL-Library.Word"
begin

text \<open>
  Shared vocabulary of the development: the Rust result type, bytes and little-endian
  integers, checked and saturating arithmetic, vectors addressed by index, byte buffers that
  are overwritten in place, and files read and written at an offset. Nothing here models a
  function of the repository; every component theory builds on it.

  Integers. A Rust \<open>u8\<close> is an \<open>8 word\<close>. Wider unsigned integers are natural numbers,
  with the width written out at every operation that can leave it: \<open>checked_add w\<close> is
  \<open>None\<close> beyond \<open>2 ^ w\<close>, \<open>sat_add w\<close> stops at \<open>2 ^ w - 1\<close>, a cast \<open>as u32\<close> is
  \<open>mod 2 ^ 32\<close>, an overflow that panics is \<open>Panic\<close>. \<open>usize\<close> has 64 bits.
\<close>

section \<open>Results\<close>

text \<open>Rust's \<open>Result\<close>, with a third value for a panic.\<close>

datatype ('a, 'e) result = Ok 'a | Err 'e | Panic

fun rbind :: "('a, 'e) result \<Rightarrow> ('a \<Rightarrow> ('b, 'e) result) \<Rightarrow> ('b, 'e) result" where
  "rbind (Ok a) f = f a"
| "rbind (Err e) f = Err e"
| "rbind Panic f = Panic"

fun map_err :: "('e \<Rightarrow> 'f) \<Rightarrow> ('a, 'e) result \<Rightarrow> ('a, 'f) result" where
  "map_err f (Ok a) = Ok a"
| "map_err f (Err e) = Err (f e)"
| "map_err f Panic = Panic"

definition ok_or :: "'a option \<Rightarrow> 'e \<Rightarrow> ('a, 'e) result" where
  "ok_or x e = (case x of Some a \<Rightarrow> Ok a | None \<Rightarrow> Err e)"

fun is_ok :: "('a, 'e) result \<Rightarrow> bool" where
  "is_ok (Ok a) = True"
| "is_ok _ = False"

named_theorems result_simps

lemma rbind_eq_Ok [result_simps]: "rbind x f = Ok b \<longleftrightarrow> (\<exists>a. x = Ok a \<and> f a = Ok b)"
  by (cases x) auto

lemma rbind_eq_Err [result_simps]:
  "rbind x f = Err e \<longleftrightarrow> x = Err e \<or> (\<exists>a. x = Ok a \<and> f a = Err e)"
  by (cases x) auto

lemma rbind_eq_Panic [result_simps]:
  "rbind x f = Panic \<longleftrightarrow> x = Panic \<or> (\<exists>a. x = Ok a \<and> f a = Panic)"
  by (cases x) auto

lemma rbind_cong [fundef_cong]:
  "x = y \<Longrightarrow> (\<And>a. y = Ok a \<Longrightarrow> f a = g a) \<Longrightarrow> rbind x f = rbind y g"
  by (cases y) auto

lemma rbind_assoc: "rbind (rbind x f) g = rbind x (\<lambda>a. rbind (f a) g)"
  by (cases x) auto

lemma map_err_eq_Ok [result_simps, simp]: "map_err f x = Ok a \<longleftrightarrow> x = Ok a"
  by (cases x) auto

lemma ok_or_eq_Ok [result_simps, simp]: "ok_or x e = Ok a \<longleftrightarrow> x = Some a"
  by (auto simp: ok_or_def split: option.splits)

lemma ok_or_eq_Err [result_simps, simp]: "ok_or x e = Err e' \<longleftrightarrow> x = None \<and> e' = e"
  by (auto simp: ok_or_def split: option.splits)

lemma ok_or_not_Panic [simp]: "ok_or x e \<noteq> Panic"
  by (auto simp: ok_or_def split: option.splits)

lemma ok_or_simps [simp]: "ok_or (Some a) e = Ok a" "ok_or None e = Err e"
  by (simp_all add: ok_or_def)

lemma is_ok_iff: "is_ok x \<longleftrightarrow> (\<exists>a. x = Ok a)"
  by (cases x) auto

text \<open>The loop \<open>for x in xs { s = f(x, s)?; }\<close>.\<close>

fun try_fold :: "('x \<Rightarrow> 's \<Rightarrow> ('s, 'e) result) \<Rightarrow> 'x list \<Rightarrow> 's \<Rightarrow> ('s, 'e) result" where
  "try_fold f [] s = Ok s"
| "try_fold f (x # xs) s = rbind (f x s) (try_fold f xs)"

lemma try_fold_append:
  "try_fold f (xs @ ys) s = rbind (try_fold f xs s) (try_fold f ys)"
  by (induction xs arbitrary: s) (simp_all add: rbind_assoc cong: rbind_cong)

lemma try_fold_invariant:
  assumes "try_fold f xs s = Ok t" and "I s"
    and "\<And>x s s'. x \<in> set xs \<Longrightarrow> I s \<Longrightarrow> f x s = Ok s' \<Longrightarrow> I s'"
  shows "I t"
  using assms by (induction xs arbitrary: s) (auto simp: result_simps)

text \<open>\<open>iter().map(f).collect::<Result<Vec<_>, _>>()\<close>.\<close>

fun try_map :: "('x \<Rightarrow> ('y, 'e) result) \<Rightarrow> 'x list \<Rightarrow> ('y list, 'e) result" where
  "try_map f [] = Ok []"
| "try_map f (x # xs) = rbind (f x) (\<lambda>y. rbind (try_map f xs) (\<lambda>ys. Ok (y # ys)))"

lemma try_map_all_Ok: "(\<And>x. x \<in> set xs \<Longrightarrow> f x = Ok (g x)) \<Longrightarrow> try_map f xs = Ok (map g xs)"
  by (induction xs) auto

section \<open>Machine integers\<close>

type_synonym u8 = "8 word"
type_synonym u64w = "64 word"
type_synonym bytes = "u8 list"

definition checked_add :: "nat \<Rightarrow> nat \<Rightarrow> nat \<Rightarrow> nat option" where
  "checked_add w a b = (if a + b < 2 ^ w then Some (a + b) else None)"

definition checked_mul :: "nat \<Rightarrow> nat \<Rightarrow> nat \<Rightarrow> nat option" where
  "checked_mul w a b = (if a * b < 2 ^ w then Some (a * b) else None)"

text \<open>\<open>1u32.checked_shl(k)\<close>: \<open>None\<close> unless the shift is below the width.\<close>

definition checked_shl1 :: "nat \<Rightarrow> nat \<Rightarrow> nat option" where
  "checked_shl1 w k = (if k < w then Some (2 ^ k) else None)"

definition sat_add :: "nat \<Rightarrow> nat \<Rightarrow> nat \<Rightarrow> nat" where
  "sat_add w a b = min (a + b) (2 ^ w - 1)"

definition sat_mul :: "nat \<Rightarrow> nat \<Rightarrow> nat \<Rightarrow> nat" where
  "sat_mul w a b = min (a * b) (2 ^ w - 1)"

text \<open>Plain \<open>+\<close> and \<open>-\<close> of Rust, which panic on overflow (with overflow checks on).\<close>

definition padd :: "nat \<Rightarrow> nat \<Rightarrow> nat \<Rightarrow> (nat, 'e) result" where
  "padd w a b = (if a + b < 2 ^ w then Ok (a + b) else Panic)"

definition psub :: "nat \<Rightarrow> nat \<Rightarrow> (nat, 'e) result" where
  "psub a b = (if b \<le> a then Ok (a - b) else Panic)"

lemma checked_add_Some [simp]: "checked_add w a b = Some c \<longleftrightarrow> c = a + b \<and> a + b < 2 ^ w"
  by (auto simp: checked_add_def)

lemma checked_add_None [simp]: "checked_add w a b = None \<longleftrightarrow> 2 ^ w \<le> a + b"
  by (auto simp: checked_add_def)

lemma checked_mul_Some [simp]: "checked_mul w a b = Some c \<longleftrightarrow> c = a * b \<and> a * b < 2 ^ w"
  by (auto simp: checked_mul_def)

lemma checked_shl1_Some [simp]: "checked_shl1 w k = Some c \<longleftrightarrow> k < w \<and> c = 2 ^ k"
  by (auto simp: checked_shl1_def)

lemma checked_shl1_None [simp]: "checked_shl1 w k = None \<longleftrightarrow> w \<le> k"
  by (auto simp: checked_shl1_def)

lemma sat_add_less: "a < 2 ^ w \<Longrightarrow> sat_add w a b < 2 ^ w"
  unfolding sat_add_def by (rule min.strict_coboundedI2) simp

lemma sat_add_ge: "a < 2 ^ w \<Longrightarrow> a \<le> sat_add w a b"
  by (simp add: sat_add_def)

lemma sat_add_exact: "a + b < 2 ^ w \<Longrightarrow> sat_add w a b = a + b"
  by (simp add: sat_add_def)

lemma padd_eq_Ok [simp]: "padd w a b = Ok c \<longleftrightarrow> a + b < 2 ^ w \<and> c = a + b"
  by (auto simp: padd_def)

lemma psub_eq_Ok [simp]: "psub a b = Ok c \<longleftrightarrow> b \<le> a \<and> c = a - b"
  by (auto simp: psub_def)

section \<open>Little-endian integers\<close>

text \<open>\<open>le_bytes n x\<close> is \<open>x.to_le_bytes()\<close> for an \<open>n\<close>-byte integer.\<close>

fun le_bytes :: "nat \<Rightarrow> nat \<Rightarrow> bytes" where
  "le_bytes 0 x = []"
| "le_bytes (Suc n) x = word_of_nat x # le_bytes n (x div 256)"

fun le_nat :: "bytes \<Rightarrow> nat" where
  "le_nat [] = 0"
| "le_nat (b # bs) = unat b + 256 * le_nat bs"

lemma length_le_bytes [simp]: "length (le_bytes n x) = n"
  by (induction n arbitrary: x) auto

lemma unat_word_of_nat8 [simp]: "unat (word_of_nat x :: u8) = x mod 256"
  by (simp add: unat_of_nat)

lemma le_nat_le_bytes: "le_nat (le_bytes n x) = x mod 256 ^ n"
proof (induction n arbitrary: x)
  case (Suc n)
  have "x mod (256 * 256 ^ n) = 256 * (x div 256 mod 256 ^ n) + x mod 256"
    by (rule mod_mult2_eq)
  with Suc show ?case by (simp add: unat_of_nat)
qed simp

lemma le_roundtrip [simp]: "x < 256 ^ n \<Longrightarrow> le_nat (le_bytes n x) = x"
  by (simp add: le_nat_le_bytes)

lemma le_nat_less: "le_nat bs < 256 ^ length bs"
proof (induction bs)
  case (Cons b bs)
  have "unat b < 256" using unsigned_less [of b] by simp
  with Cons show ?case by simp
qed simp

lemma le_bytes_le_nat: "le_bytes (length bs) (le_nat bs) = bs"
proof (induction bs)
  case (Cons b bs)
  have b: "unat b < 256" using unsigned_less [of b] by simp
  have z: "(256 :: u8) = 0" by simp
  have "word_of_nat (unat b + 256 * le_nat bs) = b"
    by (simp only: of_nat_add of_nat_mult of_nat_numeral z) simp
  moreover have "(unat b + 256 * le_nat bs) div 256 = le_nat bs" using b by simp
  ultimately show ?case using Cons by simp
qed simp

lemma le_bytes_inject:
  "x < 256 ^ n \<Longrightarrow> y < 256 ^ n \<Longrightarrow> le_bytes n x = le_bytes n y \<longleftrightarrow> x = y"
  by (metis le_roundtrip)

section \<open>Text as bytes\<close>

text \<open>A byte-string literal, and lower-case hexadecimal.\<close>

definition ascii :: "string \<Rightarrow> bytes" where
  "ascii s = map (\<lambda>c. word_of_nat (of_char c)) s"

definition hex_lower :: "bytes \<Rightarrow> string" where
  "hex_lower bs = concat (map (\<lambda>b.
     [''0123456789abcdef'' ! (unat b div 16), ''0123456789abcdef'' ! (unat b mod 16)]) bs)"

text \<open>Prefixes and suffixes of strings, as \<open>str\<close> has them.\<close>

definition starts_with :: "string \<Rightarrow> string \<Rightarrow> bool" where
  "starts_with p s \<longleftrightarrow> take (length p) s = p"

definition strip_prefix :: "string \<Rightarrow> string \<Rightarrow> string option" where
  "strip_prefix p s = (if take (length p) s = p then Some (drop (length p) s) else None)"

definition ends_with :: "string \<Rightarrow> string \<Rightarrow> bool" where
  "ends_with s suffix = (length suffix \<le> length s \<and> drop (length s - length suffix) s = suffix)"

definition strip_suffix :: "string \<Rightarrow> string \<Rightarrow> string option" where
  "strip_suffix s suffix = (if ends_with s suffix then Some (take (length s - length suffix) s) else None)"

section \<open>Vectors and buffers\<close>

text \<open>\<open>xs[i]\<close>: a panic out of range.\<close>

definition index_vec :: "'a list \<Rightarrow> nat \<Rightarrow> ('a, 'e) result" where
  "index_vec xs i = (if i < length xs then Ok (xs ! i) else Panic)"

text \<open>\<open>xs.get(i)\<close>.\<close>

definition get_opt :: "'a list \<Rightarrow> nat \<Rightarrow> 'a option" where
  "get_opt xs i = (if i < length xs then Some (xs ! i) else None)"

lemma index_vec_Ok [simp]: "index_vec xs i = Ok x \<longleftrightarrow> i < length xs \<and> x = xs ! i"
  by (auto simp: index_vec_def)

lemma get_opt_Some [simp]: "get_opt xs i = Some x \<longleftrightarrow> i < length xs \<and> x = xs ! i"
  by (auto simp: get_opt_def)

text \<open>\<open>buf[a..b]\<close> and \<open>buf[off..].copy_from_slice(bs)\<close> on a buffer that is long enough.\<close>

definition subvec :: "nat \<Rightarrow> nat \<Rightarrow> 'a list \<Rightarrow> 'a list" where
  "subvec a b xs = take (b - a) (drop a xs)"

definition splice :: "'a list \<Rightarrow> nat \<Rightarrow> 'a list \<Rightarrow> 'a list" where
  "splice xs off ys = take off xs @ ys @ drop (off + length ys) xs"

lemma length_splice [simp]: "off + length ys \<le> length xs \<Longrightarrow> length (splice xs off ys) = length xs"
  by (simp add: splice_def)

lemma nth_splice:
  assumes "off + length ys \<le> length xs" "i < length xs"
  shows "splice xs off ys ! i =
    (if i < off then xs ! i else if i < off + length ys then ys ! (i - off) else xs ! i)"
  using assms by (auto simp: splice_def nth_append)

lemma length_subvec: "b \<le> length xs \<Longrightarrow> a \<le> b \<Longrightarrow> length (subvec a b xs) = b - a"
  by (simp add: subvec_def)

lemma nth_subvec: "i < b - a \<Longrightarrow> b \<le> length xs \<Longrightarrow> subvec a b xs ! i = xs ! (a + i)"
  by (simp add: subvec_def)

lemma subvec_eqI:
  assumes "b \<le> length xs" "b \<le> length ys" "a \<le> b" "\<And>i. a \<le> i \<Longrightarrow> i < b \<Longrightarrow> xs ! i = ys ! i"
  shows "subvec a b xs = subvec a b ys"
  by (rule nth_equalityI) (use assms in \<open>auto simp: length_subvec nth_subvec\<close>)

lemma subvec_splice_same:
  "off + length ys \<le> length xs \<Longrightarrow> subvec off (off + length ys) (splice xs off ys) = ys"
  by (simp add: subvec_def splice_def)

lemma subvec_splice_other:
  assumes "off + length ys \<le> length xs" "a \<le> b" "b \<le> length xs" "b \<le> off \<or> off + length ys \<le> a"
  shows "subvec a b (splice xs off ys) = subvec a b xs"
  by (rule subvec_eqI) (use assms in \<open>auto simp: nth_splice\<close>)

lemma subvec_subvec: "b \<le> d - c \<Longrightarrow> subvec a b (subvec c d xs) = subvec (c + a) (c + b) xs"
  by (auto simp: subvec_def drop_take add.commute intro: arg_cong2 [where f = take])

lemma splice_splice:
  assumes "k + length zs \<le> length ys" "off + length ys \<le> length xs"
  shows "splice (splice xs off ys) (off + k) zs = splice xs off (splice ys k zs)"
proof (rule nth_equalityI)
  show "length (splice (splice xs off ys) (off + k) zs) = length (splice xs off (splice ys k zs))"
    using assms by (simp add: splice_def)
  fix i assume "i < length (splice (splice xs off ys) (off + k) zs)"
  then have "i < length xs" using assms by (simp add: splice_def)
  then show "splice (splice xs off ys) (off + k) zs ! i = splice xs off (splice ys k zs) ! i"
    using assms by (auto simp: nth_splice add.assoc)
qed

lemma list_update_splice: "i < length xs \<Longrightarrow> xs[i := v] = splice xs i [v]"
  by (simp add: splice_def upd_conv_take_nth_drop)

lemma nth_subvec_conv: "a + i < b \<Longrightarrow> b \<le> length xs \<Longrightarrow> xs ! (a + i) = subvec a b xs ! i"
  by (simp add: nth_subvec)

lemma subvec_append1: "b \<le> length xs \<Longrightarrow> subvec a b (xs @ ys) = subvec a b xs"
  by (cases "a \<le> b") (auto simp: subvec_def)

section \<open>Files\<close>

text \<open>
  A regular file is its contents. \<open>write_all_at\<close> writes past the end by filling the gap
  with zeros, as \<open>pwrite\<close> does; \<open>read_exact_at\<close> gives \<open>None\<close> for an unexpected end of
  file. Faults of the operating system itself are not modelled.
\<close>

definition write_all_at :: "bytes \<Rightarrow> nat \<Rightarrow> bytes \<Rightarrow> bytes" where
  "write_all_at file off bs =
     (if bs = [] then file
      else take off (file @ replicate (off - length file) 0) @ bs @ drop (off + length bs) file)"

definition read_exact_at :: "bytes \<Rightarrow> nat \<Rightarrow> nat \<Rightarrow> bytes option" where
  "read_exact_at file off n =
     (if n = 0 then Some [] else if off + n \<le> length file then Some (subvec off (off + n) file) else None)"

definition set_len :: "bytes \<Rightarrow> nat \<Rightarrow> bytes" where
  "set_len file n = take n file @ replicate (n - length file) 0"

lemma length_write_all_at:
  "bs \<noteq> [] \<Longrightarrow> length (write_all_at file off bs) = max (length file) (off + length bs)"
  by (auto simp: write_all_at_def)

lemma length_write_all_at_ge: "length file \<le> length (write_all_at file off bs)"
  by (auto simp: write_all_at_def)

lemma write_all_at_splice:
  "off + length bs \<le> length file \<Longrightarrow> write_all_at file off bs = splice file off bs"
  by (auto simp: write_all_at_def splice_def)

lemma read_write_same:
  "read_exact_at (write_all_at file off bs) off (length bs) = Some bs"
  by (auto simp: read_exact_at_def length_write_all_at subvec_def write_all_at_def)

lemma read_write_before:
  assumes "read_exact_at file off n = Some bs" "off + n \<le> off'"
  shows "read_exact_at (write_all_at file off' bs') off n = Some bs"
proof (cases "n = 0 \<or> bs' = []")
  case False
  then have n: "off + n \<le> length file" and bs: "bs = subvec off (off + n) file"
    using assms(1) by (auto simp: read_exact_at_def split: if_splits)
  have len: "off + n \<le> length (write_all_at file off' bs')"
    by (rule le_trans [OF n length_write_all_at_ge])
  have "subvec off (off + n) (write_all_at file off' bs') = subvec off (off + n) file"
    by (rule subvec_eqI) (use n len assms(2) False in \<open>auto simp: write_all_at_def nth_append\<close>)
  with False len bs show ?thesis by (simp add: read_exact_at_def)
qed (use assms in \<open>auto simp: read_exact_at_def write_all_at_def split: if_splits\<close>)

lemma length_set_len [simp]: "length (set_len file n) = n"
  by (simp add: set_len_def)

lemma nth_set_len:
  "i < n \<Longrightarrow> set_len file n ! i = (if i < length file then file ! i else 0)"
  by (auto simp: set_len_def nth_append)

end
