(* ===== verification/Crates.thy ===== *)
theory Crates
  imports Prelude
begin

text \<open>
  The third-party crates the code calls on content identifiers and digests: \<open>cid\<close>,
  \<open>multihash\<close>, \<open>blake3\<close> and \<open>sha2\<close>. Their code is not part of the repository, so they are
  a parameter of the model: a record of the functions the sources call, passed to every
  definition that uses one of them. What the sources rely on is stated as named predicates on
  that record, which the theorems take as hypotheses. \<open>demo_crates\<close> is one concrete record,
  at which the witnesses show that the hypotheses can hold together.

  The type \<open>'c\<close> stands for \<open>cid::Cid\<close>, \<open>'m\<close> for \<open>multihash::Multihash<64>\<close>. Functions
  that return a \<open>Result\<close> in Rust return an \<open>option\<close>; the text of their errors is not kept.
\<close>

record ('c, 'm) crates =
  cid_codec :: "'c \<Rightarrow> nat"
  cid_hash :: "'c \<Rightarrow> 'm"
  cid_new_v1 :: "nat \<Rightarrow> 'm \<Rightarrow> 'c"
  cid_to_bytes :: "'c \<Rightarrow> bytes"
  cid_try_from :: "bytes \<Rightarrow> 'c option"
  cid_to_string :: "'c \<Rightarrow> string"
  cid_parse :: "string \<Rightarrow> 'c option"
  mh_code :: "'m \<Rightarrow> nat"
  mh_digest :: "'m \<Rightarrow> bytes"
  mh_wrap :: "nat \<Rightarrow> bytes \<Rightarrow> 'm option"
  varint :: "nat \<Rightarrow> bytes"
  blake3 :: "bytes \<Rightarrow> bytes"
  sha256 :: "bytes \<Rightarrow> bytes"

section \<open>What the code relies on\<close>

text \<open>A CID is read back from its own bytes, and from its own text.\<close>

definition cid_bytes_law :: "('c, 'm) crates \<Rightarrow> bool" where
  "cid_bytes_law X \<longleftrightarrow> (\<forall>c. cid_try_from X (cid_to_bytes X c) = Some c)"

definition cid_string_law :: "('c, 'm) crates \<Rightarrow> bool" where
  "cid_string_law X \<longleftrightarrow> (\<forall>c. cid_parse X (cid_to_string X c) = Some c)"

text \<open>\<open>Cid::new_v1\<close> keeps the codec and the multihash it is given.\<close>

definition cid_new_law :: "('c, 'm) crates \<Rightarrow> bool" where
  "cid_new_law X \<longleftrightarrow>
     (\<forall>k m. cid_codec X (cid_new_v1 X k m) = k \<and> cid_hash X (cid_new_v1 X k m) = m)"

text \<open>\<open>Multihash::<64>::wrap\<close> accepts a digest of at most 64 bytes and keeps code and digest.\<close>

definition mh_wrap_law :: "('c, 'm) crates \<Rightarrow> bool" where
  "mh_wrap_law X \<longleftrightarrow>
     (\<forall>k d. (length d \<le> 64 \<longleftrightarrow> mh_wrap X k d \<noteq> None)
        \<and> (\<forall>m. mh_wrap X k d = Some m \<longrightarrow> mh_code X m = k \<and> mh_digest X m = d))"

text \<open>Both digests have 32 bytes.\<close>

definition digest_law :: "('c, 'm) crates \<Rightarrow> bool" where
  "digest_law X \<longleftrightarrow> (\<forall>d. length (blake3 X d) = 32 \<and> length (sha256 X d) = 32)"

text \<open>
  The bytes of a CIDv1 are the varints of the version, the codec, the hash code and the digest
  length, followed by the digest; \<open>Cid::try_from\<close> reads them.
\<close>

definition cid_v1_law :: "('c, 'm) crates \<Rightarrow> bool" where
  "cid_v1_law X \<longleftrightarrow>
     (\<forall>k h d m. mh_wrap X h d = Some m \<longrightarrow>
        cid_try_from X (varint X 1 @ varint X k @ varint X h @ varint X (length d) @ d)
          = Some (cid_new_v1 X k m))"

text \<open>
  Two different byte strings with one digest, one from each of two given sets. (That some two byte
  strings have one digest is true of every hash function, so the sets matter.)
\<close>

definition colliding :: "(bytes \<Rightarrow> bytes) \<Rightarrow> bytes set \<Rightarrow> bytes set \<Rightarrow> bool" where
  "colliding h A B \<longleftrightarrow> (\<exists>x \<in> A. \<exists>y \<in> B. x \<noteq> y \<and> h x = h y)"

lemma collidingI: "x \<in> A \<Longrightarrow> y \<in> B \<Longrightarrow> h x = h y \<Longrightarrow> x \<noteq> y \<Longrightarrow> colliding h A B"
  by (auto simp: colliding_def)

lemma colliding_mono: "colliding h A B \<Longrightarrow> A \<subseteq> A' \<Longrightarrow> B \<subseteq> B' \<Longrightarrow> colliding h A' B'"
  by (auto simp: colliding_def)

lemma cid_bytes_lawD: "cid_bytes_law X \<Longrightarrow> cid_try_from X (cid_to_bytes X c) = Some c"
  by (simp add: cid_bytes_law_def)

lemma cid_to_bytes_inject:
  "cid_bytes_law X \<Longrightarrow> cid_to_bytes X c = cid_to_bytes X c' \<longleftrightarrow> c = c'"
  by (metis cid_bytes_lawD option.inject)

lemma cid_to_string_inject:
  "cid_string_law X \<Longrightarrow> cid_to_string X c = cid_to_string X c' \<longleftrightarrow> c = c'"
  by (metis cid_string_law_def option.inject)

lemma cid_new_lawD [simp]:
  "cid_new_law X \<Longrightarrow> cid_codec X (cid_new_v1 X k m) = k"
  "cid_new_law X \<Longrightarrow> cid_hash X (cid_new_v1 X k m) = m"
  by (simp_all add: cid_new_law_def)

lemma mh_wrap_SomeD:
  "mh_wrap_law X \<Longrightarrow> mh_wrap X k d = Some m \<Longrightarrow> mh_code X m = k \<and> mh_digest X m = d"
  by (auto simp: mh_wrap_law_def)

lemma mh_wrap_Ex: "mh_wrap_law X \<Longrightarrow> length d \<le> 64 \<Longrightarrow> \<exists>m. mh_wrap X k d = Some m"
  by (auto simp: mh_wrap_law_def)

lemma digest_lawD [simp]:
  "digest_law X \<Longrightarrow> length (blake3 X d) = 32"
  "digest_law X \<Longrightarrow> length (sha256 X d) = 32"
  by (simp_all add: digest_law_def)

section \<open>A concrete instance\<close>

text \<open>
  A CID is a triple of codec, hash code and digest, written as the LEB128 varints of version,
  codec, hash code and digest length and then the digest. Its text is its bytes, one character
  each. A digest is the input cut or padded to 32 bytes: a function with the right length, not
  a cryptographic one.
\<close>

fun demo_varint :: "nat \<Rightarrow> bytes" where
  "demo_varint n = (if n < 128 then [word_of_nat n] else word_of_nat (128 + n mod 128) # demo_varint (n div 128))"

declare demo_varint.simps [simp del]

fun demo_read_varint :: "bytes \<Rightarrow> (nat \<times> bytes) option" where
  "demo_read_varint [] = None"
| "demo_read_varint (b # bs) =
     (if unat b < 128 then Some (unat b, bs)
      else case demo_read_varint bs of None \<Rightarrow> None | Some (n, r) \<Rightarrow> Some (unat b - 128 + 128 * n, r))"

definition demo_digest :: "bytes \<Rightarrow> bytes" where
  "demo_digest d = take 32 (d @ replicate 32 0)"

definition demo_to_bytes :: "nat \<times> nat \<times> bytes \<Rightarrow> bytes" where
  "demo_to_bytes = (\<lambda>(k, h, d).
     demo_varint 1 @ demo_varint k @ demo_varint h @ demo_varint (length d) @ d)"

definition demo_try_from :: "bytes \<Rightarrow> (nat \<times> nat \<times> bytes) option" where
  "demo_try_from bs =
     Option.bind (demo_read_varint bs) (\<lambda>(v, r1). if v \<noteq> 1 then None else
     Option.bind (demo_read_varint r1) (\<lambda>(k, r2).
     Option.bind (demo_read_varint r2) (\<lambda>(h, r3).
     Option.bind (demo_read_varint r3) (\<lambda>(n, d). if n = length d then Some (k, h, d) else None))))"

definition demo_crates :: "(nat \<times> nat \<times> bytes, nat \<times> bytes) crates" where
  "demo_crates =
     \<lparr>cid_codec = fst,
      cid_hash = snd,
      cid_new_v1 = (\<lambda>k m. (k, m)),
      cid_to_bytes = demo_to_bytes,
      cid_try_from = demo_try_from,
      cid_to_string = (\<lambda>c. map (\<lambda>b. char_of (unat b)) (demo_to_bytes c)),
      cid_parse = (\<lambda>s. demo_try_from (map (\<lambda>c. word_of_nat (of_char c)) s)),
      mh_code = fst,
      mh_digest = snd,
      mh_wrap = (\<lambda>k d. if length d \<le> 64 then Some (k, d) else None),
      varint = demo_varint,
      blake3 = demo_digest,
      sha256 = demo_digest\<rparr>"

lemma demo_read_varint [simp]: "demo_read_varint (demo_varint n @ r) = Some (n, r)"
proof (induction n rule: demo_varint.induct)
  case (1 n)
  show ?case
  proof (cases "n < 128")
    case False
    have m: "128 + n mod 128 < 256" by simp
    then have "unat (word_of_nat (128 + n mod 128) :: u8) = 128 + n mod 128"
      by (simp only: unat_word_of_nat8 mod_less)
    with 1 False show ?thesis by (simp add: demo_varint.simps [of n] del: of_nat_add)
  qed (simp add: demo_varint.simps)
qed

lemma demo_try_from_to_bytes [simp]: "demo_try_from (demo_to_bytes c) = Some c"
  by (cases c) (simp add: demo_try_from_def demo_to_bytes_def)

lemma demo_digest_law [simp]: "digest_law demo_crates"
  by (auto simp: digest_law_def demo_crates_def demo_digest_def min_def)

lemma demo_cid_new_law [simp]: "cid_new_law demo_crates"
  by (simp add: cid_new_law_def demo_crates_def)

lemma demo_mh_wrap_law [simp]: "mh_wrap_law demo_crates"
  by (simp add: mh_wrap_law_def demo_crates_def)

lemma demo_cid_bytes_law [simp]: "cid_bytes_law demo_crates"
  by (simp add: cid_bytes_law_def demo_crates_def)

lemma demo_cid_v1_law [simp]: "cid_v1_law demo_crates"
  by (simp add: cid_v1_law_def demo_crates_def demo_try_from_def)

lemma unat_u8_mod [simp]: "unat (b :: u8) mod 256 = unat b"
  using unsigned_less [of b, where ?'a = nat] by simp

lemma demo_cid_string_law [simp]: "cid_string_law demo_crates"
  by (simp add: cid_string_law_def demo_crates_def comp_def)

end
