(* ===== verification/Ord_Map.thy ===== *)
theory Ord_Map
  imports Prelude "HOL-Library.Product_Lexorder"
begin

text \<open>
  Rust's \<open>BTreeMap\<close> and \<open>BTreeSet\<close>: an ordered map is the list of its entries with strictly
  increasing keys, an ordered set the list of its elements. \<open>HashMap\<close> and \<open>HashSet\<close> are
  modelled by the same lists; where the code iterates over one, its result does not depend on
  the order, or it sorts the keys itself.

  The locale \<open>map_interface\<close> is what the components use of a map; it is interpreted on these
  lists.
\<close>

type_synonym ('k, 'v) omap = "('k \<times> 'v) list"

definition om_get :: "('k, 'v) omap \<Rightarrow> 'k \<Rightarrow> 'v option" where
  "om_get m k = map_of m k"

fun om_insert :: "'k::linorder \<Rightarrow> 'v \<Rightarrow> ('k, 'v) omap \<Rightarrow> ('k, 'v) omap" where
  "om_insert k v [] = [(k, v)]"
| "om_insert k v ((k', v') # m) =
     (if k < k' then (k, v) # (k', v') # m
      else if k = k' then (k, v) # m
      else (k', v') # om_insert k v m)"

definition om_remove :: "'k \<Rightarrow> ('k, 'v) omap \<Rightarrow> ('k, 'v) omap" where
  "om_remove k m = filter (\<lambda>(k', _). k' \<noteq> k) m"

definition om_keys :: "('k, 'v) omap \<Rightarrow> 'k list" where
  "om_keys m = map fst m"

definition om_inv :: "('k::linorder, 'v) omap \<Rightarrow> bool" where
  "om_inv m \<longleftrightarrow> sorted_wrt (<) (map fst m)"

definition om_get_or :: "'v \<Rightarrow> ('k, 'v) omap \<Rightarrow> 'k \<Rightarrow> 'v" where
  "om_get_or d m k = (case om_get m k of Some v \<Rightarrow> v | None \<Rightarrow> d)"

fun os_insert :: "'a::linorder \<Rightarrow> 'a list \<Rightarrow> 'a list" where
  "os_insert x [] = [x]"
| "os_insert x (y # ys) = (if x < y then x # y # ys else if x = y then y # ys else y # os_insert x ys)"

section \<open>Laws\<close>

lemma om_get_insert [simp]: "om_get (om_insert k v m) k' = (if k' = k then Some v else om_get m k')"
  by (induction k v m rule: om_insert.induct) (auto simp: om_get_def)

lemma om_get_remove [simp]: "om_get (om_remove k m) k' = (if k' = k then None else om_get m k')"
  by (induction m) (auto simp: om_get_def om_remove_def)

lemma om_get_Nil [simp]: "om_get [] k = None"
  by (simp add: om_get_def)

lemma om_inv_Nil [simp]: "om_inv []"
  by (simp add: om_inv_def)

lemma om_keys_insert: "set (om_keys (om_insert k v m)) = insert k (set (om_keys m))"
  by (induction k v m rule: om_insert.induct) (auto simp: om_keys_def)

lemma om_inv_insert [simp]: "om_inv m \<Longrightarrow> om_inv (om_insert k v m)"
proof (induction k v m rule: om_insert.induct)
  case (2 k v k' v' m)
  then show ?case using om_keys_insert [of k v m] by (auto simp: om_inv_def om_keys_def)
qed (simp add: om_inv_def)

lemma om_inv_remove [simp]: "om_inv m \<Longrightarrow> om_inv (om_remove k m)"
  by (induction m) (auto simp: om_inv_def om_remove_def)

lemma om_get_None_iff: "om_get m k = None \<longleftrightarrow> k \<notin> set (om_keys m)"
  by (auto simp: om_get_def om_keys_def map_of_eq_None_iff)

lemma om_get_keys: "om_get m k = Some v \<Longrightarrow> k \<in> set (om_keys m)"
  using om_get_None_iff [of m k] by auto

lemma om_keys_remove [simp]: "set (om_keys (om_remove k m)) = set (om_keys m) - {k}"
  by (auto simp: om_keys_def om_remove_def)

lemma om_inv_distinct: "om_inv m \<Longrightarrow> distinct (map fst m)"
  unfolding om_inv_def using strict_sorted_iff by blast

lemma om_get_in_set: "om_inv m \<Longrightarrow> om_get m k = Some v \<longleftrightarrow> (k, v) \<in> set m"
  by (simp add: om_get_def om_inv_distinct)

lemma om_ext:
  assumes "om_inv m" "om_inv m'" "\<And>k. om_get m k = om_get m' k"
  shows "m = m'"
proof -
  have set: "set m = set m'"
    using assms(3) om_get_in_set [OF assms(1)] om_get_in_set [OF assms(2)] by auto
  have "map fst m = map fst m'"
    by (rule sorted_distinct_set_unique)
      (use assms(1,2) set strict_sorted_iff in \<open>auto simp: om_inv_def\<close>)
  moreover have "m = map (\<lambda>k. (k, the (map_of m k))) (map fst m)"
    by (rule sym, simp add: comp_def, rule map_idI)
      (use om_inv_distinct [OF assms(1)] in \<open>auto simp: \<close>)
  moreover have "m' = map (\<lambda>k. (k, the (map_of m' k))) (map fst m')"
    by (rule sym, simp add: comp_def, rule map_idI)
      (use om_inv_distinct [OF assms(2)] in \<open>auto simp: \<close>)
  moreover have "map_of m = map_of m'" using assms(3) by (auto simp: om_get_def)
  ultimately show ?thesis by metis
qed

lemma length_om_card: "om_inv m \<Longrightarrow> length m = card (set (om_keys m))"
  using distinct_card [OF om_inv_distinct, of m] by (simp add: om_keys_def)

lemma length_om_insert:
  "om_inv m \<Longrightarrow> length (om_insert k v m) = (if om_get m k = None then Suc (length m) else length m)"
  by (auto simp: length_om_card om_keys_insert om_get_None_iff dest: om_get_keys intro: arg_cong [where f = card])

lemma length_om_remove: "length (om_remove k m) \<le> length m"
  by (simp add: om_remove_def)

lemma set_os_insert [simp]: "set (os_insert x ys) = insert x (set ys)"
  by (induction x ys rule: os_insert.induct) auto

lemma sorted_os_insert [simp]: "sorted_wrt (<) ys \<Longrightarrow> sorted_wrt (<) (os_insert x ys)"
  by (induction x ys rule: os_insert.induct) auto

section \<open>The interface\<close>

locale map_interface =
  fixes empty :: 'm
    and get :: "'m \<Rightarrow> 'k \<Rightarrow> 'v option"
    and ins :: "'k \<Rightarrow> 'v \<Rightarrow> 'm \<Rightarrow> 'm"
    and del :: "'k \<Rightarrow> 'm \<Rightarrow> 'm"
    and inv :: "'m \<Rightarrow> bool"
  assumes get_empty: "get empty k = None"
    and get_ins: "get (ins k v m) k' = (if k' = k then Some v else get m k')"
    and get_del: "get (del k m) k' = (if k' = k then None else get m k')"
    and inv_empty: "inv empty"
    and inv_ins: "inv m \<Longrightarrow> inv (ins k v m)"
    and inv_del: "inv m \<Longrightarrow> inv (del k m)"
    and ext: "inv m \<Longrightarrow> inv m' \<Longrightarrow> (\<And>k. get m k = get m' k) \<Longrightarrow> m = m'"
begin

lemma ins_commute: "inv m \<Longrightarrow> k \<noteq> k' \<Longrightarrow> ins k v (ins k' v' m) = ins k' v' (ins k v m)"
  by (rule ext) (auto simp: get_ins inv_ins)

lemma ins_overwrite: "inv m \<Longrightarrow> ins k v (ins k v' m) = ins k v m"
  by (rule ext) (auto simp: get_ins inv_ins)

lemma del_ins: "inv m \<Longrightarrow> get m k = None \<Longrightarrow> del k (ins k v m) = m"
  by (rule ext) (auto simp: get_ins get_del inv_ins inv_del)

text \<open>A right-biased fold of insertions: the last binding of a key wins.\<close>

lemma get_fold_ins:
  "get (fold (\<lambda>(k, v). ins k v) kvs m) k =
     (case map_of (rev kvs) k of Some v \<Rightarrow> Some v | None \<Rightarrow> get m k)"
proof (induction kvs arbitrary: m)
  case (Cons kv kvs)
  obtain k0 v0 where "kv = (k0, v0)" by (cases kv)
  with Cons show ?case by (auto simp: get_ins map_add_def split: option.splits)
qed simp

end

interpretation om: map_interface "[]" om_get om_insert om_remove om_inv
  by unfold_locales (auto intro: om_ext)

end
