(* ===== verification/Citadel_Lens.thy ===== *)
theory Citadel_Lens
  imports Crates Ord_Map "HOL-Library.Multiset"
begin

text \<open>
  The lens graph of \<open>neverust-core/src/citadel.rs\<close>: last-writer-wins maps of follow edges and
  content entries under Lamport timestamps, their merge, the sites reachable from a root by
  follow edges, the content visible there and the digest of that view. Site, node and slot
  numbers and counters are natural numbers.
\<close>

section \<open>Lamport timestamps\<close>

datatype lamport = Lamport (lam_counter: nat) (lam_origin: nat)

text \<open>The derived \<open>Ord\<close> of the struct: by counter, then by origin.\<close>

instantiation lamport :: linorder
begin

definition less_eq_lamport :: "lamport \<Rightarrow> lamport \<Rightarrow> bool" where
  "less_eq_lamport a b \<longleftrightarrow>
     lam_counter a < lam_counter b \<or> lam_counter a = lam_counter b \<and> lam_origin a \<le> lam_origin b"

definition less_lamport :: "lamport \<Rightarrow> lamport \<Rightarrow> bool" where
  "less_lamport a b \<longleftrightarrow> a \<le> b \<and> \<not> b \<le> (a :: lamport)"

instance
  by standard (auto simp: less_eq_lamport_def less_lamport_def intro: lamport.expand)

end

record lww_entry =
  lww_ts :: lamport
  lww_present :: bool

record lens_graph =
  follows :: "(nat \<times> nat, lww_entry) omap"
  content :: "(nat \<times> nat, lww_entry) omap"

definition empty_graph :: lens_graph where
  "empty_graph = \<lparr>follows = [], content = []\<rparr>"

section \<open>Updates\<close>

definition lww_update :: "('k::linorder, lww_entry) omap \<Rightarrow> 'k \<Rightarrow> lww_entry \<Rightarrow> ('k, lww_entry) omap" where
  "lww_update m key nxt =
     (case om_get m key of
        Some prev \<Rightarrow> if lww_ts prev \<ge> lww_ts nxt then m else om_insert key nxt m
      | None \<Rightarrow> om_insert key nxt m)"

definition update_follow :: "nat \<Rightarrow> nat \<Rightarrow> lamport \<Rightarrow> bool \<Rightarrow> lens_graph \<Rightarrow> lens_graph" where
  "update_follow site_id target_site_id ts enabled g =
     g\<lparr>follows := lww_update (follows g) (site_id, target_site_id) \<lparr>lww_ts = ts, lww_present = enabled\<rparr>\<rparr>"

definition update_content :: "nat \<Rightarrow> nat \<Rightarrow> lamport \<Rightarrow> bool \<Rightarrow> lens_graph \<Rightarrow> lens_graph" where
  "update_content site_id content_slot ts present g =
     g\<lparr>content := lww_update (content g) (site_id, content_slot) \<lparr>lww_ts = ts, lww_present = present\<rparr>\<rparr>"

definition lww_merge :: "('k::linorder, lww_entry) omap \<Rightarrow> ('k, lww_entry) omap \<Rightarrow> ('k, lww_entry) omap" where
  "lww_merge m other = fold (\<lambda>(k, v) acc. lww_update acc k v) other m"

definition merge_from :: "lens_graph \<Rightarrow> lens_graph \<Rightarrow> lens_graph" where
  "merge_from g other =
     g\<lparr>follows := lww_merge (follows g) (follows other), content := lww_merge (content g) (content other)\<rparr>"

section \<open>Views\<close>

fun bfs_edges :: "((nat \<times> nat) \<times> lww_entry) list \<Rightarrow> nat \<Rightarrow> nat list \<Rightarrow> nat list \<Rightarrow> nat list \<times> nat list" where
  "bfs_edges [] site out q = (out, q)"
| "bfs_edges (((from, to), edge) # es) site out q =
     (if from = site \<and> lww_present edge \<and> to \<notin> set out
      then bfs_edges es site (os_insert to out) (q @ [to])
      else bfs_edges es site out q)"

definition targets :: "((nat \<times> nat) \<times> lww_entry) list \<Rightarrow> nat set" where
  "targets es = (\<lambda>e. snd (fst e)) ` set es"

lemma bfs_edges_measure:
  assumes "bfs_edges es site out q = (out', q')" "set es \<subseteq> set es0"
  shows "card (targets es0 - set out') + length q' = card (targets es0 - set out) + length q"
  using assms
proof (induction es site out q rule: bfs_edges.induct)
  case (2 "from" to edge es site out q)
  show ?case
  proof (cases "from = site \<and> lww_present edge \<and> to \<notin> set out")
    case True
    have to: "to \<in> targets es0" using 2(4) by (force simp: targets_def)
    have fin: "finite (targets es0 - set out)" by (simp add: targets_def)
    have eq: "targets es0 - set (os_insert to out) = (targets es0 - set out) - {to}" by auto
    have "card (targets es0 - set out) = Suc (card (targets es0 - set (os_insert to out)))"
      unfolding eq by (rule card.remove [OF fin]) (use to True in auto)
    with 2(1) [OF True] 2(3,4) True show ?thesis by simp
  next
    case False
    with 2 show ?thesis by simp
  qed
qed simp

function reachable_loop :: "((nat \<times> nat) \<times> lww_entry) list \<Rightarrow> nat list \<Rightarrow> nat list \<Rightarrow> nat list" where
  "reachable_loop es out [] = out"
| "reachable_loop es out (site # q) =
     (case bfs_edges es site out q of (out', q') \<Rightarrow> reachable_loop es out' q')"
  by pat_completeness auto
termination
  by (relation "measure (\<lambda>(es, out, q). card (targets es - set out) + length q)")
    (auto split: prod.splits dest: bfs_edges_measure [OF _ subset_refl])

definition reachable_sites :: "lens_graph \<Rightarrow> nat \<Rightarrow> nat list" where
  "reachable_sites g root_site_id = reachable_loop (follows g) [root_site_id] [root_site_id]"

definition visible_content :: "lens_graph \<Rightarrow> nat \<Rightarrow> (nat \<times> nat) list" where
  "visible_content g root_site_id =
     (let reachable = reachable_sites g root_site_id in
      map fst (filter (\<lambda>((site, slot), entry). lww_present entry \<and> site \<in> set reachable) (content g)))"

definition view_digest_hex :: "('c, 'm) crates \<Rightarrow> lens_graph \<Rightarrow> nat \<Rightarrow> string" where
  "view_digest_hex X g root_site_id =
     (let reachable = reachable_sites g root_site_id;
          visible = visible_content g root_site_id
      in hex_lower (blake3 X
        (ascii ''neverust-citadel-view-v1'' @ le_bytes 8 root_site_id
         @ concat (map (le_bytes 8) reachable)
         @ concat (map (\<lambda>(site, slot). le_bytes 8 site @ le_bytes 8 slot) visible))))"

definition follows_len :: "lens_graph \<Rightarrow> nat" where
  "follows_len g = length (follows g)"

definition content_len :: "lens_graph \<Rightarrow> nat" where
  "content_len g = length (content g)"


section \<open>Reachability\<close>

definition edge_in :: "((nat \<times> nat) \<times> lww_entry) list \<Rightarrow> nat \<Rightarrow> nat \<Rightarrow> bool" where
  "edge_in es a b \<longleftrightarrow> (\<exists>e. ((a, b), e) \<in> set es \<and> lww_present e)"

lemma edge_in_simps [simp]:
  "\<not> edge_in [] a b"
  "edge_in (((f, t), e) # es) a b \<longleftrightarrow> (f = a \<and> t = b \<and> lww_present e) \<or> edge_in es a b"
  by (auto simp: edge_in_def)

lemma bfs_edges_out: "set (fst (bfs_edges es site out q)) = set out \<union> {b. edge_in es site b}"
  by (induction es site out q rule: bfs_edges.induct) auto

lemma bfs_edges_queue:
  "set (snd (bfs_edges es site out q)) = set q \<union> ({b. edge_in es site b} - set out)"
proof (induction es site out q rule: bfs_edges.induct)
  case (2 "from" to edge es site out q)
  then show ?case
    by (cases "from = site \<and> lww_present edge \<and> to \<notin> set out") auto
qed simp

lemma bfs_edges_sorted: "sorted_wrt (<) out \<Longrightarrow> sorted_wrt (<) (fst (bfs_edges es site out q))"
  by (induction es site out q rule: bfs_edges.induct) auto

lemma reachable_loop_sorted: "sorted_wrt (<) out \<Longrightarrow> sorted_wrt (<) (reachable_loop es out q)"
proof (induction es out q rule: reachable_loop.induct)
  case (2 es out site q)
  then show ?case using bfs_edges_sorted [of out es site q] by (auto split: prod.splits)
qed simp

lemma reachable_loop_spec:
  assumes "\<And>a b. a \<in> set out \<Longrightarrow> a \<notin> set q \<Longrightarrow> edge_in es a b \<Longrightarrow> b \<in> set out"
    and "set q \<subseteq> set out"
  shows "set out \<subseteq> set (reachable_loop es out q)
    \<and> (\<forall>a b. a \<in> set (reachable_loop es out q) \<longrightarrow> edge_in es a b \<longrightarrow> b \<in> set (reachable_loop es out q))
    \<and> (\<forall>s \<in> set (reachable_loop es out q). \<exists>a \<in> set out. (edge_in es)\<^sup>*\<^sup>* a s)"
  using assms
proof (induction es out q rule: reachable_loop.induct)
  case (1 es out)
  then show ?case by auto
next
  case (2 es out site q)
  obtain out' q' where b: "bfs_edges es site out q = (out', q')" by fastforce
  have spec: "set out' = set out \<union> {b. edge_in es site b}"
    "set q' = set q \<union> ({b. edge_in es site b} - set out)"
    using bfs_edges_out [of es site out q] bfs_edges_queue [of es site out q] by (simp_all add: b)
  have site: "site \<in> set out" using 2(3) by simp
  have 3: "c \<in> set out'" if "a \<in> set out'" "a \<notin> set q'" "edge_in es a c" for a c
    using that 2(2) [of a c] by (cases "a = site") (auto simp: spec)
  have 4: "set q' \<subseteq> set out'" using 2(3) by (auto simp: spec)
  have IH: "set out' \<subseteq> set (reachable_loop es out' q')
    \<and> (\<forall>a b. a \<in> set (reachable_loop es out' q') \<longrightarrow> edge_in es a b \<longrightarrow> b \<in> set (reachable_loop es out' q'))
    \<and> (\<forall>s \<in> set (reachable_loop es out' q'). \<exists>a \<in> set out'. (edge_in es)\<^sup>*\<^sup>* a s)"
    by (rule 2(1) [OF b [symmetric] _ 4]) (rule 3; assumption)
  have "\<exists>a \<in> set out. (edge_in es)\<^sup>*\<^sup>* a s" if s: "s \<in> set (reachable_loop es out' q')" for s
  proof -
    obtain a where a: "a \<in> set out'" "(edge_in es)\<^sup>*\<^sup>* a s" using IH s by auto
    show ?thesis
    proof (cases "a \<in> set out")
      case False
      then have "edge_in es site a" using a(1) by (simp add: spec)
      with a(2) site show ?thesis by (meson converse_rtranclp_into_rtranclp)
    qed (use a in blast)
  qed
  with IH b show ?case by (auto simp: spec)
qed

text \<open>The follow relation of a graph: edges whose latest write enabled them.\<close>

definition follow_edge :: "lens_graph \<Rightarrow> nat \<Rightarrow> nat \<Rightarrow> bool" where
  "follow_edge g a b \<longleftrightarrow> (\<exists>e. om_get (follows g) (a, b) = Some e \<and> lww_present e)"

definition graph_inv :: "lens_graph \<Rightarrow> bool" where
  "graph_inv g \<longleftrightarrow> om_inv (follows g) \<and> om_inv (content g)"

lemma follow_edge_in: "graph_inv g \<Longrightarrow> edge_in (follows g) = follow_edge g"
  by (auto simp: fun_eq_iff edge_in_def follow_edge_def graph_inv_def om_get_in_set)

lemma reachable_sites_spec:
  assumes "graph_inv g"
  shows "set (reachable_sites g r) = {s. (follow_edge g)\<^sup>*\<^sup>* r s}" and "sorted_wrt (<) (reachable_sites g r)"
proof -
  let ?R = "set (reachable_sites g r)"
  have spec: "r \<in> ?R" "\<And>a b. a \<in> ?R \<Longrightarrow> follow_edge g a b \<Longrightarrow> b \<in> ?R"
    "\<And>s. s \<in> ?R \<Longrightarrow> (follow_edge g)\<^sup>*\<^sup>* r s"
    using reachable_loop_spec [of "[r]" "[r]" "follows g"]
    by (auto simp: reachable_sites_def follow_edge_in [OF assms])
  have "s \<in> ?R" if "(follow_edge g)\<^sup>*\<^sup>* r s" for s
    using that by (induction rule: rtranclp_induct) (auto intro: spec)
  with spec(3) show "?R = {s. (follow_edge g)\<^sup>*\<^sup>* r s}" by blast
  show "sorted_wrt (<) (reachable_sites g r)" unfolding reachable_sites_def by (rule reachable_loop_sorted) simp
qed

text \<open>
  The breadth-first search of \<open>reachable_sites\<close> terminates and returns, in increasing
  order and without duplicates, exactly the sites that enabled follow edges connect to the
  root; \<open>visible_content\<close> is exactly the present content of those sites.
\<close>

lemma lens_view_correct:
  assumes "graph_inv g"
  shows "set (reachable_sites g r) = {s. (follow_edge g)\<^sup>*\<^sup>* r s}
    \<and> sorted_wrt (<) (reachable_sites g r)
    \<and> set (visible_content g r) =
        {(site, slot). (follow_edge g)\<^sup>*\<^sup>* r site \<and>
           (\<exists>e. om_get (content g) (site, slot) = Some e \<and> lww_present e)}"
proof -
  have "set (visible_content g r) =
        {(site, slot). (follow_edge g)\<^sup>*\<^sup>* r site \<and>
           (\<exists>e. om_get (content g) (site, slot) = Some e \<and> lww_present e)}"
    using assms by (force simp: visible_content_def Let_def graph_inv_def om_get_in_set
        reachable_sites_spec(1) [OF assms])
  with reachable_sites_spec [OF assms] show ?thesis by blast
qed

definition demo_graph :: lens_graph where
  "demo_graph = update_content 2 7 (Lamport 2 1) True (update_follow 1 2 (Lamport 1 1) True empty_graph)"

lemma demo_graph_inv: "graph_inv demo_graph"
  by (simp add: demo_graph_def graph_inv_def update_content_def update_follow_def lww_update_def empty_graph_def
      om_inv_def)

lemma demo_graph_eval:
  "reachable_sites demo_graph 1 = [1, 2]" "visible_content demo_graph 1 = [(2, 7)]"
  by (simp_all add: demo_graph_def update_content_def update_follow_def lww_update_def empty_graph_def
      reachable_sites_def visible_content_def)

section \<open>Last writer wins\<close>

text \<open>
  One register. \<open>pick\<close> is what an update leaves in the cell of its key: the old entry unless
  the new one has a strictly later timestamp. The lemmas of the locale hold for any such
  register; they are used for the follow edges and for the content entries.
\<close>

locale lww_register =
  fixes ts :: "'e \<Rightarrow> 't::linorder"
    and pick :: "'e option \<Rightarrow> 'e \<Rightarrow> 'e"
  assumes pick_None: "pick None b = b"
    and pick_Some: "pick (Some a) b = (if ts b \<le> ts a then a else b)"
begin

text \<open>The entry a sequence of writes leaves is one of them, and none is later.\<close>

lemma fold_pick:
  assumes "xs \<noteq> []"
  shows "\<exists>r. fold (\<lambda>x c. Some (pick c x)) xs None = Some r \<and> r \<in> set xs \<and> (\<forall>x \<in> set xs. ts x \<le> ts r)"
  using assms
proof (induction xs rule: rev_induct)
  case (snoc x xs)
  show ?case
  proof (cases "xs = []")
    case False
    with snoc obtain r where "fold (\<lambda>x c. Some (pick c x)) xs None = Some r" "r \<in> set xs"
      "\<forall>x \<in> set xs. ts x \<le> ts r" by blast
    then show ?thesis by (fastforce simp: pick_Some)
  qed (simp add: pick_None)
qed simp

lemma fold_pick_unique:
  assumes "set xs = set ys" "\<And>x y. x \<in> set xs \<Longrightarrow> y \<in> set xs \<Longrightarrow> ts x = ts y \<Longrightarrow> x = y"
  shows "fold (\<lambda>x c. Some (pick c x)) xs None = fold (\<lambda>x c. Some (pick c x)) ys None"
proof (cases "xs = []")
  case False
  then have "ys \<noteq> []" using assms(1) by auto
  then show ?thesis
    using fold_pick [OF False] fold_pick [of ys] assms by (metis order_antisym)
qed (use assms in simp)

end

definition lww_choose :: "lww_entry option \<Rightarrow> lww_entry \<Rightarrow> lww_entry" where
  "lww_choose c nxt = (case c of Some prev \<Rightarrow> if lww_ts prev \<ge> lww_ts nxt then prev else nxt | None \<Rightarrow> nxt)"

interpretation lww: lww_register lww_ts lww_choose
  by unfold_locales (auto simp: lww_choose_def)

lemma om_get_lww_update:
  "om_get (lww_update m k e) k' = (if k' = k then Some (lww_choose (om_get m k) e) else om_get m k')"
  by (auto simp: lww_update_def lww_choose_def split: option.splits)

lemma om_inv_lww_update [simp]: "om_inv m \<Longrightarrow> om_inv (lww_update m k e)"
  by (auto simp: lww_update_def split: option.splits)

text \<open>A list of writes to one map: each key ends with the choice among its own writes.\<close>

definition lww_writes :: "('k::linorder \<times> lww_entry) list \<Rightarrow> ('k, lww_entry) omap \<Rightarrow> ('k, lww_entry) omap" where
  "lww_writes ws m = fold (\<lambda>(k, e) acc. lww_update acc k e) ws m"

lemma om_get_lww_writes:
  "om_get (lww_writes ws m) k =
     fold (\<lambda>x c. Some (lww_choose c x)) (map snd (filter (\<lambda>(k', _). k' = k) ws)) (om_get m k)"
  unfolding lww_writes_def
proof (induction ws arbitrary: m)
  case (Cons w ws)
  obtain k' e where "w = (k', e)" by (cases w)
  with Cons show ?case by (simp add: om_get_lww_update)
qed simp

lemma om_inv_lww_writes [simp]: "om_inv m \<Longrightarrow> om_inv (lww_writes ws m)"
  unfolding lww_writes_def by (induction ws arbitrary: m) auto

text \<open>Writes are consistent when two writes to one key with one timestamp are the same write.\<close>

definition consistent_writes :: "('k \<times> lww_entry) set \<Rightarrow> bool" where
  "consistent_writes W \<longleftrightarrow> (\<forall>k e e'. (k, e) \<in> W \<longrightarrow> (k, e') \<in> W \<longrightarrow> lww_ts e = lww_ts e' \<longrightarrow> e = e')"

lemma lww_writes_order_irrelevant:
  fixes ws ws' :: "('k::linorder \<times> lww_entry) list"
  assumes "set ws = set ws'" "consistent_writes (set ws)"
  shows "lww_writes ws [] = lww_writes ws' []"
proof (rule om_ext)
  fix k :: 'k
  let ?f = "\<lambda>ws :: ('k \<times> lww_entry) list. map snd (filter (\<lambda>(k', _). k' = k) ws)"
  have "set (?f ws) = set (?f ws')" using assms(1) by auto
  moreover have "\<And>x y. x \<in> set (?f ws) \<Longrightarrow> y \<in> set (?f ws) \<Longrightarrow> lww_ts x = lww_ts y \<Longrightarrow> x = y"
    using assms(2) by (force simp: consistent_writes_def)
  ultimately show "om_get (lww_writes ws []) k = om_get (lww_writes ws' []) k"
    using lww.fold_pick_unique [of "?f ws" "?f ws'"] by (simp add: om_get_lww_writes)
qed simp_all

end
