(* ===== verification/Citadel_Node.thy ===== *)
theory Citadel_Node
  imports Citadel_Lens
begin

text \<open>
  The defederation node of \<open>citadel.rs\<close> (lines 151 to 662): operations with proof of work,
  the admission guard, ordered application with a reorder buffer per origin, the operation
  log and the anti-entropy queries. A node is a record passed through its operations. Mining
  and the loops of the anti-entropy queries are \<open>partial_function\<close>s: \<open>None\<close> is a loop that does
  not end. Hash maps and hash sets are ordered lists (\<open>Ord_Map\<close>); the code reads them by key or
  sorts the keys first.
\<close>

section \<open>Operations\<close>

datatype lens_op_kind =
    FollowOp (fo_site_id: nat) (fo_target_site_id: nat) (fo_enabled: bool)
  | ContentOp (co_site_id: nat) (co_content_slot: nat) (co_present: bool)
  | TrustOrigin (to_origin: nat) (to_trusted: bool)

record lens_op =
  op_origin :: nat
  op_counter :: nat
  op_host_id :: u8
  op_kind :: lens_op_kind
  op_pow_nonce :: nat

definition bool_byte :: "bool \<Rightarrow> u8" where
  "bool_byte b = (if b then 1 else 0)"

fun kind_bytes :: "lens_op_kind \<Rightarrow> bytes" where
  "kind_bytes (FollowOp site_id target_site_id enabled) =
     [0] @ le_bytes 8 site_id @ le_bytes 8 target_site_id @ [bool_byte enabled]"
| "kind_bytes (ContentOp site_id content_slot present) =
     [1] @ le_bytes 8 site_id @ le_bytes 8 content_slot @ [bool_byte present]"
| "kind_bytes (TrustOrigin origin trusted) = [2] @ le_bytes 4 origin @ [bool_byte trusted]"

definition hash_without_nonce :: "('c, 'm) crates \<Rightarrow> lens_op \<Rightarrow> nat \<Rightarrow> bytes" where
  "hash_without_nonce X op nonce =
     blake3 X (le_bytes 4 (op_origin op) @ le_bytes 8 (op_counter op) @ [op_host_id op]
       @ kind_bytes (op_kind op) @ le_bytes 8 nonce)"

text \<open>\<open>u8::leading_zeros\<close>.\<close>

definition leading_zeros8 :: "u8 \<Rightarrow> nat" where
  "leading_zeros8 b = length (takeWhile (\<lambda>i. unat b < 2 ^ i) (rev [0..<8]))"

fun leading_zero_bits :: "bytes \<Rightarrow> nat" where
  "leading_zero_bits [] = 0"
| "leading_zero_bits (b # bs) = (if b = 0 then 8 + leading_zero_bits bs else leading_zeros8 b)"

definition valid_pow :: "('c, 'm) crates \<Rightarrow> lens_op \<Rightarrow> nat \<Rightarrow> bool" where
  "valid_pow X op required_bits \<longleftrightarrow>
     required_bits = 0 \<or> required_bits \<le> leading_zero_bits (hash_without_nonce X op (op_pow_nonce op))"

partial_function (option) mine_loop ::
  "('c, 'm) crates \<Rightarrow> lens_op \<Rightarrow> nat \<Rightarrow> nat \<Rightarrow> lens_op option" where
  "mine_loop X op required_bits nonce =
     (if required_bits \<le> leading_zero_bits (hash_without_nonce X op nonce)
      then Some (op\<lparr>op_pow_nonce := nonce\<rparr>)
      else mine_loop X op required_bits ((nonce + 1) mod 2 ^ 64))"

declare mine_loop.simps [code]

definition mine_nonce :: "('c, 'm) crates \<Rightarrow> lens_op \<Rightarrow> nat \<Rightarrow> lens_op option" where
  "mine_nonce X op required_bits =
     (if required_bits = 0 then Some (op\<lparr>op_pow_nonce := 0\<rparr>) else mine_loop X op required_bits 0)"

section \<open>The node\<close>

record guard_config =
  base_pow_bits :: nat
  trusted_pow_bits :: nat
  max_ops_per_origin_per_round :: nat
  max_new_origins_per_host_per_round :: nat
  max_pending_per_origin :: nat

definition default_guard_config :: guard_config where
  "default_guard_config =
     \<lparr>base_pow_bits = 8, trusted_pow_bits = 4, max_ops_per_origin_per_round = 96,
      max_new_origins_per_host_per_round = 12, max_pending_per_origin = 512\<rparr>"

record node_stats =
  accepted_ops :: nat
  rejected_old_or_duplicate :: nat
  rejected_pow :: nat
  rejected_rate_limit :: nat
  rejected_sybil :: nat
  queued_reordered :: nat

definition default_stats :: node_stats where
  "default_stats = \<lparr>accepted_ops = 0, rejected_old_or_duplicate = 0, rejected_pow = 0,
     rejected_rate_limit = 0, rejected_sybil = 0, queued_reordered = 0\<rparr>"

record guard_state =
  gs_round :: nat
  per_origin_counts :: "(nat, nat) omap"
  per_host_new_origins :: "(u8, nat) omap"

definition default_guard_state :: guard_state where
  "default_guard_state = \<lparr>gs_round = 0, per_origin_counts = [], per_host_new_origins = []\<rparr>"

definition roll_to :: "nat \<Rightarrow> guard_state \<Rightarrow> guard_state" where
  "roll_to round s =
     (if gs_round s = round then s
      else s\<lparr>gs_round := round, per_origin_counts := [], per_host_new_origins := []\<rparr>)"

record node =
  node_id :: nat
  host_id :: u8
  local_site_id :: nat
  local_counter :: nat
  trusted_origins :: "nat list"
  known_origins :: "nat list"
  frontier :: "(nat, nat) omap"
  pending :: "(nat, (nat, lens_op) omap) omap"
  graph :: lens_graph
  guard_cfg :: guard_config
  idle_bandwidth_bytes_per_sec :: nat
  op_log :: "(nat, lens_op list) omap"
  guard_st :: guard_state
  stats :: node_stats

definition node_new :: "nat \<Rightarrow> u8 \<Rightarrow> nat \<Rightarrow> nat list \<Rightarrow> guard_config \<Rightarrow> node" where
  "node_new nid host site trusted cfg =
     \<lparr>node_id = nid, host_id = host, local_site_id = site, local_counter = 0,
      trusted_origins = os_insert nid trusted, known_origins = os_insert nid [],
      frontier = [], pending = [], graph = empty_graph, guard_cfg = cfg,
      idle_bandwidth_bytes_per_sec = 100 * 1024, op_log = [], guard_st = default_guard_state,
      stats = default_stats\<rparr>"

definition set_idle_bandwidth :: "nat \<Rightarrow> node \<Rightarrow> node" where
  "set_idle_bandwidth bytes_per_sec n = n\<lparr>idle_bandwidth_bytes_per_sec := max bytes_per_sec 1\<rparr>"

record node_status =
  st_node_id :: nat
  st_host_id :: u8
  st_local_site_id :: nat
  st_trusted_origins :: nat
  st_known_origins :: nat
  st_follows :: nat
  st_content_entries :: nat
  st_frontier_origins :: nat
  st_idle_bandwidth :: nat
  st_stats :: node_stats

definition status :: "node \<Rightarrow> node_status" where
  "status n =
     \<lparr>st_node_id = node_id n, st_host_id = host_id n, st_local_site_id = local_site_id n,
      st_trusted_origins = length (trusted_origins n), st_known_origins = length (known_origins n),
      st_follows = follows_len (graph n), st_content_entries = content_len (graph n),
      st_frontier_origins = length (frontier n),
      st_idle_bandwidth = idle_bandwidth_bytes_per_sec n, st_stats = stats n\<rparr>"

definition required_pow_bits_for :: "node \<Rightarrow> nat \<Rightarrow> nat" where
  "required_pow_bits_for n origin =
     (if origin \<in> set (trusted_origins n) then trusted_pow_bits (guard_cfg n) else base_pow_bits (guard_cfg n))"

definition trust_origin :: "nat \<Rightarrow> bool \<Rightarrow> node \<Rightarrow> node" where
  "trust_origin origin trusted n =
     (if trusted then n\<lparr>trusted_origins := os_insert origin (trusted_origins n)\<rparr>
      else n\<lparr>trusted_origins := filter (\<lambda>x. x \<noteq> origin) (trusted_origins n)\<rparr>)"

definition frontier_for :: "node \<Rightarrow> nat \<Rightarrow> nat" where
  "frontier_for n origin = om_get_or 0 (frontier n) origin"

definition apply_kind :: "lens_op \<Rightarrow> node \<Rightarrow> node" where
  "apply_kind op n =
     (let ts = Lamport (op_counter op) (op_origin op) in
      case op_kind op of
        FollowOp site target enabled \<Rightarrow> n\<lparr>graph := update_follow site target ts enabled (graph n)\<rparr>
      | ContentOp site slot present \<Rightarrow> n\<lparr>graph := update_content site slot ts present (graph n)\<rparr>
      | TrustOrigin origin trusted \<Rightarrow> trust_origin origin trusted n)"

definition apply_ordered_op :: "lens_op \<Rightarrow> node \<Rightarrow> node" where
  "apply_ordered_op op n0 =
     (let n = apply_kind op n0;
          log = om_get_or [] (op_log n) (op_origin op)
      in n\<lparr>frontier := om_insert (op_origin op) (op_counter op) (frontier n),
           op_log := om_insert (op_origin op)
             (if length log = op_counter op - 1 then log @ [op] else log) (op_log n)\<rparr>)"

definition next_local_op :: "('c, 'm) crates \<Rightarrow> lens_op_kind \<Rightarrow> node \<Rightarrow> (lens_op \<times> node) option" where
  "next_local_op X kind n =
     (let c = sat_add 64 (local_counter n) 1;
          op = \<lparr>op_origin = node_id n, op_counter = c, op_host_id = host_id n, op_kind = kind,
                op_pow_nonce = 0\<rparr>
      in Option.bind (mine_nonce X op (base_pow_bits (guard_cfg n)))
           (\<lambda>op'. Some (op', n\<lparr>local_counter := c\<rparr>)))"

definition emit_local :: "('c, 'm) crates \<Rightarrow> lens_op_kind \<Rightarrow> node \<Rightarrow> (lens_op \<times> node) option" where
  "emit_local X kind n =
     Option.bind (next_local_op X kind n) (\<lambda>(op, n'). Some (op, apply_ordered_op op n'))"

definition emit_local_follow :: "('c, 'm) crates \<Rightarrow> nat \<Rightarrow> bool \<Rightarrow> node \<Rightarrow> (lens_op \<times> node) option" where
  "emit_local_follow X target_site_id enabled n =
     emit_local X (FollowOp (local_site_id n) target_site_id enabled) n"

definition emit_local_content :: "('c, 'm) crates \<Rightarrow> nat \<Rightarrow> bool \<Rightarrow> node \<Rightarrow> (lens_op \<times> node) option" where
  "emit_local_content X content_slot present n =
     emit_local X (ContentOp (local_site_id n) content_slot present) n"

definition emit_local_trust :: "('c, 'm) crates \<Rightarrow> nat \<Rightarrow> bool \<Rightarrow> node \<Rightarrow> (lens_op \<times> node) option" where
  "emit_local_trust X origin trusted n = emit_local X (TrustOrigin origin trusted) n"

section \<open>Ordered application\<close>

definition bump_accepted :: "node \<Rightarrow> node" where
  "bump_accepted n = n\<lparr>stats := (stats n)\<lparr>accepted_ops := sat_add 64 (accepted_ops (stats n)) 1\<rparr>\<rparr>"

definition bump_old :: "node \<Rightarrow> node" where
  "bump_old n = n\<lparr>stats := (stats n)\<lparr>rejected_old_or_duplicate := sat_add 64 (rejected_old_or_duplicate (stats n)) 1\<rparr>\<rparr>"

definition bump_pow :: "node \<Rightarrow> node" where
  "bump_pow n = n\<lparr>stats := (stats n)\<lparr>rejected_pow := sat_add 64 (rejected_pow (stats n)) 1\<rparr>\<rparr>"

definition bump_rate :: "node \<Rightarrow> node" where
  "bump_rate n = n\<lparr>stats := (stats n)\<lparr>rejected_rate_limit := sat_add 64 (rejected_rate_limit (stats n)) 1\<rparr>\<rparr>"

definition bump_sybil :: "node \<Rightarrow> node" where
  "bump_sybil n = n\<lparr>stats := (stats n)\<lparr>rejected_sybil := sat_add 64 (rejected_sybil (stats n)) 1\<rparr>\<rparr>"

definition bump_queued :: "node \<Rightarrow> node" where
  "bump_queued n = n\<lparr>stats := (stats n)\<lparr>queued_reordered := sat_add 64 (queued_reordered (stats n)) 1\<rparr>\<rparr>"

text \<open>\<open>pending.get_mut(origin).and_then(|p| p.remove(next))\<close>.\<close>

definition take_pending :: "nat \<Rightarrow> nat \<Rightarrow> node \<Rightarrow> (lens_op \<times> node) option" where
  "take_pending origin next_counter n =
     (case om_get (pending n) origin of
        None \<Rightarrow> None
      | Some p \<Rightarrow> (case om_get p next_counter of
          None \<Rightarrow> None
        | Some op \<Rightarrow> Some (op, n\<lparr>pending := om_insert origin (om_remove next_counter p) (pending n)\<rparr>)))"

lemma pending_apply_ordered_op [simp]: "pending (apply_ordered_op op n) = pending n"
  by (simp add: apply_ordered_op_def apply_kind_def trust_origin_def Let_def split: lens_op_kind.splits)

lemma length_om_remove_less: "om_get p k = Some v \<Longrightarrow> length (om_remove k p) < length p"
  by (auto simp: om_remove_def om_get_def dest!: map_of_SomeD intro!: length_filter_less)

lemma take_pending_less:
  "take_pending origin c n = Some (op, n') \<Longrightarrow>
     length (om_get_or [] (pending n') origin) < length (om_get_or [] (pending n) origin)"
  by (auto simp: take_pending_def om_get_or_def length_om_remove_less split: option.splits)

function drain_pending :: "nat \<Rightarrow> node \<Rightarrow> node" where
  "drain_pending origin n =
     (case take_pending origin (sat_add 64 (frontier_for n origin) 1) n of
        None \<Rightarrow> n
      | Some (op, n') \<Rightarrow> drain_pending origin (bump_accepted (apply_ordered_op op n')))"
  by pat_completeness auto
termination
  by (relation "measure (\<lambda>(origin, n). length (om_get_or [] (pending n) origin))")
    (auto simp: bump_accepted_def dest: take_pending_less)

declare drain_pending.simps [simp del]

definition try_apply_with_reordering :: "lens_op \<Rightarrow> node \<Rightarrow> node" where
  "try_apply_with_reordering op n =
     (let origin = op_origin op;
          current = frontier_for n origin;
          expected = sat_add 64 current 1
      in if op_counter op \<le> current then bump_old n
         else if op_counter op \<noteq> expected then
           (let p = om_get_or [] (pending n) origin;
                n1 = n\<lparr>pending := om_insert origin p (pending n)\<rparr>
            in if max_pending_per_origin (guard_cfg n) \<le> length p then bump_rate n1
               else bump_queued (n1\<lparr>pending := om_insert origin
                 (case om_get p (op_counter op) of Some _ \<Rightarrow> p | None \<Rightarrow> om_insert (op_counter op) op p)
                 (pending n1)\<rparr>))
         else drain_pending origin (bump_accepted (apply_ordered_op op n)))"

section \<open>Admission\<close>

text \<open>One turn of the loop of \<open>ingest_batch\<close>.\<close>

definition ingest_one :: "('c, 'm) crates \<Rightarrow> lens_op \<Rightarrow> node \<times> nat \<Rightarrow> node \<times> nat" where
  "ingest_one X op s =
     (let (n, accepted) = s;
          origin = op_origin op;
          is_known = origin \<in> set (known_origins n);
          is_trusted = origin \<in> set (trusted_origins n);
          g = guard_st n;
          seen_for_host = om_get_or 0 (per_host_new_origins g) (op_host_id op);
          n1 = (if \<not> is_known \<and> \<not> is_trusted
                then n\<lparr>guard_st := g\<lparr>per_host_new_origins :=
                  om_insert (op_host_id op) seen_for_host (per_host_new_origins g)\<rparr>\<rparr>
                else n)
      in if \<not> is_known \<and> \<not> is_trusted \<and> max_new_origins_per_host_per_round (guard_cfg n) \<le> seen_for_host
         then (bump_sybil n1, accepted)
         else if max_ops_per_origin_per_round (guard_cfg n) \<le> om_get_or 0 (per_origin_counts (guard_st n1)) origin
         then (bump_rate n1, accepted)
         else if \<not> valid_pow X op (required_pow_bits_for n1 origin) then (bump_pow n1, accepted)
         else
           (let n2 = (if is_known then n1 else n1\<lparr>known_origins := os_insert origin (known_origins n1)\<rparr>);
                n3 = (if \<not> is_known \<and> \<not> is_trusted
                      then n2\<lparr>guard_st := (guard_st n2)\<lparr>per_host_new_origins :=
                        om_insert (op_host_id op) (om_get_or 0 (per_host_new_origins (guard_st n2)) (op_host_id op) + 1)
                          (per_host_new_origins (guard_st n2))\<rparr>\<rparr>
                      else n2);
                n4 = n3\<lparr>guard_st := (guard_st n3)\<lparr>per_origin_counts :=
                  om_insert origin (om_get_or 0 (per_origin_counts (guard_st n3)) origin + 1)
                    (per_origin_counts (guard_st n3))\<rparr>\<rparr>;
                before = accepted_ops (stats n4);
                n5 = try_apply_with_reordering op n4
            in (n5, if before < accepted_ops (stats n5) then accepted + 1 else accepted)))"

definition ingest_batch :: "('c, 'm) crates \<Rightarrow> nat \<Rightarrow> lens_op list \<Rightarrow> node \<Rightarrow> node \<times> nat" where
  "ingest_batch X round ops n =
     fold (ingest_one X) ops (n\<lparr>guard_st := roll_to round (guard_st n)\<rparr>, 0)"

section \<open>Anti-entropy\<close>

definition node_view_digest_hex :: "('c, 'm) crates \<Rightarrow> node \<Rightarrow> nat \<Rightarrow> string" where
  "node_view_digest_hex X n root_site_id = view_digest_hex X (graph n) root_site_id"

definition frontier_snapshot :: "node \<Rightarrow> (nat, nat) omap" where
  "frontier_snapshot n = frontier n"

text \<open>The inner loop, from counter \<open>c\<close> up to \<open>src\<close>.\<close>

partial_function (option) missing_loop ::
  "lens_op list \<Rightarrow> nat \<Rightarrow> nat \<Rightarrow> nat \<Rightarrow> lens_op list \<Rightarrow> lens_op list option" where
  "missing_loop log src max_ops c out =
     (if c \<le> src \<and> length out < max_ops
      then missing_loop log src max_ops (sat_add 64 c 1)
        (case get_opt log (c - 1) of Some op \<Rightarrow> out @ [op] | None \<Rightarrow> out)
      else Some out)"

declare missing_loop.simps [code]

fun missing_origins ::
  "node \<Rightarrow> (nat, nat) omap \<Rightarrow> (nat, lens_op list) omap \<Rightarrow> nat \<Rightarrow> nat list \<Rightarrow> lens_op list \<Rightarrow> lens_op list option" where
  "missing_origins n peer_frontier op_store max_ops [] out = Some out"
| "missing_origins n peer_frontier op_store max_ops (origin # origins) out =
     (if max_ops \<le> length out then Some out
      else
        (let src = frontier_for n origin;
             dst = om_get_or 0 peer_frontier origin
         in if src \<le> dst then missing_origins n peer_frontier op_store max_ops origins out
            else case om_get op_store origin of
                None \<Rightarrow> missing_origins n peer_frontier op_store max_ops origins out
              | Some log \<Rightarrow> Option.bind (missing_loop log src max_ops (sat_add 64 dst 1) out)
                  (missing_origins n peer_frontier op_store max_ops origins)))"

definition missing_ops_for_frontier :: "(nat, nat) omap \<Rightarrow> nat \<Rightarrow> node \<Rightarrow> lens_op list option" where
  "missing_ops_for_frontier peer_frontier max_ops n =
     (if max_ops = 0 then Some []
      else missing_origins n peer_frontier (op_log n) max_ops (sort (om_keys (op_log n))) [])"

definition missing_ops_for_peer ::
  "(nat, nat) omap \<Rightarrow> (nat, lens_op list) omap \<Rightarrow> nat list \<Rightarrow> nat \<Rightarrow> node \<Rightarrow> lens_op list option" where
  "missing_ops_for_peer peer_frontier op_store writer_origins max_ops n =
     missing_origins n peer_frontier op_store max_ops writer_origins []"

end
