(* ===== verification/Citadel_Invariant.thy ===== *)
theory Citadel_Invariant
  imports Citadel_Node
begin

text \<open>
  The invariant of the defederation node and its preservation by every operation. The log of
  an origin holds exactly the operations with counters \<open>1\<close> to the frontier, in order; the
  reorder buffer holds only later operations, is bounded, and never holds the one that would be
  applied next; the lens graph is what the logged operations write. The invariant is proved for
  every node reachable from a new one by local emissions, ingested batches and trust changes.
\<close>

section \<open>What each operation changes\<close>

definition log_for :: "node \<Rightarrow> nat \<Rightarrow> lens_op list" where
  "log_for n origin = om_get_or [] (op_log n) origin"

definition pending_for :: "node \<Rightarrow> nat \<Rightarrow> (nat, lens_op) omap" where
  "pending_for n origin = om_get_or [] (pending n) origin"

fun op_graph :: "lens_op_kind \<Rightarrow> lamport \<Rightarrow> lens_graph \<Rightarrow> lens_graph" where
  "op_graph (FollowOp site target enabled) ts g = update_follow site target ts enabled g"
| "op_graph (ContentOp site slot present) ts g = update_content site slot ts present g"
| "op_graph (TrustOrigin origin trusted) ts g = g"

definition apply_graph :: "lens_op \<Rightarrow> lens_graph \<Rightarrow> lens_graph" where
  "apply_graph op = op_graph (op_kind op) (Lamport (op_counter op) (op_origin op))"

lemma om_get_or_insert [simp]: "om_get_or d (om_insert k v m) k' = (if k' = k then v else om_get_or d m k')"
  by (simp add: om_get_or_def)

lemma om_get_or_Nil [simp]: "om_get_or d [] k = d"
  by (simp add: om_get_or_def)

named_theorems node_simps

lemma apply_ordered_op_simps [node_simps]:
  "graph (apply_ordered_op op n) = apply_graph op (graph n)"
  "frontier_for (apply_ordered_op op n) o' = (if o' = op_origin op then op_counter op else frontier_for n o')"
  "log_for (apply_ordered_op op n) o' =
     (if o' = op_origin op \<and> length (log_for n o') = op_counter op - 1 then log_for n o' @ [op] else log_for n o')"
  "node_id (apply_ordered_op op n) = node_id n"
  "local_counter (apply_ordered_op op n) = local_counter n"
  "known_origins (apply_ordered_op op n) = known_origins n"
  "guard_cfg (apply_ordered_op op n) = guard_cfg n"
  "guard_st (apply_ordered_op op n) = guard_st n"
  "stats (apply_ordered_op op n) = stats n"
  "pending_for (apply_ordered_op op n) o' = pending_for n o'"
  "om_inv (op_log n) \<Longrightarrow> om_inv (op_log (apply_ordered_op op n))"
  "om_inv (frontier n) \<Longrightarrow> om_inv (frontier (apply_ordered_op op n))"
  by (simp_all add: apply_ordered_op_def apply_kind_def apply_graph_def trust_origin_def Let_def
      frontier_for_def log_for_def pending_for_def split: lens_op_kind.splits)

lemmas bump_defs = bump_accepted_def bump_old_def bump_pow_def bump_rate_def bump_sybil_def bump_queued_def

lemma frontier_for_cong: "frontier n = frontier n' \<Longrightarrow> frontier_for n o' = frontier_for n' o'"
  by (simp add: frontier_for_def)

lemma view_simps [node_simps]:
  "frontier_for (n\<lparr>stats := s\<rparr>) = frontier_for n" "frontier_for (n\<lparr>pending := p\<rparr>) = frontier_for n"
  "frontier_for (n\<lparr>guard_st := g\<rparr>) = frontier_for n" "frontier_for (n\<lparr>known_origins := k\<rparr>) = frontier_for n"
  "frontier_for (n\<lparr>trusted_origins := k\<rparr>) = frontier_for n" "frontier_for (n\<lparr>local_counter := c\<rparr>) = frontier_for n"
  "frontier_for (n\<lparr>idle_bandwidth_bytes_per_sec := c\<rparr>) = frontier_for n"
  "log_for (n\<lparr>stats := s\<rparr>) = log_for n" "log_for (n\<lparr>pending := p\<rparr>) = log_for n"
  "log_for (n\<lparr>guard_st := g\<rparr>) = log_for n" "log_for (n\<lparr>known_origins := k\<rparr>) = log_for n"
  "log_for (n\<lparr>trusted_origins := k\<rparr>) = log_for n" "log_for (n\<lparr>local_counter := c\<rparr>) = log_for n"
  "log_for (n\<lparr>idle_bandwidth_bytes_per_sec := c\<rparr>) = log_for n"
  "pending_for (n\<lparr>stats := s\<rparr>) = pending_for n" "pending_for (n\<lparr>guard_st := g\<rparr>) = pending_for n"
  "pending_for (n\<lparr>known_origins := k\<rparr>) = pending_for n"
  "pending_for (n\<lparr>trusted_origins := k\<rparr>) = pending_for n"
  "pending_for (n\<lparr>local_counter := c\<rparr>) = pending_for n"
  "pending_for (n\<lparr>idle_bandwidth_bytes_per_sec := c\<rparr>) = pending_for n"
  by (simp_all add: fun_eq_iff frontier_for_def log_for_def pending_for_def)

lemma pending_for_update [node_simps]:
  "pending_for (n\<lparr>pending := om_insert origin p (pending n)\<rparr>) o' = (if o' = origin then p else pending_for n o')"
  by (simp add: pending_for_def)

section \<open>The invariant\<close>

text \<open>\<open>log_ops\<close>: every operation in the log of a node.\<close>

definition log_ops :: "node \<Rightarrow> lens_op set" where
  "log_ops n = (\<Union>origin. set (log_for n origin))"

definition log_ok :: "node \<Rightarrow> bool" where
  "log_ok n \<longleftrightarrow> (\<forall>o'. length (log_for n o') = frontier_for n o' \<and> frontier_for n o' < 2 ^ 64 \<and>
     (\<forall>i < length (log_for n o'). op_counter (log_for n o' ! i) = i + 1 \<and> op_origin (log_for n o' ! i) = o'))"

definition pending_ok :: "node \<Rightarrow> bool" where
  "pending_ok n \<longleftrightarrow> (\<forall>o'. om_inv (pending_for n o') \<and>
     (\<forall>k op. om_get (pending_for n o') k = Some op \<longrightarrow>
        op_counter op = k \<and> op_origin op = o' \<and> frontier_for n o' < k \<and> k < 2 ^ 64))"

definition graph_ok :: "node \<Rightarrow> bool" where
  "graph_ok n \<longleftrightarrow> (\<exists>hist. set hist = log_ops n \<and> graph n = fold apply_graph hist empty_graph)"

definition core_inv :: "node \<Rightarrow> bool" where
  "core_inv n \<longleftrightarrow> log_ok n \<and> pending_ok n \<and> graph_ok n \<and> om_inv (op_log n)"

text \<open>Nothing that could be applied at once is left waiting, and the buffers are bounded.\<close>

definition settled :: "node \<Rightarrow> bool" where
  "settled n \<longleftrightarrow> (\<forall>o'. om_get (pending_for n o') (frontier_for n o' + 1) = None)"

definition bounded_pending :: "node \<Rightarrow> bool" where
  "bounded_pending n \<longleftrightarrow> (\<forall>o'. length (pending_for n o') \<le> max_pending_per_origin (guard_cfg n))"

definition node_inv :: "node \<Rightarrow> bool" where
  "node_inv n \<longleftrightarrow> core_inv n \<and> settled n \<and> bounded_pending n"

lemma log_for_apply_next:
  assumes "log_ok n" "op_counter op = frontier_for n (op_origin op) + 1"
  shows "log_for (apply_ordered_op op n) o' = (if o' = op_origin op then log_for n o' @ [op] else log_for n o')"
  using assms by (auto simp: node_simps log_ok_def)

lemma log_ops_apply_next:
  assumes "log_ok n" "op_counter op = frontier_for n (op_origin op) + 1"
  shows "log_ops (apply_ordered_op op n) = insert op (log_ops n)"
  by (auto simp: log_ops_def log_for_apply_next [OF assms] split: if_splits)

lemma core_inv_apply:
  assumes "core_inv n" "op_counter op = frontier_for n (op_origin op) + 1" "op_counter op < 2 ^ 64"
    and "om_get (pending_for n (op_origin op)) (op_counter op) = None"
  shows "core_inv (apply_ordered_op op n)"
proof -
  have log: "log_ok n" using assms(1) by (simp add: core_inv_def)
  have "log_ok (apply_ordered_op op n)"
    unfolding log_ok_def log_for_apply_next [OF log assms(2)]
    using log assms(2,3) by (auto simp: log_ok_def node_simps nth_append less_Suc_eq)
  moreover have "pending_ok (apply_ordered_op op n)"
  proof -
    have "op_counter op < k" if "om_get (pending_for n (op_origin op)) k = Some op'" for k op'
    proof -
      have "frontier_for n (op_origin op) < k" "k \<noteq> op_counter op"
        using assms(1,4) that by (auto simp: core_inv_def pending_ok_def)
      with assms(2) show ?thesis by simp
    qed
    with assms(1) show ?thesis by (auto simp: core_inv_def pending_ok_def node_simps)
  qed
  moreover have "graph_ok (apply_ordered_op op n)"
  proof -
    obtain hist where "set hist = log_ops n" "graph n = fold apply_graph hist empty_graph"
      using assms(1) by (auto simp: core_inv_def graph_ok_def)
    then have "set (hist @ [op]) = log_ops (apply_ordered_op op n)
      \<and> graph (apply_ordered_op op n) = fold apply_graph (hist @ [op]) empty_graph"
      by (simp add: node_simps log_ops_apply_next [OF log assms(2)])
    then show ?thesis unfolding graph_ok_def by blast
  qed
  ultimately show ?thesis using assms(1) by (simp add: core_inv_def node_simps)
qed

text \<open>Changes that keep logs, buffers and graph keep the invariant.\<close>

lemma core_inv_cong:
  assumes "core_inv n" "log_for n' = log_for n" "frontier_for n' = frontier_for n"
    "pending_for n' = pending_for n" "graph n' = graph n" "op_log n' = op_log n"
  shows "core_inv n'"
  using assms by (simp add: core_inv_def log_ok_def pending_ok_def graph_ok_def log_ops_def)

lemma node_inv_cong:
  assumes "node_inv n" "log_for n' = log_for n" "frontier_for n' = frontier_for n"
    "pending_for n' = pending_for n" "graph n' = graph n" "op_log n' = op_log n"
    "guard_cfg n' = guard_cfg n"
  shows "node_inv n'"
  using assms core_inv_cong [of n n'] by (simp add: node_inv_def settled_def bounded_pending_def)

section \<open>Draining the reorder buffer\<close>

lemma take_pending_Some:
  assumes "take_pending origin c n = Some (op, n')"
  shows "om_get (pending_for n origin) c = Some op"
    and "n' = n\<lparr>pending := om_insert origin (om_remove c (pending_for n origin)) (pending n)\<rparr>"
  using assms by (auto simp: take_pending_def pending_for_def om_get_or_def split: option.splits)

lemma take_pending_None: "take_pending origin c n = None \<longleftrightarrow> om_get (pending_for n origin) c = None"
  by (auto simp: take_pending_def pending_for_def om_get_or_def split: option.splits)

text \<open>One turn of the loop, under the invariant: the operation taken is the next of its origin.\<close>

lemma drain_step:
  assumes "core_inv n" "take_pending origin (sat_add 64 (frontier_for n origin) 1) n = Some (op, n')"
  defines "m \<equiv> bump_accepted (apply_ordered_op op n')"
  shows "op_origin op = origin" "op_counter op = frontier_for n origin + 1" "core_inv m"
    "frontier_for m o' = (if o' = origin then frontier_for n origin + 1 else frontier_for n o')"
    "log_for m o' = (if o' = origin then log_for n origin @ [op] else log_for n o')"
    "pending_for m o' = (if o' = origin then om_remove (frontier_for n origin + 1) (pending_for n origin) else pending_for n o')"
    "op_counter op < 2 ^ 64"
proof -
  note tp = take_pending_Some [OF assms(2)]
  have p: "op_counter op = sat_add 64 (frontier_for n origin) 1" "op_origin op = origin"
    "frontier_for n origin < op_counter op" "op_counter op < 2 ^ 64"
    using assms(1) tp(1) by (auto simp: core_inv_def pending_ok_def)
  then show o: "op_origin op = origin" and c: "op_counter op = frontier_for n origin + 1"
    and "op_counter op < 2 ^ 64"
    by (auto simp: sat_add_def)
  have log': "log_for n' = log_for n" and fr': "frontier_for n' = frontier_for n" and gr: "graph n' = graph n"
    and ol: "op_log n' = op_log n" by (simp_all add: tp(2) node_simps)
  have pd': "pending_for n' o' = (if o' = origin then om_remove (op_counter op) (pending_for n origin) else pending_for n o')" for o'
    by (simp add: tp(2) node_simps p)
  have core': "core_inv n'"
    using assms(1) unfolding core_inv_def log_ok_def graph_ok_def log_ops_def pending_ok_def log' fr' gr ol
    by (auto simp: pd' split: if_splits)
  have "core_inv (apply_ordered_op op n')"
    by (rule core_inv_apply [OF core']) (use c o p in \<open>simp_all add: fr' pd'\<close>)
  then show "core_inv m"
    unfolding m_def by (rule core_inv_cong) (simp_all add: bump_accepted_def node_simps)
  have lo: "log_ok n'" using core' by (simp add: core_inv_def)
  show "frontier_for m o' = (if o' = origin then frontier_for n origin + 1 else frontier_for n o')"
    "log_for m o' = (if o' = origin then log_for n origin @ [op] else log_for n o')"
    "pending_for m o' = (if o' = origin then om_remove (frontier_for n origin + 1) (pending_for n origin) else pending_for n o')"
    using c o log_for_apply_next [OF lo, of op o'] by (auto simp: m_def bump_accepted_def node_simps fr' pd' log')
qed

text \<open>
  What the whole loop does. \<open>drained origin n m\<close> relates the states before and after: the
  frontier of the origin grows by what leaves its buffer, other origins and the guard are
  untouched, and every operation of the log or the buffers was there before.
\<close>

definition pending_ops :: "node \<Rightarrow> lens_op set" where
  "pending_ops n = {op. \<exists>o' k. om_get (pending_for n o') k = Some op}"

definition same_frame :: "node \<Rightarrow> node \<Rightarrow> bool" where
  "same_frame n m \<longleftrightarrow> node_id m = node_id n \<and> local_counter m = local_counter n \<and>
     known_origins m = known_origins n \<and> guard_cfg m = guard_cfg n \<and> guard_st m = guard_st n"

definition drained :: "nat \<Rightarrow> node \<Rightarrow> node \<Rightarrow> bool" where
  "drained origin n m \<longleftrightarrow> core_inv m \<and> same_frame n m
     \<and> (\<forall>o'. o' \<noteq> origin \<longrightarrow> frontier_for m o' = frontier_for n o' \<and> pending_for m o' = pending_for n o')
     \<and> frontier_for n origin \<le> frontier_for m origin
     \<and> frontier_for m origin + length (pending_for m origin) = frontier_for n origin + length (pending_for n origin)
     \<and> log_ops m \<union> pending_ops m \<subseteq> log_ops n \<union> pending_ops n \<and> log_ops n \<subseteq> log_ops m
     \<and> accepted_ops (stats n) \<le> accepted_ops (stats m)"

lemma drained_trans: "drained origin n m \<Longrightarrow> drained origin m k \<Longrightarrow> drained origin n k"
  unfolding drained_def same_frame_def by (elim conjE, intro conjI) (blast | simp)+

lemma length_om_remove_Some:
  assumes "om_inv m" "om_get m k = Some v"
  shows "Suc (length (om_remove k m)) = length m"
proof -
  have "k \<in> set (om_keys m)" using assms(2) by (rule om_get_keys)
  then have "card (set (om_keys m)) = Suc (card (set (om_keys m) - {k}))"
    by (intro card.remove) simp_all
  with assms(1) show ?thesis by (simp add: length_om_card)
qed

definition stats_ok :: "node \<Rightarrow> bool" where
  "stats_ok n \<longleftrightarrow> accepted_ops (stats n) < 2 ^ 64"

lemma drained_step:
  assumes "core_inv n" "take_pending origin (sat_add 64 (frontier_for n origin) 1) n = Some (op, n')"
    and "stats_ok n"
  shows "drained origin n (bump_accepted (apply_ordered_op op n'))"
proof -
  let ?m = "bump_accepted (apply_ordered_op op n')"
  note st = drain_step [OF assms(1,2)]
  note tp = take_pending_Some [OF assms(2)]
  have op: "om_get (pending_for n origin) (frontier_for n origin + 1) = Some op"
    using tp(1) st(2,7) by (simp add: sat_add_def min_def split: if_splits)
  have inv: "om_inv (pending_for n origin)" using assms(1) by (simp add: core_inv_def pending_ok_def)
  have log: "log_ops ?m = insert op (log_ops n)" by (auto simp: log_ops_def st(5) split: if_splits)
  have "pending_ops ?m \<subseteq> pending_ops n" "op \<in> pending_ops n"
    using op by (auto simp: pending_ops_def st(6) split: if_splits)
  moreover have "same_frame n ?m" by (simp add: same_frame_def bump_accepted_def node_simps tp(2))
  moreover have "accepted_ops (stats n) \<le> accepted_ops (stats ?m)"
    using assms(3) by (simp add: bump_accepted_def node_simps tp(2) stats_ok_def sat_add_def)
  moreover have "frontier_for ?m origin + length (pending_for ?m origin) = frontier_for n origin + length (pending_for n origin)"
    using length_om_remove_Some [OF inv op] by (simp add: st)
  ultimately show ?thesis unfolding drained_def log using st(3) by (auto simp: st)
qed

lemma drain_pending_spec:
  assumes "core_inv n" "stats_ok n"
  shows "drained origin n (drain_pending origin n) \<and> stats_ok (drain_pending origin n)
    \<and> om_get (pending_for (drain_pending origin n) origin) (frontier_for (drain_pending origin n) origin + 1) = None"
  using assms
proof (induction origin n rule: drain_pending.induct)
  case (1 origin n)
  show ?case
  proof (cases "take_pending origin (sat_add 64 (frontier_for n origin) 1) n")
    case None
    have "om_get (pending_for n origin) (frontier_for n origin + 1) = None"
    proof (cases "frontier_for n origin + 1 < 2 ^ 64")
      case True
      with None show ?thesis by (simp add: sat_add_exact take_pending_None)
    next
      case False
      then have "\<not> om_get (pending_for n origin) (frontier_for n origin + 1) = Some a" for a
        using 1(2) unfolding core_inv_def pending_ok_def by blast
      then show ?thesis by (cases "om_get (pending_for n origin) (frontier_for n origin + 1)") auto
    qed
    with None 1(2,3) show ?thesis by (simp add: drain_pending.simps [of origin n] drained_def same_frame_def)
  next
    case (Some x)
    obtain op n' where x: "x = (op, n')" by (cases x)
    note tp = Some [unfolded x]
    let ?m = "bump_accepted (apply_ordered_op op n')"
    have ok: "stats_ok ?m" by (simp add: stats_ok_def bump_accepted_def sat_add_def)
    note step = drained_step [OF 1(2) tp 1(3)]
    have core: "core_inv ?m" using step by (simp add: drained_def)
    have "drain_pending origin n = drain_pending origin ?m" 
      by (subst drain_pending.simps) (simp only: tp option.case prod.case)
    with 1(1) [OF tp refl core ok] drained_trans [OF step] show ?thesis by simp
  qed
qed

section \<open>Applying one operation\<close>

text \<open>
  \<open>admitted op n m\<close>: what \<open>try_apply_with_reordering\<close> guarantees of the state \<open>m\<close> it
  leaves. An operation takes at most one place in the log and the buffer of its origin, and is
  in the log when it was the next one.
\<close>

definition admitted :: "lens_op \<Rightarrow> node \<Rightarrow> node \<Rightarrow> bool" where
  "admitted op n m \<longleftrightarrow> node_inv m \<and> stats_ok m \<and> same_frame n m
     \<and> (\<forall>o'. o' \<noteq> op_origin op \<longrightarrow> frontier_for m o' = frontier_for n o' \<and> pending_for m o' = pending_for n o')
     \<and> frontier_for n (op_origin op) \<le> frontier_for m (op_origin op)
     \<and> frontier_for m (op_origin op) + length (pending_for m (op_origin op))
         \<le> frontier_for n (op_origin op) + length (pending_for n (op_origin op)) + 1
     \<and> log_ops m \<union> pending_ops m \<subseteq> insert op (log_ops n \<union> pending_ops n) \<and> log_ops n \<subseteq> log_ops m
     \<and> (op_counter op \<le> frontier_for n (op_origin op) + 1 \<longrightarrow> op_counter op \<le> frontier_for m (op_origin op))
     \<and> (op_counter op \<le> frontier_for n (op_origin op) \<longrightarrow>
          frontier_for m (op_origin op) = frontier_for n (op_origin op)
          \<and> pending_for m (op_origin op) = pending_for n (op_origin op))"

lemma log_pending_ops_cong:
  "log_for m = log_for n \<Longrightarrow> log_ops m = log_ops n"
  "pending_for m = pending_for n \<Longrightarrow> pending_ops m = pending_ops n"
  by (simp_all add: log_ops_def pending_ops_def)

lemma admitted_unchanged:
  assumes "node_inv n" "stats_ok n" "log_for m = log_for n" "frontier_for m = frontier_for n"
    "pending_for m = pending_for n" "graph m = graph n" "op_log m = op_log n" "same_frame n m"
    "accepted_ops (stats m) = accepted_ops (stats n)"
    "op_counter op \<le> frontier_for n (op_origin op) \<or> frontier_for n (op_origin op) + 1 < op_counter op"
  shows "admitted op n m"
proof -
  have "guard_cfg m = guard_cfg n" using assms(8) by (simp add: same_frame_def)
  then have "node_inv m" using node_inv_cong [OF assms(1)] assms(3-7) by blast
  then show ?thesis
    using assms log_pending_ops_cong [of m n] by (auto simp: admitted_def stats_ok_def)
qed

lemma pending_for_entry [node_simps]:
  "pending_for (n\<lparr>pending := om_insert origin (pending_for n origin) (pending n)\<rparr>) = pending_for n"
  by (auto simp: fun_eq_iff node_simps)

lemma admitted_queued:
  assumes "node_inv n" "stats_ok n" "op_counter op < 2 ^ 64"
    and gap: "frontier_for n (op_origin op) + 1 < op_counter op"
    and room: "length (pending_for n (op_origin op)) < max_pending_per_origin (guard_cfg n)"
    and m: "pending_for m = (pending_for n)(op_origin op :=
        case om_get (pending_for n (op_origin op)) (op_counter op) of
          Some _ \<Rightarrow> pending_for n (op_origin op)
        | None \<Rightarrow> om_insert (op_counter op) op (pending_for n (op_origin op)))"
    and same: "log_for m = log_for n" "frontier_for m = frontier_for n" "graph m = graph n"
      "op_log m = op_log n" "same_frame n m" "accepted_ops (stats m) = accepted_ops (stats n)"
  shows "admitted op n m"
proof (cases "om_get (pending_for n (op_origin op)) (op_counter op)")
  case None
  then have m: "pending_for m = (pending_for n)(op_origin op := om_insert (op_counter op) op (pending_for n (op_origin op)))"
    by (simp add: m)
  have inv: "om_inv (pending_for n o')" for o' using assms(1) by (simp add: node_inv_def core_inv_def pending_ok_def)
  have core: "core_inv m"
    using assms(1,3) gap unfolding node_inv_def core_inv_def pending_ok_def log_ok_def graph_ok_def log_ops_def same m
    by (auto simp: inv split: if_splits)
  have len: "length (pending_for m (op_origin op)) = Suc (length (pending_for n (op_origin op)))"
    by (simp add: m length_om_insert inv None)
  have "settled m" using assms(1) gap by (auto simp: node_inv_def settled_def same m)
  moreover have "bounded_pending m"
    using assms(1) room len same(5) by (auto simp: node_inv_def bounded_pending_def same_frame_def m)
  moreover have "pending_ops m \<subseteq> insert op (pending_ops n)"
    by (auto simp: pending_ops_def m split: if_splits)
  ultimately show ?thesis
    using assms(2) gap core len same log_pending_ops_cong(1) [OF same(1)]
    unfolding admitted_def node_inv_def by (auto simp: stats_ok_def m)
next
  case (Some op')
  then have "pending_for m = pending_for n" by (simp add: m)
  with assms show ?thesis by (intro admitted_unchanged) auto
qed

lemma admitted_next:
  assumes "node_inv n" "stats_ok n" "op_counter op < 2 ^ 64"
    and nxt: "op_counter op = frontier_for n (op_origin op) + 1"
  shows "admitted op n (drain_pending (op_origin op) (bump_accepted (apply_ordered_op op n)))"
proof -
  let ?k = "bump_accepted (apply_ordered_op op n)"
  let ?m = "drain_pending (op_origin op) ?k"
  have inv: "core_inv n" "settled n" "bounded_pending n" using assms(1) by (simp_all add: node_inv_def)
  have none: "om_get (pending_for n (op_origin op)) (op_counter op) = None"
    using inv(2) by (simp add: settled_def nxt)
  have core: "core_inv ?k"
    by (rule core_inv_cong [OF core_inv_apply [OF inv(1) nxt assms(3) none]])
      (simp_all add: bump_accepted_def node_simps)
  have ok: "stats_ok ?k" by (simp add: stats_ok_def bump_accepted_def sat_add_def)
  have k: "frontier_for ?k o' = (if o' = op_origin op then op_counter op else frontier_for n o')"
    "pending_for ?k = pending_for n" "log_ops ?k = insert op (log_ops n)" "same_frame n ?k" for o'
    using inv(1) log_ops_apply_next [OF _ nxt]
    by (auto simp: bump_accepted_def node_simps fun_eq_iff same_frame_def core_inv_def log_ops_def)
  have d: "drained (op_origin op) ?k ?m" "stats_ok ?m"
    "om_get (pending_for ?m (op_origin op)) (frontier_for ?m (op_origin op) + 1) = None"
    using drain_pending_spec [OF core ok] by auto
  have frame: "same_frame n ?m" using d(1) k(4) by (simp add: drained_def same_frame_def)
  have other: "frontier_for ?m o' = frontier_for n o'" "pending_for ?m o' = pending_for n o'"
    if "o' \<noteq> op_origin op" for o' using d(1) that by (auto simp: drained_def k)
  have sum: "frontier_for ?m (op_origin op) + length (pending_for ?m (op_origin op))
      = op_counter op + length (pending_for n (op_origin op))"
    and le: "op_counter op \<le> frontier_for ?m (op_origin op)"
    using d(1) by (auto simp: drained_def k)
  have "settled ?m"
    using d(3) inv(2) other unfolding settled_def by metis
  moreover have "bounded_pending ?m"
    unfolding bounded_pending_def
  proof
    fix o'
    have "length (pending_for ?m o') \<le> length (pending_for n o')"
      using other sum le by (cases "o' = op_origin op") auto
    with inv(3) frame show "length (pending_for ?m o') \<le> max_pending_per_origin (guard_cfg ?m)"
      by (auto simp: bounded_pending_def same_frame_def intro: le_trans)
  qed
  moreover have "core_inv ?m" "log_ops ?m \<union> pending_ops ?m \<subseteq> insert op (log_ops n \<union> pending_ops n)"
    "log_ops n \<subseteq> log_ops ?m"
    using d(1) log_pending_ops_cong(2) [OF k(2)] by (auto simp: drained_def k(3))
  ultimately show ?thesis
    using d(2) frame other sum le nxt unfolding admitted_def node_inv_def by auto
qed

lemma try_apply_admitted:
  assumes "node_inv n" "stats_ok n" "op_counter op < 2 ^ 64"
  shows "admitted op n (try_apply_with_reordering op n)"
proof -
  let ?f = "frontier_for n (op_origin op)"
  consider (old) "op_counter op \<le> ?f" | (nxt) "op_counter op = ?f + 1" | (gap) "?f + 1 < op_counter op"
    by linarith
  then show ?thesis
  proof cases
    case old
    with assms show ?thesis
      by (intro admitted_unchanged)
        (auto simp: try_apply_with_reordering_def Let_def bump_old_def node_simps same_frame_def)
  next
    case nxt
    then have "sat_add 64 ?f 1 = op_counter op" using assms(3) by (simp add: sat_add_exact)
    with nxt admitted_next [OF assms nxt] show ?thesis by (simp add: try_apply_with_reordering_def Let_def)
  next
    case gap
    then have s: "sat_add 64 ?f 1 = ?f + 1" using assms(3) by (intro sat_add_exact) simp
    have p: "om_get_or [] (pending n) (op_origin op) = pending_for n (op_origin op)" by (simp add: pending_for_def)
    show ?thesis
    proof (cases "max_pending_per_origin (guard_cfg n) \<le> length (pending_for n (op_origin op))")
      case True
      with gap s p assms show ?thesis
        by (intro admitted_unchanged)
          (simp_all add: try_apply_with_reordering_def Let_def bump_rate_def node_simps same_frame_def)
    next
      case False
      with gap s p assms show ?thesis
        by (intro admitted_queued)
          (simp_all add: try_apply_with_reordering_def Let_def bump_queued_def node_simps same_frame_def fun_eq_iff
            pending_for_def split: option.splits)
    qed
  qed
qed

section \<open>Ingesting a batch\<close>

text \<open>\<open>quiet n m\<close>: only the guard, the statistics and the set of known origins may differ.\<close>

definition quiet :: "node \<Rightarrow> node \<Rightarrow> bool" where
  "quiet n m \<longleftrightarrow> log_for m = log_for n \<and> frontier_for m = frontier_for n \<and> pending_for m = pending_for n
     \<and> graph m = graph n \<and> op_log m = op_log n \<and> guard_cfg m = guard_cfg n
     \<and> trusted_origins m = trusted_origins n \<and> node_id m = node_id n \<and> local_counter m = local_counter n
     \<and> accepted_ops (stats m) = accepted_ops (stats n)"

lemma quiet_node_inv: "quiet n m \<Longrightarrow> node_inv n \<Longrightarrow> node_inv m"
  by (rule node_inv_cong [of n]) (simp_all add: quiet_def)

lemma quiet_stats_ok: "quiet n m \<Longrightarrow> stats_ok n \<Longrightarrow> stats_ok m"
  by (simp add: quiet_def stats_ok_def)

lemma quiet_ops: "quiet n m \<Longrightarrow> log_ops m = log_ops n" "quiet n m \<Longrightarrow> pending_ops m = pending_ops n"
  by (simp_all add: quiet_def log_ops_def pending_ops_def)

definition origin_count :: "node \<Rightarrow> nat \<Rightarrow> nat" where
  "origin_count n = om_get_or 0 (per_origin_counts (guard_st n))"

definition host_count :: "node \<Rightarrow> u8 \<Rightarrow> nat" where
  "host_count n = om_get_or 0 (per_host_new_origins (guard_st n))"

text \<open>
  The conditions under which \<open>ingest_batch\<close> hands an operation on: the origin is known or
  trusted, or its host has room for a new origin; the origin has room in this round; the proof
  of work suffices.
\<close>

definition passes :: "('c, 'm) crates \<Rightarrow> lens_op \<Rightarrow> node \<Rightarrow> bool" where
  "passes X op n \<longleftrightarrow>
     (op_origin op \<in> set (known_origins n) \<or> op_origin op \<in> set (trusted_origins n)
        \<or> host_count n (op_host_id op) < max_new_origins_per_host_per_round (guard_cfg n))
     \<and> origin_count n (op_origin op) < max_ops_per_origin_per_round (guard_cfg n)
     \<and> valid_pow X op (required_pow_bits_for n (op_origin op))"

definition fresh_origin :: "lens_op \<Rightarrow> node \<Rightarrow> bool" where
  "fresh_origin op n \<longleftrightarrow> op_origin op \<notin> set (known_origins n) \<and> op_origin op \<notin> set (trusted_origins n)"

lemma ingest_one_rejected:
  assumes "\<not> passes X op n"
  obtains m where "ingest_one X op (n, a) = (m, a)" "quiet n m" "known_origins m = known_origins n"
    "origin_count m = origin_count n" "host_count m = host_count n"
proof (rule that)
  let ?m = "fst (ingest_one X op (n, a))"
  have h: "om_get_or 0 (om_insert k (om_get_or 0 l k) l) = om_get_or 0 l" for k :: u8 and l :: "(u8, nat) omap"
    by (simp add: fun_eq_iff)
  show "ingest_one X op (n, a) = (?m, a)" "quiet n ?m" "known_origins ?m = known_origins n"
    "origin_count ?m = origin_count n" "host_count ?m = host_count n"
    using assms
    by (auto simp: ingest_one_def Let_def passes_def quiet_def origin_count_def host_count_def bump_defs node_simps
        required_pow_bits_for_def h)
qed

lemma ingest_one_passed:
  assumes "passes X op n"
  obtains k b where "ingest_one X op (n, a) = (try_apply_with_reordering op k, b)" "quiet n k"
    "set (known_origins k) = insert (op_origin op) (set (known_origins n))"
    "origin_count k = (origin_count n)(op_origin op := origin_count n (op_origin op) + 1)"
    "host_count k = (if fresh_origin op n then (host_count n)(op_host_id op := host_count n (op_host_id op) + 1)
       else host_count n)"
proof (rule that)
  let ?g = "guard_st n"
  let ?h = "om_insert (op_host_id op) (host_count n (op_host_id op)) (per_host_new_origins ?g)"
  let ?k = "n\<lparr>known_origins := (if op_origin op \<in> set (known_origins n) then known_origins n
       else os_insert (op_origin op) (known_origins n)),
     guard_st := (if fresh_origin op n
         then ?g\<lparr>per_host_new_origins := om_insert (op_host_id op) (om_get_or 0 ?h (op_host_id op) + 1) ?h\<rparr> else ?g)
       \<lparr>per_origin_counts := om_insert (op_origin op) (origin_count n (op_origin op) + 1) (per_origin_counts ?g)\<rparr>\<rparr>"
  let ?m = "try_apply_with_reordering op ?k"
  show "ingest_one X op (n, a) = (?m, if accepted_ops (stats ?k) < accepted_ops (stats ?m) then a + 1 else a)"
    using assms unfolding passes_def
    by (auto simp: ingest_one_def Let_def fresh_origin_def origin_count_def host_count_def required_pow_bits_for_def)
  show "quiet n ?k" by (simp add: quiet_def node_simps)
  show "set (known_origins ?k) = insert (op_origin op) (set (known_origins n))" by auto
  show "origin_count ?k = (origin_count n)(op_origin op := origin_count n (op_origin op) + 1)"
    "host_count ?k = (if fresh_origin op n then (host_count n)(op_host_id op := host_count n (op_host_id op) + 1)
       else host_count n)"
    by (auto simp: fun_eq_iff origin_count_def host_count_def)
qed

text \<open>One operation of a batch, whether it passes or not.\<close>

definition ingested :: "('c, 'm) crates \<Rightarrow> lens_op \<Rightarrow> node \<Rightarrow> node \<Rightarrow> bool" where
  "ingested X op n m \<longleftrightarrow> node_inv m \<and> stats_ok m \<and> guard_cfg m = guard_cfg n \<and> node_id m = node_id n
    \<and> local_counter m = local_counter n \<and> (\<forall>o'. frontier_for n o' \<le> frontier_for m o') \<and> log_ops n \<subseteq> log_ops m
    \<and> log_ops m \<union> pending_ops m \<subseteq> (if passes X op n then {op} else {}) \<union> log_ops n \<union> pending_ops n
    \<and> (\<forall>o'. frontier_for m o' + length (pending_for m o') + origin_count n o'
        \<le> frontier_for n o' + length (pending_for n o') + origin_count m o')
    \<and> (\<forall>o'. origin_count m o' \<le> max (origin_count n o') (max_ops_per_origin_per_round (guard_cfg n)))
    \<and> (\<forall>o'. origin_count m o' \<le> origin_count n o' + (if o' = op_origin op then 1 else 0))
    \<and> set (known_origins n) \<subseteq> set (known_origins m)
    \<and> (passes X op n \<longrightarrow> op_counter op \<le> frontier_for n (op_origin op) + 1 \<longrightarrow> op_counter op \<le> frontier_for m (op_origin op))
    \<and> (\<forall>o'. op_counter op \<le> frontier_for n (op_origin op) \<or> o' \<noteq> op_origin op \<longrightarrow>
         frontier_for m o' = frontier_for n o' \<and> pending_for m o' = pending_for n o')"

lemma ingest_one_spec:
  assumes "node_inv n" "stats_ok n" "op_counter op < 2 ^ 64"
  shows "ingested X op n (fst (ingest_one X op (n, a)))"
proof (cases "passes X op n")
  case False
  then obtain k where k: "ingest_one X op (n, a) = (k, a)" "quiet n k" "known_origins k = known_origins n"
    "origin_count k = origin_count n" "host_count k = host_count n"
    by (rule ingest_one_rejected)
  with False quiet_node_inv [OF k(2) assms(1)] quiet_stats_ok [OF k(2) assms(2)] quiet_ops [OF k(2)]
  show ?thesis by (simp add: ingested_def quiet_def)
next
  case True
  then obtain k b where k: "ingest_one X op (n, a) = (try_apply_with_reordering op k, b)" "quiet n k"
    "set (known_origins k) = insert (op_origin op) (set (known_origins n))"
    "origin_count k = (origin_count n)(op_origin op := origin_count n (op_origin op) + 1)"
    by (rule ingest_one_passed)
  let ?m = "try_apply_with_reordering op k"
  have ad: "admitted op k ?m"
    by (rule try_apply_admitted [OF quiet_node_inv [OF k(2) assms(1)] quiet_stats_ok [OF k(2) assms(2)] assms(3)])
  have fr: "origin_count ?m = origin_count k" "known_origins ?m = known_origins k" "guard_cfg ?m = guard_cfg k"
    "node_id ?m = node_id k" "local_counter ?m = local_counter k"
    using ad by (simp_all add: admitted_def same_frame_def origin_count_def)
  have lt: "origin_count n (op_origin op) < max_ops_per_origin_per_round (guard_cfg n)"
    using True by (simp add: passes_def)
  have le: "frontier_for n o' \<le> frontier_for ?m o'
    \<and> frontier_for ?m o' + length (pending_for ?m o') + origin_count n o'
        \<le> frontier_for n o' + length (pending_for n o') + origin_count ?m o'" for o'
    using ad k(2,4) fr(1) by (cases "o' = op_origin op") (auto simp: admitted_def quiet_def)
  have same: "frontier_for ?m o' = frontier_for n o' \<and> pending_for ?m o' = pending_for n o'"
    if "op_counter op \<le> frontier_for n (op_origin op) \<or> o' \<noteq> op_origin op" for o'
    using ad k(2) that by (cases "o' = op_origin op") (simp_all add: admitted_def quiet_def)
  show ?thesis
    using ad k(2,3) True quiet_ops [OF k(2)] le lt same
    unfolding ingested_def k(1) fst_conv fr by (auto simp: admitted_def quiet_def k(4))
qed

text \<open>A whole batch, as one relation between the states before and after.\<close>

definition min_pow :: "guard_config \<Rightarrow> nat" where
  "min_pow cfg = min (base_pow_bits cfg) (trusted_pow_bits cfg)"

definition batch_spec :: "('c, 'm) crates \<Rightarrow> lens_op set \<Rightarrow> node \<Rightarrow> node \<Rightarrow> bool" where
  "batch_spec X ops n m \<longleftrightarrow> node_inv m \<and> stats_ok m \<and> guard_cfg m = guard_cfg n \<and> node_id m = node_id n
    \<and> local_counter m = local_counter n \<and> (\<forall>o'. frontier_for n o' \<le> frontier_for m o') \<and> log_ops n \<subseteq> log_ops m
    \<and> log_ops m \<union> pending_ops m \<subseteq> {op \<in> ops. valid_pow X op (min_pow (guard_cfg n))} \<union> log_ops n \<union> pending_ops n
    \<and> (\<forall>o'. frontier_for m o' + length (pending_for m o') + origin_count n o'
        \<le> frontier_for n o' + length (pending_for n o') + origin_count m o')
    \<and> (\<forall>o'. origin_count m o' \<le> max (origin_count n o') (max_ops_per_origin_per_round (guard_cfg n)))
    \<and> set (known_origins n) \<subseteq> set (known_origins m)
    \<and> (\<forall>o'. (\<forall>op \<in> ops. op_origin op = o' \<longrightarrow> op_counter op \<le> frontier_for n o') \<longrightarrow>
         frontier_for m o' = frontier_for n o' \<and> pending_for m o' = pending_for n o')"

lemma valid_pow_mono: "valid_pow X op b \<Longrightarrow> b' \<le> b \<Longrightarrow> valid_pow X op b'"
  by (auto simp: valid_pow_def)

lemma passes_min_pow: "passes X op n \<Longrightarrow> valid_pow X op (min_pow (guard_cfg n))"
  by (auto simp: passes_def required_pow_bits_for_def min_pow_def elim: valid_pow_mono split: if_splits)

lemma batch_spec_refl: "node_inv n \<Longrightarrow> stats_ok n \<Longrightarrow> batch_spec X {} n n"
  by (simp add: batch_spec_def)

lemma batch_spec_Cons:
  assumes "ingested X op n k" "batch_spec X ops k m"
  shows "batch_spec X (insert op ops) n m"
proof -
  note i = assms(1) [unfolded ingested_def] and b = assms(2) [unfolded batch_spec_def]
  have ops: "log_ops m \<union> pending_ops m \<subseteq>
      {op' \<in> insert op ops. valid_pow X op' (min_pow (guard_cfg n))} \<union> log_ops n \<union> pending_ops n"
    using i b passes_min_pow [of X op n] by (auto split: if_splits)
  have cnt: "frontier_for m o' + length (pending_for m o') + origin_count n o'
        \<le> frontier_for n o' + length (pending_for n o') + origin_count m o'
      \<and> frontier_for n o' \<le> frontier_for m o'" for o'
  proof -
    have "frontier_for m o' + length (pending_for m o') + origin_count k o'
        \<le> frontier_for k o' + length (pending_for k o') + origin_count m o'"
      "frontier_for k o' + length (pending_for k o') + origin_count n o'
        \<le> frontier_for n o' + length (pending_for n o') + origin_count k o'"
      "frontier_for n o' \<le> frontier_for k o'" "frontier_for k o' \<le> frontier_for m o'"
      using i b by blast+
    then show ?thesis by linarith
  qed
  have mx: "origin_count m o' \<le> max (origin_count n o') (max_ops_per_origin_per_round (guard_cfg n))" for o'
  proof -
    have "origin_count m o' \<le> max (origin_count k o') (max_ops_per_origin_per_round (guard_cfg k))"
      "origin_count k o' \<le> max (origin_count n o') (max_ops_per_origin_per_round (guard_cfg n))"
      "guard_cfg k = guard_cfg n"
      using i b by blast+
    then show ?thesis by simp
  qed
  have same: "frontier_for m o' = frontier_for n o' \<and> pending_for m o' = pending_for n o'"
    if "\<forall>op' \<in> insert op ops. op_origin op' = o' \<longrightarrow> op_counter op' \<le> frontier_for n o'" for o'
  proof -
    have k: "frontier_for k o' = frontier_for n o' \<and> pending_for k o' = pending_for n o'"
      using i that by (cases "op_origin op = o'") auto
    with b that have "frontier_for m o' = frontier_for k o' \<and> pending_for m o' = pending_for k o'"
      by auto
    with k show ?thesis by simp
  qed
  have rest: "node_inv m" "stats_ok m" "guard_cfg m = guard_cfg n" "node_id m = node_id n"
    "local_counter m = local_counter n" "log_ops n \<subseteq> log_ops m" "set (known_origins n) \<subseteq> set (known_origins m)"
    using i b by auto
  show ?thesis unfolding batch_spec_def
    by (intro conjI allI impI) (use rest ops cnt mx same in \<open>simp_all only:\<close>)
qed

lemma fold_ingest_spec:
  assumes "node_inv (fst s)" "stats_ok (fst s)" "\<And>op. op \<in> set ops \<Longrightarrow> op_counter op < 2 ^ 64"
  shows "batch_spec X (set ops) (fst s) (fst (fold (ingest_one X) ops s))"
  using assms
proof (induction ops arbitrary: s)
  case (Cons op ops)
  have i: "ingested X op (fst s) (fst (ingest_one X op s))"
    using ingest_one_spec [OF Cons(2,3), of op X "snd s"] Cons(4) by simp
  then have "node_inv (fst (ingest_one X op s))" "stats_ok (fst (ingest_one X op s))"
    by (simp_all add: ingested_def)
  with Cons have "batch_spec X (set ops) (fst (ingest_one X op s)) (fst (fold (ingest_one X) ops (ingest_one X op s)))"
    by simp
  with i show ?case by (simp add: batch_spec_Cons)
qed (simp add: batch_spec_refl)

text \<open>What the rate limiter already counted for an origin when a batch of a round starts.\<close>

definition used_in_round :: "node \<Rightarrow> nat \<Rightarrow> nat \<Rightarrow> nat" where
  "used_in_round n round o' = (if gs_round (guard_st n) = round then origin_count n o' else 0)"

definition roll_node :: "nat \<Rightarrow> node \<Rightarrow> node" where
  "roll_node round n = n\<lparr>guard_st := roll_to round (guard_st n)\<rparr>"

lemma quiet_roll: "quiet n (roll_node round n)"
  by (simp add: roll_node_def quiet_def node_simps)

lemma origin_count_roll: "origin_count (roll_node round n) = used_in_round n round"
  by (simp add: roll_node_def origin_count_def used_in_round_def roll_to_def fun_eq_iff)

lemma ingest_batch_spec:
  assumes "node_inv n" "stats_ok n" "\<And>op. op \<in> set ops \<Longrightarrow> op_counter op < 2 ^ 64"
  shows "batch_spec X (set ops) (roll_node round n) (fst (ingest_batch X round ops n))"
  using fold_ingest_spec [of "(roll_node round n, 0)" ops X] assms
    quiet_node_inv [OF quiet_roll assms(1)] quiet_stats_ok [OF quiet_roll assms(2)]
  by (simp add: ingest_batch_def roll_node_def)

end
