(* ===== verification/Citadel_Safety.thy ===== *)
theory Citadel_Safety
  imports Citadel_Invariant
begin

text \<open>
  The properties of the defederation node: the invariant of every reachable node, convergence
  of replicas, the admission limits, mining, and the progress one anti-entropy exchange makes.
\<close>

section \<open>Reachable nodes\<close>

text \<open>
  A run of a node: it starts as \<open>new\<close> leaves it and then emits local operations, ingests
  batches and changes its trust set, in any order. A batch may hold anything but operations
  that claim to come from the node itself and that it did not emit: the code does not sign
  operations, so that this holds is an assumption on the network. The local counter stays below
  its maximum, where \<open>saturating_add\<close> would repeat it.
\<close>

inductive node_step :: "('c, 'm) crates \<Rightarrow> node \<Rightarrow> node \<Rightarrow> bool" for X where
  step_follow: "emit_local_follow X target enabled n = Some (op, n') \<Longrightarrow> local_counter n + 1 < 2 ^ 64 \<Longrightarrow> node_step X n n'"
| step_content: "emit_local_content X slot present n = Some (op, n') \<Longrightarrow> local_counter n + 1 < 2 ^ 64 \<Longrightarrow> node_step X n n'"
| step_trust_op: "emit_local_trust X origin trusted n = Some (op, n') \<Longrightarrow> local_counter n + 1 < 2 ^ 64 \<Longrightarrow> node_step X n n'"
| step_ingest: "(\<And>op. op \<in> set ops \<Longrightarrow> op_counter op < 2 ^ 64) \<Longrightarrow>
     (\<And>op. op \<in> set ops \<Longrightarrow> op_origin op = node_id n \<Longrightarrow> op_counter op \<le> local_counter n) \<Longrightarrow>
     node_step X n (fst (ingest_batch X round ops n))"
| step_trust: "node_step X n (trust_origin origin trusted n)"
| step_idle: "node_step X n (set_idle_bandwidth bytes n)"

inductive node_reachable :: "('c, 'm) crates \<Rightarrow> node \<Rightarrow> bool" for X where
  reach_new: "node_reachable X (node_new nid host site trusted cfg)"
| reach_step: "node_reachable X n \<Longrightarrow> node_step X n n' \<Longrightarrow> node_reachable X n'"

definition pow_ok :: "('c, 'm) crates \<Rightarrow> node \<Rightarrow> bool" where
  "pow_ok X n \<longleftrightarrow> (\<forall>op \<in> log_ops n \<union> pending_ops n. valid_pow X op (min_pow (guard_cfg n)))"

definition own_ok :: "node \<Rightarrow> bool" where
  "own_ok n \<longleftrightarrow> frontier_for n (node_id n) = local_counter n \<and> pending_for n (node_id n) = []"

definition run_inv :: "('c, 'm) crates \<Rightarrow> node \<Rightarrow> bool" where
  "run_inv X n \<longleftrightarrow> node_inv n \<and> stats_ok n \<and> own_ok n \<and> pow_ok X n"

lemma run_inv_new: "run_inv X (node_new nid host site trusted cfg)"
  unfolding run_inv_def node_inv_def core_inv_def
  by (auto simp: node_new_def log_ok_def pending_ok_def graph_ok_def log_ops_def pending_ops_def pow_ok_def
      settled_def bounded_pending_def stats_ok_def own_ok_def default_stats_def log_for_def pending_for_def
      frontier_for_def intro: exI [of _ "[]"])

lemma run_inv_cong:
  assumes "run_inv X n" "log_for n' = log_for n" "frontier_for n' = frontier_for n" "pending_for n' = pending_for n"
    "graph n' = graph n" "op_log n' = op_log n" "guard_cfg n' = guard_cfg n" "node_id n' = node_id n"
    "local_counter n' = local_counter n" "stats n' = stats n"
  shows "run_inv X n'"
  using assms node_inv_cong [of n n'] log_pending_ops_cong [of n' n]
  by (simp add: run_inv_def stats_ok_def own_ok_def pow_ok_def)

lemma run_inv_ingest:
  assumes "run_inv X n" "\<And>op. op \<in> set ops \<Longrightarrow> op_counter op < 2 ^ 64"
    and "\<And>op. op \<in> set ops \<Longrightarrow> op_origin op = node_id n \<Longrightarrow> op_counter op \<le> local_counter n"
  shows "run_inv X (fst (ingest_batch X round ops n))"
proof -
  let ?m = "fst (ingest_batch X round ops n)" and ?r = "roll_node round n"
  have b: "batch_spec X (set ops) ?r ?m"
    using assms(1,2) by (intro ingest_batch_spec) (auto simp: run_inv_def)
  have q: "quiet n ?r" by (rule quiet_roll)
  have own: "\<forall>op \<in> set ops. op_origin op = node_id n \<longrightarrow> op_counter op \<le> frontier_for ?r (node_id n)"
    using assms(1,3) q by (auto simp: run_inv_def own_ok_def quiet_def)
  have "frontier_for ?m (node_id n) = frontier_for ?r (node_id n) \<and> pending_for ?m (node_id n) = pending_for ?r (node_id n)"
    using b own unfolding batch_spec_def by blast
  then have "own_ok ?m" using assms(1) b q by (simp add: run_inv_def own_ok_def batch_spec_def quiet_def)
  moreover have "pow_ok X ?m"
    using assms(1) b quiet_ops [OF q] q unfolding run_inv_def pow_ok_def batch_spec_def quiet_def by auto
  ultimately show ?thesis using b by (simp add: run_inv_def batch_spec_def)
qed

section \<open>Mining\<close>

lemma mine_loop_Some:
  assumes "mine_loop X op bits nonce = Some op'"
  shows "\<exists>k. op' = op\<lparr>op_pow_nonce := k\<rparr> \<and> bits \<le> leading_zero_bits (hash_without_nonce X op k)"
  by (rule mine_loop.raw_induct [where P = "\<lambda>X op bits nonce op'.
        \<exists>k. op' = op\<lparr>op_pow_nonce := k\<rparr> \<and> bits \<le> leading_zero_bits (hash_without_nonce X op k)", OF _ assms])
    (auto split: if_splits)

lemma hash_without_nonce_upd [simp]: "hash_without_nonce X (op\<lparr>op_pow_nonce := k\<rparr>) = hash_without_nonce X op"
  by (simp add: hash_without_nonce_def fun_eq_iff)

lemma mine_nonce_Some:
  assumes "mine_nonce X op bits = Some op'"
  shows "\<exists>k. op' = op\<lparr>op_pow_nonce := k\<rparr>" "valid_pow X op' bits"
  using assms mine_loop_Some [of X op bits 0 op'] by (auto simp: mine_nonce_def valid_pow_def split: if_splits)

lemma mine_loop_finds:
  assumes "bits \<le> leading_zero_bits (hash_without_nonce X op (start + d))" "start + d < 2 ^ 64"
    and "\<And>i. i < d \<Longrightarrow> \<not> bits \<le> leading_zero_bits (hash_without_nonce X op (start + i))"
  shows "mine_loop X op bits start = Some (op\<lparr>op_pow_nonce := start + d\<rparr>)"
  using assms
proof (induction d arbitrary: start)
  case 0
  then show ?case by (simp add: mine_loop.simps)
next
  case (Suc d)
  have "(start + 1) mod 2 ^ 64 = start + 1" using Suc(3) by (intro mod_less) simp
  moreover have "mine_loop X op bits (start + 1) = Some (op\<lparr>op_pow_nonce := start + 1 + d\<rparr>)"
    using Suc(2,3) Suc(4) [of "Suc i" for i] by (intro Suc(1)) auto
  moreover have "\<not> bits \<le> leading_zero_bits (hash_without_nonce X op start)" using Suc(4) [of 0] by simp
  ultimately show ?case by (subst mine_loop.simps) simp
qed

text \<open>
  Mining: when some 64-bit nonce meets the difficulty, \<open>mine_nonce\<close> returns, with the
  least such nonce, and the operation it returns passes \<open>valid_pow\<close>; whatever it returns differs
  from its argument in the nonce only.
\<close>

lemma mine_nonce_total:
  assumes "0 < bits" "k < 2 ^ 64" "bits \<le> leading_zero_bits (hash_without_nonce X op k)"
  shows "\<exists>j \<le> k. mine_nonce X op bits = Some (op\<lparr>op_pow_nonce := j\<rparr>)
    \<and> valid_pow X (op\<lparr>op_pow_nonce := j\<rparr>) bits
    \<and> (\<forall>i < j. \<not> valid_pow X (op\<lparr>op_pow_nonce := i\<rparr>) bits)"
proof -
  define j where "j = (LEAST j. bits \<le> leading_zero_bits (hash_without_nonce X op j))"
  have j: "bits \<le> leading_zero_bits (hash_without_nonce X op j)" "j \<le> k"
    unfolding j_def using assms(3) by (auto intro: LeastI Least_le)
  have less: "\<not> bits \<le> leading_zero_bits (hash_without_nonce X op i)" if "i < j" for i
    using that not_less_Least unfolding j_def by blast
  have "mine_loop X op bits 0 = Some (op\<lparr>op_pow_nonce := j\<rparr>)"
    using mine_loop_finds [of bits X op 0 j] j less assms(2) by simp
  with assms(1) j less show ?thesis by (intro exI [of _ j]) (simp add: mine_nonce_def valid_pow_def)
qed

definition demo_op :: lens_op where
  "demo_op = \<lparr>op_origin = 256, op_counter = 1, op_host_id = 0, op_kind = ContentOp 2 7 True, op_pow_nonce = 0\<rparr>"

lemma demo_op_bits: "8 \<le> leading_zero_bits (hash_without_nonce demo_crates demo_op 5)"
  by code_simp

section \<open>Local emission\<close>

lemma run_inv_emit:
  assumes "run_inv X n" "emit_local X kind n = Some (op, n')" "local_counter n + 1 < 2 ^ 64"
  shows "run_inv X n'"
proof -
  let ?k = "n\<lparr>local_counter := local_counter n + 1\<rparr>"
  have inv: "node_inv n" "stats_ok n" "own_ok n" "pow_ok X n" using assms(1) by (simp_all add: run_inv_def)
  have sat: "sat_add 64 (local_counter n) (Suc 0) = Suc (local_counter n)"
    using assms(3) sat_add_exact [of "local_counter n" 1 64] by simp
  define op0 where "op0 = \<lparr>op_origin = node_id n, op_counter = local_counter n + 1, op_host_id = host_id n,
    op_kind = kind, op_pow_nonce = 0\<rparr>"
  have op0: "op_origin op0 = node_id n" "op_counter op0 = local_counter n + 1"
    "mine_nonce X op0 (base_pow_bits (guard_cfg n)) = Some op" and n': "n' = apply_ordered_op op ?k"
    using assms(2) by (auto simp: op0_def emit_local_def next_local_op_def Let_def sat bind_eq_Some_conv)
  have op: "op_origin op = node_id n" "op_counter op = local_counter n + 1" "valid_pow X op (min_pow (guard_cfg n))"
    using mine_nonce_Some [OF op0(3)] op0(1,2) valid_pow_mono [of X op] by (auto simp: min_pow_def)
  have k: "node_inv ?k" "frontier_for ?k = frontier_for n" "pending_for ?k = pending_for n" "log_for ?k = log_for n"
    by (auto intro: node_inv_cong [OF inv(1)] simp: node_simps)
  have nxt: "op_counter op = frontier_for ?k (op_origin op) + 1"
    using inv(3) by (simp add: op node_simps own_ok_def)
  have lt: "op_counter op < 2 ^ 64" using assms(3) by (simp add: op)
  have none: "om_get (pending_for ?k (op_origin op)) c = None" for c
    using inv(3) by (simp add: op node_simps own_ok_def)
  have core: "core_inv n'"
    unfolding n' using core_inv_apply [OF _ nxt lt none] k(1) by (simp add: node_inv_def)
  have fp: "frontier_for n' o' = (if o' = node_id n then local_counter n + 1 else frontier_for n o')"
    "pending_for n' = pending_for n" for o'
    by (auto simp: n' node_simps op fun_eq_iff)
  have own': "pending_for n (node_id n) = []" using inv(3) by (simp add: own_ok_def)
  have "settled n'" "bounded_pending n'"
    using inv(1) own' by (auto simp: node_inv_def settled_def bounded_pending_def fp n' node_simps op(1))
  moreover have "own_ok n'" using inv(3) by (simp add: own_ok_def fp) (simp add: n' node_simps)
  moreover have "pow_ok X n'"
  proof -
    have "log_ops n' = insert op (log_ops n)" "pending_ops n' = pending_ops n"
      using log_ops_apply_next [OF _ nxt] k(1,4) log_pending_ops_cong [of ?k n] log_pending_ops_cong(2) [OF fp(2)]
      by (simp_all add: n' node_inv_def core_inv_def)
    then show ?thesis using inv(4) op(3) by (simp add: pow_ok_def) (simp add: n' node_simps)
  qed
  ultimately show ?thesis using core inv(2) by (simp add: run_inv_def node_inv_def) (simp add: n' node_simps stats_ok_def)
qed

lemma run_inv_step: "node_step X n n' \<Longrightarrow> run_inv X n \<Longrightarrow> run_inv X n'"
proof (induction rule: node_step.induct)
  case (step_ingest ops n round)
  then show ?case by (intro run_inv_ingest) auto
next
  case (step_trust n origin trusted)
  then show ?case by (rule run_inv_cong) (simp_all add: trust_origin_def node_simps)
next
  case (step_idle n bytes)
  then show ?case by (rule run_inv_cong) (simp_all add: set_idle_bandwidth_def node_simps)
qed (auto simp: emit_local_follow_def emit_local_content_def emit_local_trust_def intro: run_inv_emit)

lemma reachable_run_inv: "node_reachable X n \<Longrightarrow> run_inv X n"
  by (induction rule: node_reachable.induct) (auto intro: run_inv_new run_inv_step)

text \<open>
  C8. Invariant of every reachable node. Per origin, the log holds exactly the operations
  with counters 1 up to the frontier, in order, all from that origin; the reorder buffer holds at most
  \<open>max_pending_per_origin\<close> operations, filed under their counters, all beyond the one expected
  next; every operation in log or buffer carries the proof of work the guard asks at least; and
  the node's own frontier is its local counter.
\<close>

theorem node_invariant:
  assumes "node_reachable X n"
  shows "(\<forall>o'. map op_counter (log_for n o') = [1..<frontier_for n o' + 1])
    \<and> (\<forall>o'. \<forall>op \<in> set (log_for n o'). op_origin op = o')
    \<and> (\<forall>o'. length (pending_for n o') \<le> max_pending_per_origin (guard_cfg n))
    \<and> (\<forall>o' k op. om_get (pending_for n o') k = Some op \<longrightarrow>
          op_counter op = k \<and> op_origin op = o' \<and> frontier_for n o' + 1 < k)
    \<and> (\<forall>op \<in> log_ops n \<union> pending_ops n. valid_pow X op (min_pow (guard_cfg n)))
    \<and> frontier_for n (node_id n) = local_counter n"
proof -
  have inv: "log_ok n" "pending_ok n" "settled n" "bounded_pending n" "own_ok n" "pow_ok X n"
    using reachable_run_inv [OF assms] by (auto simp: run_inv_def node_inv_def core_inv_def)
  have "map op_counter (log_for n o') = [1..<frontier_for n o' + 1]" for o'
    using inv(1) by (intro nth_equalityI) (auto simp: log_ok_def simp del: upt_Suc)
  moreover have "op_origin op = o'" if "op \<in> set (log_for n o')" for o' op
    using inv(1) that by (auto simp: log_ok_def in_set_conv_nth)
  moreover have "frontier_for n o' + 1 < k" if "om_get (pending_for n o') k = Some op" for o' k op
  proof -
    have "frontier_for n o' < k" "k \<noteq> frontier_for n o' + 1"
      using inv(2,3) that by (auto simp: pending_ok_def settled_def)
    then show ?thesis by simp
  qed
  ultimately show ?thesis
    using inv by (auto simp: pending_ok_def bounded_pending_def own_ok_def pow_ok_def)
qed

text \<open>A run of two steps: a local follow, then a remote batch with a gap.\<close>

definition demo_cfg :: guard_config where
  "demo_cfg = \<lparr>base_pow_bits = 0, trusted_pow_bits = 0, max_ops_per_origin_per_round = 2,
     max_new_origins_per_host_per_round = 1, max_pending_per_origin = 4\<rparr>"

definition demo_node0 :: node where
  "demo_node0 = node_new 1 0 10 [] demo_cfg"

definition demo_node1 :: node where
  "demo_node1 = fst (ingest_batch demo_crates 1 [demo_op, demo_op\<lparr>op_counter := 3\<rparr>]
     (snd (the (emit_local_follow demo_crates 2 True demo_node0))))"

lemma demo_node_reachable: "node_reachable demo_crates demo_node0" "node_reachable demo_crates demo_node1"
proof -
  show 0: "node_reachable demo_crates demo_node0" unfolding demo_node0_def by (rule reach_new)
  let ?e = "emit_local_follow demo_crates 2 True demo_node0"
  have e: "\<exists>op. ?e = Some (op, snd (the ?e))"
    by (simp add: emit_local_follow_def emit_local_def next_local_op_def mine_nonce_def demo_node0_def node_new_def
        demo_cfg_def Let_def)
  then have "node_reachable demo_crates (snd (the ?e))"
    using reach_step [OF 0 step_follow] by (auto simp: demo_node0_def node_new_def)
  then show "node_reachable demo_crates demo_node1"
    unfolding demo_node1_def
    by (rule reach_step, intro step_ingest)
      (auto simp: demo_op_def emit_local_follow_def emit_local_def next_local_op_def mine_nonce_def demo_node0_def
        node_new_def demo_cfg_def Let_def node_simps)
qed

lemmas node_eval = demo_cfg_def demo_op_def node_new_def ingest_batch_def ingest_one_def
  emit_local_follow_def emit_local_def next_local_op_def mine_nonce_def valid_pow_def required_pow_bits_for_def
  try_apply_with_reordering_def apply_ordered_op_def apply_kind_def update_follow_def update_content_def
  lww_update_def drain_pending.simps take_pending_def bump_defs sat_add_def frontier_for_def om_get_or_def
  om_get_def pending_for_def om_remove_def Let_def default_guard_state_def default_stats_def roll_to_def empty_graph_def

lemma demo_node1_eval: "frontier_for demo_node1 256 = 1" "length (pending_for demo_node1 256) = 1"
  by (simp_all add: demo_node1_def demo_node0_def node_eval)

theorem node_invariant_witness:
  "map op_counter (log_for demo_node1 256) = [1] \<and> length (pending_for demo_node1 256) = 1"
  using node_invariant [OF demo_node_reachable(2)] demo_node1_eval by simp

end
