(* ===== verification/Citadel_Convergence.thy ===== *)
theory Citadel_Convergence
  imports Citadel_Safety
begin

text \<open>
  Convergence of defederation nodes, the limits of the admission guard, and the progress of an
  anti-entropy exchange.
\<close>

section \<open>The graph is determined by the set of logged operations\<close>

text \<open>The writes a list of operations makes to the two maps of the graph.\<close>

fun follow_write :: "lens_op_kind \<Rightarrow> lamport \<Rightarrow> ((nat \<times> nat) \<times> lww_entry) list" where
  "follow_write (FollowOp site target enabled) ts = [((site, target), \<lparr>lww_ts = ts, lww_present = enabled\<rparr>)]"
| "follow_write _ ts = []"

fun content_write :: "lens_op_kind \<Rightarrow> lamport \<Rightarrow> ((nat \<times> nat) \<times> lww_entry) list" where
  "content_write (ContentOp site slot present) ts = [((site, slot), \<lparr>lww_ts = ts, lww_present = present\<rparr>)]"
| "content_write _ ts = []"

definition op_ts :: "lens_op \<Rightarrow> lamport" where
  "op_ts op = Lamport (op_counter op) (op_origin op)"

definition writes_of :: "(lens_op_kind \<Rightarrow> lamport \<Rightarrow> ('k \<times> lww_entry) list) \<Rightarrow> lens_op list \<Rightarrow> ('k \<times> lww_entry) list" where
  "writes_of w ops = concat (map (\<lambda>op. w (op_kind op) (op_ts op)) ops)"

lemma lww_writes_append: "lww_writes (ws @ ws') m = lww_writes ws' (lww_writes ws m)"
  by (simp add: lww_writes_def)

lemma op_graph_writes:
  "op_graph kind ts g =
     \<lparr>follows = lww_writes (follow_write kind ts) (follows g), content = lww_writes (content_write kind ts) (content g)\<rparr>"
  by (cases kind) (simp_all add: update_follow_def update_content_def lww_writes_def)

lemma fold_apply_graph:
  "fold apply_graph ops g =
     \<lparr>follows = lww_writes (writes_of follow_write ops) (follows g),
      content = lww_writes (writes_of content_write ops) (content g)\<rparr>"
proof (induction ops arbitrary: g)
  case (Cons op ops)
  then show ?case by (simp add: apply_graph_def op_graph_writes writes_of_def lww_writes_append op_ts_def)
qed (simp add: writes_of_def lww_writes_def)

text \<open>No origin signs two operations with one counter.\<close>

definition no_equivocation :: "lens_op set \<Rightarrow> bool" where
  "no_equivocation ops \<longleftrightarrow>
     (\<forall>a \<in> ops. \<forall>b \<in> ops. op_origin a = op_origin b \<longrightarrow> op_counter a = op_counter b \<longrightarrow> a = b)"

lemma write_unique:
  "(k, e) \<in> set (follow_write kind ts) \<Longrightarrow> lww_ts e = ts"
  "(k, e) \<in> set (follow_write kind ts) \<Longrightarrow> (k, e') \<in> set (follow_write kind ts) \<Longrightarrow> e = e'"
  "(k, e) \<in> set (content_write kind ts) \<Longrightarrow> lww_ts e = ts"
  "(k, e) \<in> set (content_write kind ts) \<Longrightarrow> (k, e') \<in> set (content_write kind ts) \<Longrightarrow> e = e'"
  by (cases kind, auto)+

lemma consistent_writes_of:
  assumes "no_equivocation (set ops)"
    and ts: "\<And>k e kind ts. (k, e) \<in> set (w kind ts) \<Longrightarrow> lww_ts e = ts"
    and one: "\<And>k e e' kind ts. (k, e) \<in> set (w kind ts) \<Longrightarrow> (k, e') \<in> set (w kind ts) \<Longrightarrow> e = e'"
  shows "consistent_writes (set (writes_of w ops))"
  unfolding consistent_writes_def
proof (intro allI impI)
  fix k e e'
  assume "(k, e) \<in> set (writes_of w ops)" "(k, e') \<in> set (writes_of w ops)" and eq: "lww_ts e = lww_ts e'"
  then obtain a b where ab: "a \<in> set ops" "(k, e) \<in> set (w (op_kind a) (op_ts a))"
    "b \<in> set ops" "(k, e') \<in> set (w (op_kind b) (op_ts b))" by (auto simp: writes_of_def)
  have "op_ts a = op_ts b" using ts ab eq by metis
  then have "a = b" using assms(1) ab by (simp add: op_ts_def no_equivocation_def)
  with ab one show "e = e'" by blast
qed

lemma graph_determined:
  assumes "set h = set h'" "no_equivocation (set h)"
  shows "fold apply_graph h empty_graph = fold apply_graph h' empty_graph"
proof -
  have "set (writes_of w h) = set (writes_of w h')" for w :: "lens_op_kind \<Rightarrow> lamport \<Rightarrow> ((nat \<times> nat) \<times> lww_entry) list"
    using assms(1) by (simp add: writes_of_def)
  moreover have "consistent_writes (set (writes_of follow_write h))"
    by (rule consistent_writes_of [where w = follow_write, OF assms(2)]) (erule write_unique(1), erule (1) write_unique(2))
  moreover have "consistent_writes (set (writes_of content_write h))"
    by (rule consistent_writes_of [where w = content_write, OF assms(2)]) (erule write_unique(3), erule (1) write_unique(4))
  ultimately have "lww_writes (writes_of follow_write h) [] = lww_writes (writes_of follow_write h') []"
    "lww_writes (writes_of content_write h) [] = lww_writes (writes_of content_write h') []"
    by (intro lww_writes_order_irrelevant; simp)+
  then show ?thesis by (simp add: fold_apply_graph empty_graph_def)
qed

lemma log_ops_no_equivocation:
  assumes "log_ok n"
  shows "no_equivocation (log_ops n)"
  unfolding no_equivocation_def log_ops_def
proof (intro ballI impI)
  fix a b
  assume "a \<in> (\<Union>o'. set (log_for n o'))" "b \<in> (\<Union>o'. set (log_for n o'))"
    and eq: "op_origin a = op_origin b" "op_counter a = op_counter b"
  then obtain i j p q where "a = log_for n p ! i" "i < length (log_for n p)" "b = log_for n q ! j" "j < length (log_for n q)"
    by (auto simp: in_set_conv_nth)
  with assms eq show "a = b" by (simp add: log_ok_def)
qed

lemma log_for_determined:
  assumes "log_ok n" "log_ok m" "no_equivocation (log_ops n \<union> log_ops m)" "frontier_for n o' = frontier_for m o'"
  shows "log_for n o' = log_for m o'"
proof (rule nth_equalityI)
  show "length (log_for n o') = length (log_for m o')" using assms(1,2,4) by (simp add: log_ok_def)
  fix i assume i: "i < length (log_for n o')"
  then have i': "i < length (log_for m o')" using assms(1,2,4) by (simp add: log_ok_def)
  have "log_for n o' ! i \<in> log_ops n" "log_for m o' ! i \<in> log_ops m"
    using i i' by (auto simp: log_ops_def intro: nth_mem)
  moreover have "op_origin (log_for n o' ! i) = op_origin (log_for m o' ! i)"
    "op_counter (log_for n o' ! i) = op_counter (log_for m o' ! i)"
    using assms(1,2) i i' by (simp_all add: log_ok_def)
  ultimately show "log_for n o' ! i = log_for m o' ! i"
    using assms(3) unfolding no_equivocation_def by blast
qed

text \<open>
  C9. Convergence: two reachable nodes with the same frontier hold the same lens graph and
  compute the same view digest for every root, whatever the order in which each received,
  buffered and applied the operations, provided no origin issued two different operations with
  one counter.
\<close>

theorem frontier_convergence:
  assumes "node_reachable X n" "node_reachable X m"
    and "\<And>o'. frontier_for n o' = frontier_for m o'"
    and "no_equivocation (log_ops n \<union> log_ops m)"
  shows "graph n = graph m \<and> (\<forall>root. node_view_digest_hex X n root = node_view_digest_hex X m root)"
proof -
  have inv: "log_ok n" "log_ok m" "graph_ok n" "graph_ok m"
    using reachable_run_inv [OF assms(1)] reachable_run_inv [OF assms(2)]
    by (auto simp: run_inv_def node_inv_def core_inv_def)
  have ops: "log_ops n = log_ops m"
    using log_for_determined [OF inv(1,2) assms(4) assms(3)] by (simp add: log_ops_def)
  obtain h h' where h: "set h = log_ops n" "graph n = fold apply_graph h empty_graph"
    "set h' = log_ops m" "graph m = fold apply_graph h' empty_graph"
    using inv(3,4) by (auto simp: graph_ok_def)
  have "graph n = graph m"
    using graph_determined [of h h'] h ops log_ops_no_equivocation [OF inv(1)] by simp
  then show ?thesis by (simp add: node_view_digest_hex_def)
qed

text \<open>Two nodes that receive the same two operations in opposite orders.\<close>

definition demo_op2 :: lens_op where
  "demo_op2 = \<lparr>op_origin = 256, op_counter = 2, op_host_id = 0, op_kind = ContentOp 2 7 False, op_pow_nonce = 0\<rparr>"

definition demo_a :: node where
  "demo_a = fst (ingest_batch demo_crates 1 [demo_op, demo_op2] (node_new 1 0 10 [] demo_cfg))"

definition demo_b :: node where
  "demo_b = fst (ingest_batch demo_crates 1 [demo_op2, demo_op] (node_new 2 0 20 [] demo_cfg))"

lemma demo_ab_reachable: "node_reachable demo_crates demo_a" "node_reachable demo_crates demo_b"
proof -
  show "node_reachable demo_crates demo_a"
    unfolding demo_a_def
    by (rule reach_step [OF reach_new], rule step_ingest) (auto simp: demo_op_def demo_op2_def node_new_def)
  show "node_reachable demo_crates demo_b"
    unfolding demo_b_def
    by (rule reach_step [OF reach_new], rule step_ingest) (auto simp: demo_op_def demo_op2_def node_new_def)
qed

lemma demo_ab_eval:
  "frontier demo_a = [(256, 2)]" "frontier demo_b = [(256, 2)]"
  "op_log demo_a = [(256, [demo_op, demo_op2])]" "op_log demo_b = [(256, [demo_op, demo_op2])]"
  by (simp_all add: demo_a_def demo_b_def demo_op2_def node_eval)

theorem frontier_convergence_witness:
  "frontier demo_a = [(256, 2)] \<and> node_view_digest_hex demo_crates demo_a 2 = node_view_digest_hex demo_crates demo_b 2"
proof -
  have "no_equivocation (log_ops demo_a \<union> log_ops demo_b)"
    by (auto simp: no_equivocation_def log_ops_def log_for_def om_get_or_def om_get_def demo_ab_eval demo_op_def
        demo_op2_def split: if_splits)
  then show ?thesis
    using frontier_convergence [OF demo_ab_reachable] by (simp add: frontier_for_def demo_ab_eval)
qed

end
