(* ===== verification/Citadel_Admission.thy ===== *)
theory Citadel_Admission
  imports Citadel_Convergence
begin

text \<open>
  The limits of the admission guard of \<open>ingest_batch\<close>, and what one anti-entropy exchange
  achieves: \<open>missing_ops_for_frontier\<close> on one node, \<open>ingest_batch\<close> of its answer on the other.
\<close>

section \<open>Limits of one round\<close>

text \<open>
  C34. Rate limit and proof of work: in one round the log and the buffer of an origin together
  grow by at most \<open>max_ops_per_origin_per_round\<close>, counting what earlier batches of the round
  used, frontiers never move back, and every operation that is new in log or buffer is one of
  the batch with a valid proof of work.
\<close>

theorem round_limit:
  assumes "node_reachable X n" "\<And>op. op \<in> set ops \<Longrightarrow> op_counter op < 2 ^ 64"
    and "m = fst (ingest_batch X round ops n)"
  shows "frontier_for m o' + length (pending_for m o') + used_in_round n round o'
      \<le> frontier_for n o' + length (pending_for n o')
         + max (used_in_round n round o') (max_ops_per_origin_per_round (guard_cfg n))
    \<and> frontier_for n o' \<le> frontier_for m o'
    \<and> log_ops m \<union> pending_ops m
        \<subseteq> {op \<in> set ops. valid_pow X op (min_pow (guard_cfg n))} \<union> log_ops n \<union> pending_ops n"
proof -
  let ?r = "roll_node round n"
  have b: "batch_spec X (set ops) ?r m"
    using reachable_run_inv [OF assms(1)] assms(2) unfolding assms(3)
    by (intro ingest_batch_spec) (auto simp: run_inv_def)
  have q: "quiet n ?r" by (rule quiet_roll)
  have cnt: "frontier_for m o' + length (pending_for m o') + origin_count ?r o'
      \<le> frontier_for ?r o' + length (pending_for ?r o') + origin_count m o'"
    "origin_count m o' \<le> max (origin_count ?r o') (max_ops_per_origin_per_round (guard_cfg ?r))"
    "frontier_for ?r o' \<le> frontier_for m o'"
    using b unfolding batch_spec_def by blast+
  have "log_ops m \<union> pending_ops m \<subseteq> {op \<in> set ops. valid_pow X op (min_pow (guard_cfg ?r))} \<union> log_ops ?r \<union> pending_ops ?r"
    using b unfolding batch_spec_def by blast
  with cnt q show ?thesis by (auto simp: origin_count_roll quiet_ops [OF q] quiet_def)
qed

lemma node_new_eval:
  "frontier_for (node_new nid host site trusted cfg) o' = 0" "pending_for (node_new nid host site trusted cfg) o' = []"
  "used_in_round (node_new nid host site trusted cfg) round o' = 0" "guard_cfg (node_new nid host site trusted cfg) = cfg"
  by (simp_all add: node_new_def frontier_for_def pending_for_def used_in_round_def origin_count_def default_guard_state_def)

lemma demo_ops_small: "op \<in> set [demo_op2, demo_op] \<Longrightarrow> op_counter op < 2 ^ 64"
  by (auto simp: demo_op_def demo_op2_def)

theorem round_limit_witness:
  "frontier_for demo_b 256 + length (pending_for demo_b 256) \<le> max_ops_per_origin_per_round demo_cfg"
  using round_limit [OF reach_new demo_ops_small demo_b_def, of 256] by (simp add: node_new_eval)

text \<open>Origins to which a set of operations grants trust.\<close>

definition grants :: "lens_op set \<Rightarrow> nat set" where
  "grants ops = {o'. \<exists>op \<in> ops. op_kind op = TrustOrigin o' True}"

lemma grants_mono: "A \<subseteq> B \<Longrightarrow> grants A \<subseteq> grants B"
  by (auto simp: grants_def)

lemma trusted_apply: "set (trusted_origins (apply_ordered_op op n)) \<subseteq> set (trusted_origins n) \<union> grants {op}"
  by (auto simp: apply_ordered_op_def apply_kind_def trust_origin_def grants_def Let_def split: lens_op_kind.splits if_splits)

lemma trusted_drain:
  "set (trusted_origins (drain_pending origin n)) \<subseteq> set (trusted_origins n) \<union> grants (pending_ops n)"
proof (induction origin n rule: drain_pending.induct)
  case (1 origin n)
  show ?case
  proof (cases "take_pending origin (sat_add 64 (frontier_for n origin) 1) n")
    case None
    then show ?thesis by (subst drain_pending.simps) simp
  next
    case (Some x)
    obtain op n' where x: "x = (op, n')" by (cases x)
    note tp = take_pending_Some [OF Some [unfolded x]]
    let ?m = "bump_accepted (apply_ordered_op op n')"
    have d: "drain_pending origin n = drain_pending origin ?m"
      by (subst drain_pending.simps) (simp only: Some x option.case prod.case)
    have t: "set (trusted_origins ?m) \<subseteq> set (trusted_origins n) \<union> grants {op}"
      using trusted_apply [of op n'] by (simp add: bump_accepted_def tp(2))
    have "pending_for ?m o' = (if o' = origin
        then om_remove (sat_add 64 (frontier_for n origin) 1) (pending_for n origin) else pending_for n o')" for o'
      by (simp add: bump_accepted_def node_simps tp(2))
    then have "pending_ops ?m \<subseteq> pending_ops n" by (auto simp: pending_ops_def split: if_splits)
    then have p: "grants (pending_ops ?m) \<subseteq> grants (pending_ops n)" by (rule grants_mono)
    have "op \<in> pending_ops n" using tp(1) by (auto simp: pending_ops_def)
    then have g: "grants {op} \<subseteq> grants (pending_ops n)" by (auto simp: grants_def)
    show ?thesis unfolding d using 1 [OF Some x [symmetric]] t p g by blast
  qed
qed

lemma trusted_try_apply:
  "set (trusted_origins (try_apply_with_reordering op n)) \<subseteq> set (trusted_origins n) \<union> grants (insert op (pending_ops n))"
proof -
  let ?k = "bump_accepted (apply_ordered_op op n)"
  have "pending_for ?k = pending_for n" by (simp add: fun_eq_iff bump_accepted_def node_simps)
  then have "pending_ops ?k = pending_ops n" by (rule log_pending_ops_cong(2))
  then have "set (trusted_origins (drain_pending (op_origin op) ?k)) \<subseteq> set (trusted_origins ?k) \<union> grants (pending_ops n)"
    using trusted_drain [of "op_origin op" ?k] by simp
  then have "set (trusted_origins (drain_pending (op_origin op) ?k)) \<subseteq> set (trusted_origins n) \<union> grants (insert op (pending_ops n))"
    using trusted_apply [of op n] by (auto simp: bump_accepted_def grants_def)
  then show ?thesis
    by (auto simp: try_apply_with_reordering_def Let_def bump_old_def bump_rate_def bump_queued_def)
qed

text \<open>
  The bookkeeping of new origins in one batch: \<open>T\<close> bounds whom the node may trust meanwhile,
  \<open>H\<close> the hosts that appear.
\<close>

definition sybil_spec :: "nat set \<Rightarrow> u8 set \<Rightarrow> node \<Rightarrow> node \<Rightarrow> bool" where
  "sybil_spec T H n m \<longleftrightarrow>
     card (set (known_origins m) - set (known_origins n) - T) + (\<Sum>h \<in> H. host_count n h) \<le> (\<Sum>h \<in> H. host_count m h)
     \<and> (\<forall>h. host_count m h \<le> max (host_count n h) (max_new_origins_per_host_per_round (guard_cfg n)))
     \<and> guard_cfg m = guard_cfg n"

lemma sybil_spec_refl: "sybil_spec T H n n"
  by (simp add: sybil_spec_def)

lemma sybil_spec_trans:
  assumes "sybil_spec T H n k" "sybil_spec T H k m"
  shows "sybil_spec T H n m"
proof -
  have "set (known_origins m) - set (known_origins n) - T
    \<subseteq> (set (known_origins k) - set (known_origins n) - T) \<union> (set (known_origins m) - set (known_origins k) - T)" by auto
  then have "card (set (known_origins m) - set (known_origins n) - T)
    \<le> card (set (known_origins k) - set (known_origins n) - T) + card (set (known_origins m) - set (known_origins k) - T)"
    by (meson List.finite_set card_Un_le card_mono finite_Diff finite_UnI le_trans)
  moreover have "host_count m h \<le> max (host_count n h) (max_new_origins_per_host_per_round (guard_cfg n))" for h
  proof -
    have "host_count m h \<le> max (host_count k h) (max_new_origins_per_host_per_round (guard_cfg n))"
      "host_count k h \<le> max (host_count n h) (max_new_origins_per_host_per_round (guard_cfg n))"
      using assms by (simp_all add: sybil_spec_def)
    then show ?thesis by simp
  qed
  ultimately show ?thesis using assms by (simp add: sybil_spec_def)
qed

lemma sybil_spec_one:
  assumes "node_inv n" "stats_ok n" "op_counter op < 2 ^ 64" "finite H" "op_host_id op \<in> H" "set (trusted_origins n) \<subseteq> T"
  shows "sybil_spec T H n (fst (ingest_one X op (n, a)))"
proof (cases "passes X op n")
  case False
  then show ?thesis
    using assms by (elim ingest_one_rejected [of X op n a]) (simp add: sybil_spec_def quiet_def)
next
  case True
  then obtain k b where k: "ingest_one X op (n, a) = (try_apply_with_reordering op k, b)" "quiet n k"
    "set (known_origins k) = insert (op_origin op) (set (known_origins n))"
    "host_count k = (if fresh_origin op n then (host_count n)(op_host_id op := host_count n (op_host_id op) + 1)
       else host_count n)"
    by (rule ingest_one_passed)
  let ?m = "try_apply_with_reordering op k"
  have "admitted op k ?m"
    by (rule try_apply_admitted [OF quiet_node_inv [OF k(2) assms(1)] quiet_stats_ok [OF k(2) assms(2)] assms(3)])
  then have fr: "host_count ?m = host_count k" "known_origins ?m = known_origins k" "guard_cfg ?m = guard_cfg n"
    using k(2) by (simp_all add: admitted_def same_frame_def host_count_def quiet_def)
  have new: "card (set (known_origins k) - set (known_origins n) - T) \<le> (if fresh_origin op n then 1 else 0)"
    using assms(6) by (auto simp: k(3) fresh_origin_def card_insert_if insert_Diff_if)
  have "(\<Sum>h \<in> H. host_count k h) = (\<Sum>h \<in> H. host_count n h) + (if fresh_origin op n then 1 else 0)"
    using assms(4,5) by (simp add: k(4) sum.remove [of H "op_host_id op"])
  moreover have "host_count k h \<le> max (host_count n h) (max_new_origins_per_host_per_round (guard_cfg n))" for h
    using True by (auto simp: k(4) passes_def fresh_origin_def)
  ultimately show ?thesis using new by (simp add: sybil_spec_def k(1) fr)
qed

lemma pending_ops_ingest_one:
  assumes "node_inv n" "stats_ok n" "op_counter op < 2 ^ 64"
  shows "log_ops (fst (ingest_one X op (n, a))) \<union> pending_ops (fst (ingest_one X op (n, a)))
    \<subseteq> insert op (log_ops n \<union> pending_ops n)"
  using ingest_one_spec [OF assms, of X a] by (auto simp: ingested_def split: if_splits)

lemma trusted_ingest_one:
  "set (trusted_origins (fst (ingest_one X op (n, a)))) \<subseteq> set (trusted_origins n) \<union> grants (insert op (pending_ops n))"
proof (cases "passes X op n")
  case False
  then show ?thesis by (elim ingest_one_rejected [of X op n a]) (simp add: quiet_def)
next
  case True
  then obtain k b where k: "ingest_one X op (n, a) = (try_apply_with_reordering op k, b)" "quiet n k"
    by (rule ingest_one_passed)
  then show ?thesis using trusted_try_apply [of op k] quiet_ops(2) [OF k(2)] by (simp add: quiet_def)
qed

lemma fold_sybil_spec:
  assumes "node_inv (fst s)" "stats_ok (fst s)" "\<And>op. op \<in> set ops \<Longrightarrow> op_counter op < 2 ^ 64"
    and "finite H" "op_host_id ` set ops \<subseteq> H"
    and "set (trusted_origins (fst s)) \<union> grants (set ops \<union> log_ops (fst s) \<union> pending_ops (fst s)) \<subseteq> T"
  shows "sybil_spec T H (fst s) (fst (fold (ingest_one X) ops s))"
  using assms
proof (induction ops arbitrary: s)
  case (Cons op ops)
  obtain n a where s: "s = (n, a)" by (cases s)
  let ?k = "ingest_one X op (n, a)"
  have c: "op_counter op < 2 ^ 64" using Cons(4) by simp
  have inv: "node_inv n" "stats_ok n" using Cons(2,3) s by simp_all
  have k: "node_inv (fst ?k)" "stats_ok (fst ?k)"
    using ingest_one_spec [OF inv c, of X a] by (simp_all add: ingested_def)
  have sub: "set ops \<union> log_ops (fst ?k) \<union> pending_ops (fst ?k) \<subseteq> set (op # ops) \<union> log_ops n \<union> pending_ops n"
    using pending_ops_ingest_one [OF inv c, of X a] by auto
  have "insert op (pending_ops n) \<subseteq> set (op # ops) \<union> log_ops n \<union> pending_ops n" by auto
  then have T: "set (trusted_origins (fst ?k)) \<union> grants (set ops \<union> log_ops (fst ?k) \<union> pending_ops (fst ?k)) \<subseteq> T"
    using trusted_ingest_one [of X op n a] Cons(7) grants_mono [OF sub] grants_mono
    unfolding s fst_conv by blast
  have "sybil_spec T H (fst ?k) (fst (fold (ingest_one X) ops ?k))"
    by (rule Cons(1)) (use Cons(4-6) k T in auto)
  moreover have "sybil_spec T H n (fst ?k)"
    by (rule sybil_spec_one [OF inv c Cons(5)]) (use Cons(6,7) s in auto)
  ultimately show ?case by (simp add: s sybil_spec_trans)
qed (simp add: sybil_spec_refl)

definition used_for_host :: "node \<Rightarrow> nat \<Rightarrow> u8 \<Rightarrow> nat" where
  "used_for_host n round h = (if gs_round (guard_st n) = round then host_count n h else 0)"

lemma host_count_roll: "host_count (roll_node round n) = used_for_host n round"
  by (simp add: roll_node_def host_count_def used_for_host_def roll_to_def fun_eq_iff)

text \<open>
  C35. Sybil limit: in one round the operations of a set of hosts make at most
  \<open>max_new_origins_per_host_per_round\<close> new origins known per host, apart from origins the
  node trusts or comes to trust through an operation it holds or receives.
\<close>

theorem sybil_limit:
  assumes "node_reachable X n" "\<And>op. op \<in> set ops \<Longrightarrow> op_counter op < 2 ^ 64"
    and "m = fst (ingest_batch X round ops n)"
    and "T = set (trusted_origins n) \<union> grants (set ops \<union> log_ops n \<union> pending_ops n)"
    and "H = op_host_id ` set ops"
  shows "card (set (known_origins m) - set (known_origins n) - T) + (\<Sum>h \<in> H. used_for_host n round h)
    \<le> (\<Sum>h \<in> H. max (used_for_host n round h) (max_new_origins_per_host_per_round (guard_cfg n)))"
proof -
  let ?r = "roll_node round n"
  have q: "quiet n ?r" by (rule quiet_roll)
  have inv: "node_inv ?r" "stats_ok ?r"
    using reachable_run_inv [OF assms(1)] quiet_node_inv [OF q] quiet_stats_ok [OF q] by (simp_all add: run_inv_def)
  have "sybil_spec T H (fst (?r, 0 :: nat)) (fst (fold (ingest_one X) ops (?r, 0)))"
    by (rule fold_sybil_spec)
      (use inv assms(2) q in \<open>auto simp: assms(4,5) quiet_ops [OF q] quiet_def\<close>)
  then have sp: "sybil_spec T H ?r m" by (simp add: assms(3) ingest_batch_def roll_node_def)
  have "(\<Sum>h \<in> H. host_count m h) \<le> (\<Sum>h \<in> H. max (used_for_host n round h) (max_new_origins_per_host_per_round (guard_cfg n)))"
    using sp q by (intro sum_mono) (simp add: sybil_spec_def host_count_roll quiet_def)
  moreover have "known_origins ?r = known_origins n" by (simp add: roll_node_def)
  ultimately show ?thesis using sp by (simp add: sybil_spec_def host_count_roll)
qed

theorem sybil_limit_witness:
  "card (set (known_origins demo_b) - {2}) \<le> max_new_origins_per_host_per_round demo_cfg"
proof -
  have "grants ({demo_op2, demo_op} \<union> log_ops (node_new 2 0 20 [] demo_cfg) \<union> pending_ops (node_new 2 0 20 [] demo_cfg)) = {}"
    by (auto simp: grants_def log_ops_def pending_ops_def log_for_def pending_for_def node_new_def demo_op_def demo_op2_def)
  moreover have "op_host_id ` {demo_op2, demo_op} = {0}" by (simp add: demo_op_def demo_op2_def)
  ultimately show ?thesis
    using sybil_limit [OF reach_new demo_ops_small demo_b_def refl refl]
    by (simp add: used_for_host_def node_new_def default_guard_state_def)
qed

end
