(* ===== verification/Citadel_Sync.thy ===== *)
theory Citadel_Sync
  imports Citadel_Admission
begin

text \<open>
  Anti-entropy between two defederation nodes: the operations \<open>missing_ops_for_frontier\<close>
  returns are exactly the ones the peer lacks, and a peer that admits them catches up.
\<close>

section \<open>What is missing\<close>

lemma missing_loop_spec:
  assumes "length log < 2 ^ 64 - 1" "0 < c" "length out \<le> max_ops"
  shows "missing_loop log (length log) max_ops c out = Some (out @ take (max_ops - length out) (drop (c - 1) log))"
  using assms
proof (induction "length log + 1 - c" arbitrary: c out)
  case 0
  then show ?case by (simp add: missing_loop.simps)
next
  case (Suc d)
  then have c: "c \<le> length log" by simp
  show ?case
  proof (cases "length out < max_ops")
    case True
    have sat: "sat_add 64 c 1 = c + 1" using c Suc(3) by (intro sat_add_exact) simp
    have get: "get_opt log (c - 1) = Some (log ! (c - 1))" using c Suc(4) by simp
    have step: "missing_loop log (length log) max_ops c out
        = missing_loop log (length log) max_ops (c + 1) (out @ [log ! (c - 1)])"
      by (subst missing_loop.simps) (simp only: c True sat get option.case simp_thms if_True)
    have "missing_loop log (length log) max_ops (c + 1) (out @ [log ! (c - 1)])
        = Some ((out @ [log ! (c - 1)]) @ take (max_ops - length (out @ [log ! (c - 1)])) (drop (c + 1 - 1) log))"
      by (rule Suc(1)) (use Suc(2,3) True c in auto)
    moreover have "drop (c - 1) log = log ! (c - 1) # drop c log"
      using c Suc(4) by (metis Cons_nth_drop_Suc Suc_diff_1 Suc_le_lessD)
    moreover have "max_ops - length out = Suc (max_ops - Suc (length out))" using True by simp
    ultimately show ?thesis unfolding step by simp
  next
    case False
    with Suc(5) show ?thesis by (simp add: missing_loop.simps)
  qed
qed

text \<open>The operations of the log of \<open>n\<close> beyond a peer's frontier, origin by origin.\<close>

definition missing_seq :: "node \<Rightarrow> (nat, nat) omap \<Rightarrow> nat list \<Rightarrow> lens_op list" where
  "missing_seq n peer_frontier origins =
     concat (map (\<lambda>o'. drop (om_get_or 0 peer_frontier o') (log_for n o')) origins)"

lemma missing_origins_spec:
  assumes "log_ok n" "\<And>o'. frontier_for n o' < 2 ^ 64 - 1" "length out \<le> max_ops"
  shows "missing_origins n peer_frontier (op_log n) max_ops origins out
    = Some (take max_ops (out @ missing_seq n peer_frontier origins))"
  using assms(3)
proof (induction origins arbitrary: out)
  case (Cons origin origins)
  let ?dst = "om_get_or 0 peer_frontier origin"
  have len: "length (log_for n origin) = frontier_for n origin" using assms(1) by (simp add: log_ok_def)
  show ?case
  proof (cases "max_ops \<le> length out \<or> frontier_for n origin \<le> ?dst")
    case True
    then show ?thesis using Cons by (auto simp: missing_seq_def len)
  next
    case False
    then have "log_for n origin \<noteq> []" using len by auto
    then obtain log where log: "om_get (op_log n) origin = Some log" "log_for n origin = log"
      by (auto simp: log_for_def om_get_or_def split: option.splits)
    have sat: "sat_add 64 ?dst 1 = ?dst + 1" using False assms(2) [of origin] by (intro sat_add_exact) simp
    have loop: "missing_loop log (frontier_for n origin) max_ops (?dst + 1) out
        = Some (out @ take (max_ops - length out) (drop ?dst log))"
      using missing_loop_spec [of log "?dst + 1" out max_ops] assms(2) [of origin] Cons(2) len log(2) by simp
    have "missing_origins n peer_frontier (op_log n) max_ops (origin # origins) out
        = missing_origins n peer_frontier (op_log n) max_ops origins (out @ take (max_ops - length out) (drop ?dst log))"
      using False log(1) by (simp only: missing_origins.simps Let_def sat loop option.case bind.bind_lunit de_Morgan_disj if_False)
    also have "\<dots> = Some (take max_ops ((out @ take (max_ops - length out) (drop ?dst log)) @ missing_seq n peer_frontier origins))"
      by (rule Cons(1)) (use Cons(2) in auto)
    also have "\<dots> = Some (take max_ops (out @ missing_seq n peer_frontier (origin # origins)))"
      using Cons(2) by (simp add: missing_seq_def log(2) min_def)
    finally show ?thesis .
  qed
qed (simp add: missing_seq_def)

text \<open>
  Anti-entropy query: while no frontier has reached the last two counter values,
  \<open>missing_ops_for_frontier\<close> terminates and returns the first \<open>max_ops\<close> of the operations beyond
  the peer's frontier, by origin in increasing order and within an origin by counter.
\<close>

lemma missing_ops_exact:
  assumes "node_reachable X n" "\<And>o'. frontier_for n o' < 2 ^ 64 - 1"
  shows "missing_ops_for_frontier peer_frontier max_ops n
    = Some (take max_ops (missing_seq n peer_frontier (om_keys (op_log n))))"
proof -
  have inv: "log_ok n" "om_inv (op_log n)"
    using reachable_run_inv [OF assms(1)] by (simp_all add: run_inv_def node_inv_def core_inv_def)
  have "sort (om_keys (op_log n)) = om_keys (op_log n)"
    using inv(2) by (intro sorted_sort_id) (simp add: om_inv_def om_keys_def strict_sorted_iff)
  then show ?thesis
    using missing_origins_spec [OF inv(1) assms(2), of "[]" max_ops] by (simp add: missing_ops_for_frontier_def)
qed

section \<open>Catching up\<close>

text \<open>\<open>chain f ops\<close>: at a node with frontier \<open>f\<close> no operation of the list leaves a gap.\<close>

fun chain :: "(nat \<Rightarrow> nat) \<Rightarrow> lens_op list \<Rightarrow> bool" where
  "chain f [] = True"
| "chain f (op # ops) \<longleftrightarrow> op_counter op \<le> f (op_origin op) + 1
     \<and> chain (f(op_origin op := max (f (op_origin op)) (op_counter op))) ops"

lemma chain_mono: "chain f ops \<Longrightarrow> (\<And>o'. f o' \<le> g o') \<Longrightarrow> chain g ops"
proof (induction ops arbitrary: f g)
  case (Cons op ops)
  let ?f = "f(op_origin op := max (f (op_origin op)) (op_counter op))"
  let ?g = "g(op_origin op := max (g (op_origin op)) (op_counter op))"
  have "?f o' \<le> ?g o'" for o' using Cons(3) [of o'] by auto
  moreover have "chain ?f ops" using Cons(2) by simp
  ultimately have "chain ?g ops" by (rule Cons(1) [rotated])
  moreover have "op_counter op \<le> g (op_origin op) + 1"
    using Cons(2) Cons(3) [of "op_origin op"] by simp
  ultimately show ?case by simp
qed simp

lemma chain_append: "chain f xs \<Longrightarrow> chain f ys \<Longrightarrow> chain f (xs @ ys)"
proof (induction xs arbitrary: f)
  case (Cons op xs)
  let ?f = "f(op_origin op := max (f (op_origin op)) (op_counter op))"
  have 1: "chain ?f xs" using Cons(2) by simp
  have 2: "chain ?f ys" by (rule chain_mono [OF Cons(3)]) simp
  have "chain ?f (xs @ ys)" by (rule Cons(1) [OF 1 2])
  then show ?case using Cons(2) by simp
qed simp

lemma chain_concat: "(\<And>xs. xs \<in> set xss \<Longrightarrow> chain f xs) \<Longrightarrow> chain f (concat xss)"
  by (induction xss) (auto intro: chain_append)

lemma chain_take: "chain f xs \<Longrightarrow> chain f (take k xs)"
  by (induction xs arbitrary: f k) (auto simp: take_Cons split: nat.splits)

lemma chain_run:
  assumes "\<And>i. i < length xs \<Longrightarrow> op_origin (xs ! i) = o' \<and> op_counter (xs ! i) = k + i + 1" "k \<le> f o'"
  shows "chain f xs"
  using assms
proof (induction xs arbitrary: f k)
  case (Cons op xs)
  have op: "op_origin op = o'" "op_counter op = k + 1" using Cons(2) [of 0] by simp_all
  have "chain (f(o' := max (f o') (k + 1))) xs"
    by (rule Cons(1) [of "k + 1"]) (use Cons(2) [of "Suc i" for i] in auto)
  with op Cons(3) show ?case by simp
qed simp

lemma chain_missing:
  assumes "log_ok n"
  shows "chain (om_get_or 0 peer_frontier) (missing_seq n peer_frontier origins)"
  unfolding missing_seq_def
proof (rule chain_concat)
  fix xs assume "xs \<in> set (map (\<lambda>o'. drop (om_get_or 0 peer_frontier o') (log_for n o')) origins)"
  then obtain o' where xs: "xs = drop (om_get_or 0 peer_frontier o') (log_for n o')" by auto
  show "chain (om_get_or 0 peer_frontier) xs"
    by (rule chain_run [of _ o' "om_get_or 0 peer_frontier o'"]) (use assms in \<open>auto simp: xs log_ok_def\<close>)
qed

text \<open>\<open>welcomes X m ops\<close>: the guard of \<open>m\<close> will not refuse any operation of the list in this round.\<close>

definition welcomes :: "('c, 'm) crates \<Rightarrow> node \<Rightarrow> lens_op list \<Rightarrow> bool" where
  "welcomes X m ops \<longleftrightarrow>
     (\<forall>op \<in> set ops. op_origin op \<in> set (known_origins m)
        \<and> valid_pow X op (max (base_pow_bits (guard_cfg m)) (trusted_pow_bits (guard_cfg m)))
        \<and> op_counter op < 2 ^ 64)
     \<and> (\<forall>o'. origin_count m o' + length (filter (\<lambda>op. op_origin op = o') ops)
          \<le> max_ops_per_origin_per_round (guard_cfg m))"

lemma welcome_passes: "welcomes X m (op # ops) \<Longrightarrow> passes X op m"
  unfolding welcomes_def passes_def required_pow_bits_for_def
  by (force elim: valid_pow_mono dest: spec [of _ "op_origin op"])

lemma welcome_step:
  assumes "welcomes X m (op # ops)" "ingested X op m k"
  shows "welcomes X k ops"
proof -
  have "origin_count k o' + length (filter (\<lambda>op. op_origin op = o') ops) \<le> max_ops_per_origin_per_round (guard_cfg k)" for o'
  proof -
    have "origin_count k o' \<le> origin_count m o' + (if o' = op_origin op then 1 else 0)" "guard_cfg k = guard_cfg m"
      using assms(2) by (auto simp: ingested_def)
    moreover have "origin_count m o' + length (filter (\<lambda>op. op_origin op = o') (op # ops)) \<le> max_ops_per_origin_per_round (guard_cfg m)"
      using assms(1) unfolding welcomes_def by blast
    ultimately show ?thesis by (auto split: if_splits)
  qed
  with assms show ?thesis by (auto simp: welcomes_def ingested_def)
qed

lemma fold_ingest_catches_up:
  assumes "node_inv (fst s)" "stats_ok (fst s)" "welcomes X (fst s) ops" "chain (frontier_for (fst s)) ops"
  shows "\<forall>op \<in> set ops. op_counter op \<le> frontier_for (fst (fold (ingest_one X) ops s)) (op_origin op)"
  using assms
proof (induction ops arbitrary: s)
  case (Cons op ops)
  obtain m a where s: "s = (m, a)" by (cases s)
  let ?k = "ingest_one X op (m, a)"
  have c: "\<And>op'. op' \<in> set (op # ops) \<Longrightarrow> op_counter op' < 2 ^ 64"
    using Cons(4) unfolding welcomes_def by blast
  have i: "ingested X op m (fst ?k)" using ingest_one_spec [of m op X a] Cons(2,3) s c by simp
  have "passes X op m" using Cons(4) s by (simp add: welcome_passes)
  then have op: "op_counter op \<le> frontier_for (fst ?k) (op_origin op)"
    using i Cons(5) s by (simp add: ingested_def)
  have k: "node_inv (fst ?k)" "stats_ok (fst ?k)" "welcomes X (fst ?k) ops"
    using i welcome_step [OF _ i] Cons(4) s by (simp_all add: ingested_def)
  have ch: "chain (frontier_for (fst ?k)) ops"
    by (rule chain_mono [of "(frontier_for m)(op_origin op := max (frontier_for m (op_origin op)) (op_counter op))"])
      (use Cons(5) s op i in \<open>auto simp: ingested_def\<close>)
  have "batch_spec X (set ops) (fst ?k) (fst (fold (ingest_one X) ops ?k))"
    by (rule fold_ingest_spec) (use k c in auto)
  then have "frontier_for (fst ?k) (op_origin op) \<le> frontier_for (fst (fold (ingest_one X) ops ?k)) (op_origin op)"
    unfolding batch_spec_def by blast
  with op Cons(1) [OF k ch] s show ?case by auto
qed simp

lemma ingest_catches_up:
  assumes "node_inv n" "node_inv m" "stats_ok m" "\<And>o'. frontier_for n o' < 2 ^ 64 - 1"
    and "\<And>o'. om_get_or 0 pf o' \<le> frontier_for m o'"
    and "missing_ops_for_frontier pf max_ops n = Some ops" "length ops < max_ops"
    and "welcomes X (roll_node round m) ops"
  shows "frontier_for n o' \<le> frontier_for (fst (ingest_batch X round ops m)) o'"
proof -
  let ?r = "roll_node round m"
  have inv: "log_ok n" "om_inv (op_log n)" using assms(1) by (simp_all add: node_inv_def core_inv_def)
  have invm: "node_inv ?r" "stats_ok ?r" and fr: "frontier_for ?r = frontier_for m"
    using assms(2,3) quiet_roll [of m round] quiet_node_inv quiet_stats_ok by (auto simp: quiet_def)
  have "ops = take max_ops (missing_seq n pf (om_keys (op_log n)))"
    using missing_origins_spec [OF inv(1) assms(4), of "[]" max_ops] assms(6,7) sorted_sort_id [of "om_keys (op_log n)"] inv(2)
    by (auto simp: missing_ops_for_frontier_def om_inv_def om_keys_def strict_sorted_iff split: if_splits)
  then have all: "ops = missing_seq n pf (om_keys (op_log n))" using assms(7) by (metis length_take min_def nat_less_le take_all)
  have "chain (om_get_or 0 pf) ops" using chain_missing [OF inv(1), of pf] unfolding all .
  then have "chain (frontier_for m) ops" by (rule chain_mono) (rule assms(5))
  then have up: "\<forall>op \<in> set ops. op_counter op \<le> frontier_for (fst (fold (ingest_one X) ops (?r, 0))) (op_origin op)"
    by (intro fold_ingest_catches_up) (use invm fr assms(8) in simp_all)
  have b: "batch_spec X (set ops) ?r (fst (ingest_batch X round ops m))"
    by (rule ingest_batch_spec [OF assms(2,3)]) (use assms(8) in \<open>simp add: welcomes_def\<close>)
  show ?thesis
  proof (cases "frontier_for n o' \<le> frontier_for m o'")
    case True
    moreover have "frontier_for ?r o' \<le> frontier_for (fst (ingest_batch X round ops m)) o'"
      using b unfolding batch_spec_def by blast
    ultimately show ?thesis by (simp add: fr)
  next
    case False
    let ?L = "log_for n o'" and ?j = "frontier_for n o' - 1" and ?d = "om_get_or 0 pf o'"
    have L: "length ?L = frontier_for n o'" "op_counter (?L ! ?j) = frontier_for n o'" "op_origin (?L ! ?j) = o'"
      using inv(1) False by (auto simp: log_ok_def)
    have d: "?d < frontier_for n o'" using assms(5) [of o'] False by simp
    have key: "o' \<in> set (om_keys (op_log n))"
      using L False by (auto simp: log_for_def om_get_or_def om_get_None_iff split: option.splits)
        (metis om_get_keys)
    have "?L ! ?j \<in> set (drop ?d ?L)"
      using d L(1) nth_drop [of ?d ?L "?j - ?d"] by (auto simp: in_set_conv_nth intro!: exI [of _ "?j - ?d"])
    then have "?L ! ?j \<in> set ops" using key by (auto simp: all missing_seq_def)
    then show ?thesis using up L by (auto simp: ingest_batch_def roll_node_def)
  qed
qed

text \<open>
  C16. Anti-entropy makes progress: when \<open>m\<close> sends its frontier to \<open>n\<close>, and \<open>n\<close> answers with
  all the operations it finds missing, then a node \<open>m\<close> whose guard has room for them
  has, after ingesting the answer, a frontier at least that of \<open>n\<close> for every origin.
\<close>

theorem anti_entropy_catches_up:
  assumes "node_reachable X n" "node_reachable X m" "\<And>o'. frontier_for n o' < 2 ^ 64 - 1"
    and "missing_ops_for_frontier (frontier_snapshot m) max_ops n = Some ops" "length ops < max_ops"
    and "welcomes X (m\<lparr>guard_st := roll_to round (guard_st m)\<rparr>) ops"
  shows "frontier_for n o' \<le> frontier_for (fst (ingest_batch X round ops m)) o'"
proof (rule ingest_catches_up [OF _ _ _ assms(3) _ assms(4,5)])
  show "om_get_or 0 (frontier_snapshot m) o' \<le> frontier_for m o'" for o' by (simp add: frontier_snapshot_def frontier_for_def)
qed (use reachable_run_inv [OF assms(1)] reachable_run_inv [OF assms(2)] assms(6) in \<open>simp_all add: run_inv_def roll_node_def\<close>)

text \<open>A node that has seen only the first of two operations asks for the rest.\<close>

definition demo_c :: node where
  "demo_c = fst (ingest_batch demo_crates 1 [demo_op] (node_new 3 0 30 [] demo_cfg))"

lemma demo_c_reachable: "node_reachable demo_crates demo_c"
  unfolding demo_c_def
  by (rule reach_step [OF reach_new], rule step_ingest) (auto simp: demo_op_def node_new_def)

lemma demo_c_eval: "frontier demo_c = [(256, 1)]" "known_origins demo_c = [3, 256]" "guard_cfg demo_c = demo_cfg"
  "gs_round (guard_st demo_c) = 1"
  by (simp_all add: demo_c_def node_eval)

theorem anti_entropy_catches_up_witness:
  "2 \<le> frontier_for (fst (ingest_batch demo_crates 2 [demo_op2] demo_c)) 256"
proof -
  have f: "frontier_for demo_a o' < 2 ^ 64 - 1" for o'
    by (simp add: frontier_for_def demo_ab_eval om_get_or_def om_get_def)
  have "welcomes demo_crates (demo_c\<lparr>guard_st := roll_to 2 (guard_st demo_c)\<rparr>) [demo_op2]"
    by (simp add: welcomes_def demo_c_eval demo_op2_def demo_cfg_def valid_pow_def origin_count_def roll_to_def)
  moreover have "missing_ops_for_frontier (frontier_snapshot demo_c) 10 demo_a = Some [demo_op2]"
    by (simp add: missing_ops_for_frontier_def frontier_snapshot_def demo_c_eval demo_ab_eval om_keys_def
        frontier_for_def om_get_or_def om_get_def sat_add_def missing_loop.simps get_opt_def Let_def)
  ultimately have "frontier_for demo_a 256 \<le> frontier_for (fst (ingest_batch demo_crates 2 [demo_op2] demo_c)) 256"
    using anti_entropy_catches_up [OF demo_ab_reachable(1) demo_c_reachable f] by simp
  then show ?thesis by (simp add: frontier_for_def demo_ab_eval om_get_or_def om_get_def)
qed

end
