(* ===== verification/Chunker.thy ===== *)
theory Chunker
  imports Prelude
begin

text \<open>
  \<open>chunker.rs\<close>: cutting a stream into blocks of a fixed size. The reader is what a sequence of
  calls to \<open>read\<close> will see: pieces of data in arrival order, faults, and then end of file. A
  call returns at most what the buffer takes and leaves the rest of the piece; an empty read
  means end of file.
\<close>

datatype read_event = Data bytes | Fail

record chunker =
  ch_reader :: "read_event list"
  ch_chunk_size :: nat
  ch_eof_reached :: bool

definition DEFAULT_BLOCK_SIZE :: nat where
  "DEFAULT_BLOCK_SIZE = 65536"

fun read_some :: "nat \<Rightarrow> read_event list \<Rightarrow> bytes option \<times> read_event list" where
  "read_some cap [] = (Some [], [])"
| "read_some cap (Fail # r) = (None, r)"
| "read_some cap (Data seg # r) = (Some (take cap seg), if length seg \<le> cap then r else Data (drop cap seg) # r)"

definition with_chunk_size :: "read_event list \<Rightarrow> nat \<Rightarrow> (chunker, unit) result" where
  "with_chunk_size reader chunk_size =
     (if 0 < chunk_size then Ok \<lparr>ch_reader = reader, ch_chunk_size = chunk_size, ch_eof_reached = False\<rparr> else Panic)"

definition chunker_new :: "read_event list \<Rightarrow> (chunker, unit) result" where
  "chunker_new reader = with_chunk_size reader DEFAULT_BLOCK_SIZE"

text \<open>The loop of \<open>next_chunk\<close>: the bytes read so far, the end-of-file flag and the reader it leaves.\<close>

function chunk_loop :: "nat \<Rightarrow> bytes \<Rightarrow> read_event list \<Rightarrow> (bytes option, unit) result \<times> bool \<times> read_event list" where
  "chunk_loop sz buffer r =
     (if length buffer < sz
      then (case read_some (sz - length buffer) r of
              (None, r') \<Rightarrow> (Err (), False, r')
            | (Some bs, r') \<Rightarrow>
                if bs = [] then (Ok (if buffer = [] then None else Some buffer), True, r')
                else chunk_loop sz (buffer @ bs) r')
      else (Ok (Some buffer), False, r))"
  by pat_completeness auto
termination
  by (relation "measure (\<lambda>(sz, buffer, r). sz - length buffer)") (auto simp: length_greater_0_conv [symmetric] simp del: length_greater_0_conv)

declare chunk_loop.simps [simp del]

definition next_chunk :: "chunker \<Rightarrow> (bytes option, unit) result \<times> chunker" where
  "next_chunk c =
     (if ch_eof_reached c then (Ok None, c)
      else case chunk_loop (ch_chunk_size c) [] (ch_reader c) of
        (res, eof, r) \<Rightarrow> (res, c\<lparr>ch_eof_reached := eof, ch_reader := r\<rparr>))"

definition chunk_size_of :: "chunker \<Rightarrow> nat" where
  "chunk_size_of c = ch_chunk_size c"

definition is_eof :: "chunker \<Rightarrow> bool" where
  "is_eof c = ch_eof_reached c"

text \<open>A caller that takes chunks until \<open>None\<close> or an error; not returning is \<open>None\<close>.\<close>

partial_function (option) all_chunks :: "chunker \<Rightarrow> bytes list \<Rightarrow> (bytes list, unit) result option" where
  "all_chunks c acc =
     (case next_chunk c of
        (Ok None, c') \<Rightarrow> Some (Ok acc)
      | (Ok (Some chunk), c') \<Rightarrow> all_chunks c' (acc @ [chunk])
      | (Err e, c') \<Rightarrow> Some (Err e)
      | (Panic, c') \<Rightarrow> Some Panic)"

declare all_chunks.simps [code]

section \<open>What a stream holds\<close>

definition piece :: "read_event \<Rightarrow> bytes" where
  "piece ev = (case ev of Data bs \<Rightarrow> bs | Fail \<Rightarrow> [])"

definition contents :: "read_event list \<Rightarrow> bytes" where
  "contents r = concat (map piece r)"

text \<open>A stream without faults and without an empty piece.\<close>

definition clean :: "read_event list \<Rightarrow> bool" where
  "clean r \<longleftrightarrow> (\<forall>ev \<in> set r. \<exists>bs. ev = Data bs \<and> bs \<noteq> [])"

text \<open>The reference: cut a list every \<open>n\<close> elements.\<close>

fun cut_every :: "nat \<Rightarrow> 'a list \<Rightarrow> 'a list list" where
  "cut_every n xs = (if xs = [] \<or> n = 0 then [] else take n xs # cut_every n (drop n xs))"

declare cut_every.simps [simp del]

lemma read_some_clean:
  assumes "clean r" "0 < cap"
  shows "\<exists>bs r'. read_some cap r = (Some bs, r') \<and> clean r' \<and> contents r = bs @ contents r' \<and> length bs \<le> cap
    \<and> (bs = [] \<longleftrightarrow> r = [])"
  using assms by (cases "(cap, r)" rule: read_some.cases) (auto simp: clean_def contents_def piece_def)

lemma chunk_loop_clean:
  assumes "clean r" "length buffer \<le> sz" "0 < sz"
  shows "\<exists>res eof r'. chunk_loop sz buffer r = (Ok res, eof, r') \<and> clean r'
    \<and> res = (let all = buffer @ contents r in if all = [] then None else Some (take sz all))
    \<and> contents r' = drop sz (buffer @ contents r) \<and> (eof \<longrightarrow> contents r' = [])
    \<and> (res = None \<longrightarrow> eof)"
  using assms
proof (induction sz buffer r rule: chunk_loop.induct)
  case (1 sz buffer r)
  show ?case
  proof (cases "length buffer < sz")
    case True
    obtain bs r1 where rd: "read_some (sz - length buffer) r = (Some bs, r1)" "clean r1" "contents r = bs @ contents r1"
      "length bs \<le> sz - length buffer" "bs = [] \<longleftrightarrow> r = []"
      using read_some_clean [OF 1(2), of "sz - length buffer"] True by auto
    show ?thesis
    proof (cases "bs = []")
      case e: True
      then have "contents r = []" "contents r1 = []" using rd by (auto simp: contents_def)
      then show ?thesis using True e rd by (subst chunk_loop.simps) auto
    next
      case False
      have "chunk_loop sz buffer r = chunk_loop sz (buffer @ bs) r1" using True False rd(1) by (subst chunk_loop.simps) simp
      moreover have "length (buffer @ bs) \<le> sz" using rd(4) True by simp
      ultimately show ?thesis using 1(1) [OF True rd(1) [symmetric] refl False rd(2) _ 1(4)] rd(3) by simp
    qed
  next
    case False
    then show ?thesis using 1(2,3,4) by (subst chunk_loop.simps) auto
  qed
qed

lemma all_chunks_clean:
  assumes "clean (ch_reader c)" "0 < ch_chunk_size c" "ch_eof_reached c \<Longrightarrow> contents (ch_reader c) = []"
  shows "all_chunks c acc = Some (Ok (acc @ cut_every (ch_chunk_size c) (contents (ch_reader c))))"
  using assms
proof (induction "length (contents (ch_reader c))" arbitrary: c acc rule: less_induct)
  case less
  let ?n = "ch_chunk_size c" and ?xs = "contents (ch_reader c)"
  show ?case
  proof (cases "ch_eof_reached c")
    case True
    then show ?thesis using less(4) by (subst all_chunks.simps) (simp add: next_chunk_def cut_every.simps)
  next
    case False
    obtain res eof r' where lp: "chunk_loop ?n [] (ch_reader c) = (Ok res, eof, r')" "clean r'"
      "res = (if ?xs = [] then None else Some (take ?n ?xs))" "contents r' = drop ?n ?xs" "eof \<longrightarrow> contents r' = []"
      using chunk_loop_clean [OF less(2), of "[]" ?n] less(3) by (auto simp: Let_def)
    let ?c = "c\<lparr>ch_eof_reached := eof, ch_reader := r'\<rparr>"
    have nc: "next_chunk c = (Ok res, ?c)" using False lp(1) by (simp add: next_chunk_def)
    show ?thesis
    proof (cases "?xs = []")
      case True
      then show ?thesis using lp(3) by (subst all_chunks.simps) (simp add: nc cut_every.simps)
    next
      case ne: False
      have "all_chunks ?c (acc @ [take ?n ?xs]) = Some (Ok ((acc @ [take ?n ?xs]) @ cut_every ?n (drop ?n ?xs)))"
        using less(1) [of ?c "acc @ [take ?n ?xs]"] less(3) lp(2,4,5) ne by simp
      moreover have "all_chunks c acc = all_chunks ?c (acc @ [take ?n ?xs])"
        using lp(3) ne by (subst all_chunks.simps) (simp add: nc)
      moreover have "cut_every ?n ?xs = take ?n ?xs # cut_every ?n (drop ?n ?xs)" using ne less(3) by (simp add: cut_every.simps [of ?n ?xs])
      ultimately show ?thesis by simp
    qed
  qed
qed

lemma cut_concat: "0 < n \<Longrightarrow> concat (cut_every n xs) = xs"
  by (induction n xs rule: cut_every.induct) (simp add: cut_every.simps)

lemma cut_sizes: "0 < n \<Longrightarrow> i < length (cut_every n xs) \<Longrightarrow>
    cut_every n xs ! i \<noteq> [] \<and> length (cut_every n xs ! i) \<le> n \<and> (Suc i < length (cut_every n xs) \<longrightarrow> length (cut_every n xs ! i) = n)"
proof (induction n xs arbitrary: i rule: cut_every.induct)
  case (1 n xs)
  then have ne: "xs \<noteq> []" and c: "cut_every n xs = take n xs # cut_every n (drop n xs)" by (auto simp: cut_every.simps [of n xs])
  show ?case
  proof (cases i)
    case 0
    have "cut_every n (drop n xs) = [] \<longleftrightarrow> length xs \<le> n" using 1(2) by (simp add: cut_every.simps [of n "drop n xs"])
    then show ?thesis using 0 c ne 1(2) by auto
  next
    case (Suc j)
    then show ?thesis using 1(1) [OF _ 1(2), of j] ne 1(2,3) c by auto
  qed
qed

lemma length_cut: "0 < n \<Longrightarrow> length (cut_every n xs) = (length xs + n - 1) div n"
proof (induction n xs rule: cut_every.induct)
  case (1 n xs)
  show ?case
  proof (cases "xs = []")
    case True
    then show ?thesis using 1(2) by (simp add: cut_every.simps)
  next
    case False
    then have len: "length (cut_every n xs) = Suc ((length xs - n + n - 1) div n)" using 1 by (simp add: cut_every.simps [of n xs])
    show ?thesis
    proof (cases "length xs \<le> n")
      case True
      then have "(length xs + n - 1) div n = 1"
        using False 1(2) by (intro div_nat_eqI) (auto simp: Suc_le_eq length_greater_0_conv [symmetric] simp del: length_greater_0_conv)
      moreover have "(n - 1) div n = 0" using 1(2) by simp
      ultimately show ?thesis using len True by simp
    next
      case False
      then have "length xs + n - 1 = (length xs - n + n - 1) + n" using 1(2) by simp
      then have "(length xs + n - 1) div n = Suc ((length xs - n + n - 1) div n)" using 1(2) by (metis div_add_self2 add.commute plus_1_eq_Suc not_gr0)
      then show ?thesis using len by simp
    qed
  qed
qed

text \<open>
  C32. The chunker: however the reader delivers a stream without faults, taking chunks until
  \<open>None\<close> ends and gives the data cut every \<open>chunk_size\<close> bytes: in order, nothing lost or added,
  every chunk full but the last, which is not empty, and as many chunks as the size of the data
  divided by \<open>chunk_size\<close>, rounded up.
\<close>

theorem chunker_correct:
  assumes "with_chunk_size r n = Ok c" "clean r"
  shows "\<exists>chunks. all_chunks c [] = Some (Ok chunks) \<and> concat chunks = contents r
    \<and> length chunks = (length (contents r) + n - 1) div n
    \<and> (\<forall>i < length chunks. chunks ! i \<noteq> [] \<and> length (chunks ! i) \<le> n \<and> (Suc i < length chunks \<longrightarrow> length (chunks ! i) = n))"
proof -
  have n: "0 < n" and c: "c = \<lparr>ch_reader = r, ch_chunk_size = n, ch_eof_reached = False\<rparr>"
    using assms(1) by (auto simp: with_chunk_size_def split: if_splits)
  have run: "all_chunks c [] = Some (Ok (cut_every n (contents r)))" using all_chunks_clean [of c "[]"] assms(2) n by (simp add: c)
  show ?thesis
    using run cut_concat [OF n, of "contents r"] length_cut [OF n, of "contents r"] cut_sizes [OF n, of _ "contents r"] by auto
qed

theorem chunker_correct_witness:
  "\<exists>chunks. all_chunks \<lparr>ch_reader = [Data [1, 2, 3], Data [4], Data [5]], ch_chunk_size = 2, ch_eof_reached = False\<rparr> [] = Some (Ok chunks)
     \<and> concat chunks = [1, 2, 3, 4, 5] \<and> length chunks = 3"
  using chunker_correct [of "[Data [1, 2, 3], Data [4], Data [5]]" 2
      "\<lparr>ch_reader = [Data [1, 2, 3], Data [4], Data [5]], ch_chunk_size = 2, ch_eof_reached = False\<rparr>"]
  by (auto simp: with_chunk_size_def clean_def contents_def piece_def)

end
