(* ===== verification/Cid_Blake3.thy ===== *)
theory Cid_Blake3
  imports Crates
begin

text \<open>
  \<open>neverust-core/src/cid_blake3.rs\<close>: content identifiers of data blocks, the check of data
  against a CID and the streaming verifier. A \<open>blake3::Hasher\<close> is the input it has been fed:
  \<open>update\<close> appends, \<open>finalize\<close> is the digest of the whole. A \<open>Read\<close> is a function from
  the reader's state and the buffer length to the bytes read and the next state.
\<close>

definition BLAKE3_CODE :: nat where "BLAKE3_CODE = 0x1e"

definition SHA2_256_CODE :: nat where "SHA2_256_CODE = 0x12"

definition ARCHIVIST_BLOCK_CODEC :: nat where "ARCHIVIST_BLOCK_CODEC = 0xcd02"

lemmas codec_defs = BLAKE3_CODE_def SHA2_256_CODE_def ARCHIVIST_BLOCK_CODEC_def

datatype cid_error =
    InvalidCid string
  | HashMismatch string string
  | CidIo string
  | CidMultihash string

definition blake3_hash :: "('c, 'm) crates \<Rightarrow> bytes \<Rightarrow> bytes" where
  "blake3_hash X data = blake3 X data"

definition blake3_cid :: "('c, 'm) crates \<Rightarrow> bytes \<Rightarrow> ('c, cid_error) result" where
  "blake3_cid X data =
     (let hash = blake3_hash X data in
      rbind (ok_or (mh_wrap X BLAKE3_CODE hash) (CidMultihash ''Failed to create multihash''))
        (\<lambda>mh. Ok (cid_new_v1 X ARCHIVIST_BLOCK_CODEC mh)))"

definition sha256_hash :: "('c, 'm) crates \<Rightarrow> bytes \<Rightarrow> bytes" where
  "sha256_hash X data = sha256 X data"

definition sha256_cid :: "('c, 'm) crates \<Rightarrow> bytes \<Rightarrow> ('c, cid_error) result" where
  "sha256_cid X data =
     (let hash = sha256_hash X data in
      rbind (ok_or (mh_wrap X SHA2_256_CODE hash) (CidMultihash ''Failed to create multihash''))
        (\<lambda>mh. Ok (cid_new_v1 X ARCHIVIST_BLOCK_CODEC mh)))"

definition verify_blake3 :: "('c, 'm) crates \<Rightarrow> bytes \<Rightarrow> 'c \<Rightarrow> (unit, cid_error) result" where
  "verify_blake3 X data expected_cid =
     (let code = mh_code X (cid_hash X expected_cid) in
      rbind
        (if code = BLAKE3_CODE then blake3_cid X data
         else if code = SHA2_256_CODE then sha256_cid X data
         else Err (InvalidCid ''Unsupported multihash code''))
        (\<lambda>computed_cid.
          if computed_cid \<noteq> expected_cid
          then Err (HashMismatch (cid_to_string X expected_cid) (cid_to_string X computed_cid))
          else Ok ()))"

definition parse_cid :: "('c, 'm) crates \<Rightarrow> bytes \<Rightarrow> ('c, cid_error) result" where
  "parse_cid X bs = ok_or (cid_try_from X bs) (InvalidCid ''cid'')"

definition parse_cid_str :: "('c, 'm) crates \<Rightarrow> string \<Rightarrow> ('c, cid_error) result" where
  "parse_cid_str X s = ok_or (cid_parse X s) (InvalidCid ''cid'')"

section \<open>The streaming verifier\<close>

record 'c streaming_verifier =
  sv_hasher :: bytes
  sv_expected_cid :: "'c option"
  sv_bytes_processed :: nat

definition sv_new :: "'c streaming_verifier" where
  "sv_new = \<lparr>sv_hasher = [], sv_expected_cid = None, sv_bytes_processed = 0\<rparr>"

definition sv_new_with_cid :: "'c \<Rightarrow> 'c streaming_verifier" where
  "sv_new_with_cid c = \<lparr>sv_hasher = [], sv_expected_cid = Some c, sv_bytes_processed = 0\<rparr>"

definition sv_update :: "bytes \<Rightarrow> 'c streaming_verifier \<Rightarrow> 'c streaming_verifier" where
  "sv_update data v =
     v\<lparr>sv_hasher := sv_hasher v @ data, sv_bytes_processed := sv_bytes_processed v + length data\<rparr>"

text \<open>
  The read loop ends at the first empty read; a reader that never reports the end keeps it
  going, which is the value \<open>None\<close>.
\<close>

partial_function (option) update_from_reader_loop ::
  "('r \<Rightarrow> nat \<Rightarrow> (bytes \<times> 'r, string) result) \<Rightarrow> 'r \<Rightarrow> 'c streaming_verifier \<Rightarrow> nat \<Rightarrow>
     ((nat, string) result \<times> 'c streaming_verifier \<times> 'r) option" where
  "update_from_reader_loop rd r v total_read =
     (case rd r 8192 of
        Ok (chunk, r') \<Rightarrow>
          if chunk = [] then Some (Ok total_read, v, r')
          else update_from_reader_loop rd r' (sv_update chunk v) (total_read + length chunk)
      | Err e \<Rightarrow> Some (Err e, v, r)
      | Panic \<Rightarrow> Some (Panic, v, r))"

declare update_from_reader_loop.simps [code]

definition update_from_reader ::
  "('r \<Rightarrow> nat \<Rightarrow> (bytes \<times> 'r, string) result) \<Rightarrow> 'r \<Rightarrow> 'c streaming_verifier \<Rightarrow>
     ((nat, string) result \<times> 'c streaming_verifier \<times> 'r) option" where
  "update_from_reader rd r v = update_from_reader_loop rd r v 0"

definition sv_finalize :: "('c, 'm) crates \<Rightarrow> 'c streaming_verifier \<Rightarrow> ('c, cid_error) result" where
  "sv_finalize X v =
     (case mh_wrap X BLAKE3_CODE (blake3 X (sv_hasher v)) of
        Some mh \<Rightarrow> Ok (cid_new_v1 X ARCHIVIST_BLOCK_CODEC mh)
      | None \<Rightarrow> Panic)"

definition finalize_and_verify :: "('c, 'm) crates \<Rightarrow> 'c streaming_verifier \<Rightarrow> ('c, cid_error) result" where
  "finalize_and_verify X v =
     rbind (sv_finalize X v) (\<lambda>computed_cid.
       case sv_expected_cid v of
         Some expected \<Rightarrow>
           if computed_cid \<noteq> expected
           then Err (HashMismatch (cid_to_string X expected) (cid_to_string X computed_cid))
           else Ok computed_cid
       | None \<Rightarrow> Ok computed_cid)"

section \<open>CIDs of data\<close>

lemma blake3_cid_Ok:
  assumes "digest_law X" "mh_wrap_law X"
  obtains m where "mh_wrap X BLAKE3_CODE (blake3 X data) = Some m"
    and "blake3_cid X data = Ok (cid_new_v1 X ARCHIVIST_BLOCK_CODEC m)"
  using mh_wrap_Ex [OF assms(2), of "blake3 X data" BLAKE3_CODE] assms(1)
  by (auto simp: blake3_cid_def blake3_hash_def)

lemma sha256_cid_Ok:
  assumes "digest_law X" "mh_wrap_law X"
  obtains m where "mh_wrap X SHA2_256_CODE (sha256 X data) = Some m"
    and "sha256_cid X data = Ok (cid_new_v1 X ARCHIVIST_BLOCK_CODEC m)"
  using mh_wrap_Ex [OF assms(2), of "sha256 X data" SHA2_256_CODE] assms(1)
  by (auto simp: sha256_cid_def sha256_hash_def)

lemma blake3_cid_parts:
  assumes "cid_new_law X" "mh_wrap_law X" "blake3_cid X data = Ok c"
  shows "cid_codec X c = ARCHIVIST_BLOCK_CODEC" "mh_code X (cid_hash X c) = BLAKE3_CODE"
    "mh_digest X (cid_hash X c) = blake3 X data"
  using assms by (auto simp: blake3_cid_def blake3_hash_def result_simps dest: mh_wrap_SomeD)

lemma sha256_cid_parts:
  assumes "cid_new_law X" "mh_wrap_law X" "sha256_cid X data = Ok c"
  shows "cid_codec X c = ARCHIVIST_BLOCK_CODEC" "mh_code X (cid_hash X c) = SHA2_256_CODE"
    "mh_digest X (cid_hash X c) = sha256 X data"
  using assms by (auto simp: sha256_cid_def sha256_hash_def result_simps dest: mh_wrap_SomeD)

lemma verify_blake3_Ok_iff:
  "verify_blake3 X data c = Ok () \<longleftrightarrow>
     (mh_code X (cid_hash X c) = BLAKE3_CODE \<and> blake3_cid X data = Ok c) \<or>
     (mh_code X (cid_hash X c) = SHA2_256_CODE \<and> sha256_cid X data = Ok c)"
  by (auto simp: verify_blake3_def codec_defs Let_def result_simps split: if_splits)

lemma verify_blake3_digest:
  assumes "cid_new_law X" "mh_wrap_law X" "verify_blake3 X data c = Ok ()"
  shows "cid_codec X c = ARCHIVIST_BLOCK_CODEC"
    and "(mh_code X (cid_hash X c) = BLAKE3_CODE \<and> mh_digest X (cid_hash X c) = blake3 X data) \<or>
         (mh_code X (cid_hash X c) = SHA2_256_CODE \<and> mh_digest X (cid_hash X c) = sha256 X data)"
  using assms(3) blake3_cid_parts [OF assms(1,2)] sha256_cid_parts [OF assms(1,2)]
  by (auto simp: verify_blake3_Ok_iff)

text \<open>
  C29. Content addressing binds: two byte strings that \<open>verify_blake3\<close> accepts for one CID are
  equal, or they are themselves a collision of one of the two hash functions.
\<close>

theorem verify_blake3_binding:
  assumes "cid_new_law X" "mh_wrap_law X"
    and "verify_blake3 X data c = Ok ()" "verify_blake3 X data' c = Ok ()"
  shows "data = data' \<or> colliding (blake3 X) {data} {data'} \<or> colliding (sha256 X) {data} {data'}"
proof -
  have "blake3 X data = blake3 X data' \<or> sha256 X data = sha256 X data'"
    using verify_blake3_digest(2) [OF assms(1,2,3)] verify_blake3_digest(2) [OF assms(1,2,4)]
    by (auto simp: codec_defs)
  then show ?thesis by (auto simp: colliding_def)
qed

theorem verify_blake3_binding_witness:
  "\<exists>c. verify_blake3 demo_crates [1, 2] c = Ok () \<and>
     ([1, 2 :: u8] = [1, 2] \<or> colliding (blake3 demo_crates) {[1, 2]} {[1, 2]} \<or>
      colliding (sha256 demo_crates) {[1, 2]} {[1, 2]})"
proof -
  obtain m where c: "blake3_cid demo_crates [1, 2] = Ok (cid_new_v1 demo_crates ARCHIVIST_BLOCK_CODEC m)"
    by (rule blake3_cid_Ok [OF demo_digest_law demo_mh_wrap_law])
  let ?c = "cid_new_v1 demo_crates ARCHIVIST_BLOCK_CODEC m"
  have v: "verify_blake3 demo_crates [1, 2] ?c = Ok ()"
    using c blake3_cid_parts(2) [of demo_crates, OF _ _ c] by (simp add: verify_blake3_Ok_iff)
  show ?thesis
    using v verify_blake3_binding [OF demo_cid_new_law demo_mh_wrap_law v v] by blast
qed

text \<open>A CID computed from data verifies that data, with either hash function.\<close>

lemma verify_blake3_own_cid:
  assumes "cid_new_law X" "mh_wrap_law X"
  shows "blake3_cid X data = Ok c \<Longrightarrow> verify_blake3 X data c = Ok ()"
    and "sha256_cid X data = Ok c \<Longrightarrow> verify_blake3 X data c = Ok ()"
  using assms by (auto simp: verify_blake3_Ok_iff blake3_cid_parts sha256_cid_parts)

section \<open>Streaming\<close>

fun sv_updates :: "bytes list \<Rightarrow> 'c streaming_verifier \<Rightarrow> 'c streaming_verifier" where
  "sv_updates [] v = v"
| "sv_updates (d # ds) v = sv_updates ds (sv_update d v)"

lemma sv_updates_fields [simp]:
  "sv_hasher (sv_updates ds v) = sv_hasher v @ concat ds"
  "sv_bytes_processed (sv_updates ds v) = sv_bytes_processed v + length (concat ds)"
  "sv_expected_cid (sv_updates ds v) = sv_expected_cid v"
  by (induction ds arbitrary: v) (auto simp: sv_update_def)

lemma sv_finalize_eq_blake3_cid:
  assumes "digest_law X" "mh_wrap_law X"
  shows "sv_finalize X v = blake3_cid X (sv_hasher v)"
proof -
  obtain m where "mh_wrap X BLAKE3_CODE (blake3 X (sv_hasher v)) = Some m"
    "blake3_cid X (sv_hasher v) = Ok (cid_new_v1 X ARCHIVIST_BLOCK_CODEC m)"
    by (rule blake3_cid_Ok [OF assms])
  then show ?thesis by (simp add: sv_finalize_def)
qed

text \<open>
  The streaming verifier agrees with the one-shot check however the data is cut into
  pieces: it accepts exactly when the expected CID is the BLAKE3 block CID of the concatenation,
  and it never panics.
\<close>

lemma finalize_and_verify_correct:
  assumes "digest_law X" "mh_wrap_law X"
  shows "\<exists>c'. blake3_cid X (concat ds) = Ok c' \<and>
    finalize_and_verify X (sv_updates ds (sv_new_with_cid c)) =
      (if c' = c then Ok c else Err (HashMismatch (cid_to_string X c) (cid_to_string X c')))"
proof -
  obtain m where m: "blake3_cid X (concat ds) = Ok (cid_new_v1 X ARCHIVIST_BLOCK_CODEC m)"
    by (rule blake3_cid_Ok [OF assms])
  then show ?thesis
    by (auto simp: finalize_and_verify_def sv_finalize_eq_blake3_cid [OF assms] sv_new_with_cid_def)
qed

end
