(* ===== verification/Storage_Base.thy ===== *)
theory Storage_Base
  imports Cid_Blake3 Ord_Map
begin

text \<open>
  What the storage backends of \<open>storage.rs\<close> share: errors, blocks, size classes. Error
  messages keep their fixed text; numbers and names formatted into them are left out.
\<close>

datatype storage_error =
    BlockNotFound string
  | VerificationFailed cid_error
  | BlockExists string
  | DatabaseError string
  | IoError string

record 'c block =
  block_cid :: 'c
  block_data :: bytes

definition block_new :: "('c, 'm) crates \<Rightarrow> bytes \<Rightarrow> ('c block, cid_error) result" where
  "block_new X data = rbind (blake3_cid X data) (\<lambda>c. Ok \<lparr>block_cid = c, block_data = data\<rparr>)"

definition block_new_sha256 :: "('c, 'm) crates \<Rightarrow> bytes \<Rightarrow> ('c block, cid_error) result" where
  "block_new_sha256 X data = rbind (sha256_cid X data) (\<lambda>c. Ok \<lparr>block_cid = c, block_data = data\<rparr>)"

definition from_cid_and_data :: "('c, 'm) crates \<Rightarrow> 'c \<Rightarrow> bytes \<Rightarrow> ('c block, cid_error) result" where
  "from_cid_and_data X c data = rbind (verify_blake3 X data c) (\<lambda>_. Ok \<lparr>block_cid = c, block_data = data\<rparr>)"

definition block_size_of :: "'c block \<Rightarrow> nat" where
  "block_size_of b = length (block_data b)"

definition DELTA_SIZE_CLASSES :: "nat list" where
  "DELTA_SIZE_CLASSES =
     [512 * 1024, 1024 * 1024, 2 * 1024 * 1024, 4 * 1024 * 1024, 8 * 1024 * 1024, 16 * 1024 * 1024,
      32 * 1024 * 1024, 64 * 1024 * 1024, 128 * 1024 * 1024, 256 * 1024 * 1024, 512 * 1024 * 1024]"

fun class_loop :: "nat \<Rightarrow> nat list \<Rightarrow> nat \<Rightarrow> (nat \<times> nat) option" where
  "class_loop i [] len = None"
| "class_loop i (class # cs) len = (if len \<le> class then Some (i, class) else class_loop (i + 1) cs len)"

definition class_for_len :: "nat \<Rightarrow> nat \<times> nat" where
  "class_for_len len =
     (case class_loop 0 DELTA_SIZE_CLASSES len of
        Some r \<Rightarrow> r
      | None \<Rightarrow> (length DELTA_SIZE_CLASSES - 1, last DELTA_SIZE_CLASSES))"

lemma class_loop_bound: "class_loop i cs len = Some (j, c) \<Longrightarrow> i \<le> j \<and> j < i + length cs \<and> c = cs ! (j - i) \<and> len \<le> c"
proof (induction i cs len rule: class_loop.induct)
  case (2 i cl cs len)
  then show ?case by (cases "len \<le> cl") (auto simp: nth_Cons')
qed simp

lemma class_for_len_less: "fst (class_for_len len) < 11"
proof (cases "class_loop 0 DELTA_SIZE_CLASSES len")
  case None
  then show ?thesis by (simp add: class_for_len_def DELTA_SIZE_CLASSES_def)
next
  case (Some r)
  then show ?thesis using class_loop_bound [of 0 DELTA_SIZE_CLASSES len "fst r" "snd r"]
    by (simp add: class_for_len_def) (simp add: DELTA_SIZE_CLASSES_def)
qed

text \<open>The optional check of \<open>put_many\<close>: only with \<open>NEVERUST_VERIFY_BLOCKS_ON_WRITE\<close>, only for codec 0xcd02.\<close>

fun verify_on_write :: "('c, 'm) crates \<Rightarrow> bool \<Rightarrow> 'c block list \<Rightarrow> (unit, storage_error) result" where
  "verify_on_write X flag [] = Ok ()"
| "verify_on_write X flag (b # bs) =
     rbind (if flag \<and> cid_codec X (block_cid b) = 0xcd02
            then map_err VerificationFailed (verify_blake3 X (block_data b) (block_cid b)) else Ok ())
       (\<lambda>_. verify_on_write X flag bs)"

end
