(* ===== verification/Pending_Blocks.thy ===== *)
theory Pending_Blocks
  imports Storage_Base "HOL-Library.AList"
begin

text \<open>
  \<open>pending_blocks.rs\<close>: the requests that wait for a block, with their retries, and the oneshot
  channels that complete them. Channels are numbered in the order they are made; the state of a
  channel is what its receiver sees: still open, the block it received, or closed because the
  sender was dropped. An instant is a number of time units; operations that read the clock take
  the current instant. The mutex makes every operation one step.
\<close>

datatype 'c channel = ChanOpen | ChanSent "'c block" | ChanClosed

record pending_block =
  pb_sender :: nat
  pb_retries_left :: nat
  pb_last_attempt :: nat
  pb_in_flight :: bool
  pb_start_time :: nat

record 'c pending_state =
  ps_pending :: "('c \<times> pending_block) list"
  ps_max_retries :: nat
  ps_retry_interval :: nat
  ps_chans :: "'c channel list"

definition DEFAULT_MAX_RETRIES :: nat where "DEFAULT_MAX_RETRIES = 3"
definition DEFAULT_RETRY_INTERVAL :: nat where "DEFAULT_RETRY_INTERVAL = 500"

definition with_config :: "nat \<Rightarrow> nat \<Rightarrow> 'c pending_state" where
  "with_config max_retries retry_interval =
     \<lparr>ps_pending = [], ps_max_retries = max_retries, ps_retry_interval = retry_interval, ps_chans = []\<rparr>"

definition pending_new :: "'c pending_state" where
  "pending_new = with_config DEFAULT_MAX_RETRIES DEFAULT_RETRY_INTERVAL"

definition is_pending :: "'c \<Rightarrow> 'c pending_state \<Rightarrow> bool" where
  "is_pending cid st = (map_of (ps_pending st) cid \<noteq> None)"

text \<open>The receiver is the number of the channel.\<close>

definition add_pending :: "nat \<Rightarrow> 'c \<Rightarrow> 'c pending_state \<Rightarrow> nat \<times> 'c pending_state" where
  "add_pending now cid st =
     (let ch = length (ps_chans st) in
      case map_of (ps_pending st) cid of
        Some _ \<Rightarrow> (ch, st\<lparr>ps_chans := ps_chans st @ [ChanClosed]\<rparr>)
      | None \<Rightarrow>
        (ch, st\<lparr>ps_chans := ps_chans st @ [ChanOpen],
                ps_pending := (cid, \<lparr>pb_sender = ch, pb_retries_left = ps_max_retries st, pb_last_attempt = now,
                                     pb_in_flight = False, pb_start_time = now\<rparr>) # ps_pending st\<rparr>))"

definition complete :: "'c \<Rightarrow> 'c block \<Rightarrow> 'c pending_state \<Rightarrow> bool \<times> 'c pending_state" where
  "complete cid block st =
     (case map_of (ps_pending st) cid of
        Some p \<Rightarrow> (True, st\<lparr>ps_pending := AList.delete cid (ps_pending st), ps_chans := (ps_chans st)[pb_sender p := ChanSent block]\<rparr>)
      | None \<Rightarrow> (False, st))"

definition set_in_flight :: "nat \<Rightarrow> 'c \<Rightarrow> bool \<Rightarrow> 'c pending_state \<Rightarrow> 'c pending_state" where
  "set_in_flight now cid in_flight st =
     st\<lparr>ps_pending := AList.map_entry cid
       (\<lambda>p. if in_flight then p\<lparr>pb_in_flight := True, pb_last_attempt := now\<rparr> else p\<lparr>pb_in_flight := False\<rparr>) (ps_pending st)\<rparr>"

definition is_in_flight :: "'c \<Rightarrow> 'c pending_state \<Rightarrow> bool" where
  "is_in_flight cid st = (case map_of (ps_pending st) cid of Some p \<Rightarrow> pb_in_flight p | None \<Rightarrow> False)"

definition should_retry :: "nat \<Rightarrow> 'c \<Rightarrow> 'c pending_state \<Rightarrow> bool" where
  "should_retry now cid st =
     (case map_of (ps_pending st) cid of
        Some p \<Rightarrow> \<not> pb_in_flight p \<and> 0 < pb_retries_left p \<and> ps_retry_interval st \<le> now - pb_last_attempt p
      | None \<Rightarrow> False)"

definition decrement_retries :: "'c \<Rightarrow> 'c pending_state \<Rightarrow> 'c pending_state" where
  "decrement_retries cid st =
     st\<lparr>ps_pending := AList.map_entry cid
       (\<lambda>p. if 0 < pb_retries_left p then p\<lparr>pb_retries_left := pb_retries_left p - 1\<rparr> else p) (ps_pending st)\<rparr>"

definition get_pending_cids :: "'c pending_state \<Rightarrow> 'c list" where
  "get_pending_cids st = map fst (ps_pending st)"

definition pending_len :: "'c pending_state \<Rightarrow> nat" where
  "pending_len st = length (ps_pending st)"

definition pending_is_empty :: "'c pending_state \<Rightarrow> bool" where
  "pending_is_empty st = (ps_pending st = [])"

definition retries_remaining :: "'c \<Rightarrow> 'c pending_state \<Rightarrow> nat option" where
  "retries_remaining cid st = map_option pb_retries_left (map_of (ps_pending st) cid)"

definition retries_exhausted :: "'c \<Rightarrow> 'c pending_state \<Rightarrow> bool" where
  "retries_exhausted cid st = (case map_of (ps_pending st) cid of Some p \<Rightarrow> pb_retries_left p = 0 | None \<Rightarrow> False)"

text \<open>Dropping a request drops its sender.\<close>

definition pending_clear :: "'c pending_state \<Rightarrow> 'c pending_state" where
  "pending_clear st =
     st\<lparr>ps_pending := [], ps_chans := fold (\<lambda>(_, p) cs. cs[pb_sender p := ChanClosed]) (ps_pending st) (ps_chans st)\<rparr>"

definition cancel :: "'c \<Rightarrow> 'c pending_state \<Rightarrow> bool \<times> 'c pending_state" where
  "cancel cid st =
     (case map_of (ps_pending st) cid of
        Some p \<Rightarrow> (True, st\<lparr>ps_pending := AList.delete cid (ps_pending st), ps_chans := (ps_chans st)[pb_sender p := ChanClosed]\<rparr>)
      | None \<Rightarrow> (False, st))"

section \<open>Histories\<close>

text \<open>
  A step of a client. \<open>asked\<close> is the history: the CID each channel was made for.
\<close>

inductive pending_step :: "'c pending_state \<times> 'c list \<Rightarrow> 'c pending_state \<times> 'c list \<Rightarrow> bool" where
  add: "pending_step (st, asked) (snd (add_pending now cid st), asked @ [cid])"
| complete: "block_cid b = cid \<Longrightarrow> pending_step (st, asked) (snd (complete cid b st), asked)"
| in_flight: "pending_step (st, asked) (set_in_flight now cid f st, asked)"
| decrement: "pending_step (st, asked) (decrement_retries cid st, asked)"
| clear: "pending_step (st, asked) (pending_clear st, asked)"
| cancel: "pending_step (st, asked) (snd (cancel cid st), asked)"

inductive pending_reach :: "nat \<Rightarrow> nat \<Rightarrow> 'c pending_state \<times> 'c list \<Rightarrow> bool" for mr ri where
  init: "pending_reach mr ri (with_config mr ri, [])"
| step: "pending_reach mr ri s \<Longrightarrow> pending_step s s' \<Longrightarrow> pending_reach mr ri s'"

inductive_cases pending_stepE: "pending_step (st, asked) s'"

section \<open>The invariant\<close>

text \<open>
  Requests and open channels are in one-to-one correspondence, the channel of a request was made
  for its CID, what a channel received is a block of the CID it was made for, and no request has
  more retries than configured.
\<close>

definition request_ok :: "nat \<Rightarrow> 'c channel list \<Rightarrow> 'c list \<Rightarrow> 'c \<times> pending_block \<Rightarrow> bool" where
  "request_ok mr chans asked r \<longleftrightarrow> pb_sender (snd r) < length chans \<and> chans ! pb_sender (snd r) = ChanOpen
     \<and> asked ! pb_sender (snd r) = fst r \<and> pb_retries_left (snd r) \<le> mr"

definition sender_of :: "'c \<times> pending_block \<Rightarrow> nat" where
  "sender_of r = pb_sender (snd r)"

definition pending_inv :: "nat \<Rightarrow> 'c pending_state \<Rightarrow> 'c list \<Rightarrow> bool" where
  "pending_inv mr st asked \<longleftrightarrow>
     distinct (map fst (ps_pending st)) \<and> distinct (map sender_of (ps_pending st))
   \<and> length asked = length (ps_chans st) \<and> ps_max_retries st = mr
   \<and> list_all (request_ok mr (ps_chans st) asked) (ps_pending st)
   \<and> (\<forall>i < length (ps_chans st). ps_chans st ! i = ChanOpen \<longrightarrow> i \<in> sender_of ` set (ps_pending st))
   \<and> (\<forall>i < length (ps_chans st). \<forall>b. ps_chans st ! i = ChanSent b \<longrightarrow> block_cid b = asked ! i)"

lemma pending_invD:
  assumes "pending_inv mr st asked"
  shows "distinct (map fst (ps_pending st))" "distinct (map sender_of (ps_pending st))" "length asked = length (ps_chans st)"
    "ps_max_retries st = mr" "list_all (request_ok mr (ps_chans st) asked) (ps_pending st)"
    "\<And>i. i < length (ps_chans st) \<Longrightarrow> ps_chans st ! i = ChanOpen \<Longrightarrow> i \<in> sender_of ` set (ps_pending st)"
    "\<And>i b. i < length (ps_chans st) \<Longrightarrow> ps_chans st ! i = ChanSent b \<Longrightarrow> block_cid b = asked ! i"
  using assms unfolding pending_inv_def by blast+

lemma map_entry_keeps:
  assumes "\<And>p. pb_sender (f p) = pb_sender p" "\<And>p. pb_retries_left (f p) \<le> pb_retries_left p" "pending_inv mr st asked"
  shows "pending_inv mr (st\<lparr>ps_pending := AList.map_entry cid f (ps_pending st)\<rparr>) asked"
proof -
  let ?m = "AList.map_entry cid f"
  have k: "map fst (?m al) = map fst al" for al by (induction al) auto
  have s: "map sender_of (?m al) = map sender_of al" for al by (induction al) (auto simp: sender_of_def assms(1))
  have i: "sender_of ` set (?m al) = sender_of ` set al" for al by (metis list.set_map s)
  have r: "list_all (request_ok mr cs as) al \<Longrightarrow> list_all (request_ok mr cs as) (?m al)" for cs as al
    by (induction al) (auto simp: request_ok_def assms(1) intro: le_trans [OF assms(2)])
  show ?thesis using pending_invD [OF assms(3)] r unfolding pending_inv_def by (simp add: k s i)
qed

text \<open>A request leaves, and its channel gets a value for its receiver.\<close>

lemma drop_request:
  assumes "pending_inv mr st asked" "map_of (ps_pending st) cid = Some p" "v \<noteq> ChanOpen" "\<And>b. v = ChanSent b \<Longrightarrow> block_cid b = cid"
  shows "pending_inv mr (st\<lparr>ps_pending := AList.delete cid (ps_pending st), ps_chans := (ps_chans st)[pb_sender p := v]\<rparr>) asked"
proof -
  note inv = pending_invD [OF assms(1)]
  have mem: "(cid, p) \<in> set (ps_pending st)" using assms(2) by (rule map_of_SomeD)
  then have ok: "request_ok mr (ps_chans st) asked (cid, p)" using inv(5) by (auto simp: list_all_iff)
  have del: "AList.delete cid (ps_pending st) = filter (\<lambda>r. fst r \<noteq> cid) (ps_pending st)" by (auto simp: AList.delete_eq intro!: filter_cong)
  have uniq: "sender_of r \<noteq> pb_sender p" if "r \<in> set (ps_pending st)" "fst r \<noteq> cid" for r
  proof
    assume "sender_of r = pb_sender p"
    then have "sender_of r = sender_of (cid, p)" by (simp add: sender_of_def)
    then have "r = (cid, p)" using inv(2) that(1) mem by (auto simp: distinct_map dest: inj_onD)
    then show False using that(2) by simp
  qed
  have "list_all (request_ok mr ((ps_chans st)[pb_sender p := v]) asked) (filter (\<lambda>r. fst r \<noteq> cid) (ps_pending st))"
    using inv(5) uniq by (fastforce simp: list_all_iff request_ok_def sender_of_def)
  moreover have "i \<in> sender_of ` set (filter (\<lambda>r. fst r \<noteq> cid) (ps_pending st))"
    if il: "i < length (ps_chans st)" and io: "(ps_chans st)[pb_sender p := v] ! i = ChanOpen" for i
  proof -
    have ne: "i \<noteq> pb_sender p" using il io assms(3) by (auto simp: nth_list_update)
    then have "ps_chans st ! i = ChanOpen" using io by simp
    then obtain r where r: "r \<in> set (ps_pending st)" "i = sender_of r" using inv(6) [of i] il by blast
    have "fst r \<noteq> cid"
    proof
      assume "fst r = cid"
      then have "r = (cid, p)" using inv(1) r(1) mem by (metis eq_key_imp_eq_value prod.collapse)
      then show False using ne r(2) by (simp add: sender_of_def)
    qed
    then show ?thesis using r by auto
  qed
  moreover have "block_cid b = asked ! i" if "i < length (ps_chans st)" "(ps_chans st)[pb_sender p := v] ! i = ChanSent b" for i b
    using that inv(7) [of i b] assms(4) ok by (cases "i = pb_sender p") (auto simp: request_ok_def)
  moreover have "distinct (map f (filter P (ps_pending st)))" if "distinct (map f (ps_pending st))" for f :: "'a \<times> pending_block \<Rightarrow> 'b" and P
    using that by (rule distinct_map_filter)
  ultimately show ?thesis using inv unfolding pending_inv_def del by (simp add: distinct_map_filter)
qed

lemma fold_close:
  "length (fold (\<lambda>(_, p) cs. cs[pb_sender p := ChanClosed]) al cs) = length cs \<and>
   (i < length cs \<longrightarrow> fold (\<lambda>(_, p) cs. cs[pb_sender p := ChanClosed]) al cs ! i = (if i \<in> sender_of ` set al then ChanClosed else cs ! i))"
  proof (induction al arbitrary: cs)
  case (Cons r al)
  show ?case using Cons [of "cs[sender_of r := ChanClosed]"] by (cases r) (auto simp: sender_of_def nth_list_update)
qed simp

lemma clear_keeps:
  assumes "pending_inv mr st asked"
  shows "pending_inv mr (pending_clear st) asked"
proof -
  note inv = pending_invD [OF assms]
  note close = fold_close [where cs = "ps_chans st" and al = "ps_pending st"]
  show ?thesis
    unfolding pending_inv_def pending_clear_def using inv(3,4,6,7) close by (auto split: if_splits)
qed

lemma add_keeps:
  assumes "pending_inv mr st asked"
  shows "pending_inv mr (snd (add_pending now cid st)) (asked @ [cid])"
proof -
  note inv = pending_invD [OF assms]
  have old: "list_all (request_ok mr (ps_chans st @ [v]) (asked @ [cid])) (ps_pending st)" for v
    using inv(3,5) by (auto simp: list_all_iff request_ok_def nth_append)
  have ns: "length (ps_chans st) \<notin> sender_of ` set (ps_pending st)"
    using inv(5) by (fastforce simp: list_all_iff request_ok_def sender_of_def)
  have sent: "block_cid b = (asked @ [cid]) ! i" if "i < Suc (length (ps_chans st))" "(ps_chans st @ [v]) ! i = ChanSent b" "\<And>x. v \<noteq> ChanSent x" for i b v
    using that inv(3) inv(7) [of i b] by (auto simp: nth_append less_Suc_eq)
  have opened: "i \<in> insert j (sender_of ` set (ps_pending st))"
    if "i < Suc (length (ps_chans st))" "(ps_chans st @ [v]) ! i = ChanOpen" "v = ChanOpen \<longrightarrow> j = length (ps_chans st)" for i j v
    using that inv(6) [of i] by (auto simp: nth_append less_Suc_eq)
  show ?thesis
  proof (cases "map_of (ps_pending st) cid")
    case (Some p)
    have "i \<in> sender_of ` set (ps_pending st)" if "i < Suc (length (ps_chans st))" "(ps_chans st @ [ChanClosed]) ! i = ChanOpen" for i
      using that inv(6) [of i] by (auto simp: nth_append less_Suc_eq)
    then show ?thesis
      unfolding pending_inv_def using inv(1-4) old [of ChanClosed] sent [of _ ChanClosed] by (simp add: add_pending_def Some Let_def)
  next
    case None
    then have nk: "cid \<notin> fst ` set (ps_pending st)" by (simp add: map_of_eq_None_iff)
    show ?thesis
      unfolding pending_inv_def using inv(1-4) old [of ChanOpen] sent [of _ ChanOpen] opened [of _ ChanOpen "length (ps_chans st)"] nk ns
      by (simp add: add_pending_def None Let_def sender_of_def request_ok_def nth_append)
  qed
qed

lemma step_keeps: "pending_step (st, asked) (st', asked') \<Longrightarrow> pending_inv mr st asked \<Longrightarrow> pending_inv mr st' asked'"
  by (erule pending_stepE)
    (auto simp: add_keeps clear_keeps complete_def cancel_def set_in_flight_def decrement_retries_def
      intro!: map_entry_keeps drop_request split: option.splits)

lemma reach_inv: "pending_reach mr ri s \<Longrightarrow> pending_inv mr (fst s) (snd s)"
proof (induction rule: pending_reach.induct)
  case init
  then show ?case by (simp add: pending_inv_def with_config_def)
next
  case (step s s')
  then show ?case using step_keeps [of "fst s" "snd s" "fst s'" "snd s'"] by simp
qed

lemma pending_iff_open:
  assumes "pending_inv mr st asked"
  shows "is_pending cid st \<longleftrightarrow> (\<exists>!i. i < length (ps_chans st) \<and> ps_chans st ! i = ChanOpen \<and> asked ! i = cid)"
proof -
  note inv = pending_invD [OF assms]
  have open_of: "\<exists>p. (asked ! i, p) \<in> set (ps_pending st) \<and> pb_sender p = i" if "i < length (ps_chans st)" "ps_chans st ! i = ChanOpen" for i
    using inv(6) [OF that] inv(5) by (fastforce simp: list_all_iff request_ok_def sender_of_def)
  have one: "p = p'" if "(cid, p) \<in> set (ps_pending st)" "(cid, p') \<in> set (ps_pending st)" for p p'
    using that inv(1) by (meson eq_key_imp_eq_value)
  show ?thesis
  proof
    assume "is_pending cid st"
    then obtain p where p: "(cid, p) \<in> set (ps_pending st)" by (auto simp: is_pending_def dest: map_of_SomeD)
    then have ok: "request_ok mr (ps_chans st) asked (cid, p)" using inv(5) by (auto simp: list_all_iff)
    show "\<exists>!i. i < length (ps_chans st) \<and> ps_chans st ! i = ChanOpen \<and> asked ! i = cid"
    proof (rule ex1I [of _ "pb_sender p"])
      show "pb_sender p < length (ps_chans st) \<and> ps_chans st ! pb_sender p = ChanOpen \<and> asked ! pb_sender p = cid"
        using ok by (simp add: request_ok_def)
      fix i assume "i < length (ps_chans st) \<and> ps_chans st ! i = ChanOpen \<and> asked ! i = cid"
      then show "i = pb_sender p" using open_of [of i] one [OF p] by auto
    qed
  next
    assume "\<exists>!i. i < length (ps_chans st) \<and> ps_chans st ! i = ChanOpen \<and> asked ! i = cid"
    then obtain i where "i < length (ps_chans st)" "ps_chans st ! i = ChanOpen" "asked ! i = cid" by blast
    then show "is_pending cid st" using open_of [of i] by (force simp: is_pending_def map_of_eq_None_iff)
  qed
qed

text \<open>
  C30. Waiting for blocks. After any sequence of operations a CID is pending exactly when one
  receiver asked for it is still waiting, and then only one; what a receiver got is a block of
  the CID it asked for; retries never exceed the configured number. Completing a pending request
  hands the block to that receiver and ends the request, and completing one that is not pending
  changes nothing. A second request for a pending CID gets a receiver that is already closed.
\<close>

theorem pending_requests_correct:
  assumes "pending_reach mr ri (st, asked)"
  shows "(\<forall>cid. is_pending cid st \<longleftrightarrow> (\<exists>!i. i < length (ps_chans st) \<and> ps_chans st ! i = ChanOpen \<and> asked ! i = cid))
    \<and> (\<forall>i b. i < length (ps_chans st) \<and> ps_chans st ! i = ChanSent b \<longrightarrow> block_cid b = asked ! i)
    \<and> (\<forall>cid n. retries_remaining cid st = Some n \<longrightarrow> n \<le> mr)
    \<and> (\<forall>cid b. \<not> is_pending cid st \<longrightarrow> complete cid b st = (False, st))
    \<and> (\<forall>cid b i. i < length (ps_chans st) \<and> ps_chans st ! i = ChanOpen \<and> asked ! i = cid \<longrightarrow>
         (case complete cid b st of (r, st') \<Rightarrow> r \<and> \<not> is_pending cid st' \<and> ps_chans st' = (ps_chans st)[i := ChanSent b]))
    \<and> (\<forall>cid now. is_pending cid st \<longrightarrow> (case add_pending now cid st of (i, st') \<Rightarrow> ps_chans st' ! i = ChanClosed))"
proof -
  have pinv: "pending_inv mr st asked" using reach_inv [OF assms] by simp
  note inv = pending_invD [OF pinv]
  have a: "retries_remaining cid st = Some n \<longrightarrow> n \<le> mr" for cid n
    using inv(5) by (auto simp: retries_remaining_def list_all_iff request_ok_def dest!: map_of_SomeD)
  have b: "i < length (ps_chans st) \<and> ps_chans st ! i = ChanOpen \<and> asked ! i = cid \<longrightarrow>
      (case complete cid b st of (r, st') \<Rightarrow> r \<and> \<not> is_pending cid st' \<and> ps_chans st' = (ps_chans st)[i := ChanSent b])" for cid b i
  proof
    assume i: "i < length (ps_chans st) \<and> ps_chans st ! i = ChanOpen \<and> asked ! i = cid"
    obtain p where p: "(cid, p) \<in> set (ps_pending st)" "pb_sender p = i"
      using inv(6) [of i] inv(5) i by (fastforce simp: list_all_iff request_ok_def sender_of_def)
    then have "map_of (ps_pending st) cid = Some p" using inv(1) by simp
    then show "case complete cid b st of (r, st') \<Rightarrow> r \<and> \<not> is_pending cid st' \<and> ps_chans st' = (ps_chans st)[i := ChanSent b]"
      using p(2) by (simp add: complete_def is_pending_def delete_conv')
  qed
  have c: "\<not> is_pending cid st \<longrightarrow> complete cid b st = (False, st)" for cid b by (auto simp: complete_def is_pending_def)
  have d: "is_pending cid st \<longrightarrow> (case add_pending now cid st of (i, st') \<Rightarrow> ps_chans st' ! i = ChanClosed)" for cid now
    by (auto simp: is_pending_def add_pending_def Let_def)
  have e: "i < length (ps_chans st) \<and> ps_chans st ! i = ChanSent b \<longrightarrow> block_cid b = asked ! i" for i b using inv(7) by blast
  show ?thesis by (intro conjI allI) (rule pending_iff_open [OF pinv] a b c d e)+
qed

theorem pending_requests_correct_witness:
  "\<exists>st :: nat pending_state. is_pending 5 st \<and> ps_chans st ! 0 = ChanOpen
     \<and> ps_chans (snd (complete 5 \<lparr>block_cid = 5, block_data = [1]\<rparr> st)) = [ChanSent \<lparr>block_cid = 5, block_data = [1]\<rparr>, ChanClosed]"
proof -
  let ?st1 = "snd (add_pending 0 5 (with_config 3 500 :: nat pending_state))"
  let ?st = "snd (add_pending 7 5 ?st1)"
  have "pending_reach 3 500 (?st1, [] @ [5])" by (rule pending_reach.step [OF pending_reach.init pending_step.add])
  then have r: "pending_reach 3 500 (?st, ([] @ [5]) @ [5])" by (rule pending_reach.step [OF _ pending_step.add])
  have c: "ps_chans ?st = [ChanOpen, ChanClosed]" by (simp add: add_pending_def with_config_def)
  note th = pending_requests_correct [OF r]
  have "is_pending 5 ?st" using th [THEN conjunct1, THEN spec, of 5] c by (auto simp: is_pending_def add_pending_def with_config_def)
  moreover have "ps_chans (snd (complete 5 \<lparr>block_cid = 5, block_data = [1]\<rparr> ?st)) = [ChanSent \<lparr>block_cid = 5, block_data = [1]\<rparr>, ChanClosed]"
    using th [THEN conjunct2, THEN conjunct2, THEN conjunct2, THEN conjunct2, THEN conjunct1, THEN spec, of 5, THEN spec,
        of "\<lparr>block_cid = 5, block_data = [1]\<rparr>", THEN spec, of 0] c by (auto split: prod.splits)
  ultimately show ?thesis using c by (intro exI [of _ ?st]) simp
qed

end
