(* ===== verification/DeltaFlat_Page.thy ===== *)
theory DeltaFlat_Page
  imports Storage_Base
begin

text \<open>
  The on-disk formats of the deltaflat backend (\<open>storage.rs\<close>, \<open>DeltaFlatStore\<close>): a bucket page
  of 32 slots of 128 bytes and the 64-byte control record. Writers are the sequences of
  \<open>copy_from_slice\<close> of the code on a buffer; readers take the slices the code takes.
\<close>

section \<open>Constants and records\<close>

definition STATE_EMPTY :: u8 where "STATE_EMPTY = 0"
definition STATE_FULL :: u8 where "STATE_FULL = 1"
definition STATE_TOMBSTONE :: u8 where "STATE_TOMBSTONE = 2"

abbreviation MAX_CID_BYTES :: nat where "MAX_CID_BYTES \<equiv> 96"
abbreviation CONTROL_LEN :: nat where "CONTROL_LEN \<equiv> 64"
abbreviation BUCKET_BYTES :: nat where "BUCKET_BYTES \<equiv> 4096"
abbreviation ENTRY_BYTES :: nat where "ENTRY_BYTES \<equiv> 128"
abbreviation ENTRY_CID_OFF :: nat where "ENTRY_CID_OFF \<equiv> 28"
abbreviation ENTRIES_PER_BUCKET :: nat where "ENTRIES_PER_BUCKET \<equiv> 32"

record flat_control =
  ctl_level :: nat
  ctl_split_ptr :: nat
  ctl_item_count :: nat
  ctl_next_file_id :: nat
  ctl_next_offset :: nat

record flat_entry =
  e_fingerprint :: u8
  e_file_id :: nat
  e_offset :: nat
  e_len :: nat
  e_hash64 :: nat
  e_cid :: bytes

section \<open>Bucket pages\<close>

definition entry_offset :: "nat \<Rightarrow> nat" where
  "entry_offset slot = slot * ENTRY_BYTES"

definition entry_state :: "bytes \<Rightarrow> nat \<Rightarrow> u8" where
  "entry_state page slot = page ! entry_offset slot"

definition decode_entry :: "bytes \<Rightarrow> nat \<Rightarrow> (flat_entry option, storage_error) result" where
  "decode_entry page slot =
     (let o' = entry_offset slot in
      if page ! o' \<noteq> STATE_FULL then Ok None
      else let cid_len = unat (page ! (o' + 2)) in
        if cid_len = 0 \<or> MAX_CID_BYTES < cid_len then Err (DatabaseError ''deltaflat malformed cid length'')
        else Ok (Some
          \<lparr>e_fingerprint = page ! (o' + 1),
           e_file_id = le_nat (subvec (o' + 4) (o' + 8) page),
           e_offset = le_nat (subvec (o' + 8) (o' + 16) page),
           e_len = le_nat (subvec (o' + 16) (o' + 20) page),
           e_hash64 = le_nat (subvec (o' + 20) (o' + 28) page),
           e_cid = subvec (o' + ENTRY_CID_OFF) (o' + ENTRY_CID_OFF + cid_len) page\<rparr>))"

definition write_entry_to_page :: "bytes \<Rightarrow> nat \<Rightarrow> flat_entry \<Rightarrow> (bytes, storage_error) result" where
  "write_entry_to_page page slot entry =
     (if e_cid entry = [] \<or> MAX_CID_BYTES < length (e_cid entry)
      then Err (DatabaseError ''deltaflat entry cid length out of bounds'')
      else let
        o' = entry_offset slot;
        p = splice page o' (replicate ENTRY_BYTES 0);
        p = p[o' := STATE_FULL];
        p = p[o' + 1 := e_fingerprint entry];
        p = p[o' + 2 := word_of_nat (length (e_cid entry))];
        p = splice p (o' + 4) (le_bytes 4 (e_file_id entry));
        p = splice p (o' + 8) (le_bytes 8 (e_offset entry));
        p = splice p (o' + 16) (le_bytes 4 (e_len entry));
        p = splice p (o' + 20) (le_bytes 8 (e_hash64 entry))
      in Ok (splice p (o' + ENTRY_CID_OFF) (e_cid entry)))"

definition mark_tombstone :: "bytes \<Rightarrow> nat \<Rightarrow> bytes" where
  "mark_tombstone page slot =
     (let o' = entry_offset slot in (splice page o' (replicate ENTRY_BYTES 0))[o' := STATE_TOMBSTONE])"

fun find_entry_loop :: "bytes \<Rightarrow> bytes \<Rightarrow> u8 \<Rightarrow> nat \<Rightarrow> nat list \<Rightarrow> ((nat \<times> flat_entry) option, storage_error) result" where
  "find_entry_loop page cid fingerprint hash64 [] = Ok None"
| "find_entry_loop page cid fingerprint hash64 (slot # slots) =
     (if entry_state page slot \<noteq> STATE_FULL then find_entry_loop page cid fingerprint hash64 slots
      else rbind (decode_entry page slot) (\<lambda>d. case d of
          None \<Rightarrow> find_entry_loop page cid fingerprint hash64 slots
        | Some entry \<Rightarrow>
            if e_fingerprint entry = fingerprint \<and> e_hash64 entry = hash64 \<and> e_cid entry = cid
            then Ok (Some (slot, entry))
            else find_entry_loop page cid fingerprint hash64 slots))"

definition find_entry_slot :: "bytes \<Rightarrow> bytes \<Rightarrow> u8 \<Rightarrow> nat \<Rightarrow> ((nat \<times> flat_entry) option, storage_error) result" where
  "find_entry_slot page cid fingerprint hash64 = find_entry_loop page cid fingerprint hash64 [0..<ENTRIES_PER_BUCKET]"

definition entry_matches :: "bytes \<Rightarrow> nat \<Rightarrow> bytes \<Rightarrow> u8 \<Rightarrow> nat \<Rightarrow> (bool, storage_error) result" where
  "entry_matches page slot cid fingerprint hash64 =
     (let o' = entry_offset slot in
      if page ! o' \<noteq> STATE_FULL then Ok False
      else if page ! (o' + 1) \<noteq> fingerprint then Ok False
      else if le_nat (subvec (o' + 20) (o' + 28) page) \<noteq> hash64 then Ok False
      else let cid_len = unat (page ! (o' + 2)) in
        if cid_len = 0 \<or> MAX_CID_BYTES < cid_len then Err (DatabaseError ''deltaflat malformed cid length'')
        else if cid_len \<noteq> length cid then Ok False
        else Ok (subvec (o' + ENTRY_CID_OFF) (o' + ENTRY_CID_OFF + cid_len) page = cid))"

fun page_contains_loop :: "bytes \<Rightarrow> bytes \<Rightarrow> u8 \<Rightarrow> nat \<Rightarrow> nat list \<Rightarrow> (bool, storage_error) result" where
  "page_contains_loop page cid fingerprint hash64 [] = Ok False"
| "page_contains_loop page cid fingerprint hash64 (slot # slots) =
     rbind (entry_matches page slot cid fingerprint hash64)
       (\<lambda>m. if m then Ok True else page_contains_loop page cid fingerprint hash64 slots)"

definition page_contains_entry :: "bytes \<Rightarrow> bytes \<Rightarrow> u8 \<Rightarrow> nat \<Rightarrow> (bool, storage_error) result" where
  "page_contains_entry page cid fingerprint hash64 =
     page_contains_loop page cid fingerprint hash64 [0..<ENTRIES_PER_BUCKET]"

fun find_free_loop :: "bytes \<Rightarrow> nat option \<Rightarrow> nat list \<Rightarrow> nat option" where
  "find_free_loop page tombstone [] = tombstone"
| "find_free_loop page tombstone (slot # slots) =
     (if entry_state page slot = STATE_EMPTY
      then Some (case tombstone of Some t \<Rightarrow> t | None \<Rightarrow> slot)
      else if entry_state page slot = STATE_TOMBSTONE
      then find_free_loop page (if tombstone = None then Some slot else tombstone) slots
      else find_free_loop page tombstone slots)"

definition find_free_slot :: "bytes \<Rightarrow> nat option" where
  "find_free_slot page = find_free_loop page None [0..<ENTRIES_PER_BUCKET]"

section \<open>The control record\<close>

definition CONTROL_MAGIC :: bytes where
  "CONTROL_MAGIC = ascii ''DFC1''"

definition FLAT_VERSION :: nat where
  "FLAT_VERSION = 1"

definition read_control_raw :: "bytes \<Rightarrow> (flat_control option, storage_error) result" where
  "read_control_raw file =
     (case read_exact_at file 0 CONTROL_LEN of
        None \<Rightarrow> Ok None
      | Some buf \<Rightarrow>
          if subvec 0 4 buf \<noteq> CONTROL_MAGIC then Ok None
          else if le_nat (subvec 4 8 buf) \<noteq> FLAT_VERSION then Ok None
          else let
            level = le_nat (subvec 8 12 buf);
            split_ptr = le_nat (subvec 12 16 buf)
          in case checked_shl1 32 level of
              None \<Rightarrow> Err (DatabaseError ''deltaflat control level overflow'')
            | Some base \<Rightarrow>
                if base \<le> split_ptr then Ok None
                else Ok (Some \<lparr>ctl_level = level, ctl_split_ptr = split_ptr,
                  ctl_item_count = le_nat (subvec 16 24 buf),
                  ctl_next_file_id = le_nat (subvec 24 28 buf),
                  ctl_next_offset = le_nat (subvec 28 36 buf)\<rparr>))"

definition control_bytes :: "flat_control \<Rightarrow> bytes" where
  "control_bytes control =
     (let
        buf = replicate CONTROL_LEN 0;
        buf = splice buf 0 CONTROL_MAGIC;
        buf = splice buf 4 (le_bytes 4 FLAT_VERSION);
        buf = splice buf 8 (le_bytes 4 (ctl_level control));
        buf = splice buf 12 (le_bytes 4 (ctl_split_ptr control));
        buf = splice buf 16 (le_bytes 8 (ctl_item_count control));
        buf = splice buf 24 (le_bytes 4 (ctl_next_file_id control))
      in splice buf 28 (le_bytes 8 (ctl_next_offset control)))"

definition write_control_raw :: "bytes \<Rightarrow> flat_control \<Rightarrow> bytes" where
  "write_control_raw file control = write_all_at file 0 (control_bytes control)"

section \<open>Slots\<close>

text \<open>The 128 bytes of a slot determine what every reader sees there.\<close>

definition slot_bytes :: "bytes \<Rightarrow> nat \<Rightarrow> bytes" where
  "slot_bytes page slot = subvec (entry_offset slot) (entry_offset slot + ENTRY_BYTES) page"

definition page_len :: "bytes \<Rightarrow> bool" where
  "page_len page \<longleftrightarrow> length page = BUCKET_BYTES"

text \<open>A slot as the readers understand it.\<close>

datatype slot_view = Free | Tomb | Full flat_entry | Bad

definition bytes_entry :: "bytes \<Rightarrow> flat_entry" where
  "bytes_entry bs =
     \<lparr>e_fingerprint = bs ! 1, e_file_id = le_nat (subvec 4 8 bs), e_offset = le_nat (subvec 8 16 bs),
      e_len = le_nat (subvec 16 20 bs), e_hash64 = le_nat (subvec 20 28 bs),
      e_cid = subvec 28 (28 + unat (bs ! 2)) bs\<rparr>"

definition bytes_view :: "bytes \<Rightarrow> slot_view" where
  "bytes_view bs =
     (if bs ! 0 = STATE_EMPTY then Free else if bs ! 0 = STATE_TOMBSTONE then Tomb
      else if bs ! 0 \<noteq> STATE_FULL \<or> unat (bs ! 2) = 0 \<or> MAX_CID_BYTES < unat (bs ! 2) then Bad
      else Full (bytes_entry bs))"

definition view :: "bytes \<Rightarrow> nat \<Rightarrow> slot_view" where
  "view page slot = bytes_view (slot_bytes page slot)"

definition page_ok :: "bytes \<Rightarrow> bool" where
  "page_ok page \<longleftrightarrow> page_len page \<and> (\<forall>slot < ENTRIES_PER_BUCKET. view page slot \<noteq> Bad)"

lemma slot_room: "slot < ENTRIES_PER_BUCKET \<Longrightarrow> page_len page \<Longrightarrow> entry_offset slot + ENTRY_BYTES \<le> length page"
  by (simp add: entry_offset_def page_len_def)

lemma length_slot_bytes: "slot < ENTRIES_PER_BUCKET \<Longrightarrow> page_len page \<Longrightarrow> length (slot_bytes page slot) = ENTRY_BYTES"
  using slot_room [of slot page] by (simp add: slot_bytes_def length_subvec)

lemma nth_slot_bytes:
  "slot < ENTRIES_PER_BUCKET \<Longrightarrow> page_len page \<Longrightarrow> i < ENTRY_BYTES \<Longrightarrow> page ! (entry_offset slot + i) = slot_bytes page slot ! i"
  using slot_room [of slot page] by (simp add: slot_bytes_def nth_subvec)

lemma subvec_slot_bytes:
  "b \<le> ENTRY_BYTES \<Longrightarrow> subvec (entry_offset slot + a) (entry_offset slot + b) page = subvec a b (slot_bytes page slot)"
  by (simp add: slot_bytes_def subvec_subvec)

lemma state_distinct [simp]: "STATE_EMPTY \<noteq> STATE_FULL" "STATE_TOMBSTONE \<noteq> STATE_FULL" "STATE_FULL \<noteq> STATE_EMPTY"
  "STATE_FULL \<noteq> STATE_TOMBSTONE" "STATE_EMPTY \<noteq> STATE_TOMBSTONE" "STATE_TOMBSTONE \<noteq> STATE_EMPTY"
  by (simp_all add: STATE_EMPTY_def STATE_FULL_def STATE_TOMBSTONE_def)

lemma entry_state_view:
  assumes "slot < ENTRIES_PER_BUCKET" "page_len page" "view page slot \<noteq> Bad"
  shows "entry_state page slot = (case view page slot of Free \<Rightarrow> STATE_EMPTY | Tomb \<Rightarrow> STATE_TOMBSTONE | _ \<Rightarrow> STATE_FULL)"
  using nth_slot_bytes [OF assms(1,2), of 0] assms(3)
  by (auto simp: entry_state_def view_def bytes_view_def split: if_splits)

lemma decode_entry_view:
  assumes "slot < ENTRIES_PER_BUCKET" "page_len page" "view page slot \<noteq> Bad"
  shows "decode_entry page slot = Ok (case view page slot of Full e \<Rightarrow> Some e | _ \<Rightarrow> None)"
proof -
  let ?bs = "slot_bytes page slot" and ?o = "entry_offset slot"
  have n: "page ! ?o = ?bs ! 0" "page ! (?o + 1) = ?bs ! 1" "page ! (?o + 2) = ?bs ! 2"
    using nth_slot_bytes [OF assms(1,2), of 0] nth_slot_bytes [OF assms(1,2), of 1] nth_slot_bytes [OF assms(1,2), of 2]
    by simp_all
  have s: "subvec (?o + 4) (?o + 8) page = subvec 4 8 ?bs" "subvec (?o + 8) (?o + 16) page = subvec 8 16 ?bs"
    "subvec (?o + 16) (?o + 20) page = subvec 16 20 ?bs" "subvec (?o + 20) (?o + 28) page = subvec 20 28 ?bs"
    by (simp_all add: subvec_slot_bytes)
  have c: "subvec (?o + 28) (?o + 28 + l) page = subvec 28 (28 + l) ?bs" if "l \<le> 96" for l
    using subvec_slot_bytes [of "28 + l" slot 28 page] that by (simp add: add.assoc)
  show ?thesis
    using assms(3) c [of "unat (?bs ! 2)"] unfolding decode_entry_def Let_def n s
    by (auto simp: view_def bytes_view_def bytes_entry_def split: if_splits)
qed

section \<open>Writing a slot\<close>

text \<open>The entries the format can hold.\<close>

definition entry_ok :: "flat_entry \<Rightarrow> bool" where
  "entry_ok e \<longleftrightarrow> e_cid e \<noteq> [] \<and> length (e_cid e) \<le> MAX_CID_BYTES \<and> e_file_id e < 2 ^ 32 \<and> e_offset e < 2 ^ 64
     \<and> e_len e < 2 ^ 32 \<and> e_hash64 e < 2 ^ 64"

definition entry_bytes :: "flat_entry \<Rightarrow> bytes" where
  "entry_bytes e =
     splice (splice (splice (splice (splice (splice (splice (splice (replicate ENTRY_BYTES 0) 0 [STATE_FULL])
       1 [e_fingerprint e]) 2 [word_of_nat (length (e_cid e))]) 4 (le_bytes 4 (e_file_id e)))
       8 (le_bytes 8 (e_offset e))) 16 (le_bytes 4 (e_len e))) 20 (le_bytes 8 (e_hash64 e))) 28 (e_cid e)"

lemma length_entry_bytes: "length (e_cid e) \<le> MAX_CID_BYTES \<Longrightarrow> length (entry_bytes e) = ENTRY_BYTES"
  by (simp add: entry_bytes_def)

lemma write_entry_splice:
  assumes "slot < ENTRIES_PER_BUCKET" "page_len page" "e_cid e \<noteq> []" "length (e_cid e) \<le> MAX_CID_BYTES"
  shows "write_entry_to_page page slot e = Ok (splice page (entry_offset slot) (entry_bytes e))"
proof -
  let ?o = "entry_offset slot"
  have room: "?o + ENTRY_BYTES \<le> length page" by (rule slot_room [OF assms(1,2)])
  have upd: "(splice page ?o ys)[?o + k := v] = splice page ?o (splice ys k [v])" if "length ys = ENTRY_BYTES" "k < ENTRY_BYTES" for ys k v
    using splice_splice [of k "[v]" ys ?o page] that room by (simp add: list_update_splice)
  have upd0: "(splice page ?o ys)[?o := v] = splice page ?o (splice ys 0 [v])" if "length ys = ENTRY_BYTES" for ys v
    using upd [OF that, of 0 v] by simp
  have cpy: "splice (splice page ?o ys) (?o + k) zs = splice page ?o (splice ys k zs)"
    if "length ys = ENTRY_BYTES" "k + length zs \<le> ENTRY_BYTES" for ys zs k
    using splice_splice [of k zs ys ?o page] that room by simp
  show ?thesis
    using assms(3,4) unfolding write_entry_to_page_def Let_def entry_bytes_def by (simp add: upd upd0 cpy del: One_nat_def add_2_eq_Suc')
qed

lemma entry_bytes_view: "entry_ok e \<Longrightarrow> bytes_view (entry_bytes e) = Full e"
proof -
  assume ok: "entry_ok e"
  then have l: "length (e_cid e) \<le> 96" "e_cid e \<noteq> []" by (simp_all add: entry_ok_def)
  let ?b = "entry_bytes e"
  have len: "unat (word_of_nat (length (e_cid e)) :: u8) = length (e_cid e)" using l(1) by simp
  have n: "?b ! 0 = STATE_FULL" "?b ! 1 = e_fingerprint e" "?b ! 2 = word_of_nat (length (e_cid e))"
    using l(1) by (simp_all add: entry_bytes_def nth_splice)
  have s: "subvec 4 8 ?b = le_bytes 4 (e_file_id e)" "subvec 8 16 ?b = le_bytes 8 (e_offset e)"
    "subvec 16 20 ?b = le_bytes 4 (e_len e)" "subvec 20 28 ?b = le_bytes 8 (e_hash64 e)"
    "subvec 28 (28 + length (e_cid e)) ?b = e_cid e"
    using l(1) subvec_splice_same [of 4 "le_bytes 4 (e_file_id e)"] subvec_splice_same [of 8 "le_bytes 8 (e_offset e)"]
      subvec_splice_same [of 16 "le_bytes 4 (e_len e)"] subvec_splice_same [of 20 "le_bytes 8 (e_hash64 e)"]
    by (simp_all add: entry_bytes_def subvec_splice_other subvec_splice_same)
  show ?thesis using ok len l
    by (simp add: bytes_view_def bytes_entry_def n s entry_ok_def del: One_nat_def)
qed

lemma slot_disjoint: "slot \<noteq> slot' \<Longrightarrow> entry_offset slot' + ENTRY_BYTES \<le> entry_offset slot \<or> entry_offset slot + ENTRY_BYTES \<le> entry_offset slot'"
  by (cases slot slot' rule: linorder_cases) (auto simp: entry_offset_def)

lemma slot_bytes_splice:
  assumes "slot < ENTRIES_PER_BUCKET" "slot' < ENTRIES_PER_BUCKET" "page_len page" "length bs = ENTRY_BYTES"
  shows "slot_bytes (splice page (entry_offset slot) bs) slot' = (if slot' = slot then bs else slot_bytes page slot')"
  using slot_room [OF assms(1,3)] slot_room [OF assms(2,3)] slot_disjoint [of slot slot'] assms(4)
    subvec_splice_same [of "entry_offset slot" bs page]
  by (auto simp: slot_bytes_def intro!: subvec_splice_other)

lemma page_len_splice:
  "slot < ENTRIES_PER_BUCKET \<Longrightarrow> page_len page \<Longrightarrow> length bs = ENTRY_BYTES \<Longrightarrow> page_len (splice page (entry_offset slot) bs)"
  using slot_room [of slot page] by (simp add: page_len_def)

lemma write_entry_view:
  assumes "slot < ENTRIES_PER_BUCKET" "page_len page" "entry_ok e"
  obtains page' where "write_entry_to_page page slot e = Ok page'" "page_len page'"
    "\<And>slot'. slot' < ENTRIES_PER_BUCKET \<Longrightarrow> view page' slot' = (if slot' = slot then Full e else view page slot')"
proof -
  have e: "e_cid e \<noteq> []" "length (e_cid e) \<le> MAX_CID_BYTES" using assms(3) by (simp_all add: entry_ok_def)
  show ?thesis
    by (rule that [OF write_entry_splice [OF assms(1,2) e]])
      (use assms e in \<open>simp_all add: page_len_splice length_entry_bytes view_def slot_bytes_splice entry_bytes_view\<close>)
qed

lemma mark_tombstone_view:
  assumes "slot < ENTRIES_PER_BUCKET" "page_len page"
  shows "page_len (mark_tombstone page slot)"
    and "slot' < ENTRIES_PER_BUCKET \<Longrightarrow> view (mark_tombstone page slot) slot' = (if slot' = slot then Tomb else view page slot')"
proof -
  let ?t = "splice (replicate ENTRY_BYTES 0) 0 [STATE_TOMBSTONE]"
  have "mark_tombstone page slot = splice page (entry_offset slot) ?t"
    using splice_splice [of 0 "[STATE_TOMBSTONE]" "replicate ENTRY_BYTES 0" "entry_offset slot" page] slot_room [OF assms]
    by (simp add: mark_tombstone_def Let_def list_update_splice)
  moreover have "bytes_view ?t = Tomb" by (simp add: bytes_view_def nth_splice)
  ultimately show "page_len (mark_tombstone page slot)"
    "slot' < ENTRIES_PER_BUCKET \<Longrightarrow> view (mark_tombstone page slot) slot' = (if slot' = slot then Tomb else view page slot')"
    using assms by (simp_all add: page_len_splice view_def slot_bytes_splice)
qed

section \<open>Searching a page\<close>

definition entry_key :: "flat_entry \<Rightarrow> bytes \<times> u8 \<times> nat" where
  "entry_key e = (e_cid e, e_fingerprint e, e_hash64 e)"

text \<open>The first slot of a list that holds the key.\<close>

fun first_match :: "(nat \<Rightarrow> slot_view) \<Rightarrow> bytes \<times> u8 \<times> nat \<Rightarrow> nat list \<Rightarrow> (nat \<times> flat_entry) option" where
  "first_match v key [] = None"
| "first_match v key (slot # slots) =
     (case v slot of
        Full e \<Rightarrow> if entry_key e = key then Some (slot, e) else first_match v key slots
      | _ \<Rightarrow> first_match v key slots)"

lemma page_okD: "page_ok page \<Longrightarrow> slot < ENTRIES_PER_BUCKET \<Longrightarrow> page_len page \<and> view page slot \<noteq> Bad"
  by (simp add: page_ok_def)

lemma find_entry_loop_view:
  assumes "page_ok page" "set slots \<subseteq> {..<ENTRIES_PER_BUCKET}"
  shows "find_entry_loop page cid fp h slots = Ok (first_match (view page) (cid, fp, h) slots)"
  using assms(2)
proof (induction slots)
  case (Cons slot slots)
  then have slot: "slot < ENTRIES_PER_BUCKET" by simp
  note ok = page_okD [OF assms(1) slot]
  have st: "entry_state page slot = (case view page slot of Free \<Rightarrow> STATE_EMPTY | Tomb \<Rightarrow> STATE_TOMBSTONE | _ \<Rightarrow> STATE_FULL)"
    using entry_state_view [OF slot] ok by simp
  have d: "decode_entry page slot = Ok (case view page slot of Full e \<Rightarrow> Some e | _ \<Rightarrow> None)"
    using decode_entry_view [OF slot] ok by simp
  show ?case using Cons ok by (cases "view page slot") (auto simp: st d entry_key_def)
qed simp

lemma find_entry_slot_view:
  "page_ok page \<Longrightarrow> find_entry_slot page cid fp h = Ok (first_match (view page) (cid, fp, h) [0..<ENTRIES_PER_BUCKET])"
  unfolding find_entry_slot_def by (rule find_entry_loop_view) auto

lemma entry_matches_view:
  assumes "page_ok page" "slot < ENTRIES_PER_BUCKET"
  shows "entry_matches page slot cid fp h
    = Ok (case view page slot of Full e \<Rightarrow> entry_key e = (cid, fp, h) | _ \<Rightarrow> False)"
proof -
  let ?bs = "slot_bytes page slot" and ?o = "entry_offset slot"
  have pl: "page_len page" and nb: "view page slot \<noteq> Bad" using page_okD [OF assms] by auto
  have n: "page ! ?o = ?bs ! 0" "page ! (?o + 1) = ?bs ! 1" "page ! (?o + 2) = ?bs ! 2"
    using nth_slot_bytes [OF assms(2) pl, of 0] nth_slot_bytes [OF assms(2) pl, of 1] nth_slot_bytes [OF assms(2) pl, of 2]
    by simp_all
  have s: "subvec (?o + 20) (?o + 28) page = subvec 20 28 ?bs" by (simp add: subvec_slot_bytes)
  have c: "subvec (?o + 28) (?o + 28 + l) page = subvec 28 (28 + l) ?bs" if "l \<le> 96" for l
    using subvec_slot_bytes [of "28 + l" slot 28 page] that by (simp add: add.assoc)
  have len: "length (subvec 28 (28 + l) ?bs) = l" if "l \<le> 96" for l
    using length_slot_bytes [OF assms(2) pl] that by (simp add: length_subvec)
  show ?thesis
    using nb c [of "unat (?bs ! 2)"] len [of "unat (?bs ! 2)"] unfolding entry_matches_def Let_def n s
    by (auto simp: view_def bytes_view_def bytes_entry_def entry_key_def split: if_splits)
qed

lemma all_slots: "set [0..<ENTRIES_PER_BUCKET] \<subseteq> {..<ENTRIES_PER_BUCKET}"
  by auto

lemma page_contains_view:
  assumes "page_ok page"
  shows "page_contains_entry page cid fp h = Ok (first_match (view page) (cid, fp, h) [0..<ENTRIES_PER_BUCKET] \<noteq> None)"
proof -
  have "page_contains_loop page cid fp h slots = Ok (first_match (view page) (cid, fp, h) slots \<noteq> None)"
    if "set slots \<subseteq> {..<ENTRIES_PER_BUCKET}" for slots
    using that by (induction slots) (auto simp: entry_matches_view [OF assms] split: slot_view.splits)
  from this [OF all_slots] show ?thesis unfolding page_contains_entry_def .
qed

lemma first_match_Some:
  assumes "first_match v key slots = Some (slot, e)"
  shows "slot \<in> set slots" "v slot = Full e" "entry_key e = key"
  using assms by (induction slots) (auto split: slot_view.splits if_splits)

lemma first_match_None: "first_match v key slots = None \<longleftrightarrow> (\<forall>slot \<in> set slots. \<forall>e. v slot = Full e \<longrightarrow> entry_key e \<noteq> key)"
  by (induction slots) (auto split: slot_view.splits)

definition occupied :: "slot_view \<Rightarrow> bool" where
  "occupied v \<longleftrightarrow> v \<noteq> Free \<and> v \<noteq> Tomb"

lemma find_free_loop_view:
  assumes "page_ok page" "set slots \<subseteq> {..<ENTRIES_PER_BUCKET}"
    and "find_free_loop page t slots = r" "case t of Some s \<Rightarrow> \<not> occupied (view page s) \<and> s < ENTRIES_PER_BUCKET | None \<Rightarrow> True"
  shows "case r of Some s \<Rightarrow> \<not> occupied (view page s) \<and> s < ENTRIES_PER_BUCKET
     | None \<Rightarrow> t = None \<and> (\<forall>s \<in> set slots. occupied (view page s))"
  using assms(2-4)
proof (induction slots arbitrary: t)
  case (Cons slot slots)
  then have slot: "slot < ENTRIES_PER_BUCKET" by simp
  note ok = page_okD [OF assms(1) slot]
  have st: "entry_state page slot = (case view page slot of Free \<Rightarrow> STATE_EMPTY | Tomb \<Rightarrow> STATE_TOMBSTONE | _ \<Rightarrow> STATE_FULL)"
    using entry_state_view [OF slot] ok by simp
  show ?case
    using Cons(2-4) slot ok Cons(1) [of t] Cons(1) [of "if t = None then Some slot else t"]
    by (cases "view page slot"; cases t) (auto simp: st occupied_def split: option.splits)
qed (auto split: option.splits)

lemma find_free_slot_Some:
  "page_ok page \<Longrightarrow> find_free_slot page = Some slot \<Longrightarrow> \<not> occupied (view page slot) \<and> slot < ENTRIES_PER_BUCKET"
  using find_free_loop_view [OF _ all_slots, of page None "Some slot"] by (simp add: find_free_slot_def)

lemma find_free_slot_None:
  "page_ok page \<Longrightarrow> find_free_slot page = None \<Longrightarrow> slot < ENTRIES_PER_BUCKET \<Longrightarrow> occupied (view page slot)"
  using find_free_loop_view [OF _ all_slots, of page None None] by (simp add: find_free_slot_def)

section \<open>The control record round trip\<close>

definition control_ok :: "flat_control \<Rightarrow> bool" where
  "control_ok c \<longleftrightarrow> ctl_level c < 32 \<and> ctl_split_ptr c < 2 ^ ctl_level c \<and> ctl_item_count c < 2 ^ 64
     \<and> ctl_next_file_id c < 2 ^ 32 \<and> ctl_next_offset c < 2 ^ 64"

lemma length_control_bytes: "length (control_bytes c) = CONTROL_LEN"
  by (simp add: control_bytes_def Let_def CONTROL_MAGIC_def ascii_def)

lemma read_control_bytes:
  assumes "control_ok c" "read_exact_at file 0 CONTROL_LEN = Some (control_bytes c)"
  shows "read_control_raw file = Ok (Some c)"
proof -
  let ?b = "control_bytes c"
  have m: "length CONTROL_MAGIC = 4" by (simp add: CONTROL_MAGIC_def ascii_def)
  have sp: "ctl_split_ptr c < 2 ^ 32"
    using assms(1) power_strict_increasing [of "ctl_level c" 32 "2 :: nat"] by (simp add: control_ok_def)
  have s: "subvec 0 4 ?b = CONTROL_MAGIC" "subvec 4 8 ?b = le_bytes 4 FLAT_VERSION"
    "subvec 8 12 ?b = le_bytes 4 (ctl_level c)" "subvec 12 16 ?b = le_bytes 4 (ctl_split_ptr c)"
    "subvec 16 24 ?b = le_bytes 8 (ctl_item_count c)" "subvec 24 28 ?b = le_bytes 4 (ctl_next_file_id c)"
    "subvec 28 36 ?b = le_bytes 8 (ctl_next_offset c)"
    using subvec_splice_same [of 0 CONTROL_MAGIC "replicate CONTROL_LEN 0"] subvec_splice_same [of 4 "le_bytes 4 FLAT_VERSION"]
      subvec_splice_same [of 8 "le_bytes 4 (ctl_level c)"] subvec_splice_same [of 12 "le_bytes 4 (ctl_split_ptr c)"]
      subvec_splice_same [of 16 "le_bytes 8 (ctl_item_count c)"] subvec_splice_same [of 24 "le_bytes 4 (ctl_next_file_id c)"]
      subvec_splice_same [of 28 "le_bytes 8 (ctl_next_offset c)"]
    by (simp_all add: control_bytes_def Let_def subvec_splice_other m)
  show ?thesis using assms sp by (simp add: read_control_raw_def s FLAT_VERSION_def control_ok_def Let_def checked_shl1_def)
qed

lemma read_write_control: "control_ok c \<Longrightarrow> read_control_raw (write_control_raw file c) = Ok (Some c)"
  using read_write_same [of "file" "0" "control_bytes c"]
  by (intro read_control_bytes) (simp_all add: write_control_raw_def length_control_bytes)

section \<open>The properties of the formats\<close>

lemma view_zero: "slot < ENTRIES_PER_BUCKET \<Longrightarrow> view (replicate BUCKET_BYTES 0) slot = Free"
proof -
  assume slot: "slot < ENTRIES_PER_BUCKET"
  have pl: "page_len (replicate BUCKET_BYTES 0)" by (simp add: page_len_def)
  have "slot_bytes (replicate BUCKET_BYTES 0) slot ! 0 = 0"
    using nth_slot_bytes [OF slot pl, of 0] slot by (simp add: entry_offset_def)
  then show ?thesis by (simp add: view_def bytes_view_def STATE_EMPTY_def)
qed

lemma page_ok_zero: "page_ok (replicate BUCKET_BYTES 0)"
  by (simp add: page_ok_def page_len_def view_zero)

text \<open>
  The page format: an entry written to a slot of a well-formed page is decoded from
  that slot unchanged, every other slot decodes as before, and a tombstone frees its slot only.
\<close>

lemma page_entry_roundtrip:
  assumes "page_ok page" "slot < ENTRIES_PER_BUCKET" "entry_ok e"
  shows "\<exists>page'. write_entry_to_page page slot e = Ok page' \<and> page_ok page'
    \<and> decode_entry page' slot = Ok (Some e) \<and> decode_entry (mark_tombstone page' slot) slot = Ok None
    \<and> (\<forall>s < ENTRIES_PER_BUCKET. s \<noteq> slot \<longrightarrow> decode_entry page' s = decode_entry page s
         \<and> decode_entry (mark_tombstone page slot) s = decode_entry page s)"
proof -
  have pl: "page_len page" using assms(1) by (simp add: page_ok_def)
  obtain page' where w: "write_entry_to_page page slot e = Ok page'" "page_len page'"
    "\<And>s. s < ENTRIES_PER_BUCKET \<Longrightarrow> view page' s = (if s = slot then Full e else view page s)"
    by (rule write_entry_view [OF assms(2) pl assms(3)]) blast
  note t = mark_tombstone_view [OF assms(2) pl] and t' = mark_tombstone_view [OF assms(2) w(2)]
  have "page_ok page'" using assms(1) w(2,3) by (simp add: page_ok_def)
  moreover have "decode_entry page' slot = Ok (Some e)"
    using decode_entry_view [OF assms(2) w(2)] w(3) [OF assms(2)] by simp
  moreover have "decode_entry (mark_tombstone page' slot) slot = Ok None"
    using decode_entry_view [OF assms(2) t'(1)] t'(2) [OF assms(2)] by simp
  moreover have "decode_entry page' s = decode_entry page s \<and> decode_entry (mark_tombstone page slot) s = decode_entry page s"
    if "s < ENTRIES_PER_BUCKET" "s \<noteq> slot" for s
    using that page_okD [OF assms(1) that(1)] decode_entry_view [OF that(1) w(2)] decode_entry_view [OF that(1) pl]
      decode_entry_view [OF that(1) t(1)] w(3) [OF that(1)] t(2) [OF that(1)] by simp
  ultimately show ?thesis using w(1) by blast
qed

definition demo_entry :: flat_entry where
  "demo_entry = \<lparr>e_fingerprint = 3, e_file_id = 1, e_offset = 300, e_len = 70000, e_hash64 = 9, e_cid = [1, 2]\<rparr>"

text \<open>
  The control record: whatever the control file held before, reading it after
  \<open>write_control_raw\<close> gives the control that was written.
\<close>

lemma control_roundtrip:
  assumes "control_ok c"
  shows "read_control_raw (write_control_raw file c) = Ok (Some c)"
  by (rule read_write_control [OF assms])

end
