(* ===== verification/DeltaFlat_Index.thy ===== *)
theory DeltaFlat_Index
  imports DeltaFlat_Page
begin

unbundle bit_operations_syntax

text \<open>
  The linear-hash index of one lane of the deltaflat backend: an index file of bucket pages
  that grows by one bucket at a time, data files that blocks are appended to, and a control
  record. A lane during an operation is the record \<open>flat_lane\<close>: the control in memory and the
  two kinds of files. An operation returns its result and the lane it leaves, also when it
  fails. \<open>fsync\<close>, the caches of open files and the lock calls are not modelled: the writer of
  a lane is alone (\<open>lane_write_guard\<close> and the \<open>fcntl\<close> lock).
\<close>

record flat_config =
  max_file_bytes :: nat
  max_probe_steps :: nat
  lane_count :: nat
  skip_exists_check :: bool
  initial_level :: nat
  verify_blocks_on_write :: bool

record flat_lane =
  fl_control :: flat_control
  fl_index :: bytes
  fl_data :: "(nat, bytes) omap"

section \<open>Hashing\<close>

fun split_fold :: "bool \<Rightarrow> bytes \<Rightarrow> 64 word \<Rightarrow> 64 word \<Rightarrow> 64 word \<times> 64 word" where
  "split_fold is_even [] even_h odd_h = (even_h, odd_h)"
| "split_fold is_even (b # bs) even_h odd_h =
     (if is_even then split_fold False bs (word_rotl 7 even_h XOR ucast b) odd_h
      else split_fold True bs even_h (word_rotl 7 odd_h XOR ucast b))"

definition split_hash :: "('c, 'm) crates \<Rightarrow> bytes \<Rightarrow> nat \<times> nat \<times> u8 \<times> nat" where
  "split_hash X cid_bytes =
     (let digest = blake3 X cid_bytes;
          (even_h, odd_h) = split_fold True digest 0 0
      in (unat even_h, unat odd_h, ucast odd_h OR 1, le_nat (subvec 0 8 digest)))"

section \<open>The index file\<close>

definition ensure_index_buckets :: "bytes \<Rightarrow> nat \<Rightarrow> bytes" where
  "ensure_index_buckets index bucket_count =
     (let min_len = bucket_count * BUCKET_BYTES in
      if length index < min_len then set_len index min_len else index)"

definition read_bucket :: "bytes \<Rightarrow> nat \<Rightarrow> bytes" where
  "read_bucket index bucket_id =
     (case read_exact_at index (bucket_id * BUCKET_BYTES) BUCKET_BYTES of
        Some page \<Rightarrow> page
      | None \<Rightarrow> replicate BUCKET_BYTES 0)"

definition write_bucket :: "bytes \<Rightarrow> nat \<Rightarrow> bytes \<Rightarrow> bytes" where
  "write_bucket index bucket_id page = write_all_at index (bucket_id * BUCKET_BYTES) page"

definition bucket_count :: "flat_control \<Rightarrow> (nat, storage_error) result" where
  "bucket_count control =
     rbind (ok_or (checked_shl1 32 (ctl_level control)) (DatabaseError ''deltaflat invalid level''))
       (\<lambda>base. ok_or (checked_add 32 base (ctl_split_ptr control)) (DatabaseError ''deltaflat bucket count overflow''))"

definition primary_bucket :: "nat \<Rightarrow> flat_control \<Rightarrow> (nat, storage_error) result" where
  "primary_bucket even_hash control =
     rbind (ok_or (checked_shl1 32 (ctl_level control)) (DatabaseError ''deltaflat invalid level''))
       (\<lambda>base.
          if base \<le> ctl_split_ptr control then Err (DatabaseError ''deltaflat invalid split_ptr'')
          else let bucket = even_hash mod base in
            if bucket < ctl_split_ptr control
            then rbind (ok_or (checked_mul 32 base 2) (DatabaseError ''deltaflat expanded base overflow''))
              (\<lambda>expanded. Ok (even_hash mod expanded))
            else Ok bucket)"

definition should_split :: "flat_control \<Rightarrow> (bool, storage_error) result" where
  "should_split control =
     rbind (bucket_count control) (\<lambda>count.
       let capacity = sat_mul 64 count ENTRIES_PER_BUCKET in
       if capacity = 0 then Ok True
       else Ok (sat_mul 64 capacity 90 \<le> sat_mul 64 (ctl_item_count control) 100))"

section \<open>Splitting a bucket\<close>

fun split_loop ::
  "('c, 'm) crates \<Rightarrow> nat \<Rightarrow> nat \<Rightarrow> nat list \<Rightarrow> bytes \<Rightarrow> bytes \<Rightarrow> (bytes \<times> bytes, storage_error) result" where
  "split_loop X base new_bucket [] old_page new_page = Ok (old_page, new_page)"
| "split_loop X base new_bucket (slot # slots) old_page new_page =
     rbind (decode_entry old_page slot) (\<lambda>d. case d of
         None \<Rightarrow> split_loop X base new_bucket slots old_page new_page
       | Some entry \<Rightarrow>
           rbind (ok_or (checked_mul 64 base 2) (DatabaseError ''deltaflat expanded mod overflow''))
             (\<lambda>expanded_mod.
                if (fst (split_hash X (e_cid entry)) mod expanded_mod) mod 2 ^ 32 = new_bucket
                then (case find_free_slot new_page of
                    None \<Rightarrow> Err (DatabaseError ''deltaflat new split bucket is full'')
                  | Some dst \<Rightarrow>
                      rbind (write_entry_to_page new_page dst entry)
                        (\<lambda>new_page'. split_loop X base new_bucket slots (mark_tombstone old_page slot) new_page'))
                else split_loop X base new_bucket slots old_page new_page))"

text \<open>The control after a split.\<close>

definition advance_split :: "nat \<Rightarrow> flat_control \<Rightarrow> (flat_control, storage_error) result" where
  "advance_split base control =
     rbind (ok_or (checked_add 32 (ctl_split_ptr control) 1) (DatabaseError ''deltaflat split pointer overflow''))
       (\<lambda>sp. if base \<le> sp
          then rbind (ok_or (checked_add 32 (ctl_level control) 1) (DatabaseError ''deltaflat level overflow''))
            (\<lambda>level. Ok (control\<lparr>ctl_level := level, ctl_split_ptr := 0\<rparr>))
          else Ok (control\<lparr>ctl_split_ptr := sp\<rparr>))"

definition split_one_bucket :: "('c, 'm) crates \<Rightarrow> flat_lane \<Rightarrow> (unit, storage_error) result \<times> flat_lane" where
  "split_one_bucket X l =
     (let control = fl_control l; split_bucket = ctl_split_ptr control in
      case checked_shl1 32 (ctl_level control) of
        None \<Rightarrow> (Err (DatabaseError ''deltaflat split base overflow''), l)
      | Some base \<Rightarrow>
          if base \<le> split_bucket then (Err (DatabaseError ''deltaflat split pointer out of range''), l)
          else case checked_add 32 base split_bucket of
            None \<Rightarrow> (Err (DatabaseError ''deltaflat new bucket overflow''), l)
          | Some new_bucket \<Rightarrow>
              (case checked_add 32 new_bucket 1 of
                 None \<Rightarrow> (Err (DatabaseError ''deltaflat bucket count overflow''), l)
               | Some count \<Rightarrow>
                   (let index = ensure_index_buckets (fl_index l) count in
                    case split_loop X base new_bucket [0..<ENTRIES_PER_BUCKET]
                           (read_bucket index split_bucket) (read_bucket index new_bucket) of
                      Err e \<Rightarrow> (Err e, l\<lparr>fl_index := index\<rparr>)
                    | Panic \<Rightarrow> (Panic, l\<lparr>fl_index := index\<rparr>)
                    | Ok (old_page, new_page) \<Rightarrow>
                        (let index' = write_bucket (write_bucket index split_bucket old_page) new_bucket new_page in
                         case advance_split base control of
                           Err e \<Rightarrow> (Err e, l\<lparr>fl_index := index'\<rparr>)
                         | Panic \<Rightarrow> (Panic, l\<lparr>fl_index := index'\<rparr>)
                         | Ok control' \<Rightarrow> (Ok (), l\<lparr>fl_index := index', fl_control := control'\<rparr>)))))"

section \<open>Appending data\<close>

text \<open>The loop that skips to the next data file while the data does not fit.\<close>

function append_roll :: "nat \<Rightarrow> nat \<Rightarrow> nat \<Rightarrow> nat \<Rightarrow> (nat \<times> nat, storage_error) result" where
  "append_roll max_bytes len file_id offset =
     (case checked_add 64 offset len of
        None \<Rightarrow> Err (DatabaseError ''deltaflat next_offset overflow'')
      | Some e \<Rightarrow>
          if max_bytes < e
          then (case checked_add 32 file_id 1 of
              None \<Rightarrow> Err (DatabaseError ''deltaflat file_id overflow'')
            | Some f \<Rightarrow> append_roll max_bytes len f 0)
          else Ok (file_id, offset))"
  by pat_completeness auto
termination
  by (relation "measure (\<lambda>(max_bytes, len, file_id, offset). 2 ^ 32 - file_id)") auto

declare append_roll.simps [simp del]

definition append_data ::
  "flat_config \<Rightarrow> bytes \<Rightarrow> flat_lane \<Rightarrow> (nat \<times> nat \<times> nat, storage_error) result \<times> flat_lane" where
  "append_data cfg data l =
     (if 2 ^ 32 \<le> length data then (Err (DatabaseError ''deltaflat data length exceeds u32''), l)
      else case append_roll (max_file_bytes cfg) (length data) (ctl_next_file_id (fl_control l)) (ctl_next_offset (fl_control l)) of
        Err e \<Rightarrow> (Err e, l)
      | Panic \<Rightarrow> (Panic, l)
      | Ok (file_id, offset) \<Rightarrow>
          (let l' = l\<lparr>fl_data := om_insert file_id (write_all_at (om_get_or [] (fl_data l) file_id) offset data) (fl_data l)\<rparr>
           in case checked_add 64 offset (length data) of
             None \<Rightarrow> (Err (DatabaseError ''deltaflat next_offset overflow''), l')
           | Some next_offset \<Rightarrow>
               (Ok (file_id, offset, length data),
                l'\<lparr>fl_control := (fl_control l)\<lparr>ctl_next_file_id := file_id, ctl_next_offset := next_offset\<rparr>\<rparr>)))"

section \<open>Insertion and lookup\<close>

fun insert_loop ::
  "('c, 'm) crates \<Rightarrow> flat_config \<Rightarrow> bytes \<Rightarrow> bytes \<Rightarrow> nat \<Rightarrow> flat_lane \<Rightarrow> (unit, storage_error) result \<times> flat_lane" where
  "insert_loop X cfg data cid_bytes 0 l = (Err (DatabaseError ''deltaflat insertion exhausted splits for CID''), l)"
| "insert_loop X cfg data cid_bytes (Suc attempts) l =
     (let (even_hash, _, fingerprint, hash64) = split_hash X cid_bytes in
      case primary_bucket even_hash (fl_control l) of
        Err e \<Rightarrow> (Err e, l)
      | Panic \<Rightarrow> (Panic, l)
      | Ok bucket \<Rightarrow>
          (let page = read_bucket (fl_index l) bucket in
           case (if skip_exists_check cfg then Ok False else page_contains_entry page cid_bytes fingerprint hash64) of
             Err e \<Rightarrow> (Err e, l)
           | Panic \<Rightarrow> (Panic, l)
           | Ok True \<Rightarrow> (Ok (), l)
           | Ok False \<Rightarrow>
               (case find_free_slot page of
                  Some slot \<Rightarrow>
                    (case append_data cfg data l of
                       (Err e, l1) \<Rightarrow> (Err e, l1)
                     | (Panic, l1) \<Rightarrow> (Panic, l1)
                     | (Ok (file_id, offset, len), l1) \<Rightarrow>
                         (case write_entry_to_page page slot
                             \<lparr>e_fingerprint = fingerprint, e_file_id = file_id, e_offset = offset, e_len = len,
                              e_hash64 = hash64, e_cid = cid_bytes\<rparr> of
                            Err e \<Rightarrow> (Err e, l1)
                          | Panic \<Rightarrow> (Panic, l1)
                          | Ok page' \<Rightarrow>
                              (let l2 = l1\<lparr>fl_index := write_bucket (fl_index l1) bucket page',
                                   fl_control := (fl_control l1)\<lparr>ctl_item_count := sat_add 64 (ctl_item_count (fl_control l1)) 1\<rparr>\<rparr>
                               in case should_split (fl_control l2) of
                                    Err e \<Rightarrow> (Err e, l2)
                                  | Panic \<Rightarrow> (Panic, l2)
                                  | Ok b \<Rightarrow> if b then split_one_bucket X l2 else (Ok (), l2))))
                | None \<Rightarrow>
                    (case split_one_bucket X l of
                       (Ok _, l1) \<Rightarrow> insert_loop X cfg data cid_bytes attempts l1
                     | (Err e, l1) \<Rightarrow> (Err e, l1)
                     | (Panic, l1) \<Rightarrow> (Panic, l1)))))"

definition insert_block_in_class ::
  "('c, 'm) crates \<Rightarrow> flat_config \<Rightarrow> 'c block \<Rightarrow> bytes \<Rightarrow> flat_lane \<Rightarrow> (unit, storage_error) result \<times> flat_lane" where
  "insert_block_in_class X cfg blk cid_bytes l =
     (if cid_bytes = [] \<or> MAX_CID_BYTES < length cid_bytes
      then (Err (DatabaseError ''deltaflat CID length out of bounds''), l)
      else insert_loop X cfg (block_data blk) cid_bytes (max_probe_steps cfg) l)"

definition lookup_in_class ::
  "('c, 'm) crates \<Rightarrow> bytes \<Rightarrow> flat_control \<Rightarrow> bytes \<Rightarrow> ((nat \<times> nat \<times> flat_entry) option, storage_error) result" where
  "lookup_in_class X index control cid_bytes =
     (let (even_hash, _, fingerprint, hash64) = split_hash X cid_bytes in
      rbind (primary_bucket even_hash control) (\<lambda>bucket.
        rbind (find_entry_slot (read_bucket index bucket) cid_bytes fingerprint hash64) (\<lambda>r.
          Ok (map_option (\<lambda>(slot, entry). (bucket, slot, entry)) r))))"

end
