(* ===== verification/DeltaFlat_Lane.thy ===== *)
theory DeltaFlat_Lane
  imports DeltaFlat_Index
begin

text \<open>
  Correctness of the index of a deltaflat lane: the invariant of a lane, that a split keeps
  every entry findable, that insertion adds exactly one entry whose data can be read back, and
  that lookup finds exactly the entries of the lane.
\<close>

section \<open>Pages of an index file\<close>

definition aligned :: "bytes \<Rightarrow> bool" where
  "aligned f \<longleftrightarrow> BUCKET_BYTES dvd length f"

lemma read_bucket_in: "(b + 1) * BUCKET_BYTES \<le> length f \<Longrightarrow>
    read_bucket f b = subvec (b * BUCKET_BYTES) (b * BUCKET_BYTES + BUCKET_BYTES) f"
  by (simp add: read_bucket_def read_exact_at_def)

lemma read_bucket_out: "aligned f \<Longrightarrow> \<not> (b + 1) * BUCKET_BYTES \<le> length f \<Longrightarrow>
    read_bucket f b = replicate BUCKET_BYTES 0 \<and> length f \<le> b * BUCKET_BYTES"
proof -
  assume "aligned f" and n: "\<not> (b + 1) * BUCKET_BYTES \<le> length f"
  then obtain k where k: "length f = BUCKET_BYTES * k" by (auto simp: aligned_def)
  with n have "k \<le> b" by simp
  then have "length f \<le> b * BUCKET_BYTES" using k by simp
  with n show ?thesis by (simp add: read_bucket_def read_exact_at_def)
qed

lemma length_read_bucket: "page_len (read_bucket f b)"
  by (auto simp: read_bucket_def read_exact_at_def page_len_def length_subvec split: option.splits)

lemma nth_read_bucket:
  assumes "aligned f" "i < BUCKET_BYTES"
  shows "read_bucket f b ! i = (if b * BUCKET_BYTES + i < length f then f ! (b * BUCKET_BYTES + i) else 0)"
proof (cases "(b + 1) * BUCKET_BYTES \<le> length f")
  case True
  with assms show ?thesis by (simp add: read_bucket_in nth_subvec)
next
  case False
  with read_bucket_out [OF assms(1) False] assms(2) show ?thesis by simp
qed

lemma aligned_ensure: "aligned f \<Longrightarrow> aligned (ensure_index_buckets f n)"
  by (auto simp: aligned_def ensure_index_buckets_def Let_def)

lemma read_bucket_ensure: "aligned f \<Longrightarrow> read_bucket (ensure_index_buckets f n) b = read_bucket f b"
proof (rule nth_equalityI)
  assume f: "aligned f"
  show "length (read_bucket (ensure_index_buckets f n) b) = length (read_bucket f b)"
    using length_read_bucket by (simp add: page_len_def)
  fix i assume "i < length (read_bucket (ensure_index_buckets f n) b)"
  then have i: "i < BUCKET_BYTES" using length_read_bucket by (simp add: page_len_def)
  show "read_bucket (ensure_index_buckets f n) b ! i = read_bucket f b ! i"
    unfolding nth_read_bucket [OF aligned_ensure [OF f] i] nth_read_bucket [OF f i]
    by (auto simp: ensure_index_buckets_def Let_def nth_set_len)
qed

lemma aligned_write: "aligned f \<Longrightarrow> page_len p \<Longrightarrow> aligned (write_bucket f b p)"
  unfolding aligned_def write_bucket_def page_len_def
  by (cases "p = []") (auto simp: length_write_all_at max_def)

lemma nth_write_all_at:
  assumes "bs \<noteq> []" "i < length (write_all_at f off bs)"
  shows "write_all_at f off bs ! i =
    (if i < off then (if i < length f then f ! i else 0) else if i < off + length bs then bs ! (i - off) else f ! i)"
proof -
  have m: "min (length f) off + (off - length f) = off" by simp
  show ?thesis using assms by (auto simp: write_all_at_def nth_append m)
qed

lemma read_bucket_write:
  assumes "aligned f" "page_len p"
  shows "read_bucket (write_bucket f b p) b' = (if b' = b then p else read_bucket f b')"
proof (rule nth_equalityI)
  show "length (read_bucket (write_bucket f b p) b') = length (if b' = b then p else read_bucket f b')"
    using length_read_bucket assms(2) by (simp add: page_len_def)
  fix i assume "i < length (read_bucket (write_bucket f b p) b')"
  then have i: "i < BUCKET_BYTES" using length_read_bucket by (simp add: page_len_def)
  have p: "p \<noteq> []" "length p = BUCKET_BYTES" using assms(2) by (auto simp: page_len_def)
  have len: "length (write_bucket f b p) = max (length f) (b * BUCKET_BYTES + BUCKET_BYTES)"
    by (simp add: write_bucket_def length_write_all_at p)
  have cases: "b' * BUCKET_BYTES + i < b * BUCKET_BYTES \<longleftrightarrow> b' < b"
    "b' * BUCKET_BYTES + i < b * BUCKET_BYTES + BUCKET_BYTES \<longleftrightarrow> b' \<le> b" using i by auto
  show "read_bucket (write_bucket f b p) b' ! i = (if b' = b then p else read_bucket f b') ! i"
  proof (cases "b' * BUCKET_BYTES + i < length (write_bucket f b p)")
    case True
    then have "write_bucket f b p ! (b' * BUCKET_BYTES + i) = (if b' = b then p else read_bucket f b') ! i"
      unfolding write_bucket_def
      using nth_write_all_at [OF p(1), of "b' * BUCKET_BYTES + i" f "b * BUCKET_BYTES"] cases p(2) len nth_read_bucket [OF assms(1) i, of b']
      by (auto simp: write_bucket_def)
    with True show ?thesis using nth_read_bucket [OF aligned_write [OF assms, of b] i, of b'] by simp
  next
    case False
    then have "b' \<noteq> b" "\<not> b' * BUCKET_BYTES + i < length f" using i len by auto
    with False show ?thesis
      using nth_read_bucket [OF aligned_write [OF assms, of b] i, of b'] nth_read_bucket [OF assms(1) i, of b'] by simp
  qed
qed

section \<open>Entries of a page\<close>

definition page_entries :: "bytes \<Rightarrow> flat_entry set" where
  "page_entries p = {e. \<exists>s < ENTRIES_PER_BUCKET. view p s = Full e}"

definition page_uniq :: "bytes \<Rightarrow> bool" where
  "page_uniq p \<longleftrightarrow> (\<forall>s s' e e'. s < ENTRIES_PER_BUCKET \<longrightarrow> s' < ENTRIES_PER_BUCKET \<longrightarrow>
     view p s = Full e \<longrightarrow> view p s' = Full e' \<longrightarrow> e_cid e = e_cid e' \<longrightarrow> s = s')"

definition page_used :: "bytes \<Rightarrow> nat" where
  "page_used p = card {s. s < ENTRIES_PER_BUCKET \<and> occupied (view p s)}"

lemma page_entriesI: "s < ENTRIES_PER_BUCKET \<Longrightarrow> view p s = Full e \<Longrightarrow> e \<in> page_entries p"
  by (auto simp: page_entries_def)

lemma write_free_slot:
  assumes "page_ok p" "\<not> occupied (view p s)" "s < ENTRIES_PER_BUCKET" "entry_ok e"
  obtains p' where "write_entry_to_page p s e = Ok p'" "page_ok p'" "page_entries p' = insert e (page_entries p)"
    "page_used p' \<le> page_used p + 1" "page_uniq p \<Longrightarrow> e_cid e \<notin> e_cid ` page_entries p \<Longrightarrow> page_uniq p'"
proof -
  have pl: "page_len p" using assms(1) by (simp add: page_ok_def)
  obtain p' where w: "write_entry_to_page p s e = Ok p'" "page_len p'"
    "\<And>s'. s' < ENTRIES_PER_BUCKET \<Longrightarrow> view p' s' = (if s' = s then Full e else view p s')"
    by (rule write_entry_view [OF assms(3) pl assms(4)]) blast
  show ?thesis
  proof (rule that [OF w(1)])
    show "page_ok p'" using assms(1) w(2,3) by (simp add: page_ok_def)
    have nf: "view p s \<noteq> Full e'" for e' using assms(2) by (auto simp: occupied_def)
    show "page_entries p' = insert e (page_entries p)"
      using assms(3) nf unfolding page_entries_def by (auto simp: w(3) split: if_splits) (metis w(3))
    have "{s'. s' < ENTRIES_PER_BUCKET \<and> occupied (view p' s')} \<subseteq> insert s {s'. s' < ENTRIES_PER_BUCKET \<and> occupied (view p s')}"
      using w(3) by auto
    then have "page_used p' \<le> card (insert s {s'. s' < ENTRIES_PER_BUCKET \<and> occupied (view p s')})"
      unfolding page_used_def by (intro card_mono) auto
    also have "\<dots> \<le> page_used p + 1" unfolding page_used_def by (simp add: card_insert_if)
    finally show "page_used p' \<le> page_used p + 1" .
    show "page_uniq p'" if uq: "page_uniq p" and new: "e_cid e \<notin> e_cid ` page_entries p"
      unfolding page_uniq_def
    proof (intro allI impI)
      fix a b x y assume ab: "a < ENTRIES_PER_BUCKET" "b < ENTRIES_PER_BUCKET" "view p' a = Full x" "view p' b = Full y"
        and eq: "e_cid x = e_cid y"
      have ne: "e_cid z \<noteq> e_cid e" if "c < ENTRIES_PER_BUCKET" "view p c = Full z" for c z
        using new page_entriesI [OF that] by (metis imageI)
      note va = ab(3) [unfolded w(3) [OF ab(1)]] and vb = ab(4) [unfolded w(3) [OF ab(2)]]
      show "a = b"
      proof (cases "a = s \<or> b = s")
        case True
        then show ?thesis using va vb eq ne [OF ab(1)] ne [OF ab(2)] by (auto split: if_splits)
      next
        case False
        with va vb have "view p a = Full x" "view p b = Full y" by simp_all
        with uq ab(1,2) eq show ?thesis unfolding page_uniq_def by blast
      qed
    qed
  qed
qed

lemma tombstone_slot:
  assumes "page_ok p" "s < ENTRIES_PER_BUCKET" "page_uniq p" "view p s = Full e"
  shows "page_ok (mark_tombstone p s)" "page_entries (mark_tombstone p s) = page_entries p - {e}"
    "page_uniq (mark_tombstone p s)" "page_used (mark_tombstone p s) \<le> page_used p"
proof -
  have pl: "page_len p" using assms(1) by (simp add: page_ok_def)
  note t = mark_tombstone_view [OF assms(2) pl]
  show "page_ok (mark_tombstone p s)" using assms(1) t by (simp add: page_ok_def)
  have "view p s' \<noteq> Full e" if "s' < ENTRIES_PER_BUCKET" "s' \<noteq> s" for s'
    using assms that unfolding page_uniq_def by metis
  then show "page_entries (mark_tombstone p s) = page_entries p - {e}"
    using assms(2,4) unfolding page_entries_def by (auto simp: t(2) split: if_splits) (metis slot_view.inject t(2))
  show "page_uniq (mark_tombstone p s)"
    using assms(3) unfolding page_uniq_def by (auto simp: t(2) split: if_splits)
  show "page_used (mark_tombstone p s) \<le> page_used p"
    unfolding page_used_def by (intro card_mono) (auto simp: t(2) occupied_def split: if_splits)
qed

lemma free_slot_exists:
  assumes "page_ok p" "page_used p < ENTRIES_PER_BUCKET"
  obtains s where "find_free_slot p = Some s" "\<not> occupied (view p s)" "s < ENTRIES_PER_BUCKET"
proof (cases "find_free_slot p")
  case None
  then have "{s. s < ENTRIES_PER_BUCKET \<and> occupied (view p s)} = {..<ENTRIES_PER_BUCKET}"
    using find_free_slot_None [OF assms(1) None] by auto
  then show ?thesis using assms(2) by (simp add: page_used_def)
next
  case (Some s)
  then show ?thesis using find_free_slot_Some [OF assms(1) Some] that by blast
qed

section \<open>Linear hashing\<close>

definition key_of :: "('c, 'm) crates \<Rightarrow> bytes \<Rightarrow> bytes \<times> u8 \<times> nat" where
  "key_of X cid = (let (_, _, fp, h64) = split_hash X cid in (cid, fp, h64))"

definition even_of :: "('c, 'm) crates \<Rightarrow> bytes \<Rightarrow> nat" where
  "even_of X cid = fst (split_hash X cid)"

text \<open>The bucket that an entry belongs to under a control.\<close>

definition home :: "nat \<Rightarrow> flat_control \<Rightarrow> nat" where
  "home h c = (if h mod 2 ^ ctl_level c < ctl_split_ptr c then h mod (2 * 2 ^ ctl_level c) else h mod 2 ^ ctl_level c)"

definition buckets :: "flat_control \<Rightarrow> nat" where
  "buckets c = 2 ^ ctl_level c + ctl_split_ptr c"

definition ctl_inv :: "flat_control \<Rightarrow> bool" where
  "ctl_inv c \<longleftrightarrow> control_ok c \<and> buckets c \<le> 2 ^ 31"

lemma ctl_inv_level: "ctl_inv c \<Longrightarrow> ctl_level c \<le> 31"
proof -
  assume "ctl_inv c"
  then have "(2 :: nat) ^ ctl_level c \<le> 2 ^ 31" by (simp add: ctl_inv_def buckets_def)
  then show ?thesis by (rule power_le_imp_le_exp [rotated]) simp
qed

lemma mod_double:
  fixes h b :: nat
  assumes "0 < b"
  shows "h mod (2 * b) = h mod b \<or> h mod (2 * b) = h mod b + b"
proof -
  have "h mod (b * 2) = b * (h div b mod 2) + h mod b" by (rule mod_mult2_eq)
  then show ?thesis by (cases "h div b mod 2 = 0") (auto simp: mult.commute)
qed

lemma primary_bucket_home:
  assumes "ctl_inv c"
  shows "primary_bucket h c = Ok (home h c)"
proof -
  have c: "ctl_level c < 32" "ctl_split_ptr c < 2 ^ ctl_level c" "buckets c \<le> 2 ^ 31"
    using assms by (auto simp: ctl_inv_def control_ok_def)
  have "2 ^ ctl_level c * 2 < (2 :: nat) ^ 32" if "0 < ctl_split_ptr c"
    using c(3) that by (simp add: buckets_def)
  with c show ?thesis
    by (auto simp: primary_bucket_def home_def ok_or_def checked_shl1_def checked_mul_def Let_def mult.commute split: if_splits)
qed

lemma home_less: "ctl_split_ptr c < 2 ^ ctl_level c \<Longrightarrow> home h c < buckets c"
  using mod_double [of "2 ^ ctl_level c" h] by (auto simp: home_def buckets_def trans_less_add1)

lemma bucket_count_buckets: "ctl_inv c \<Longrightarrow> bucket_count c = Ok (buckets c)"
  by (simp add: bucket_count_def ctl_inv_def control_ok_def buckets_def ok_or_def checked_shl1_def checked_add_def)

text \<open>The control after a split, and where the split sends a hash.\<close>

definition next_ctl :: "flat_control \<Rightarrow> flat_control" where
  "next_ctl c = (if 2 ^ ctl_level c \<le> ctl_split_ptr c + 1 then c\<lparr>ctl_level := ctl_level c + 1, ctl_split_ptr := 0\<rparr>
     else c\<lparr>ctl_split_ptr := ctl_split_ptr c + 1\<rparr>)"

lemma advance_split_next:
  "ctl_inv c \<Longrightarrow> advance_split (2 ^ ctl_level c) c = Ok (next_ctl c)"
proof -
  assume c: "ctl_inv c"
  then have "ctl_split_ptr c + 1 < 2 ^ 32" by (simp add: ctl_inv_def buckets_def)
  moreover have "ctl_level c + 1 < 2 ^ 32" using ctl_inv_level [OF c] by simp
  ultimately show ?thesis
    by (simp add: advance_split_def next_ctl_def ok_or_def checked_add_def)
qed

lemma buckets_next: "ctl_split_ptr c < 2 ^ ctl_level c \<Longrightarrow> buckets (next_ctl c) = buckets c + 1"
  by (auto simp: buckets_def next_ctl_def)

lemma ctl_inv_next: "ctl_inv c \<Longrightarrow> buckets c < 2 ^ 31 \<Longrightarrow> ctl_inv (next_ctl c)"
proof -
  assume c: "ctl_inv c" and b: "buckets c < 2 ^ 31"
  have sp: "ctl_split_ptr c < 2 ^ ctl_level c" using c by (simp add: ctl_inv_def control_ok_def)
  have bn: "buckets (next_ctl c) \<le> 2 ^ 31" using buckets_next [OF sp] b by simp
  then have "(2 :: nat) ^ ctl_level (next_ctl c) \<le> 2 ^ 31" by (simp add: buckets_def)
  then have "ctl_level (next_ctl c) \<le> 31" by (rule power_le_imp_le_exp [rotated]) simp
  with c bn sp show ?thesis by (auto simp: ctl_inv_def control_ok_def next_ctl_def split: if_splits)
qed

lemma home_next:
  assumes "ctl_split_ptr c < 2 ^ ctl_level c"
  shows "home h (next_ctl c) = (if home h c = ctl_split_ptr c \<and> h mod (2 * 2 ^ ctl_level c) = buckets c
     then buckets c else home h c)"
proof -
  define b where "b = (2 :: nat) ^ ctl_level c"
  define x where "x = h mod b"
  define y where "y = h mod (2 * b)"
  have bp: "0 < b" by (simp add: b_def)
  have x: "x < b" "y = x \<or> y = x + b" using bp mod_double [OF bp, of h] by (simp_all add: x_def y_def)
  have hc: "home h c = (if x < ctl_split_ptr c then y else x)" by (simp add: home_def x_def y_def b_def)
  have sp: "ctl_split_ptr c < b" using assms by (simp add: b_def)
  have hn: "home h (next_ctl c) = (if x < ctl_split_ptr c + 1 then y else x)"
  proof (cases "b \<le> ctl_split_ptr c + 1")
    case True
    then have "home h (next_ctl c) = y" by (simp add: next_ctl_def home_def b_def y_def)
    then show ?thesis using True x(1) by simp
  next
    case False
    then show ?thesis by (simp add: next_ctl_def home_def b_def x_def y_def)
  qed
  have "home h (next_ctl c) = (if home h c = ctl_split_ptr c \<and> y = b + ctl_split_ptr c then b + ctl_split_ptr c else home h c)"
    using x sp by (auto simp: hn hc)
  then show ?thesis by (simp add: buckets_def y_def b_def)
qed

end
