(* ===== verification/DeltaFlat_Split.thy ===== *)
theory DeltaFlat_Split
  imports DeltaFlat_Lane
begin

text \<open>
  The invariant of an index and its preservation by \<open>split_one_bucket\<close>: a split moves entries
  between two pages and loses none.
\<close>

section \<open>The loop over the slots of the split bucket\<close>

definition movers :: "('c, 'm) crates \<Rightarrow> nat \<Rightarrow> nat \<Rightarrow> bytes \<Rightarrow> nat set \<Rightarrow> flat_entry set" where
  "movers X base new_bucket p S = {e. \<exists>s \<in> S. view p s = Full e \<and> even_of X (e_cid e) mod (2 * base) = new_bucket}"

text \<open>What the loop leaves in the two pages, when it starts with enough room in the new one.\<close>

definition split_result :: "flat_entry set \<Rightarrow> bytes \<Rightarrow> bytes \<Rightarrow> bytes \<Rightarrow> bytes \<Rightarrow> bool" where
  "split_result M old new old' new' \<longleftrightarrow> page_ok old' \<and> page_ok new' \<and> page_uniq old' \<and> page_uniq new'
     \<and> page_entries old' = page_entries old - M \<and> page_entries new' = page_entries new \<union> M"

lemma split_loop_spec:
  assumes "set slots \<subseteq> {..<ENTRIES_PER_BUCKET}" "distinct slots" "page_ok old" "page_ok new" "page_uniq old" "page_uniq new"
    and "page_used new + length slots \<le> ENTRIES_PER_BUCKET" "0 < base" "base * 2 \<le> 2 ^ 32"
    and "\<And>e. e \<in> page_entries old \<Longrightarrow> entry_ok e"
    and "e_cid ` page_entries old \<inter> e_cid ` page_entries new = {}"
  shows "\<exists>old' new'. split_loop X base nb slots old new = Ok (old', new')
    \<and> split_result (movers X base nb old (set slots)) old new old' new'"
  using assms
proof (induction slots arbitrary: old new)
  case Nil
  then show ?case by (auto simp: split_result_def movers_def)
next
  case (Cons slot slots)
  have slot: "slot < ENTRIES_PER_BUCKET" "slot \<notin> set slots" using Cons(2,3) by auto
  have pl: "page_len old" "view old slot \<noteq> Bad" using page_okD [OF Cons(4) slot(1)] by auto
  note dec = decode_entry_view [OF slot(1) pl]
  have mul: "checked_mul 64 base 2 = Some (2 * base)" using Cons(10) by (simp add: checked_mul_def mult.commute)
  have tgt: "h mod (2 * base) mod 4294967296 = h mod (2 * base)" for h :: nat
  proof (rule mod_less)
    have "h mod (2 * base) < 2 * base" using Cons(9) by simp
    with Cons(10) show "h mod (2 * base) < 4294967296" by simp
  qed
  show ?case
  proof (cases "\<exists>e. view old slot = Full e \<and> even_of X (e_cid e) mod (2 * base) = nb")
    case False
    then have eq: "split_loop X base nb (slot # slots) old new = split_loop X base nb slots old new"
      and mv: "movers X base nb old (set (slot # slots)) = movers X base nb old (set slots)"
      using dec by (auto simp: mul tgt even_of_def movers_def split: slot_view.splits)
    show ?thesis unfolding eq mv by (rule Cons(1)) (use Cons(2-) in auto)
  next
    case True
    then obtain e where e: "view old slot = Full e" "even_of X (e_cid e) mod (2 * base) = nb" by blast
    have in_old: "e \<in> page_entries old" by (rule page_entriesI [OF slot(1) e(1)])
    obtain dst where dst: "find_free_slot new = Some dst" "\<not> occupied (view new dst)" "dst < ENTRIES_PER_BUCKET"
      by (rule free_slot_exists [OF Cons(5)]) (use Cons(8) in auto)
    have fresh: "e_cid e \<notin> e_cid ` page_entries new" using Cons(12) in_old by auto
    obtain new1 where n1: "write_entry_to_page new dst e = Ok new1" "page_ok new1"
      "page_entries new1 = insert e (page_entries new)" "page_used new1 \<le> page_used new + 1" "page_uniq new1"
      by (rule write_free_slot [OF Cons(5) dst(2,3) Cons(11) [OF in_old]]) (use Cons(7) fresh in blast)
    let ?old = "mark_tombstone old slot"
    note t = tombstone_slot [OF Cons(4) slot(1) Cons(6) e(1)]
    have eq: "split_loop X base nb (slot # slots) old new = split_loop X base nb slots ?old new1"
      using dec e dst n1(1) by (simp add: mul tgt even_of_def)
    have uq: "x = e" if x: "x \<in> page_entries old" "e_cid x = e_cid e" for x
    proof -
      obtain s where s: "s < ENTRIES_PER_BUCKET" "view old s = Full x" using x(1) by (auto simp: page_entries_def)
      then have "s = slot" using Cons(6) slot(1) e(1) x(2) unfolding page_uniq_def by blast
      with s e(1) show ?thesis by simp
    qed
    have disj: "e_cid ` page_entries ?old \<inter> e_cid ` page_entries new1 = {}"
      using Cons(12) uq unfolding t(2) n1(3) by auto
    have "movers X base nb ?old (set slots) = movers X base nb old (set slots)"
      using mark_tombstone_view(2) [OF slot(1) pl(1)] Cons(2) slot(2) unfolding movers_def by (auto simp: subset_iff)
    moreover have "movers X base nb old (set (slot # slots)) = insert e (movers X base nb old (set slots))"
      using e by (auto simp: movers_def)
    moreover have "\<exists>old' new'. split_loop X base nb slots ?old new1 = Ok (old', new')
        \<and> split_result (movers X base nb ?old (set slots)) ?old new1 old' new'"
      by (rule Cons(1)) (use Cons(2-) n1 t disj in auto)
    ultimately show ?thesis unfolding eq by (auto simp: split_result_def t(2) n1(3))
  qed
qed

section \<open>The index invariant\<close>

definition index_inv :: "('c, 'm) crates \<Rightarrow> flat_control \<Rightarrow> bytes \<Rightarrow> bool" where
  "index_inv X c f \<longleftrightarrow> aligned f \<and> (\<forall>b. page_ok (read_bucket f b) \<and> page_uniq (read_bucket f b))
     \<and> (\<forall>b. \<forall>e \<in> page_entries (read_bucket f b).
          entry_ok e \<and> entry_key e = key_of X (e_cid e) \<and> home (even_of X (e_cid e)) c = b)"

definition index_entries :: "bytes \<Rightarrow> flat_entry set" where
  "index_entries f = (\<Union>b. page_entries (read_bucket f b))"

lemma movers_all: "movers X base nb p {..<ENTRIES_PER_BUCKET} = {e \<in> page_entries p. even_of X (e_cid e) mod (2 * base) = nb}"
  by (auto simp: movers_def page_entries_def)

lemma split_one_bucket_spec:
  assumes "ctl_inv (fl_control l)" "buckets (fl_control l) < 2 ^ 31" "index_inv X (fl_control l) (fl_index l)"
  shows "\<exists>f'. split_one_bucket X l = (Ok (), l\<lparr>fl_index := f', fl_control := next_ctl (fl_control l)\<rparr>)
    \<and> index_inv X (next_ctl (fl_control l)) f' \<and> index_entries f' = index_entries (fl_index l)"
proof -
  let ?c = "fl_control l" and ?f = "fl_index l"
  let ?base = "(2 :: nat) ^ ctl_level ?c" and ?sb = "ctl_split_ptr ?c" and ?nb = "buckets ?c"
  let ?g = "ensure_index_buckets ?f (?nb + 1)"
  have c: "ctl_level ?c < 32" "?sb < ?base" using assms(1) by (auto simp: ctl_inv_def control_ok_def)
  have nb: "?nb = ?base + ?sb" "?nb + 1 < 2 ^ 32" using assms(2) by (auto simp: buckets_def)
  have base2: "?base * 2 \<le> 2 ^ 32" using assms(2) by (simp add: buckets_def)
  have al: "aligned ?f" and pg: "\<And>b. page_ok (read_bucket ?f b)" "\<And>b. page_uniq (read_bucket ?f b)"
    and en: "\<And>b e. e \<in> page_entries (read_bucket ?f b) \<Longrightarrow>
      entry_ok e \<and> entry_key e = key_of X (e_cid e) \<and> home (even_of X (e_cid e)) ?c = b"
    using assms(3) by (auto simp: index_inv_def)
  have rg: "read_bucket ?g b = read_bucket ?f b" for b by (rule read_bucket_ensure [OF al])
  have empty: "page_entries (read_bucket ?f ?nb) = {}"
    using en [of _ ?nb] home_less [OF c(2)] by (metis equals0I less_irrefl)
  have fullnone: "view (read_bucket ?f ?nb) s \<noteq> Full e" if "s < ENTRIES_PER_BUCKET" for s e
    using empty that by (auto simp: page_entries_def)
  have used: "page_used (read_bucket ?f ?nb) = 0"
  proof -
    have "\<not> occupied (view (read_bucket ?f ?nb) s)" if "s < ENTRIES_PER_BUCKET" for s
      using page_okD [OF pg(1) that] fullnone [OF that] by (cases "view (read_bucket ?f ?nb) s") (auto simp: occupied_def)
    then show ?thesis unfolding page_used_def by auto
  qed
  let ?M = "{e \<in> page_entries (read_bucket ?f ?sb). even_of X (e_cid e) mod (2 * ?base) = ?nb}"
  have slots: "set [0..<ENTRIES_PER_BUCKET] = {..<ENTRIES_PER_BUCKET}" by auto
  have "\<exists>old' new'. split_loop X ?base ?nb [0..<ENTRIES_PER_BUCKET] (read_bucket ?f ?sb) (read_bucket ?f ?nb) = Ok (old', new')
    \<and> split_result (movers X ?base ?nb (read_bucket ?f ?sb) (set [0..<ENTRIES_PER_BUCKET])) (read_bucket ?f ?sb) (read_bucket ?f ?nb) old' new'"
    by (rule split_loop_spec [OF all_slots]) (use pg en empty used base2 in auto)
  then obtain old' new' where lp: "split_loop X ?base ?nb [0..<ENTRIES_PER_BUCKET] (read_bucket ?g ?sb) (read_bucket ?g ?nb) = Ok (old', new')"
    and r: "split_result ?M (read_bucket ?f ?sb) (read_bucket ?f ?nb) old' new'"
    unfolding rg slots movers_all by blast
  note r' = r [unfolded split_result_def empty]
  define f' where "f' = write_bucket (write_bucket ?g ?sb old') ?nb new'"
  have pl: "page_len old'" "page_len new'" using r' by (auto simp: page_ok_def)
  have rd: "read_bucket f' b = (if b = ?nb then new' else if b = ?sb then old' else read_bucket ?f b)" for b
    using read_bucket_write [OF aligned_write [OF aligned_ensure [OF al] pl(1)] pl(2)]
      read_bucket_write [OF aligned_ensure [OF al] pl(1)] by (simp add: f'_def read_bucket_ensure [OF al])
  have res: "split_one_bucket X l = (Ok (), l\<lparr>fl_index := f', fl_control := next_ctl ?c\<rparr>)"
    using c nb lp advance_split_next [OF assms(1)]
    by (simp add: split_one_bucket_def Let_def checked_shl1_def checked_add_def f'_def)
  have ne: "?sb \<noteq> ?nb" using nb(1) by simp
  have pe: "page_entries (read_bucket f' b) = (if b = ?nb then ?M else if b = ?sb then page_entries (read_bucket ?f ?sb) - ?M
      else page_entries (read_bucket ?f b))" for b
    using r' ne by (simp add: rd)
  have eqv: "e \<in> index_entries f' \<longleftrightarrow> e \<in> index_entries ?f" for e
  proof
    assume "e \<in> index_entries f'"
    then obtain b where "e \<in> page_entries (read_bucket f' b)" by (auto simp: index_entries_def)
    then show "e \<in> index_entries ?f" unfolding pe index_entries_def by (auto split: if_splits)
  next
    assume "e \<in> index_entries ?f"
    then obtain b where b: "e \<in> page_entries (read_bucket ?f b)" by (auto simp: index_entries_def)
    have "e \<in> page_entries (read_bucket f' (if e \<in> ?M then ?nb else b))"
      using b empty ne unfolding pe by (auto split: if_splits)
    then show "e \<in> index_entries f'" unfolding index_entries_def by blast
  qed
  have ents: "entry_ok e \<and> entry_key e = key_of X (e_cid e) \<and> home (even_of X (e_cid e)) (next_ctl ?c) = b"
    if eb: "e \<in> page_entries (read_bucket f' b)" for b e
  proof -
    have hn: "home (even_of X (e_cid e)) (next_ctl ?c) = (if home (even_of X (e_cid e)) ?c = ?sb \<and> even_of X (e_cid e) mod (2 * ?base) = ?nb
        then ?nb else home (even_of X (e_cid e)) ?c)" by (rule home_next [OF c(2)])
    consider "b = ?nb" "e \<in> ?M" | "b \<noteq> ?nb" "b = ?sb" "e \<in> page_entries (read_bucket ?f ?sb)" "e \<notin> ?M"
      | "b \<noteq> ?nb" "b \<noteq> ?sb" "e \<in> page_entries (read_bucket ?f b)"
      using eb unfolding pe by (auto split: if_splits)
    then show ?thesis
    proof cases
      case 1
      then show ?thesis using en [of e ?sb] hn by simp
    next
      case 2
      then show ?thesis using en [of e ?sb] hn by simp
    next
      case 3
      then show ?thesis using en [of e b] hn by simp
    qed
  qed
  have "aligned f'" unfolding f'_def by (intro aligned_write aligned_ensure al pl)
  moreover have "page_ok (read_bucket f' b) \<and> page_uniq (read_bucket f' b)" for b using pg r' by (simp add: rd)
  ultimately have "index_inv X (next_ctl ?c) f'" using ents by (simp add: index_inv_def)
  with res eqv show ?thesis by (intro exI [of _ f']) auto
qed

end
