(* ===== verification/DeltaFlat_Ops.thy ===== *)
theory DeltaFlat_Ops
  imports DeltaFlat_Split
begin

text \<open>
  Lookup, insertion and deletion on a lane of the deltaflat backend, against the set of its
  entries and the bytes their data files hold.
\<close>

section \<open>Lookup\<close>

definition found :: "('c, 'm) crates \<Rightarrow> flat_lane \<Rightarrow> bytes \<Rightarrow> flat_entry option" where
  "found X l cid = (case lookup_in_class X (fl_index l) (fl_control l) cid of
     Ok (Some (bucket, slot, e)) \<Rightarrow> Some e | _ \<Rightarrow> None)"

lemma key_of_eq: "entry_key e = key_of X (e_cid e) \<Longrightarrow> entry_key e = key_of X cid \<longleftrightarrow> e_cid e = cid"
  by (auto simp: entry_key_def key_of_def split: prod.splits)

lemma lookup_spec:
  assumes "ctl_inv c" "index_inv X c f"
  shows "\<exists>r. lookup_in_class X f c cid = Ok r \<and>
    (case r of
       None \<Rightarrow> cid \<notin> e_cid ` index_entries f
     | Some (b, s, e) \<Rightarrow> b = home (even_of X cid) c \<and> s < ENTRIES_PER_BUCKET \<and> view (read_bucket f b) s = Full e
         \<and> e \<in> index_entries f \<and> e_cid e = cid)"
proof -
  obtain ev od fp h where h: "split_hash X cid = (ev, od, fp, h)" by (cases "split_hash X cid")
  have key: "key_of X cid = (cid, fp, h)" and ev: "even_of X cid = ev" by (simp_all add: key_of_def even_of_def h)
  let ?b = "home ev c"
  let ?p = "read_bucket f ?b"
  let ?m = "first_match (view ?p) (cid, fp, h) [0..<ENTRIES_PER_BUCKET]"
  have ok: "page_ok ?p" using assms(2) by (simp add: index_inv_def)
  have lk: "lookup_in_class X f c cid = Ok (map_option (\<lambda>(slot, entry). (?b, slot, entry)) ?m)"
    by (simp add: lookup_in_class_def h primary_bucket_home [OF assms(1)] find_entry_slot_view [OF ok])
  show ?thesis
  proof (cases ?m)
    case None
    have "e_cid e \<noteq> cid" if e: "e \<in> index_entries f" for e
    proof
      assume cid: "e_cid e = cid"
      obtain b where b: "e \<in> page_entries (read_bucket f b)" using e by (auto simp: index_entries_def)
      then have "b = ?b" "entry_key e = key_of X cid" using assms(2) cid ev by (auto simp: index_inv_def)
      with b None key show False by (auto simp: first_match_None page_entries_def)
    qed
    then show ?thesis using lk None by auto
  next
    case (Some r)
    obtain s e where r: "r = (s, e)" by (cases r)
    have m: "s < ENTRIES_PER_BUCKET" "view ?p s = Full e" "entry_key e = (cid, fp, h)"
      using first_match_Some [OF Some [unfolded r]] by auto
    have "e \<in> index_entries f" using page_entriesI [OF m(1,2)] by (auto simp: index_entries_def)
    with m show ?thesis using lk Some r ev by (auto simp: entry_key_def)
  qed
qed

lemma index_unique:
  assumes "index_inv X c f" "e \<in> index_entries f" "e' \<in> index_entries f" "e_cid e = e_cid e'"
  shows "e = e'"
proof -
  obtain b b' where b: "e \<in> page_entries (read_bucket f b)" "e' \<in> page_entries (read_bucket f b')"
    using assms(2,3) by (auto simp: index_entries_def)
  have inv: "\<And>b e. e \<in> page_entries (read_bucket f b) \<Longrightarrow> home (even_of X (e_cid e)) c = b" "page_uniq (read_bucket f b)"
    using assms(1) by (auto simp: index_inv_def)
  have "b' = b" using inv(1) [OF b(1)] inv(1) [OF b(2)] assms(4) by simp
  with b obtain s s' where s: "s < ENTRIES_PER_BUCKET" "view (read_bucket f b) s = Full e"
    "s' < ENTRIES_PER_BUCKET" "view (read_bucket f b) s' = Full e'" by (auto simp: page_entries_def)
  then have "s = s'" using inv(2) assms(4) unfolding page_uniq_def by blast
  with s show ?thesis by simp
qed

lemma found_iff:
  assumes "ctl_inv (fl_control l)" "index_inv X (fl_control l) (fl_index l)"
  shows "found X l cid = Some e \<longleftrightarrow> e \<in> index_entries (fl_index l) \<and> e_cid e = cid"
proof -
  obtain r where r: "lookup_in_class X (fl_index l) (fl_control l) cid = Ok r" "case r of
       None \<Rightarrow> cid \<notin> e_cid ` index_entries (fl_index l)
     | Some (b, s, e) \<Rightarrow> b = home (even_of X cid) (fl_control l) \<and> s < ENTRIES_PER_BUCKET \<and> view (read_bucket (fl_index l) b) s = Full e
         \<and> e \<in> index_entries (fl_index l) \<and> e_cid e = cid"
    using lookup_spec [OF assms] by blast
  show ?thesis
  proof (cases r)
    case None
    with r show ?thesis by (auto simp: found_def)
  next
    case (Some x)
    obtain b s y where "x = (b, s, y)" by (cases x)
    with r Some show ?thesis using index_unique [OF assms(2)] by (auto simp: found_def)
  qed
qed

lemma found_None:
  assumes "ctl_inv (fl_control l)" "index_inv X (fl_control l) (fl_index l)"
  shows "found X l cid = None \<longleftrightarrow> cid \<notin> e_cid ` index_entries (fl_index l)"
proof (cases "found X l cid")
  case None
  then have "e_cid e \<noteq> cid" if "e \<in> index_entries (fl_index l)" for e using found_iff [OF assms, of cid e] that by simp
  with None show ?thesis by auto
next
  case (Some e)
  then show ?thesis using found_iff [OF assms, of cid e] by (auto simp: image_iff)
qed

section \<open>Data files\<close>

definition content :: "flat_lane \<Rightarrow> flat_entry \<Rightarrow> bytes option" where
  "content l e = Option.bind (om_get (fl_data l) (e_file_id e)) (\<lambda>file. read_exact_at file (e_offset e) (e_len e))"

text \<open>The data of an entry lies before the place where the next data goes.\<close>

definition placed :: "flat_control \<Rightarrow> flat_entry \<Rightarrow> bool" where
  "placed c e \<longleftrightarrow> e_file_id e < ctl_next_file_id c
     \<or> e_file_id e = ctl_next_file_id c \<and> e_offset e + e_len e \<le> ctl_next_offset c"

definition lane_inv :: "('c, 'm) crates \<Rightarrow> flat_lane \<Rightarrow> bool" where
  "lane_inv X l \<longleftrightarrow> ctl_inv (fl_control l) \<and> index_inv X (fl_control l) (fl_index l)
     \<and> (\<forall>e \<in> index_entries (fl_index l). placed (fl_control l) e \<and> content l e \<noteq> None)"

lemma append_roll_spec:
  assumes "append_roll m n fid off = Ok (f, o')" "fid < 2 ^ 32"
  shows "(f = fid \<and> o' = off \<or> fid < f \<and> o' = 0) \<and> o' + n < 2 ^ 64 \<and> o' + n \<le> m \<and> f < 2 ^ 32"
  using assms
proof (induction m n fid off rule: append_roll.induct)
  case (1 m n fid off)
  show ?case
  proof (cases "off + n < 2 ^ 64 \<and> m < off + n \<and> fid + 1 < 2 ^ 32")
    case True
    then have "append_roll m n (fid + 1) 0 = Ok (f, o')" using 1(2) by (simp add: append_roll.simps [of m n fid off] checked_add_def)
    then have "(f = fid + 1 \<and> o' = 0 \<or> fid + 1 < f \<and> o' = 0) \<and> o' + n < 2 ^ 64 \<and> o' + n \<le> m \<and> f < 2 ^ 32"
      using True by (intro 1(1) [of "off + n"]) auto
    then show ?thesis by auto
  next
    case False
    then show ?thesis using 1(2,3) by (auto simp: append_roll.simps [of m n fid off] checked_add_def split: if_splits)
  qed
qed

lemma append_roll_total:
  assumes "n \<le> m" "m < 2 ^ 64" "off + n < 2 ^ 64" "fid + 1 < 2 ^ 32"
  shows "\<exists>f o'. append_roll m n fid off = Ok (f, o')"
  using assms by (simp add: append_roll.simps [of m n fid off] append_roll.simps [of m n "Suc fid" 0] checked_add_def)

text \<open>What a successful append leaves.\<close>

lemma append_data_spec:
  assumes "append_data cfg data l = (Ok (f, o', n), l')" "ctl_inv (fl_control l)"
  shows "fl_index l' = fl_index l" "n = length data" "n < 2 ^ 32" "f < 2 ^ 32" "o' + n < 2 ^ 64"
    "fl_control l' = (fl_control l)\<lparr>ctl_next_file_id := f, ctl_next_offset := o' + n\<rparr>" "ctl_inv (fl_control l')"
    "buckets (fl_control l') = buckets (fl_control l)"
    "\<And>e. e_file_id e = f \<Longrightarrow> e_offset e = o' \<Longrightarrow> e_len e = n \<Longrightarrow> content l' e = Some data \<and> placed (fl_control l') e"
    "\<And>e. placed (fl_control l) e \<Longrightarrow> content l e \<noteq> None \<Longrightarrow> content l' e = content l e \<and> placed (fl_control l') e"
    "\<And>h. home h (fl_control l') = home h (fl_control l)"
proof -
  let ?c = "fl_control l"
  have fid: "ctl_next_file_id ?c < 2 ^ 32" using assms(2) by (simp add: ctl_inv_def control_ok_def)
  have d: "length data < 2 ^ 32" "n = length data"
    and r: "append_roll (max_file_bytes cfg) (length data) (ctl_next_file_id ?c) (ctl_next_offset ?c) = Ok (f, o')"
    and l': "l' = l\<lparr>fl_data := om_insert f (write_all_at (om_get_or [] (fl_data l) f) o' data) (fl_data l),
        fl_control := ?c\<lparr>ctl_next_file_id := f, ctl_next_offset := o' + length data\<rparr>\<rparr>"
    using assms(1) by (auto simp: append_data_def Let_def checked_add_def split: if_splits result.splits prod.splits)
  note sp = append_roll_spec [OF r fid]
  show "fl_index l' = fl_index l" "n = length data" "n < 2 ^ 32" "f < 2 ^ 32" "o' + n < 2 ^ 64"
    "fl_control l' = ?c\<lparr>ctl_next_file_id := f, ctl_next_offset := o' + n\<rparr>"
    "buckets (fl_control l') = buckets ?c" "home h (fl_control l') = home h ?c" for h
    using sp d by (auto simp: l' buckets_def home_def)
  show "ctl_inv (fl_control l')" using assms(2) sp d by (auto simp: l' ctl_inv_def control_ok_def buckets_def)
  show "content l' e = Some data \<and> placed (fl_control l') e" if "e_file_id e = f" "e_offset e = o'" "e_len e = n" for e
    using that d read_write_same by (simp add: content_def placed_def l')
  show "content l' e = content l e \<and> placed (fl_control l') e" if pl: "placed ?c e" and ct: "content l e \<noteq> None" for e
  proof -
    have p: "placed (fl_control l') e" using pl sp by (auto simp: placed_def l')
    show ?thesis
    proof (cases "e_file_id e = f")
      case True
      then have le: "e_offset e + e_len e \<le> o'" using pl sp by (auto simp: placed_def)
      obtain fb bs where fl: "om_get (fl_data l) f = Some fb" "read_exact_at fb (e_offset e) (e_len e) = Some bs"
        using ct True by (auto simp: content_def bind_eq_None_conv)
      then have "content l' e = Some bs"
        using read_write_before [OF fl(2) le] True by (simp add: content_def l' om_get_or_def)
      then show ?thesis using p fl True by (simp add: content_def)
    next
      case False
      then show ?thesis using p by (simp add: content_def l')
    qed
  qed
qed

section \<open>One entry more, one entry less\<close>

lemma index_inv_cong: "index_inv X c f \<Longrightarrow> (\<And>h. home h c' = home h c) \<Longrightarrow> index_inv X c' f"
  by (simp add: index_inv_def)

lemma index_entries_write:
  assumes "aligned f" "page_len p"
  shows "index_entries (write_bucket f b p) = page_entries p \<union> (\<Union>b' \<in> - {b}. page_entries (read_bucket f b'))"
  unfolding index_entries_def using read_bucket_write [OF assms] by (auto split: if_splits)

lemma index_entries_split: "index_entries f = page_entries (read_bucket f b) \<union> (\<Union>b' \<in> - {b}. page_entries (read_bucket f b'))"
  unfolding index_entries_def by auto

text \<open>Replacing one page by another well-formed one whose entries belong there.\<close>

lemma index_inv_write:
  assumes "index_inv X c f" "page_ok p" "page_uniq p"
    and "\<And>e. e \<in> page_entries p \<Longrightarrow> entry_ok e \<and> entry_key e = key_of X (e_cid e) \<and> home (even_of X (e_cid e)) c = b"
  shows "index_inv X c (write_bucket f b p)"
proof -
  have f: "aligned f" "page_len p" using assms(1,2) by (auto simp: index_inv_def page_ok_def)
  show ?thesis
    unfolding index_inv_def read_bucket_write [OF f]
    using assms aligned_write [OF f] by (auto simp: index_inv_def split: if_splits)
qed

lemma index_inv_insert:
  assumes "index_inv X c f" "\<not> occupied (view (read_bucket f b) s)" "s < ENTRIES_PER_BUCKET" "entry_ok e"
    and "entry_key e = key_of X (e_cid e)" "home (even_of X (e_cid e)) c = b" "e_cid e \<notin> e_cid ` index_entries f"
  shows "\<exists>p. write_entry_to_page (read_bucket f b) s e = Ok p \<and> index_inv X c (write_bucket f b p)
    \<and> index_entries (write_bucket f b p) = insert e (index_entries f)"
proof -
  let ?q = "read_bucket f b"
  have q: "page_ok ?q" "page_uniq ?q" "aligned f"
    "\<And>x. x \<in> page_entries ?q \<Longrightarrow> entry_ok x \<and> entry_key x = key_of X (e_cid x) \<and> home (even_of X (e_cid x)) c = b"
    using assms(1) by (auto simp: index_inv_def)
  have new: "e_cid e \<notin> e_cid ` page_entries ?q" using assms(7) by (auto simp: index_entries_def)
  obtain p where p: "write_entry_to_page ?q s e = Ok p" "page_ok p" "page_entries p = insert e (page_entries ?q)" "page_uniq p"
    by (rule write_free_slot [OF q(1) assms(2-4)]) (use q(2) new in blast)
  have "index_inv X c (write_bucket f b p)"
    by (rule index_inv_write [OF assms(1) p(2,4)]) (use p(3) q(4) assms(4-6) in auto)
  moreover have "index_entries (write_bucket f b p) = insert e (index_entries f)"
    using p(2) unfolding index_entries_split [of f b] by (subst index_entries_write) (auto simp: q(3) p(3) page_ok_def)
  ultimately show ?thesis using p(1) by blast
qed

lemma index_inv_tombstone:
  assumes "index_inv X c f" "s < ENTRIES_PER_BUCKET" "view (read_bucket f b) s = Full e"
  shows "index_inv X c (write_bucket f b (mark_tombstone (read_bucket f b) s))"
    and "index_entries (write_bucket f b (mark_tombstone (read_bucket f b) s)) = index_entries f - {e}"
proof -
  let ?q = "read_bucket f b"
  have q: "page_ok ?q" "page_uniq ?q" "aligned f"
    "\<And>b x. x \<in> page_entries (read_bucket f b) \<Longrightarrow> entry_ok x \<and> entry_key x = key_of X (e_cid x) \<and> home (even_of X (e_cid x)) c = b"
    using assms(1) by (auto simp: index_inv_def)
  note t = tombstone_slot [OF q(1) assms(2) q(2) assms(3)]
  show "index_inv X c (write_bucket f b (mark_tombstone ?q s))"
    by (rule index_inv_write [OF assms(1) t(1,3)]) (use q(4) t(2) in auto)
  have e: "e \<in> page_entries ?q" by (rule page_entriesI [OF assms(2,3)])
  have "e \<notin> page_entries (read_bucket f b')" if "b' \<noteq> b" for b' using q(4) [OF e] q(4) [of e b'] that by auto
  then show "index_entries (write_bucket f b (mark_tombstone ?q s)) = index_entries f - {e}"
    using t(1,2) unfolding index_entries_split [of f b] by (subst index_entries_write) (auto simp: q(3) page_ok_def)
qed

section \<open>Insertion\<close>

text \<open>
  \<open>inserted X data cid l l'\<close>: what an insertion that returns \<open>Ok\<close> guarantees. The entries that
  were there keep their data; the entry of the CID is the old one if there was one, and else a
  new one with the data given.
\<close>

definition inserted :: "('c, 'm) crates \<Rightarrow> bytes \<Rightarrow> bytes \<Rightarrow> flat_lane \<Rightarrow> flat_lane \<Rightarrow> bool" where
  "inserted X data cid l l' \<longleftrightarrow> lane_inv X l'
     \<and> (\<forall>e \<in> index_entries (fl_index l). content l' e = content l e)
     \<and> (if cid \<in> e_cid ` index_entries (fl_index l) then index_entries (fl_index l') = index_entries (fl_index l)
        else \<exists>e. e_cid e = cid \<and> content l' e = Some data
               \<and> index_entries (fl_index l') = insert e (index_entries (fl_index l)))"

lemma lane_inv_split:
  assumes "lane_inv X l" "buckets (fl_control l) < 2 ^ 31"
  obtains l' where "split_one_bucket X l = (Ok (), l')" "lane_inv X l'" "index_entries (fl_index l') = index_entries (fl_index l)"
    "fl_data l' = fl_data l" "content l' = content l" "buckets (fl_control l') = buckets (fl_control l) + 1"
proof -
  let ?c = "fl_control l"
  have inv: "ctl_inv ?c" "index_inv X ?c (fl_index l)" using assms(1) by (simp_all add: lane_inv_def)
  obtain f' where f': "split_one_bucket X l = (Ok (), l\<lparr>fl_index := f', fl_control := next_ctl ?c\<rparr>)"
    "index_inv X (next_ctl ?c) f'" "index_entries f' = index_entries (fl_index l)"
    using split_one_bucket_spec [OF inv(1) assms(2) inv(2)] by blast
  have ct: "content (l\<lparr>fl_index := f', fl_control := next_ctl ?c\<rparr>) = content l" by (simp add: content_def fun_eq_iff)
  have "placed (next_ctl ?c) e = placed ?c e" for e by (simp add: placed_def next_ctl_def)
  then have "lane_inv X (l\<lparr>fl_index := f', fl_control := next_ctl ?c\<rparr>)"
    using assms f' ctl_inv_next [OF inv(1) assms(2)] ct by (simp add: lane_inv_def)
  then show ?thesis
    by (rule that [OF f'(1)]) (use f'(3) ct buckets_next inv(1) in \<open>auto simp: ctl_inv_def control_ok_def\<close>)
qed

text \<open>The branch that finds a free slot.\<close>

lemma lane_store_entry:
  assumes "lane_inv X l" "s < ENTRIES_PER_BUCKET" "\<not> occupied (view (read_bucket (fl_index l) b) s)"
    and "b = home (even_of X cid) (fl_control l)" "cid \<notin> e_cid ` index_entries (fl_index l)" "cid \<noteq> []" "length cid \<le> MAX_CID_BYTES"
    and "append_data cfg data l = (Ok (f, o', n), l1)" "key_of X cid = (cid, fp, h)" "h < 2 ^ 64"
  defines "e \<equiv> \<lparr>e_fingerprint = fp, e_file_id = f, e_offset = o', e_len = n, e_hash64 = h, e_cid = cid\<rparr>"
  shows "\<exists>p. write_entry_to_page (read_bucket (fl_index l) b) s e = Ok p
    \<and> (\<forall>x < 2 ^ 64. inserted X data cid l
        (l1\<lparr>fl_index := write_bucket (fl_index l1) b p, fl_control := (fl_control l1)\<lparr>ctl_item_count := x\<rparr>\<rparr>))"
proof -
  let ?c = "fl_control l" and ?f = "fl_index l"
  have inv: "ctl_inv ?c" "index_inv X ?c ?f" and pl: "\<And>y. y \<in> index_entries ?f \<Longrightarrow> placed ?c y \<and> content l y \<noteq> None"
    using assms(1) by (simp_all add: lane_inv_def)
  note ap = append_data_spec [OF assms(8) inv(1)]
  have e: "entry_ok e" "entry_key e = key_of X (e_cid e)" "e_cid e = cid"
    using assms(6,7,9,10) ap(3-5) by (auto simp: e_def entry_ok_def entry_key_def)
  obtain p where p: "write_entry_to_page (read_bucket ?f b) s e = Ok p" "index_inv X ?c (write_bucket ?f b p)"
    "index_entries (write_bucket ?f b p) = insert e (index_entries ?f)"
    using index_inv_insert [OF inv(2) assms(3,2) e(1,2)] assms(4,5) e(3) by auto
  have "inserted X data cid l (l1\<lparr>fl_index := write_bucket (fl_index l1) b p, fl_control := (fl_control l1)\<lparr>ctl_item_count := x\<rparr>\<rparr>)"
    (is "inserted X data cid l ?l2") if x: "x < 2 ^ 64" for x
  proof -
    have ct: "content ?l2 = content l1" by (simp add: content_def fun_eq_iff)
    have pc: "placed (fl_control ?l2) = placed (fl_control l1)" by (simp add: placed_def fun_eq_iff)
    have hm: "home k (fl_control ?l2) = home k ?c" for k by (simp add: home_def ap(6))
    have "ctl_inv (fl_control ?l2)" using ap(7) x by (simp add: ctl_inv_def control_ok_def buckets_def)
    moreover have "index_inv X (fl_control ?l2) (fl_index ?l2)"
      using index_inv_cong [OF p(2) hm] by (simp add: ap(1))
    moreover have "content l1 e = Some data \<and> placed (fl_control l1) e" by (rule ap(9)) (simp_all add: e_def)
    ultimately show ?thesis
      using ap(10) pl p(3) e(3) assms(5) unfolding inserted_def lane_inv_def ct pc by (auto simp: ap(1))
  qed
  with p(1) show ?thesis by blast
qed

lemma inserted_same:
  assumes "inserted X data cid l l2" "lane_inv X l3" "index_entries (fl_index l3) = index_entries (fl_index l2)" "content l3 = content l2"
  shows "inserted X data cid l l3"
  using assms by (simp add: inserted_def)

lemma split_hash_bound: "split_hash X cid = (ev, od, fp, h) \<Longrightarrow> h < 2 ^ 64"
proof -
  assume "split_hash X cid = (ev, od, fp, h)"
  then have h: "h = le_nat (subvec 0 8 (blake3 X cid))" by (auto simp: split_hash_def Let_def split: prod.splits)
  have "length (subvec 0 8 (blake3 X cid)) \<le> 8" by (simp add: subvec_def)
  then have "(256 :: nat) ^ length (subvec 0 8 (blake3 X cid)) \<le> 256 ^ 8" by (intro power_increasing) auto
  then show ?thesis using le_nat_less [of "subvec 0 8 (blake3 X cid)"] h by simp
qed

lemma page_contains_iff:
  assumes "ctl_inv c" "index_inv X c f" "split_hash X cid = (ev, od, fp, h)"
  shows "page_contains_entry (read_bucket f (home ev c)) cid fp h = Ok (cid \<in> e_cid ` index_entries f)"
proof -
  let ?p = "read_bucket f (home ev c)"
  let ?m = "first_match (view ?p) (cid, fp, h) [0..<ENTRIES_PER_BUCKET]"
  have ok: "page_ok ?p" using assms(2) by (simp add: index_inv_def)
  have lk: "lookup_in_class X f c cid = Ok (map_option (\<lambda>(slot, entry). (home ev c, slot, entry)) ?m)"
    by (simp add: lookup_in_class_def assms(3) primary_bucket_home [OF assms(1)] find_entry_slot_view [OF ok])
  have "?m \<noteq> None \<longleftrightarrow> cid \<in> e_cid ` index_entries f"
    using lookup_spec [OF assms(1,2), of cid] lk by (auto split: option.splits)
  then show ?thesis using page_contains_view [OF ok, of cid fp h] by simp
qed

lemma should_split_total: "ctl_inv c \<Longrightarrow> \<exists>b. should_split c = Ok b"
  by (auto simp: should_split_def bucket_count_buckets Let_def)

text \<open>The branch that stores the block and perhaps splits a bucket afterwards.\<close>

lemma insert_store_branch:
  assumes "lane_inv X l" "buckets (fl_control l) < 2 ^ 31" "split_hash X cid = (ev, od, fp, h)"
    and "cid \<notin> e_cid ` index_entries (fl_index l)" "cid \<noteq> []" "length cid \<le> MAX_CID_BYTES"
    and "find_free_slot (read_bucket (fl_index l) (home ev (fl_control l))) = Some s"
  shows "case append_data cfg data l of
      (Ok (f, o', n), l1) \<Rightarrow> \<exists>l'. insert_loop X cfg data cid (Suc k) l = (Ok (), l') \<and> inserted X data cid l l'
        \<and> buckets (fl_control l') \<le> buckets (fl_control l) + 1
    | (Err e, l1) \<Rightarrow> insert_loop X cfg data cid (Suc k) l = (Err e, l1)
    | (Panic, l1) \<Rightarrow> insert_loop X cfg data cid (Suc k) l = (Panic, l1)"
proof -
  let ?c = "fl_control l" and ?f = "fl_index l"
  let ?b = "home ev ?c"
  have inv: "ctl_inv ?c" "index_inv X ?c ?f" using assms(1) by (simp_all add: lane_inv_def)
  have ok: "page_ok (read_bucket ?f ?b)" using inv(2) by (simp add: index_inv_def)
  note slot = find_free_slot_Some [OF ok assms(7)]
  have key: "key_of X cid = (cid, fp, h)" "even_of X cid = ev" by (simp_all add: key_of_def even_of_def assms(3))
  have chk: "(if skip_exists_check cfg then Ok False else page_contains_entry (read_bucket ?f ?b) cid fp h) = Ok False"
    using page_contains_iff [OF inv assms(3)] assms(4) by simp
  show ?thesis
  proof (cases "append_data cfg data l")
    case (Pair r l1)
    show ?thesis
    proof (cases r)
      case (Ok t)
      obtain f o' n where t: "t = (f, o', n)" by (cases t)
      note ap = Pair [unfolded Ok t]
      obtain p where p: "write_entry_to_page (read_bucket ?f ?b) s
          \<lparr>e_fingerprint = fp, e_file_id = f, e_offset = o', e_len = n, e_hash64 = h, e_cid = cid\<rparr> = Ok p"
        and ins: "\<And>x. x < 2 ^ 64 \<Longrightarrow> inserted X data cid l
          (l1\<lparr>fl_index := write_bucket (fl_index l1) ?b p, fl_control := (fl_control l1)\<lparr>ctl_item_count := x\<rparr>\<rparr>)"
        using lane_store_entry [OF assms(1) _ _ _ assms(4-6) ap key(1) split_hash_bound [OF assms(3)]] slot key(2) by blast
      let ?l2 = "l1\<lparr>fl_index := write_bucket (fl_index l1) ?b p,
        fl_control := (fl_control l1)\<lparr>ctl_item_count := sat_add 64 (ctl_item_count (fl_control l1)) 1\<rparr>\<rparr>"
      have c1: "ctl_inv (fl_control l1)" "buckets (fl_control l1) = buckets ?c"
        using append_data_spec(7,8) [OF ap inv(1)] by auto
      have l2: "inserted X data cid l ?l2"
        by (rule ins) (simp add: sat_add_def)
      have b2: "buckets (fl_control ?l2) = buckets ?c" using c1(2) by (simp add: buckets_def)
      have li: "lane_inv X ?l2" using l2 by (simp add: inserted_def)
      then obtain sp where sp: "should_split (fl_control ?l2) = Ok sp" using should_split_total by (auto simp: lane_inv_def)
      have run: "insert_loop X cfg data cid (Suc k) l = (if sp then split_one_bucket X ?l2 else (Ok (), ?l2))"
        unfolding insert_loop.simps assms(3) prod.case Let_def primary_bucket_home [OF inv(1)] result.case chk bool.case
          assms(7) option.case ap p sp ..
      show ?thesis
      proof (cases sp)
        case True
        obtain l3 where l3: "split_one_bucket X ?l2 = (Ok (), l3)" "lane_inv X l3" "index_entries (fl_index l3) = index_entries (fl_index ?l2)"
          "content l3 = content ?l2" "buckets (fl_control l3) = buckets (fl_control ?l2) + 1"
          by (rule lane_inv_split [OF li]) (use b2 assms(2) in simp_all)
        then have "inserted X data cid l l3" by (intro inserted_same [OF l2])
        then show ?thesis using ap run True l3(1,5) b2 by simp
      next
        case False
        then show ?thesis using ap run l2 b2 by simp
      qed
    next
      case (Err e)
      then show ?thesis
        unfolding insert_loop.simps assms(3) prod.case Let_def primary_bucket_home [OF inv(1)] result.case chk bool.case
          assms(7) option.case Pair Err by simp
    next
      case Panic
      then show ?thesis
        unfolding insert_loop.simps assms(3) prod.case Let_def primary_bucket_home [OF inv(1)] result.case chk bool.case
          assms(7) option.case Pair Panic by simp
    qed
  qed
qed

lemma insert_loop_spec:
  assumes "lane_inv X l" "cid \<noteq> []" "length cid \<le> MAX_CID_BYTES" "buckets (fl_control l) + attempts < 2 ^ 31"
    and "insert_loop X cfg data cid attempts l = (Ok (), l')"
    and "\<not> skip_exists_check cfg \<or> cid \<notin> e_cid ` index_entries (fl_index l)"
  shows "inserted X data cid l l' \<and> buckets (fl_control l') \<le> buckets (fl_control l) + attempts"
  using assms
proof (induction attempts arbitrary: l)
  case (Suc k)
  let ?c = "fl_control l" and ?f = "fl_index l"
  obtain ev od fp h where sh: "split_hash X cid = (ev, od, fp, h)" by (cases "split_hash X cid")
  have inv: "ctl_inv ?c" "index_inv X ?c ?f" using Suc(2) by (simp_all add: lane_inv_def)
  note mem = page_contains_iff [OF inv sh]
  show ?case
  proof (cases "cid \<in> e_cid ` index_entries ?f")
    case True
    then have "insert_loop X cfg data cid (Suc k) l = (Ok (), l)"
      using Suc(7) mem by (simp add: sh primary_bucket_home [OF inv(1)])
    then show ?thesis using Suc(2,6) True by (simp add: inserted_def)
  next
    case False
    show ?thesis
    proof (cases "find_free_slot (read_bucket ?f (home ev ?c))")
      case (Some s)
      show ?thesis
        using insert_store_branch [OF Suc(2) _ sh False Suc(3,4) Some, of cfg data k] Suc(5,6)
        by (auto split: prod.splits result.splits)
    next
      case None
      obtain l1 where l1: "split_one_bucket X l = (Ok (), l1)" "lane_inv X l1" "index_entries (fl_index l1) = index_entries ?f"
        "content l1 = content l" "buckets (fl_control l1) = buckets ?c + 1"
        by (rule lane_inv_split [OF Suc(2)]) (use Suc(5) in simp_all)
      have chk: "(if skip_exists_check cfg then Ok False else page_contains_entry (read_bucket ?f (home ev ?c)) cid fp h) = Ok False"
        using mem False by simp
      have run: "insert_loop X cfg data cid k l1 = (Ok (), l')"
        using Suc(6) unfolding insert_loop.simps sh prod.case Let_def primary_bucket_home [OF inv(1)] result.case chk
          bool.case None option.case l1(1) .
      have "inserted X data cid l1 l' \<and> buckets (fl_control l') \<le> buckets (fl_control l1) + k"
        by (rule Suc(1) [OF l1(2) Suc(3,4) _ run]) (use Suc(5) l1 False in auto)
      then show ?thesis using l1(3-5) by (auto simp: inserted_def)
    qed
  qed
qed simp

section \<open>Deletion\<close>

text \<open>The body of \<open>delete\<close> on one lane: \<open>Ok False\<close> when the CID is not there.\<close>

definition delete_in_lane :: "('c, 'm) crates \<Rightarrow> bytes \<Rightarrow> flat_lane \<Rightarrow> (bool, storage_error) result \<times> flat_lane" where
  "delete_in_lane X cid_bytes l =
     (case lookup_in_class X (fl_index l) (fl_control l) cid_bytes of
        Err e \<Rightarrow> (Err e, l)
      | Panic \<Rightarrow> (Panic, l)
      | Ok None \<Rightarrow> (Ok False, l)
      | Ok (Some (bucket, slot, _)) \<Rightarrow>
          (let page = mark_tombstone (read_bucket (fl_index l) bucket) slot;
               n = ctl_item_count (fl_control l)
           in (Ok True, l\<lparr>fl_index := write_bucket (fl_index l) bucket page,
                fl_control := (fl_control l)\<lparr>ctl_item_count := (if 0 < n then n - 1 else n)\<rparr>\<rparr>)))"

lemma delete_in_lane_spec:
  assumes "lane_inv X l"
  shows "\<exists>l'. delete_in_lane X cid l = (Ok (cid \<in> e_cid ` index_entries (fl_index l)), l') \<and> lane_inv X l'
    \<and> index_entries (fl_index l') = {e \<in> index_entries (fl_index l). e_cid e \<noteq> cid} \<and> content l' = content l
    \<and> buckets (fl_control l') = buckets (fl_control l)"
proof -
  let ?c = "fl_control l" and ?f = "fl_index l"
  have inv: "ctl_inv ?c" "index_inv X ?c ?f" and pl: "\<And>y. y \<in> index_entries ?f \<Longrightarrow> placed ?c y \<and> content l y \<noteq> None"
    using assms by (simp_all add: lane_inv_def)
  obtain r where r: "lookup_in_class X ?f ?c cid = Ok r" "case r of
       None \<Rightarrow> cid \<notin> e_cid ` index_entries ?f
     | Some (b, s, e) \<Rightarrow> b = home (even_of X cid) ?c \<and> s < ENTRIES_PER_BUCKET \<and> view (read_bucket ?f b) s = Full e
         \<and> e \<in> index_entries ?f \<and> e_cid e = cid"
    using lookup_spec [OF inv] by blast
  show ?thesis
  proof (cases r)
    case None
    then show ?thesis using r assms by (auto simp: delete_in_lane_def)
  next
    case (Some x)
    obtain b s e where x: "x = (b, s, e)" by (cases x)
    have e: "s < ENTRIES_PER_BUCKET" "view (read_bucket ?f b) s = Full e" "e \<in> index_entries ?f" "e_cid e = cid"
      using r(2) Some x by auto
    note t = index_inv_tombstone [OF inv(2) e(1,2)]
    define l' where "l' = l\<lparr>fl_index := write_bucket ?f b (mark_tombstone (read_bucket ?f b) s),
      fl_control := ?c\<lparr>ctl_item_count := ctl_item_count ?c - 1\<rparr>\<rparr>"
    have dl: "delete_in_lane X cid l = (Ok True, l')" "fl_data l' = fl_data l"
      "fl_index l' = write_bucket ?f b (mark_tombstone (read_bucket ?f b) s)" "fl_control l' = ?c\<lparr>ctl_item_count := ctl_item_count ?c - 1\<rparr>"
      using r(1) Some x by (auto simp: delete_in_lane_def Let_def l'_def)
    then obtain n where n: "n \<le> ctl_item_count ?c" "fl_control l' = ?c\<lparr>ctl_item_count := n\<rparr>" by (metis diff_le_self)
    have ct: "content l' = content l" using dl(2) by (simp add: content_def fun_eq_iff)
    have "ctl_inv (fl_control l')" using inv(1) n by (simp add: ctl_inv_def control_ok_def buckets_def)
    moreover have "index_inv X (fl_control l') (fl_index l')"
      unfolding dl(3) by (rule index_inv_cong [OF t(1)]) (simp add: n home_def)
    moreover have "placed (fl_control l') = placed ?c" by (simp add: n placed_def fun_eq_iff)
    ultimately have "lane_inv X l'" using pl ct t(2) dl(3) by (simp add: lane_inv_def)
    moreover have "y = e" if "y \<in> index_entries ?f" "e_cid y = cid" for y
      using index_unique [OF inv(2) that(1) e(3)] e(4) that(2) by simp
    then have "index_entries (fl_index l') = {e \<in> index_entries ?f. e_cid e \<noteq> cid}"
      using e(4) unfolding dl(3) t(2) by auto
    moreover have "buckets (fl_control l') = buckets ?c" by (simp add: n buckets_def)
    moreover have "cid \<in> e_cid ` index_entries ?f" using e(3,4) by (metis imageI)
    ultimately show ?thesis using dl(1) ct by (intro exI [of _ l']) simp
  qed
qed

section \<open>Properties of a lane\<close>

text \<open>
  C20. A split loses nothing: on a well-formed lane with fewer than \<open>2^31\<close> buckets
  \<open>split_one_bucket\<close> succeeds, keeps the lane well formed, adds one bucket, and every CID is
  found with the same entry and the same data as before.
\<close>

theorem split_preserves_lookup:
  assumes "lane_inv X l" "buckets (fl_control l) < 2 ^ 31"
  shows "\<exists>l'. split_one_bucket X l = (Ok (), l') \<and> lane_inv X l' \<and> buckets (fl_control l') = buckets (fl_control l) + 1
    \<and> (\<forall>cid. found X l' cid = found X l cid) \<and> (\<forall>e. content l' e = content l e)"
proof -
  obtain l' where l': "split_one_bucket X l = (Ok (), l')" "lane_inv X l'" "index_entries (fl_index l') = index_entries (fl_index l)"
    "content l' = content l" "buckets (fl_control l') = buckets (fl_control l) + 1"
    by (rule lane_inv_split [OF assms])
  have "found X l' cid = found X l cid" for cid
  proof -
    have "found X l' cid = Some e \<longleftrightarrow> found X l cid = Some e" for e
      using found_iff [of l' X cid e] found_iff [of l X cid e] l'(2,3) assms(1) by (simp add: lane_inv_def)
    then show ?thesis by (metis not_Some_eq)
  qed
  with l' show ?thesis by auto
qed

text \<open>
  Insertion: when \<open>insert_block_in_class\<close> returns \<open>Ok\<close> on a well-formed lane, the CID
  is found; the data read for it is the data given if the CID was new, and the data it had if
  not; every other CID is found as before, with the same data.
\<close>

lemma insert_then_lookup:
  assumes "lane_inv X l" "buckets (fl_control l) + max_probe_steps cfg < 2 ^ 31" "\<not> skip_exists_check cfg"
    and "insert_block_in_class X cfg blk cid l = (Ok (), l')"
  shows "lane_inv X l'
    \<and> (\<exists>e. found X l' cid = Some e \<and> content l' e =
          (case found X l cid of None \<Rightarrow> Some (block_data blk) | Some e0 \<Rightarrow> content l e0))
    \<and> (\<forall>c. c \<noteq> cid \<longrightarrow> found X l' c = found X l c
          \<and> (\<forall>e. found X l c = Some e \<longrightarrow> content l' e = content l e))"
proof -
  have cid: "cid \<noteq> []" "length cid \<le> MAX_CID_BYTES"
    and run: "insert_loop X cfg (block_data blk) cid (max_probe_steps cfg) l = (Ok (), l')"
    using assms(4) by (auto simp: insert_block_in_class_def split: if_splits)
  have ins: "inserted X (block_data blk) cid l l'"
    using insert_loop_spec [OF assms(1) cid assms(2) run] assms(3) by blast
  have f: "found X l c = Some e \<longleftrightarrow> e \<in> index_entries (fl_index l) \<and> e_cid e = c"
    "found X l' c = Some e \<longleftrightarrow> e \<in> index_entries (fl_index l') \<and> e_cid e = c" for c e
    using assms(1) ins by (auto simp: found_iff inserted_def lane_inv_def)
  have fN: "found X l c = None \<longleftrightarrow> c \<notin> e_cid ` index_entries (fl_index l)" for c
    using assms(1) by (simp add: found_None lane_inv_def)
  have old: "\<And>e. e \<in> index_entries (fl_index l) \<Longrightarrow> content l' e = content l e" using ins by (simp add: inserted_def)
  have other: "found X l' c = found X l c" if "c \<noteq> cid" for c
  proof -
    have "found X l' c = Some e \<longleftrightarrow> found X l c = Some e" for e
      using ins that unfolding f inserted_def by (auto split: if_splits)
    then show ?thesis by (metis not_Some_eq)
  qed
  have "\<exists>e. found X l' cid = Some e \<and> content l' e =
      (case found X l cid of None \<Rightarrow> Some (block_data blk) | Some e0 \<Rightarrow> content l e0)"
  proof (cases "found X l cid")
    case None
    then obtain e where e: "e_cid e = cid" "content l' e = Some (block_data blk)" "e \<in> index_entries (fl_index l')"
      using ins by (auto simp: fN inserted_def)
    then have "found X l' cid = Some e" by (simp add: f)
    with e None show ?thesis by auto
  next
    case (Some e0)
    then have e0: "e0 \<in> index_entries (fl_index l)" "e_cid e0 = cid" by (simp_all add: f)
    then have "e0 \<in> index_entries (fl_index l')" using ins by (auto simp: inserted_def split: if_splits)
    then have "found X l' cid = Some e0" using e0(2) by (simp add: f)
    with Some old [OF e0(1)] show ?thesis by simp
  qed
  with ins other old show ?thesis by (auto simp: inserted_def f)
qed

text \<open>
  Insertion succeeds: a block with a CID of legal length, whose data is shorter than 4 GiB
  and fits in a data file, is stored whenever the page of its bucket has a free slot and a data
  file is left; at least one probe step must be allowed.
\<close>

lemma insert_total:
  assumes "lane_inv X l" "buckets (fl_control l) < 2 ^ 31" "0 < max_probe_steps cfg"
    and "cid \<noteq> []" "length cid \<le> MAX_CID_BYTES" "found X l cid = None"
    and "find_free_slot (read_bucket (fl_index l) (home (even_of X cid) (fl_control l))) \<noteq> None"
    and "length (block_data blk) < 2 ^ 32" "length (block_data blk) \<le> max_file_bytes cfg" "max_file_bytes cfg < 2 ^ 64"
    and "ctl_next_offset (fl_control l) + length (block_data blk) < 2 ^ 64" "ctl_next_file_id (fl_control l) + 1 < 2 ^ 32"
  shows "\<exists>l' e. insert_block_in_class X cfg blk cid l = (Ok (), l') \<and> found X l' cid = Some e
    \<and> content l' e = Some (block_data blk)"
proof -
  have inv: "ctl_inv (fl_control l)" "index_inv X (fl_control l) (fl_index l)" using assms(1) by (simp_all add: lane_inv_def)
  obtain ev od fp h where sh: "split_hash X cid = (ev, od, fp, h)" by (cases "split_hash X cid")
  have new: "cid \<notin> e_cid ` index_entries (fl_index l)"
    using assms(6) found_None [OF inv] by simp
  obtain s where s: "find_free_slot (read_bucket (fl_index l) (home ev (fl_control l))) = Some s"
    using assms(7) by (auto simp: even_of_def sh)
  obtain f o' where "append_roll (max_file_bytes cfg) (length (block_data blk)) (ctl_next_file_id (fl_control l))
      (ctl_next_offset (fl_control l)) = Ok (f, o')"
    using append_roll_total [OF assms(9-12)] by blast
  then obtain l1 where ap: "append_data cfg (block_data blk) l = (Ok (f, o', length (block_data blk)), l1)"
    using assms(8) append_roll_spec assms(12) by (fastforce simp: append_data_def Let_def checked_add_def)
  obtain k where k: "max_probe_steps cfg = Suc k" using assms(3) gr0_implies_Suc by blast
  obtain l' where l': "insert_loop X cfg (block_data blk) cid (Suc k) l = (Ok (), l')" "inserted X (block_data blk) cid l l'"
    using insert_store_branch [OF assms(1,2) sh new assms(4,5) s, of cfg "block_data blk" k] ap by auto
  then obtain e where "e_cid e = cid" "content l' e = Some (block_data blk)" "e \<in> index_entries (fl_index l')" "lane_inv X l'"
    using new by (auto simp: inserted_def)
  then have "found X l' cid = Some e \<and> content l' e = Some (block_data blk)" by (simp add: found_iff lane_inv_def)
  moreover have "insert_block_in_class X cfg blk cid l = (Ok (), l')"
    using assms(4,5) l'(1) by (simp add: insert_block_in_class_def k)
  ultimately show ?thesis by blast
qed

text \<open>An empty lane, and one block in it.\<close>

definition demo_lane :: flat_lane where
  "demo_lane = \<lparr>fl_control = \<lparr>ctl_level = 1, ctl_split_ptr = 0, ctl_item_count = 0, ctl_next_file_id = 0, ctl_next_offset = 0\<rparr>,
     fl_index = [], fl_data = []\<rparr>"

definition demo_flat :: flat_config where
  "demo_flat = \<lparr>max_file_bytes = 1024, max_probe_steps = 4, lane_count = 1, skip_exists_check = False, initial_level = 1,
     verify_blocks_on_write = False\<rparr>"

lemma read_bucket_Nil: "read_bucket [] b = replicate BUCKET_BYTES 0"
  by (simp add: read_bucket_def read_exact_at_def)

lemma demo_lane_inv: "lane_inv X demo_lane"
proof -
  have "page_entries (replicate BUCKET_BYTES 0) = {}" by (auto simp: page_entries_def view_zero)
  then show ?thesis
    by (auto simp: lane_inv_def ctl_inv_def control_ok_def buckets_def index_inv_def index_entries_def demo_lane_def
        read_bucket_Nil aligned_def page_ok_zero page_uniq_def view_zero)
qed

lemma demo_lane_free: "find_free_slot (read_bucket (fl_index demo_lane) b) \<noteq> None"
  using find_free_slot_None [OF page_ok_zero, of 0] view_zero [of 0]
  by (auto simp: demo_lane_def read_bucket_Nil occupied_def)

lemma demo_lane_found: "found X demo_lane cid = None"
proof (cases "found X demo_lane cid")
  case (Some e)
  have "page_entries (replicate BUCKET_BYTES 0) = {}" by (auto simp: page_entries_def view_zero)
  then show ?thesis
    using Some found_iff [of demo_lane X cid e] demo_lane_inv [of X] unfolding lane_inv_def
    by (simp add: index_entries_def demo_lane_def read_bucket_Nil)
qed

theorem split_preserves_lookup_witness:
  "\<exists>l'. split_one_bucket demo_crates demo_lane = (Ok (), l') \<and> buckets (fl_control l') = 3"
  using split_preserves_lookup [OF demo_lane_inv [of demo_crates]] by (auto simp: demo_lane_def buckets_def)

end
