(* ===== verification/Block_Store_Spec.thy ===== *)
theory Block_Store_Spec
  imports Storage_Base
begin

text \<open>
  The contract of a block store, as the rest of the node uses it: a partial map from CIDs to
  data in which the first data stored for a CID stays until it is deleted. \<open>inv k s\<close> says that
  the state \<open>s\<close> is well formed and has room for \<open>k\<close> more blocks, \<open>valid\<close> which data may be
  stored under which CID, \<open>look\<close> is the map a state stands for. \<open>get\<close>, \<open>put\<close> and \<open>del\<close> are
  the calls of a client: \<open>None\<close> is an error. Every backend is interpreted in its own theory, and
  the dispatching \<open>BlockStore\<close> over all of them.
\<close>

datatype 'c store_cmd = PutCmd 'c bytes | DelCmd 'c

text \<open>A client that issues calls and goes on as long as they succeed.\<close>

fun run_cmds :: "('c \<Rightarrow> bytes \<Rightarrow> 's \<Rightarrow> 's option) \<Rightarrow> ('c \<Rightarrow> 's \<Rightarrow> 's option) \<Rightarrow> 'c store_cmd list \<Rightarrow> 's \<Rightarrow> 's option" where
  "run_cmds put del [] s = Some s"
| "run_cmds put del (PutCmd c d # cmds) s = Option.bind (put c d s) (run_cmds put del cmds)"
| "run_cmds put del (DelCmd c # cmds) s = Option.bind (del c s) (run_cmds put del cmds)"

text \<open>What the same calls do to the map.\<close>

fun spec_cmds :: "'c store_cmd list \<Rightarrow> ('c \<rightharpoonup> bytes) \<Rightarrow> ('c \<rightharpoonup> bytes)" where
  "spec_cmds [] m = m"
| "spec_cmds (PutCmd c d # cmds) m = spec_cmds cmds (if m c = None then m(c \<mapsto> d) else m)"
| "spec_cmds (DelCmd c # cmds) m = spec_cmds cmds (m(c := None))"

fun valid_cmd :: "('c \<Rightarrow> bytes \<Rightarrow> bool) \<Rightarrow> 'c store_cmd \<Rightarrow> bool" where
  "valid_cmd valid (PutCmd c d) = valid c d"
| "valid_cmd valid (DelCmd c) = True"

text \<open>The success of a read, and of a write.\<close>

definition ok_data :: "('c block, storage_error) result \<Rightarrow> bytes option" where
  "ok_data r = (case r of Ok b \<Rightarrow> Some (block_data b) | _ \<Rightarrow> None)"

definition ok_state :: "(unit, storage_error) result \<times> 's \<Rightarrow> 's option" where
  "ok_state p = (case p of (Ok _, s) \<Rightarrow> Some s | _ \<Rightarrow> None)"

lemma ok_state_Some [simp]: "ok_state p = Some s \<longleftrightarrow> p = (Ok (), s)"
  by (cases p) (auto simp: ok_state_def split: result.splits)

locale block_store =
  fixes inv :: "nat \<Rightarrow> 's \<Rightarrow> bool"
    and valid :: "'c \<Rightarrow> bytes \<Rightarrow> bool"
    and look :: "'s \<Rightarrow> 'c \<Rightarrow> bytes option"
    and get :: "'s \<Rightarrow> 'c \<Rightarrow> bytes option"
    and put :: "'c \<Rightarrow> bytes \<Rightarrow> 's \<Rightarrow> 's option"
    and del :: "'c \<Rightarrow> 's \<Rightarrow> 's option"
  assumes put_inv: "inv (Suc k) s \<Longrightarrow> valid c d \<Longrightarrow> put c d s = Some s' \<Longrightarrow> inv k s'"
    and put_look: "inv (Suc k) s \<Longrightarrow> valid c d \<Longrightarrow> put c d s = Some s' \<Longrightarrow>
      look s' c' = (if c' = c \<and> look s c = None then Some d else look s c')"
    and del_inv: "inv k s \<Longrightarrow> del c s = Some s' \<Longrightarrow> inv k s'"
    and del_look: "inv k s \<Longrightarrow> del c s = Some s' \<Longrightarrow> look s' c' = (if c' = c then None else look s c')"
    and del_present: "inv k s \<Longrightarrow> del c s = Some s' \<Longrightarrow> look s c \<noteq> None"
    and get_look: "inv k s \<Longrightarrow> get s c = Some d \<Longrightarrow> look s c = Some d"
    and inv_le: "inv k s \<Longrightarrow> j \<le> k \<Longrightarrow> inv j s"
begin

text \<open>A block just stored is there; storing it again changes nothing.\<close>

lemma put_present: "inv (Suc k) s \<Longrightarrow> valid c d \<Longrightarrow> put c d s = Some s' \<Longrightarrow> look s' c \<noteq> None"
  by (auto simp: put_look)

lemma put_idempotent:
  assumes "inv (Suc (Suc k)) s" "valid c d" "put c d s = Some s1" "valid c d'" "put c d' s1 = Some s2"
  shows "look s2 = look s1"
proof
  fix c'
  have "inv (Suc k) s1" by (rule put_inv [OF assms(1-3)])
  then show "look s2 c' = look s1 c'"
    using put_look [OF _ assms(4,5), of k c'] put_present [OF assms(1-3)] by auto
qed

text \<open>Blocks under different CIDs may be stored in either order.\<close>

lemma put_commute:
  assumes "inv (Suc (Suc k)) s" "valid c d" "valid c' d'" "c \<noteq> c'"
    and "put c d s = Some s1" "put c' d' s1 = Some s2"
    and "put c' d' s = Some t1" "put c d t1 = Some t2"
  shows "look s2 = look t2"
proof
  fix k'
  have i: "inv (Suc k) s1" "inv (Suc k) t1" using put_inv assms(1,2,3,5,7) by blast+
  show "look s2 k' = look t2 k'"
    using assms(4) put_look [OF assms(1,2,5)] put_look [OF assms(1,3,7)] put_look [OF i(1) assms(3,6)]
      put_look [OF i(2) assms(2,8)] by simp
qed

text \<open>Storing a new block and deleting it leaves the map as it was.\<close>

lemma put_del:
  assumes "inv (Suc k) s" "valid c d" "look s c = None" "put c d s = Some s1" "del c s1 = Some s2"
  shows "look s2 = look s"
  using del_look [OF put_inv [OF assms(1,2,4)] assms(5)] put_look [OF assms(1,2,4)] assms(3) by (intro ext) auto

text \<open>Any history of successful calls refines the map.\<close>

theorem run_look:
  assumes "inv (length cmds + k) s" "\<And>x. x \<in> set cmds \<Longrightarrow> valid_cmd valid x" "run_cmds put del cmds s = Some s'"
  shows "inv k s' \<and> look s' = spec_cmds cmds (look s)"
  using assms
proof (induction cmds arbitrary: s)
  case (Cons x cmds)
  show ?case
  proof (cases x)
    case (PutCmd c d)
    then obtain s1 where s1: "put c d s = Some s1" "run_cmds put del cmds s1 = Some s'"
      using Cons(4) by (auto simp: bind_eq_Some_conv)
    have i: "inv (Suc (length cmds + k)) s" and v: "valid c d" using Cons(2) Cons(3) [of x] PutCmd by auto
    have "look s1 = (if look s c = None then (look s)(c \<mapsto> d) else look s)"
      using put_look [OF i v s1(1)] by (intro ext) auto
    then show ?thesis using Cons(1) [OF put_inv [OF i v s1(1)] _ s1(2)] Cons(3) PutCmd by simp
  next
    case (DelCmd c)
    then obtain s1 where s1: "del c s = Some s1" "run_cmds put del cmds s1 = Some s'"
      using Cons(4) by (auto simp: bind_eq_Some_conv)
    have i: "inv (length cmds + k) s" by (rule inv_le [OF Cons(2)]) simp
    have l: "look s1 = (look s)(c := None)" using del_look [OF i s1(1)] by (intro ext) auto
    have "inv k s' \<and> look s' = spec_cmds cmds (look s1)"
      by (rule Cons(1) [OF del_inv [OF i s1(1)] _ s1(2)]) (use Cons(3) in auto)
    then show ?thesis unfolding DelCmd l by simp
  qed
qed simp

corollary run_get:
  assumes "inv (length cmds) s" "\<And>x. x \<in> set cmds \<Longrightarrow> valid_cmd valid x" "run_cmds put del cmds s = Some s'"
    and "get s' c = Some d"
  shows "spec_cmds cmds (look s) c = Some d"
  using run_look [of cmds 0 s s'] get_look [of 0 s' c d] assms by auto

end

end
