(* ===== verification/DeltaFlat_Store.thy ===== *)
theory DeltaFlat_Store
  imports DeltaFlat_Ops Block_Store_Spec
begin

text \<open>
  The deltaflat backend as a store: lane directories with a control file, an index file and
  data files, and the operations of \<open>DeltaFlatStore\<close> over them. A lane directory is present in
  the map exactly when the code has created it; \<open>open_class_files\<close> creates both files with it.
  A lane is opened, changed and closed under its lock, so an operation on a lane is one step.
\<close>

record lane_files =
  lf_control :: bytes
  lf_index :: bytes
  lf_data :: "(nat, bytes) omap"

type_synonym flat_store = "(nat \<times> nat, lane_files) omap"

definition CLASS_COUNT :: nat where
  "CLASS_COUNT = length DELTA_SIZE_CLASSES"

definition lane_for_cid :: "('c, 'm) crates \<Rightarrow> flat_config \<Rightarrow> bytes \<Rightarrow> nat" where
  "lane_for_cid X cfg cid_bytes =
     (if lane_count cfg \<le> 1 then 0
      else let (_, _, _, hash64) = split_hash X cid_bytes in hash64 mod lane_count cfg)"

section \<open>Writing\<close>

definition open_class_files :: "flat_store \<Rightarrow> nat \<times> nat \<Rightarrow> lane_files" where
  "open_class_files st key = om_get_or \<lparr>lf_control = [], lf_index = [], lf_data = []\<rparr> st key"

definition load_or_init_control ::
  "flat_config \<Rightarrow> lane_files \<Rightarrow> (flat_control, storage_error) result \<times> lane_files" where
  "load_or_init_control cfg lf =
     (case read_control_raw (lf_control lf) of
        Err e \<Rightarrow> (Err e, lf)
      | Panic \<Rightarrow> (Panic, lf)
      | Ok (Some control) \<Rightarrow>
          (case bucket_count control of
             Err e \<Rightarrow> (Err e, lf)
           | Panic \<Rightarrow> (Panic, lf)
           | Ok n \<Rightarrow> (Ok control, lf\<lparr>lf_index := ensure_index_buckets (lf_index lf) n\<rparr>))
      | Ok None \<Rightarrow>
          (let control = \<lparr>ctl_level = min (max (initial_level cfg) 1) 24, ctl_split_ptr = 0, ctl_item_count = 0,
                 ctl_next_file_id = 0, ctl_next_offset = 0\<rparr>
           in case bucket_count control of
             Err e \<Rightarrow> (Err e, lf)
           | Panic \<Rightarrow> (Panic, lf)
           | Ok n \<Rightarrow> (Ok control, lf\<lparr>lf_index := ensure_index_buckets (lf_index lf) n,
               lf_control := write_control_raw (lf_control lf) control\<rparr>)))"

fun insert_all ::
  "('c, 'm) crates \<Rightarrow> flat_config \<Rightarrow> ('c block \<times> bytes) list \<Rightarrow> flat_lane \<Rightarrow> (unit, storage_error) result \<times> flat_lane" where
  "insert_all X cfg [] l = (Ok (), l)"
| "insert_all X cfg ((blk, cid_bytes) # bs) l =
     (case insert_block_in_class X cfg blk cid_bytes l of
        (Ok _, l') \<Rightarrow> insert_all X cfg bs l'
      | (Err e, l') \<Rightarrow> (Err e, l')
      | (Panic, l') \<Rightarrow> (Panic, l'))"

text \<open>The work on one lane. A failed batch leaves its index and data writes, but not the control.\<close>

definition put_lane ::
  "('c, 'm) crates \<Rightarrow> flat_config \<Rightarrow> ('c block \<times> bytes) list \<Rightarrow> lane_files \<Rightarrow> (unit, storage_error) result \<times> lane_files" where
  "put_lane X cfg class_blocks lf =
     (case load_or_init_control cfg lf of
        (Err e, lf1) \<Rightarrow> (Err e, lf1)
      | (Panic, lf1) \<Rightarrow> (Panic, lf1)
      | (Ok control, lf1) \<Rightarrow>
          (case insert_all X cfg class_blocks \<lparr>fl_control = control, fl_index = lf_index lf1, fl_data = lf_data lf1\<rparr> of
             (r, l) \<Rightarrow>
               (let lf2 = lf1\<lparr>lf_index := fl_index l, lf_data := fl_data l\<rparr> in
                case r of
                  Ok _ \<Rightarrow> (Ok (), lf2\<lparr>lf_control := write_control_raw (lf_control lf1) (fl_control l)\<rparr>)
                | Err e \<Rightarrow> (Err e, lf2)
                | Panic \<Rightarrow> (Panic, lf2))))"

definition bin_of :: "('c, 'm) crates \<Rightarrow> flat_config \<Rightarrow> 'c block \<Rightarrow> nat \<times> nat" where
  "bin_of X cfg b = (fst (class_for_len (length (block_data b))), lane_for_cid X cfg (cid_to_bytes X (block_cid b)))"

fun active_bins :: "('k \<times> 'b) list \<Rightarrow> 'k list \<Rightarrow> 'k list" where
  "active_bins [] act = act"
| "active_bins ((k, b) # bs) act = active_bins bs (if k \<in> set act then act else act @ [k])"

fun put_bins ::
  "('c, 'm) crates \<Rightarrow> flat_config \<Rightarrow> ((nat \<times> nat) \<times> ('c block \<times> bytes)) list \<Rightarrow> (nat \<times> nat) list \<Rightarrow> flat_store
     \<Rightarrow> (unit, storage_error) result \<times> flat_store" where
  "put_bins X cfg bs [] st = (Ok (), st)"
| "put_bins X cfg bs (key # keys) st =
     (case put_lane X cfg (map snd (filter (\<lambda>(k, _). k = key) bs)) (open_class_files st key) of
        (Ok _, lf) \<Rightarrow> put_bins X cfg bs keys (om_insert key lf st)
      | (Err e, lf) \<Rightarrow> (Err e, om_insert key lf st)
      | (Panic, lf) \<Rightarrow> (Panic, om_insert key lf st))"

definition flat_put_many ::
  "('c, 'm) crates \<Rightarrow> flat_config \<Rightarrow> 'c block list \<Rightarrow> flat_store \<Rightarrow> (unit, storage_error) result \<times> flat_store" where
  "flat_put_many X cfg blocks st =
     (if blocks = [] then (Ok (), st)
      else case verify_on_write X (verify_blocks_on_write cfg) blocks of
        Err e \<Rightarrow> (Err e, st)
      | Panic \<Rightarrow> (Panic, st)
      | Ok _ \<Rightarrow>
          (let bs = map (\<lambda>b. (bin_of X cfg b, (b, cid_to_bytes X (block_cid b)))) blocks
           in put_bins X cfg bs (active_bins bs []) st))"

section \<open>Reading\<close>

definition lookup_lane :: "('c, 'm) crates \<Rightarrow> bytes \<Rightarrow> lane_files \<Rightarrow> (flat_entry option, storage_error) result" where
  "lookup_lane X cid_bytes lf =
     rbind (read_control_raw (lf_control lf)) (\<lambda>c. case c of
         None \<Rightarrow> Ok None
       | Some control \<Rightarrow> rbind (lookup_in_class X (lf_index lf) control cid_bytes)
           (\<lambda>r. Ok (map_option (\<lambda>(_, _, entry). entry) r)))"

fun flat_get_loop :: "('c, 'm) crates \<Rightarrow> 'c \<Rightarrow> nat \<Rightarrow> nat list \<Rightarrow> flat_store \<Rightarrow> ('c block, storage_error) result" where
  "flat_get_loop X cid lane [] st = Err (BlockNotFound (cid_to_string X cid))"
| "flat_get_loop X cid lane (class_id # cs) st =
     (case om_get st (class_id, lane) of
        None \<Rightarrow> flat_get_loop X cid lane cs st
      | Some lf \<Rightarrow>
          rbind (lookup_lane X (cid_to_bytes X cid) lf) (\<lambda>r. case r of
              None \<Rightarrow> flat_get_loop X cid lane cs st
            | Some entry \<Rightarrow>
                (case om_get (lf_data lf) (e_file_id entry) of
                   None \<Rightarrow> Err (BlockNotFound (cid_to_string X cid))
                 | Some data_file \<Rightarrow>
                     (case read_exact_at data_file (e_offset entry) (e_len entry) of
                        None \<Rightarrow> Err (IoError ''short read_at'')
                      | Some data \<Rightarrow> Ok \<lparr>block_cid = cid, block_data = data\<rparr>))))"

definition flat_get :: "('c, 'm) crates \<Rightarrow> flat_config \<Rightarrow> 'c \<Rightarrow> flat_store \<Rightarrow> ('c block, storage_error) result" where
  "flat_get X cfg cid st =
     flat_get_loop X cid (lane_for_cid X cfg (cid_to_bytes X cid)) [0..<CLASS_COUNT] st"

fun flat_has_loop :: "('c, 'm) crates \<Rightarrow> 'c \<Rightarrow> nat \<Rightarrow> nat list \<Rightarrow> flat_store \<Rightarrow> (bool, storage_error) result" where
  "flat_has_loop X cid lane [] st = Ok False"
| "flat_has_loop X cid lane (class_id # cs) st =
     (case om_get st (class_id, lane) of
        None \<Rightarrow> flat_has_loop X cid lane cs st
      | Some lf \<Rightarrow>
          rbind (lookup_lane X (cid_to_bytes X cid) lf)
            (\<lambda>r. if r \<noteq> None then Ok True else flat_has_loop X cid lane cs st))"

definition flat_has :: "('c, 'm) crates \<Rightarrow> flat_config \<Rightarrow> 'c \<Rightarrow> flat_store \<Rightarrow> bool" where
  "flat_has X cfg cid st =
     (case flat_has_loop X cid (lane_for_cid X cfg (cid_to_bytes X cid)) [0..<CLASS_COUNT] st of
        Ok b \<Rightarrow> b | _ \<Rightarrow> False)"

section \<open>Deleting, listing, counting\<close>

definition delete_lane :: "('c, 'm) crates \<Rightarrow> bytes \<Rightarrow> lane_files \<Rightarrow> (bool, storage_error) result \<times> lane_files" where
  "delete_lane X cid_bytes lf =
     (case read_control_raw (lf_control lf) of
        Err e \<Rightarrow> (Err e, lf)
      | Panic \<Rightarrow> (Panic, lf)
      | Ok None \<Rightarrow> (Ok False, lf)
      | Ok (Some control) \<Rightarrow>
          (case delete_in_lane X cid_bytes \<lparr>fl_control = control, fl_index = lf_index lf, fl_data = lf_data lf\<rparr> of
             (Ok True, l) \<Rightarrow> (Ok True, lf\<lparr>lf_index := fl_index l, lf_control := write_control_raw (lf_control lf) (fl_control l)\<rparr>)
           | (r, l) \<Rightarrow> (r, lf)))"

fun flat_delete_loop ::
  "('c, 'm) crates \<Rightarrow> 'c \<Rightarrow> nat \<Rightarrow> nat list \<Rightarrow> flat_store \<Rightarrow> (unit, storage_error) result \<times> flat_store" where
  "flat_delete_loop X cid lane [] st = (Err (BlockNotFound (cid_to_string X cid)), st)"
| "flat_delete_loop X cid lane (class_id # cs) st =
     (case om_get st (class_id, lane) of
        None \<Rightarrow> flat_delete_loop X cid lane cs st
      | Some lf \<Rightarrow>
          (case delete_lane X (cid_to_bytes X cid) lf of
             (Ok b, lf') \<Rightarrow>
               (let st' = om_insert (class_id, lane) lf' st in
                if b then (Ok (), st') else flat_delete_loop X cid lane cs st')
           | (Err e, lf') \<Rightarrow> (Err e, om_insert (class_id, lane) lf' st)
           | (Panic, lf') \<Rightarrow> (Panic, om_insert (class_id, lane) lf' st)))"

definition flat_delete :: "('c, 'm) crates \<Rightarrow> flat_config \<Rightarrow> 'c \<Rightarrow> flat_store \<Rightarrow> (unit, storage_error) result \<times> flat_store" where
  "flat_delete X cfg cid st =
     flat_delete_loop X cid (lane_for_cid X cfg (cid_to_bytes X cid)) [0..<CLASS_COUNT] st"

text \<open>The entries of a lane in file order, as \<open>list_cids\<close> and \<open>stats\<close> walk them.\<close>

definition page_scan :: "bytes \<Rightarrow> (flat_entry list, storage_error) result" where
  "page_scan page = rbind (try_map (decode_entry page) [0..<ENTRIES_PER_BUCKET])
     (\<lambda>ds. Ok (concat (map (\<lambda>d. case d of Some e \<Rightarrow> [e] | None \<Rightarrow> []) ds)))"

definition lane_scan :: "lane_files \<Rightarrow> (flat_entry list, storage_error) result" where
  "lane_scan lf =
     rbind (read_control_raw (lf_control lf)) (\<lambda>c. case c of
         None \<Rightarrow> Ok []
       | Some control \<Rightarrow>
           rbind (bucket_count control) (\<lambda>n.
             rbind (try_map (\<lambda>b. page_scan (read_bucket (lf_index lf) b)) [0..<n]) (\<lambda>es. Ok (concat es))))"

definition flat_scan :: "flat_config \<Rightarrow> flat_store \<Rightarrow> (flat_entry list, storage_error) result" where
  "flat_scan cfg st =
     rbind (try_map (\<lambda>key. case om_get st key of None \<Rightarrow> Ok [] | Some lf \<Rightarrow> lane_scan lf)
       (List.product [0..<CLASS_COUNT] [0..<lane_count cfg])) (\<lambda>es. Ok (concat es))"

definition flat_list_cids :: "('c, 'm) crates \<Rightarrow> flat_config \<Rightarrow> flat_store \<Rightarrow> 'c list" where
  "flat_list_cids X cfg st =
     (case flat_scan cfg st of
        Ok es \<Rightarrow> concat (map (\<lambda>e. case cid_try_from X (e_cid e) of Some c \<Rightarrow> [c] | None \<Rightarrow> []) es)
      | _ \<Rightarrow> [])"

definition flat_stats :: "flat_config \<Rightarrow> flat_store \<Rightarrow> nat \<times> nat" where
  "flat_stats cfg st =
     (case flat_scan cfg st of Ok es \<Rightarrow> (length es, sum_list (map e_len es)) | _ \<Rightarrow> (0, 0))"

definition flat_clear :: "flat_store \<Rightarrow> flat_store" where
  "flat_clear st = []"

section \<open>Lanes as finite maps\<close>

text \<open>The data a lane holds for a CID.\<close>

definition lane_data :: "('c, 'm) crates \<Rightarrow> flat_lane \<Rightarrow> bytes \<Rightarrow> bytes option" where
  "lane_data X l cid = Option.bind (found X l cid) (content l)"

lemma lane_data_None: "lane_inv X l \<Longrightarrow> lane_data X l cid = None \<longleftrightarrow> found X l cid = None"
  using found_iff [of l X cid] by (cases "found X l cid") (auto simp: lane_data_def lane_inv_def)

lemma insert_lane_data:
  assumes "lane_inv X l" "buckets (fl_control l) + max_probe_steps cfg < 2 ^ 31" "\<not> skip_exists_check cfg"
    and "insert_block_in_class X cfg blk cid l = (Ok (), l')"
  shows "lane_inv X l' \<and> buckets (fl_control l') \<le> buckets (fl_control l) + max_probe_steps cfg
    \<and> lane_data X l' c = (if c = cid \<and> lane_data X l c = None then Some (block_data blk) else lane_data X l c)"
proof -
  have cid: "cid \<noteq> []" "length cid \<le> MAX_CID_BYTES"
    and run: "insert_loop X cfg (block_data blk) cid (max_probe_steps cfg) l = (Ok (), l')"
    using assms(4) by (auto simp: insert_block_in_class_def split: if_splits)
  have ins: "inserted X (block_data blk) cid l l'" "buckets (fl_control l') \<le> buckets (fl_control l) + max_probe_steps cfg"
    using insert_loop_spec [OF assms(1) cid assms(2) run] assms(3) by auto
  have inv: "lane_inv X l'" using ins by (simp add: inserted_def)
  have f: "found X l c = Some e \<longleftrightarrow> e \<in> index_entries (fl_index l) \<and> e_cid e = c"
    "found X l' c = Some e \<longleftrightarrow> e \<in> index_entries (fl_index l') \<and> e_cid e = c"
    "found X l c = None \<longleftrightarrow> c \<notin> e_cid ` index_entries (fl_index l)"
    "found X l' c = None \<longleftrightarrow> c \<notin> e_cid ` index_entries (fl_index l')" for c e
    using assms(1) inv by (auto simp: found_iff found_None lane_inv_def)
  have "lane_data X l' c = (if c = cid \<and> lane_data X l c = None then Some (block_data blk) else lane_data X l c)"
  proof (cases "found X l c")
    case (Some e)
    then have e: "e \<in> index_entries (fl_index l)" "e_cid e = c" by (simp_all add: f)
    then have "found X l' c = Some e" using ins by (auto simp: f inserted_def split: if_splits)
    moreover have "content l' e = content l e" using ins e(1) by (simp add: inserted_def)
    moreover have "lane_data X l c \<noteq> None" using Some lane_data_None [OF assms(1)] by simp
    ultimately show ?thesis using Some by (simp add: lane_data_def)
  next
    case None
    show ?thesis
    proof (cases "c = cid")
      case True
      then obtain e where e: "e_cid e = cid" "content l' e = Some (block_data blk)" "e \<in> index_entries (fl_index l')"
        using ins None by (auto simp: f(3) inserted_def)
      then have "found X l' cid = Some e" by (simp add: f)
      with e True None show ?thesis by (simp add: lane_data_def)
    next
      case False
      then have "found X l' c = None" using ins None by (auto simp: f(3,4) inserted_def split: if_splits)
      with False None show ?thesis by (simp add: lane_data_def)
    qed
  qed
  with inv ins(2) show ?thesis by blast
qed

definition batch_map :: "('c block \<times> bytes) list \<Rightarrow> bytes \<Rightarrow> bytes option" where
  "batch_map bs = map_of (map (\<lambda>(b, cid). (cid, block_data b)) bs)"

lemma insert_all_data:
  assumes "lane_inv X l" "buckets (fl_control l) + length bs * max_probe_steps cfg < 2 ^ 31" "\<not> skip_exists_check cfg"
    and "insert_all X cfg bs l = (Ok (), l')"
  shows "lane_inv X l' \<and> buckets (fl_control l') \<le> buckets (fl_control l) + length bs * max_probe_steps cfg
    \<and> lane_data X l' c = (case lane_data X l c of Some d \<Rightarrow> Some d | None \<Rightarrow> batch_map bs c)"
  using assms
proof (induction bs arbitrary: l)
  case Nil
  then show ?case by (auto simp: batch_map_def split: option.splits)
next
  case (Cons x bs)
  obtain blk cid where x: "x = (blk, cid)" by (cases x)
  obtain l1 where l1: "insert_block_in_class X cfg blk cid l = (Ok (), l1)" "insert_all X cfg bs l1 = (Ok (), l')"
    using Cons(5) x by (auto split: prod.splits result.splits)
  have room: "buckets (fl_control l) + max_probe_steps cfg < 2 ^ 31" using Cons(3) by simp
  note i = insert_lane_data [OF Cons(2) room Cons(4) l1(1)]
  have "lane_inv X l1" "buckets (fl_control l1) + length bs * max_probe_steps cfg < 2 ^ 31"
    using i [of c] Cons(3) by auto
  from Cons(1) [OF this Cons(4) l1(2)] i [of c] show ?case
    by (auto simp: x batch_map_def split: option.splits if_splits)
qed

section \<open>Lane files\<close>

definition lane_of :: "flat_control \<Rightarrow> lane_files \<Rightarrow> flat_lane" where
  "lane_of c lf = \<lparr>fl_control = c, fl_index = lf_index lf, fl_data = lf_data lf\<rparr>"

text \<open>A lane directory with a readable control and a well-formed lane with at most \<open>n\<close> buckets.\<close>

definition lane_ok :: "('c, 'm) crates \<Rightarrow> nat \<Rightarrow> lane_files \<Rightarrow> bool" where
  "lane_ok X n lf \<longleftrightarrow> (\<exists>c. read_control_raw (lf_control lf) = Ok (Some c) \<and> lane_inv X (lane_of c lf) \<and> buckets c \<le> n)"

definition file_data :: "('c, 'm) crates \<Rightarrow> lane_files \<Rightarrow> bytes \<Rightarrow> bytes option" where
  "file_data X lf cid = (case read_control_raw (lf_control lf) of Ok (Some c) \<Rightarrow> lane_data X (lane_of c lf) cid | _ \<Rightarrow> None)"

definition empty_files :: lane_files where
  "empty_files = \<lparr>lf_control = [], lf_index = [], lf_data = []\<rparr>"

lemma lane_inv_ensure:
  assumes "lane_inv X (lane_of c lf)"
  shows "lane_inv X (lane_of c (lf\<lparr>lf_index := ensure_index_buckets (lf_index lf) n\<rparr>))"
    and "lane_data X (lane_of c (lf\<lparr>lf_index := ensure_index_buckets (lf_index lf) n\<rparr>)) cid = lane_data X (lane_of c lf) cid"
proof -
  have al: "aligned (lf_index lf)" using assms by (simp add: lane_inv_def index_inv_def lane_of_def)
  note rb = read_bucket_ensure [OF al] and ae = aligned_ensure [OF al]
  have ie: "index_entries (ensure_index_buckets (lf_index lf) n) = index_entries (lf_index lf)"
    by (simp add: index_entries_def rb)
  have ct: "content (lane_of c (lf\<lparr>lf_index := ensure_index_buckets (lf_index lf) n\<rparr>)) = content (lane_of c lf)"
    by (simp add: content_def lane_of_def fun_eq_iff)
  show "lane_inv X (lane_of c (lf\<lparr>lf_index := ensure_index_buckets (lf_index lf) n\<rparr>))"
    using assms ct by (simp add: lane_inv_def index_inv_def lane_of_def ie rb ae)
  show "lane_data X (lane_of c (lf\<lparr>lf_index := ensure_index_buckets (lf_index lf) n\<rparr>)) cid = lane_data X (lane_of c lf) cid"
    by (simp add: lane_data_def ct) (simp add: found_def lookup_in_class_def lane_of_def rb split: prod.splits)
qed

lemma fresh_lane:
  assumes "control_ok c" "ctl_split_ptr c = 0" "ctl_level c \<le> 24"
  shows "lane_inv X (lane_of c empty_files)" "lane_data X (lane_of c empty_files) cid = None"
proof -
  have pe: "page_entries (replicate BUCKET_BYTES 0) = {}" by (auto simp: page_entries_def view_zero)
  have b: "buckets c \<le> 2 ^ 31"
    using assms power_increasing [of "ctl_level c" 31 "2 :: nat"] by (simp add: buckets_def)
  show inv: "lane_inv X (lane_of c empty_files)"
    using assms(1) b pe by (auto simp: lane_inv_def ctl_inv_def index_inv_def index_entries_def lane_of_def empty_files_def
        read_bucket_Nil aligned_def page_ok_zero page_uniq_def view_zero)
  have "index_entries (fl_index (lane_of c empty_files)) = {}"
    using pe by (simp add: index_entries_def lane_of_def empty_files_def read_bucket_Nil)
  then have "found X (lane_of c empty_files) cid = None"
    using inv by (simp add: found_None lane_inv_def)
  then show "lane_data X (lane_of c empty_files) cid = None" by (simp add: lane_data_def)
qed

lemma load_or_init_spec:
  assumes "lf = empty_files \<or> lane_ok X n lf" "2 ^ 24 \<le> n"
  shows "\<exists>c lf1. load_or_init_control cfg lf = (Ok c, lf1) \<and> lane_inv X (lane_of c lf1) \<and> buckets c \<le> n
    \<and> (\<forall>cid. lane_data X (lane_of c lf1) cid = file_data X lf cid)"
  using assms(1)
proof
  assume lf: "lf = empty_files"
  let ?c = "\<lparr>ctl_level = min (max (initial_level cfg) 1) 24, ctl_split_ptr = 0, ctl_item_count = 0, ctl_next_file_id = 0,
    ctl_next_offset = 0\<rparr>"
  have ok: "control_ok ?c" by (simp add: control_ok_def)
  have z: "ctl_split_ptr ?c = 0" "ctl_level ?c \<le> 24" by simp_all
  note fr = fresh_lane [OF ok z]
  have "buckets ?c \<le> 2 ^ 24" unfolding buckets_def by (simp add: power_increasing del: power_numeral)
  moreover have inv: "ctl_inv ?c" using fr(1) [of X] by (simp add: lane_inv_def lane_of_def)
  moreover have "read_control_raw (lf_control lf) = Ok None"
    by (simp add: lf empty_files_def read_control_raw_def read_exact_at_def)
  ultimately show ?thesis
    using assms(2) fr lane_inv_ensure [of X ?c empty_files "buckets ?c"]
    by (auto simp: load_or_init_control_def Let_def bucket_count_buckets lf file_data_def lane_of_def)
next
  assume "lane_ok X n lf"
  then obtain c where c: "read_control_raw (lf_control lf) = Ok (Some c)" "lane_inv X (lane_of c lf)" "buckets c \<le> n"
    by (auto simp: lane_ok_def)
  then have "ctl_inv c" by (simp add: lane_inv_def lane_of_def)
  then show ?thesis
    using c lane_inv_ensure [OF c(2), of "buckets c"]
    by (auto simp: load_or_init_control_def bucket_count_buckets file_data_def)
qed

lemma put_lane_spec:
  assumes "lf = empty_files \<or> lane_ok X n lf" "2 ^ 24 \<le> n" "n + length bs * max_probe_steps cfg < 2 ^ 31"
    and "\<not> skip_exists_check cfg" "put_lane X cfg bs lf = (Ok (), lf')"
  shows "lane_ok X (n + length bs * max_probe_steps cfg) lf'
    \<and> file_data X lf' cid = (case file_data X lf cid of Some d \<Rightarrow> Some d | None \<Rightarrow> batch_map bs cid)"
proof -
  obtain c lf1 where c: "load_or_init_control cfg lf = (Ok c, lf1)" "lane_inv X (lane_of c lf1)" "buckets c \<le> n"
    "\<And>cid. lane_data X (lane_of c lf1) cid = file_data X lf cid"
    using load_or_init_spec [OF assms(1,2)] by blast
  obtain l where l: "insert_all X cfg bs (lane_of c lf1) = (Ok (), l)"
    and lf': "lf' = lf1\<lparr>lf_index := fl_index l, lf_data := fl_data l, lf_control := write_control_raw (lf_control lf1) (fl_control l)\<rparr>"
    using assms(5) c(1) by (auto simp: put_lane_def lane_of_def Let_def split: prod.splits result.splits)
  have room: "buckets (fl_control (lane_of c lf1)) + length bs * max_probe_steps cfg < 2 ^ 31"
    using c(3) assms(3) by (simp add: lane_of_def)
  note i = insert_all_data [OF c(2) room assms(4) l]
  have inv: "lane_inv X l" using i by blast
  then have "control_ok (fl_control l)" by (simp add: lane_inv_def ctl_inv_def)
  then have rd: "read_control_raw (lf_control lf') = Ok (Some (fl_control l))" by (simp add: lf' read_write_control)
  have lo: "lane_of (fl_control l) lf' = l" by (simp add: lf' lane_of_def)
  have "buckets (fl_control l) \<le> buckets c + length bs * max_probe_steps cfg" using i [of cid] by (simp add: lane_of_def)
  then have "buckets (fl_control l) \<le> n + length bs * max_probe_steps cfg" using c(3) by linarith
  then have "lane_ok X (n + length bs * max_probe_steps cfg) lf'" using inv rd lo by (auto simp: lane_ok_def)
  moreover have "file_data X lf' cid = lane_data X l cid" by (simp add: file_data_def rd lo)
  ultimately show ?thesis using i [of cid] c(4) by simp
qed

lemma delete_lane_spec:
  assumes "lane_ok X n lf"
  shows "\<exists>lf'. delete_lane X cid lf = (Ok (file_data X lf cid \<noteq> None), lf') \<and> lane_ok X n lf'
    \<and> (\<forall>c. file_data X lf' c = (if c = cid then None else file_data X lf c))"
proof -
  obtain c where c: "read_control_raw (lf_control lf) = Ok (Some c)" "lane_inv X (lane_of c lf)" "buckets c \<le> n"
    using assms by (auto simp: lane_ok_def)
  let ?l = "lane_of c lf"
  obtain l' where l': "delete_in_lane X cid ?l = (Ok (cid \<in> e_cid ` index_entries (fl_index ?l)), l')" "lane_inv X l'"
    "index_entries (fl_index l') = {e \<in> index_entries (fl_index ?l). e_cid e \<noteq> cid}" "content l' = content ?l"
    "buckets (fl_control l') = buckets (fl_control ?l)"
    using delete_in_lane_spec [OF c(2)] by blast
  have fd: "file_data X lf k = lane_data X ?l k" for k by (simp add: file_data_def c(1))
  have mem: "cid \<in> e_cid ` index_entries (fl_index ?l) \<longleftrightarrow> file_data X lf cid \<noteq> None"
    using c(2) lane_data_None [OF c(2)] by (simp add: fd found_None lane_inv_def)
  have ld: "lane_data X l' k = (if k = cid then None else lane_data X ?l k)" for k
  proof -
    have "found X l' k = Some e \<longleftrightarrow> found X ?l k = Some e \<and> k \<noteq> cid" for e
      using l'(2,3) c(2) by (auto simp: found_iff lane_inv_def)
    then have "found X l' k = (if k = cid then None else found X ?l k)" by (metis not_Some_eq)
    then show ?thesis by (simp add: lane_data_def l'(4))
  qed
  show ?thesis
  proof (cases "file_data X lf cid = None")
    case True
    then have "delete_lane X cid lf = (Ok False, lf)"
      using l'(1) mem c(1) by (simp add: delete_lane_def lane_of_def)
    then show ?thesis using assms True by auto
  next
    case False
    define lf' where "lf' = lf\<lparr>lf_index := fl_index l', lf_control := write_control_raw (lf_control lf) (fl_control l')\<rparr>"
    have dl: "delete_lane X cid lf = (Ok True, lf')"
      using False l'(1) mem c(1) by (simp add: delete_lane_def lane_of_def lf'_def)
    have "fl_data l' = lf_data lf"
      using l'(1) False mem by (auto simp: delete_in_lane_def lane_of_def Let_def split: result.splits option.splits prod.splits)
    then have lo: "lane_of (fl_control l') lf' = l'" by (simp add: lane_of_def lf'_def)
    have rd: "read_control_raw (lf_control lf') = Ok (Some (fl_control l'))"
      using l'(2) by (simp add: lf'_def read_write_control lane_inv_def ctl_inv_def)
    have "lane_ok X n lf'" using rd lo l'(2,5) c(3) by (auto simp: lane_ok_def lane_of_def)
    moreover have "file_data X lf' k = (if k = cid then None else file_data X lf k)" for k
      using ld [of k] by (simp add: file_data_def rd lo c(1))
    ultimately show ?thesis using dl False by auto
  qed
qed

lemma lookup_lane_spec:
  assumes "lane_ok X n lf"
  shows "\<exists>r. lookup_lane X cid lf = Ok r \<and> (case r of None \<Rightarrow> file_data X lf cid = None
    | Some e \<Rightarrow> \<exists>data_file d. om_get (lf_data lf) (e_file_id e) = Some data_file
        \<and> read_exact_at data_file (e_offset e) (e_len e) = Some d \<and> file_data X lf cid = Some d)"
proof -
  obtain c where c: "read_control_raw (lf_control lf) = Ok (Some c)" "lane_inv X (lane_of c lf)"
    using assms by (auto simp: lane_ok_def)
  let ?l = "lane_of c lf"
  obtain r where r: "lookup_in_class X (lf_index lf) c cid = Ok r"
    using lookup_spec [of c X "lf_index lf" cid] c(2) by (auto simp: lane_inv_def lane_of_def)
  have lk: "lookup_lane X cid lf = Ok (found X ?l cid)"
    by (auto simp: lookup_lane_def c(1) r found_def lane_of_def split: option.splits)
  have fd: "file_data X lf cid = lane_data X ?l cid" by (simp add: file_data_def c(1))
  show ?thesis
  proof (cases "found X ?l cid")
    case None
    then show ?thesis using lk fd by (simp add: lane_data_def)
  next
    case (Some e)
    then have "e \<in> index_entries (fl_index ?l)" using c(2) by (simp add: found_iff lane_inv_def)
    then obtain d where d: "content ?l e = Some d" using c(2) by (auto simp: lane_inv_def)
    then show ?thesis
      using lk fd Some by (auto simp: lane_data_def content_def lane_of_def bind_eq_Some_conv)
  qed
qed

section \<open>The store as a map\<close>

definition store_ok :: "('c, 'm) crates \<Rightarrow> nat \<Rightarrow> flat_store \<Rightarrow> bool" where
  "store_ok X n st \<longleftrightarrow> (\<forall>key lf. om_get st key = Some lf \<longrightarrow> lane_ok X n lf)"

definition store_data :: "('c, 'm) crates \<Rightarrow> flat_store \<Rightarrow> nat \<times> nat \<Rightarrow> bytes \<Rightarrow> bytes option" where
  "store_data X st key cid = Option.bind (om_get st key) (\<lambda>lf. file_data X lf cid)"

lemma lane_ok_mono: "lane_ok X n lf \<Longrightarrow> n \<le> m \<Longrightarrow> lane_ok X m lf"
  by (auto simp: lane_ok_def)

lemma store_data_insert:
  "store_data X (om_insert key lf st) k cid = (if k = key then file_data X lf cid else store_data X st k cid)"
  by (simp add: store_data_def)

lemma file_data_empty [simp]: "file_data X empty_files cid = None"
  by (simp add: file_data_def empty_files_def read_control_raw_def read_exact_at_def)

lemma file_data_open: "file_data X (open_class_files st key) cid = store_data X st key cid"
  by (cases "om_get st key") (simp_all add: open_class_files_def store_data_def om_get_or_def empty_files_def [symmetric])

lemma active_bins_spec:
  "distinct act \<Longrightarrow> distinct (active_bins bs act) \<and> set (active_bins bs act) = set act \<union> fst ` set bs"
  by (induction bs act rule: active_bins.induct) auto

lemma put_bins_spec:
  assumes "put_bins X cfg bs keys st = (Ok (), st')" "distinct keys" "2 ^ 24 \<le> n" "\<not> skip_exists_check cfg"
    and "m = n + length bs * max_probe_steps cfg" "m < 2 ^ 31"
    and "\<And>key lf. om_get st key = Some lf \<Longrightarrow> lane_ok X (if key \<in> set keys then n else m) lf"
  shows "store_ok X m st' \<and> store_data X st' key cid = (case store_data X st key cid of Some d \<Rightarrow> Some d
    | None \<Rightarrow> if key \<in> set keys then batch_map (map snd (filter (\<lambda>(k, _). k = key) bs)) cid else None)"
  using assms
proof (induction keys arbitrary: st)
  case Nil
  then show ?case by (auto simp: store_ok_def split: option.splits)
next
  case (Cons k keys)
  let ?bs = "map snd (filter (\<lambda>(k', _). k' = k) bs)"
  obtain lf where lf: "put_lane X cfg ?bs (open_class_files st k) = (Ok (), lf)" "put_bins X cfg bs keys (om_insert k lf st) = (Ok (), st')"
    using Cons(2) by (auto split: prod.splits result.splits)
  have le: "length ?bs * max_probe_steps cfg \<le> length bs * max_probe_steps cfg" by (simp add: mult_le_mono1)
  have op: "open_class_files st k = empty_files \<or> lane_ok X n (open_class_files st k)"
    using Cons(8) [of k] by (auto simp: open_class_files_def om_get_or_def empty_files_def split: option.splits)
  have room: "n + length ?bs * max_probe_steps cfg < 2 ^ 31" using le Cons(6,7) by linarith
  note pl = put_lane_spec [OF op Cons(4) room Cons(5) lf(1)]
  have "n + length ?bs * max_probe_steps cfg \<le> m" using le Cons(6) by simp
  then have okk: "lane_ok X m lf" using pl lane_ok_mono by blast
  have inv: "lane_ok X (if key \<in> set keys then n else m) lf'" if "om_get (om_insert k lf st) key = Some lf'" for key lf'
    using that okk Cons(3) Cons(8) [of key lf'] by (auto split: if_splits)
  have "store_ok X m st' \<and> store_data X st' key cid = (case store_data X (om_insert k lf st) key cid of Some d \<Rightarrow> Some d
    | None \<Rightarrow> if key \<in> set keys then batch_map (map snd (filter (\<lambda>(k, _). k = key) bs)) cid else None)"
    by (rule Cons(1) [OF lf(2) _ Cons(4,5,6,7) inv]) (use Cons(3) in auto)
  moreover have "store_data X (om_insert k lf st) key cid = (if key = k
      then (case store_data X st k cid of Some d \<Rightarrow> Some d | None \<Rightarrow> batch_map ?bs cid) else store_data X st key cid)"
    using pl by (simp add: store_data_insert file_data_open)
  ultimately show ?case using Cons(3) by (auto split: option.splits)
qed

definition tagged :: "('c, 'm) crates \<Rightarrow> flat_config \<Rightarrow> 'c block list \<Rightarrow> ((nat \<times> nat) \<times> ('c block \<times> bytes)) list" where
  "tagged X cfg blocks = map (\<lambda>b. (bin_of X cfg b, (b, cid_to_bytes X (block_cid b)))) blocks"

lemma flat_put_many_spec:
  assumes "flat_put_many X cfg blocks st = (Ok (), st')" "store_ok X n st" "2 ^ 24 \<le> n" "\<not> skip_exists_check cfg"
    and "n + length blocks * max_probe_steps cfg < 2 ^ 31"
  shows "store_ok X (n + length blocks * max_probe_steps cfg) st' \<and> store_data X st' key cid =
    (case store_data X st key cid of Some d \<Rightarrow> Some d
     | None \<Rightarrow> batch_map (map snd (filter (\<lambda>(k, _). k = key) (tagged X cfg blocks))) cid)"
proof (cases "blocks = []")
  case True
  then show ?thesis using assms(1,2) by (auto simp: flat_put_many_def tagged_def batch_map_def split: option.splits)
next
  case False
  let ?bs = "tagged X cfg blocks" and ?keys = "active_bins (tagged X cfg blocks) []"
  let ?m = "n + length ?bs * max_probe_steps cfg"
  have len: "length ?bs = length blocks" by (simp add: tagged_def)
  have run: "put_bins X cfg ?bs ?keys st = (Ok (), st')"
    using assms(1) False by (auto simp: flat_put_many_def tagged_def Let_def split: result.splits)
  have keys: "distinct ?keys" "set ?keys = fst ` set ?bs" using active_bins_spec [of "[]" ?bs] by auto
  have inv: "lane_ok X (if key \<in> set ?keys then n else ?m) lf" if "om_get st key = Some lf" for key lf
  proof -
    have "lane_ok X n lf" using assms(2) that unfolding store_ok_def by blast
    then show ?thesis using lane_ok_mono [of X n lf ?m] by simp
  qed
  have lt: "?m < 2 ^ 31" using assms(5) len by simp
  have none: "batch_map (map snd (filter (\<lambda>(k, _). k = key) ?bs)) cid = None" if "key \<notin> set ?keys"
  proof -
    have "filter (\<lambda>(k, _). k = key) ?bs = []" using that keys(2) by (auto simp: filter_empty_conv image_iff)
    then show ?thesis by (simp add: batch_map_def)
  qed
  show ?thesis
    using put_bins_spec [OF run keys(1) assms(3,4) refl lt inv, of key cid] len none
    by (auto split: option.splits if_splits)
qed

section \<open>Reading and deleting through the map\<close>

fun first_some :: "('k \<Rightarrow> 'v option) \<Rightarrow> 'k list \<Rightarrow> 'v option" where
  "first_some f [] = None"
| "first_some f (k # ks) = (case f k of Some v \<Rightarrow> Some v | None \<Rightarrow> first_some f ks)"

text \<open>What the backend holds for a CID: the hit in the lowest size class.\<close>

definition flat_lookup :: "('c, 'm) crates \<Rightarrow> flat_config \<Rightarrow> flat_store \<Rightarrow> 'c \<Rightarrow> bytes option" where
  "flat_lookup X cfg st c =
     first_some (\<lambda>cl. store_data X st (cl, lane_for_cid X cfg (cid_to_bytes X c)) (cid_to_bytes X c)) [0..<CLASS_COUNT]"

lemma store_lookup_lane:
  assumes "store_ok X n st" "om_get st key = Some lf"
  obtains r where "lookup_lane X cid lf = Ok r" "case r of None \<Rightarrow> store_data X st key cid = None
    | Some e \<Rightarrow> \<exists>data_file d. om_get (lf_data lf) (e_file_id e) = Some data_file
        \<and> read_exact_at data_file (e_offset e) (e_len e) = Some d \<and> store_data X st key cid = Some d"
proof -
  have "lane_ok X n lf" using assms unfolding store_ok_def by blast
  then obtain r where r: "lookup_lane X cid lf = Ok r" "case r of None \<Rightarrow> file_data X lf cid = None
    | Some e \<Rightarrow> \<exists>data_file d. om_get (lf_data lf) (e_file_id e) = Some data_file
        \<and> read_exact_at data_file (e_offset e) (e_len e) = Some d \<and> file_data X lf cid = Some d"
    using lookup_lane_spec by blast
  have fd: "file_data X lf cid = store_data X st key cid" using assms(2) by (simp add: store_data_def)
  show ?thesis by (rule that [OF r(1) r(2) [unfolded fd]])
qed

lemma flat_get_loop_spec:
  assumes "store_ok X n st"
  shows "flat_get_loop X c lane cs st = (case first_some (\<lambda>cl. store_data X st (cl, lane) (cid_to_bytes X c)) cs of
     Some d \<Rightarrow> Ok \<lparr>block_cid = c, block_data = d\<rparr> | None \<Rightarrow> Err (BlockNotFound (cid_to_string X c)))"
proof (induction cs)
  case (Cons cl cs)
  show ?case
  proof (cases "om_get st (cl, lane)")
    case None
    then show ?thesis using Cons by (simp add: store_data_def)
  next
    case (Some lf)
    show ?thesis
      by (rule store_lookup_lane [OF assms Some, of "cid_to_bytes X c"]) (use Some Cons in \<open>auto split: option.splits\<close>)
  qed
qed simp

lemma flat_get_spec:
  "store_ok X n st \<Longrightarrow> flat_get X cfg c st = (case flat_lookup X cfg st c of
     Some d \<Rightarrow> Ok \<lparr>block_cid = c, block_data = d\<rparr> | None \<Rightarrow> Err (BlockNotFound (cid_to_string X c)))"
  by (simp add: flat_get_def flat_lookup_def flat_get_loop_spec)

lemma flat_has_spec:
  assumes "store_ok X n st"
  shows "flat_has X cfg c st \<longleftrightarrow> flat_lookup X cfg st c \<noteq> None"
proof -
  have "flat_has_loop X c lane cs st = Ok (first_some (\<lambda>cl. store_data X st (cl, lane) (cid_to_bytes X c)) cs \<noteq> None)" for lane cs
  proof (induction cs)
    case (Cons cl cs)
    show ?case
    proof (cases "om_get st (cl, lane)")
      case None
      then show ?thesis using Cons by (simp add: store_data_def)
    next
      case (Some lf)
      show ?thesis
        by (rule store_lookup_lane [OF assms Some, of "cid_to_bytes X c"]) (use Some Cons in \<open>auto split: option.splits\<close>)
    qed
  qed simp
  then show ?thesis by (simp add: flat_has_def flat_lookup_def)
qed

text \<open>Deletion removes the hit of the lowest class.\<close>

definition delete_result ::
  "('c, 'm) crates \<Rightarrow> 'c \<Rightarrow> nat \<Rightarrow> nat list \<Rightarrow> flat_store \<Rightarrow> (unit, storage_error) result \<Rightarrow> flat_store \<Rightarrow> bool" where
  "delete_result X c lane cs st r st' \<longleftrightarrow>
     (if \<forall>cl \<in> set cs. store_data X st (cl, lane) (cid_to_bytes X c) = None
      then r = Err (BlockNotFound (cid_to_string X c)) \<and> store_data X st' = store_data X st
      else r = Ok () \<and> (\<exists>cl \<in> set cs. store_data X st (cl, lane) (cid_to_bytes X c) \<noteq> None
         \<and> (\<forall>key cid. store_data X st' key cid =
              (if key = (cl, lane) \<and> cid = cid_to_bytes X c then None else store_data X st key cid))))"

lemma delete_result_skip:
  assumes "store_data X st (cl, lane) (cid_to_bytes X c) = None" "store_data X st1 = store_data X st"
    and "delete_result X c lane cs st1 r st'"
  shows "delete_result X c lane (cl # cs) st r st'"
proof -
  have eq: "(\<forall>cl' \<in> set (cl # cs). store_data X st (cl', lane) (cid_to_bytes X c) = None)
      \<longleftrightarrow> (\<forall>cl' \<in> set cs. store_data X st (cl', lane) (cid_to_bytes X c) = None)" using assms(1) by simp
  show ?thesis
  proof (cases "\<forall>cl' \<in> set cs. store_data X st (cl', lane) (cid_to_bytes X c) = None")
    case True
    then show ?thesis using assms(3) unfolding delete_result_def assms(2) eq if_P [OF True] by blast
  next
    case False
    then show ?thesis using assms(3) unfolding delete_result_def assms(2) eq if_not_P [OF False] by auto
  qed
qed

lemma flat_delete_loop_spec:
  assumes "store_ok X n st"
  shows "\<exists>r st'. flat_delete_loop X c lane cs st = (r, st') \<and> store_ok X n st' \<and> delete_result X c lane cs st r st'"
  using assms
proof (induction cs arbitrary: st)
  case Nil
  then show ?case by (simp add: delete_result_def)
next
  case (Cons cl cs)
  show ?case
  proof (cases "om_get st (cl, lane)")
    case None
    then have "store_data X st (cl, lane) (cid_to_bytes X c) = None" by (simp add: store_data_def)
    moreover have "flat_delete_loop X c lane (cl # cs) st = flat_delete_loop X c lane cs st" using None by simp
    ultimately show ?thesis using Cons(1) [OF Cons(2)] delete_result_skip by metis
  next
    case (Some lf)
    have "lane_ok X n lf" using Cons(2) Some unfolding store_ok_def by blast
    then obtain lf' where lf': "delete_lane X (cid_to_bytes X c) lf = (Ok (file_data X lf (cid_to_bytes X c) \<noteq> None), lf')"
      "lane_ok X n lf'" "\<And>k. file_data X lf' k = (if k = cid_to_bytes X c then None else file_data X lf k)"
      using delete_lane_spec by blast
    let ?st = "om_insert (cl, lane) lf' st"
    have fd: "file_data X lf k = store_data X st (cl, lane) k" for k by (simp add: store_data_def Some)
    have ok: "store_ok X n ?st" using Cons(2) lf'(2) unfolding store_ok_def om_get_insert by (metis option.inject)
    have sd: "store_data X ?st key cid = (if key = (cl, lane) \<and> cid = cid_to_bytes X c then None else store_data X st key cid)" for key cid
      by (simp add: store_data_insert lf'(3) fd)
    show ?thesis
    proof (cases "store_data X st (cl, lane) (cid_to_bytes X c) = None")
      case True
      then have same: "store_data X ?st = store_data X st" using sd by (intro ext) auto
      have "flat_delete_loop X c lane (cl # cs) st = flat_delete_loop X c lane cs ?st"
        using Some lf'(1) True by (simp add: fd)
      then show ?thesis using Cons(1) [OF ok] delete_result_skip [OF True same] by metis
    next
      case False
      then have "flat_delete_loop X c lane (cl # cs) st = (Ok (), ?st)"
        using Some lf'(1) by (simp add: fd)
      moreover have "delete_result X c lane (cl # cs) st (Ok ()) ?st"
        using sd False unfolding delete_result_def by auto
      ultimately show ?thesis using ok by blast
    qed
  qed
qed

section \<open>The contract of the backend\<close>

text \<open>
  Content addressing fixes the length of the data of a CID, and with it the size class: \<open>dsize\<close>
  gives that length. A store is \<open>sized\<close> when every block in it respects it; then a CID is
  held in one class only.
\<close>

definition class_of :: "nat \<Rightarrow> nat" where
  "class_of len = fst (class_for_len len)"

definition sized :: "('c, 'm) crates \<Rightarrow> ('c \<Rightarrow> nat) \<Rightarrow> flat_store \<Rightarrow> bool" where
  "sized X dsize st \<longleftrightarrow> (\<forall>cl lane c d. store_data X st (cl, lane) (cid_to_bytes X c) = Some d \<longrightarrow>
     cl = class_of (dsize c) \<and> length d = dsize c)"

lemma first_some_None: "(\<And>k. k \<in> set ks \<Longrightarrow> f k = None) \<Longrightarrow> first_some f ks = None"
  by (induction ks) auto

lemma first_some_only: "k0 \<in> set ks \<Longrightarrow> (\<And>k. k \<noteq> k0 \<Longrightarrow> f k = None) \<Longrightarrow> first_some f ks = f k0"
proof (induction ks)
  case (Cons k ks)
  show ?case
  proof (cases "k = k0")
    case True
    have "first_some f ks = f k0 \<or> first_some f ks = None"
      using Cons(1) [OF _ Cons(3)] first_some_None [of ks f] Cons(3) by metis
    then show ?thesis using True by (auto split: option.splits)
  next
    case False
    then show ?thesis using Cons by auto
  qed
qed simp

lemma class_of_less: "class_of len \<in> set [0..<CLASS_COUNT]"
proof -
  have "CLASS_COUNT = 11" by (simp add: CLASS_COUNT_def DELTA_SIZE_CLASSES_def)
  then show ?thesis using class_for_len_less [of len] unfolding class_of_def by (simp del: upt_Suc upt_rec_numeral)
qed

lemma flat_lookup_sized:
  assumes "sized X dsize st"
  shows "flat_lookup X cfg st c = store_data X st (class_of (dsize c), lane_for_cid X cfg (cid_to_bytes X c)) (cid_to_bytes X c)"
proof -
  let ?f = "\<lambda>cl. store_data X st (cl, lane_for_cid X cfg (cid_to_bytes X c)) (cid_to_bytes X c)"
  have "?f cl = None" if "cl \<noteq> class_of (dsize c)" for cl
    using assms that unfolding sized_def by (cases "?f cl") auto
  then show ?thesis unfolding flat_lookup_def by (rule first_some_only [OF class_of_less])
qed

definition blocks_map :: "'c block list \<Rightarrow> 'c \<Rightarrow> bytes option" where
  "blocks_map blocks = map_of (map (\<lambda>b. (block_cid b, block_data b)) blocks)"

lemma batch_lookup:
  assumes "cid_bytes_law X" "\<And>b. b \<in> set blocks \<Longrightarrow> length (block_data b) = dsize (block_cid b)"
  shows "batch_map (map snd (filter (\<lambda>(k, _). k = key) (tagged X cfg blocks))) (cid_to_bytes X c)
    = (if key = (class_of (dsize c), lane_for_cid X cfg (cid_to_bytes X c)) then blocks_map blocks c else None)"
  using assms(2)
proof (induction blocks)
  case Nil
  then show ?case by (simp add: tagged_def batch_map_def blocks_map_def)
next
  case (Cons b blocks)
  have bin: "bin_of X cfg b = (class_of (dsize (block_cid b)), lane_for_cid X cfg (cid_to_bytes X (block_cid b)))"
    using Cons(2) by (simp add: bin_of_def class_of_def)
  show ?case
    using Cons bin cid_to_bytes_inject [OF assms(1)]
    by (auto simp: tagged_def batch_map_def blocks_map_def)
qed

lemma flat_put_lookup:
  assumes "cid_bytes_law X" "store_ok X n st" "sized X dsize st" "2 ^ 24 \<le> n" "\<not> skip_exists_check cfg"
    and "n + length blocks * max_probe_steps cfg < 2 ^ 31"
    and "\<And>b. b \<in> set blocks \<Longrightarrow> length (block_data b) = dsize (block_cid b)"
    and "flat_put_many X cfg blocks st = (Ok (), st')"
  shows "store_ok X (n + length blocks * max_probe_steps cfg) st'" "sized X dsize st'"
    "flat_lookup X cfg st' c = (case flat_lookup X cfg st c of Some d \<Rightarrow> Some d | None \<Rightarrow> blocks_map blocks c)"
    "store_data X st' key (cid_to_bytes X c) = (case store_data X st key (cid_to_bytes X c) of Some d \<Rightarrow> Some d
     | None \<Rightarrow> if key = (class_of (dsize c), lane_for_cid X cfg (cid_to_bytes X c)) then blocks_map blocks c else None)"
proof -
  note sp = flat_put_many_spec [OF assms(8,2,4,5,6)]
  show "store_ok X (n + length blocks * max_probe_steps cfg) st'" using sp by blast
  have sd: "store_data X st' key (cid_to_bytes X c) = (case store_data X st key (cid_to_bytes X c) of Some d \<Rightarrow> Some d
     | None \<Rightarrow> if key = (class_of (dsize c), lane_for_cid X cfg (cid_to_bytes X c)) then blocks_map blocks c else None)" for key c
  proof -
    have b: "batch_map (map snd (filter (\<lambda>(k, _). k = key) (tagged X cfg blocks))) (cid_to_bytes X c)
      = (if key = (class_of (dsize c), lane_for_cid X cfg (cid_to_bytes X c)) then blocks_map blocks c else None)"
      by (rule batch_lookup [OF assms(1,7)])
    show ?thesis using sp [of key "cid_to_bytes X c"] b
      by (cases "store_data X st key (cid_to_bytes X c)") simp_all
  qed
  have bl: "length d = dsize c" if "blocks_map blocks c = Some d" for c d
    using that assms(7) by (auto simp: blocks_map_def dest!: map_of_SomeD)
  show "store_data X st' key (cid_to_bytes X c) = (case store_data X st key (cid_to_bytes X c) of Some d \<Rightarrow> Some d
     | None \<Rightarrow> if key = (class_of (dsize c), lane_for_cid X cfg (cid_to_bytes X c)) then blocks_map blocks c else None)" by (rule sd)
  show sz: "sized X dsize st'"
    unfolding sized_def
  proof (intro allI impI)
    fix cl lane c d assume "store_data X st' (cl, lane) (cid_to_bytes X c) = Some d"
    then show "cl = class_of (dsize c) \<and> length d = dsize c"
      using assms(3) bl unfolding sd sized_def by (auto split: option.splits if_splits)
  qed
  show "flat_lookup X cfg st' c = (case flat_lookup X cfg st c of Some d \<Rightarrow> Some d | None \<Rightarrow> blocks_map blocks c)"
    unfolding flat_lookup_sized [OF sz] flat_lookup_sized [OF assms(3)] sd by simp
qed

lemma flat_delete_lookup:
  assumes "cid_bytes_law X" "store_ok X n st" "sized X dsize st" "flat_delete X cfg c st = (r, st')"
  shows "store_ok X n st'" "sized X dsize st'"
    "r = (if flat_lookup X cfg st c = None then Err (BlockNotFound (cid_to_string X c)) else Ok ())"
    "flat_lookup X cfg st' c' = (if c' = c then None else flat_lookup X cfg st c')"
proof -
  let ?lane = "lane_for_cid X cfg (cid_to_bytes X c)"
  have d: "store_ok X n st'" "delete_result X c ?lane [0..<CLASS_COUNT] st r st'"
    using flat_delete_loop_spec [OF assms(2), of c ?lane "[0..<CLASS_COUNT]"] assms(4) by (auto simp: flat_delete_def)
  have only: "store_data X st (cl, lane) (cid_to_bytes X c) = None" if "cl \<noteq> class_of (dsize c)" for cl lane
    using assms(3) that unfolding sized_def by (cases "store_data X st (cl, lane) (cid_to_bytes X c)") auto
  have miss: "(\<forall>cl \<in> set [0..<CLASS_COUNT]. store_data X st (cl, ?lane) (cid_to_bytes X c) = None) \<longleftrightarrow> flat_lookup X cfg st c = None"
    unfolding flat_lookup_sized [OF assms(3)] using class_of_less [of "dsize c"] only by (metis (no_types, lifting))
  have sd: "store_data X st' key cid = (if key = (class_of (dsize c), ?lane) \<and> cid = cid_to_bytes X c then None else store_data X st key cid)" for key cid
  proof (cases "flat_lookup X cfg st c = None")
    case True
    then have "store_data X st' = store_data X st" using d(2) miss unfolding delete_result_def by simp
    then show ?thesis using True unfolding flat_lookup_sized [OF assms(3)] by auto
  next
    case False
    then have nm: "\<not> (\<forall>cl \<in> set [0..<CLASS_COUNT]. store_data X st (cl, ?lane) (cid_to_bytes X c) = None)" unfolding miss .
    obtain cl where "store_data X st (cl, ?lane) (cid_to_bytes X c) \<noteq> None"
      "store_data X st' key cid = (if key = (cl, ?lane) \<and> cid = cid_to_bytes X c then None else store_data X st key cid)"
      using d(2) unfolding delete_result_def if_not_P [OF nm] by blast
    then show ?thesis using only [of cl ?lane] by (cases "cl = class_of (dsize c)") auto
  qed
  show "store_ok X n st'" by (rule d(1))
  show r: "r = (if flat_lookup X cfg st c = None then Err (BlockNotFound (cid_to_string X c)) else Ok ())"
    using d(2) miss unfolding delete_result_def by (auto split: if_splits)
  show sz: "sized X dsize st'" using assms(3) unfolding sized_def by (auto simp: sd split: if_splits)
  show "flat_lookup X cfg st' c' = (if c' = c then None else flat_lookup X cfg st c')"
    unfolding flat_lookup_sized [OF sz] flat_lookup_sized [OF assms(3)] sd using cid_to_bytes_inject [OF assms(1)] by auto
qed

end
