(* ===== verification/DeltaFlat_Contract.thy ===== *)
theory DeltaFlat_Contract
  imports DeltaFlat_Store
begin

text \<open>
  The deltaflat backend keeps the contract of a block store: reads after batch writes and after
  deletes, and the interpretation of \<open>block_store\<close>. A lane may hold up to \<open>2^31\<close> buckets; one
  insertion adds at most \<open>max_probe_steps\<close> of them, which gives the room for \<open>k\<close> more blocks.
\<close>

definition flat_inv :: "('c, 'm) crates \<Rightarrow> flat_config \<Rightarrow> ('c \<Rightarrow> nat) \<Rightarrow> nat \<Rightarrow> flat_store \<Rightarrow> bool" where
  "flat_inv X cfg dsize k st \<longleftrightarrow> cid_bytes_law X \<and> \<not> skip_exists_check cfg \<and> sized X dsize st
     \<and> (\<exists>n. 2 ^ 24 \<le> n \<and> store_ok X n st \<and> n + k * max_probe_steps cfg < 2 ^ 31)"

definition flat_put1 :: "('c, 'm) crates \<Rightarrow> flat_config \<Rightarrow> 'c \<Rightarrow> bytes \<Rightarrow> flat_store \<Rightarrow> flat_store option" where
  "flat_put1 X cfg c d st = ok_state (flat_put_many X cfg [\<lparr>block_cid = c, block_data = d\<rparr>] st)"

lemma flat_put1_step:
  assumes "flat_inv X cfg dsize (Suc k) st" "length d = dsize c" "flat_put1 X cfg c d st = Some st'"
  shows "flat_inv X cfg dsize k st'"
    "flat_lookup X cfg st' c' = (if c' = c \<and> flat_lookup X cfg st c = None then Some d else flat_lookup X cfg st c')"
proof -
  obtain n where n: "2 ^ 24 \<le> n" "store_ok X n st" "n + Suc k * max_probe_steps cfg < 2 ^ 31"
    using assms(1) unfolding flat_inv_def by blast
  have base: "cid_bytes_law X" "\<not> skip_exists_check cfg" "sized X dsize st" using assms(1) by (auto simp: flat_inv_def)
  have run: "flat_put_many X cfg [\<lparr>block_cid = c, block_data = d\<rparr>] st = (Ok (), st')"
    using assms(3) by (simp add: flat_put1_def)
  have room: "n + length [\<lparr>block_cid = c, block_data = d\<rparr>] * max_probe_steps cfg < 2 ^ 31" using n(3) by simp
  have len: "length (block_data b) = dsize (block_cid b)" if "b \<in> set [\<lparr>block_cid = c, block_data = d\<rparr>]" for b
    using that assms(2) by simp
  note put = flat_put_lookup [OF base(1) n(2) base(3) n(1) base(2) room len run]
  show "flat_inv X cfg dsize k st'"
    unfolding flat_inv_def using base put(1,2) n by (auto intro!: exI [of _ "n + max_probe_steps cfg"])
  show "flat_lookup X cfg st' c' = (if c' = c \<and> flat_lookup X cfg st c = None then Some d else flat_lookup X cfg st c')"
    using put(3) [of c'] by (auto simp: blocks_map_def split: option.splits)
qed

lemma flat_del_step:
  assumes "flat_inv X cfg dsize k st" "ok_state (flat_delete X cfg c st) = Some st'"
  shows "flat_inv X cfg dsize k st'"
    "flat_lookup X cfg st' c' = (if c' = c then None else flat_lookup X cfg st c')"
    "flat_lookup X cfg st c \<noteq> None"
proof -
  obtain n where n: "2 ^ 24 \<le> n" "store_ok X n st" "n + k * max_probe_steps cfg < 2 ^ 31"
    using assms(1) unfolding flat_inv_def by blast
  have base: "cid_bytes_law X" "\<not> skip_exists_check cfg" "sized X dsize st" using assms(1) by (auto simp: flat_inv_def)
  have run: "flat_delete X cfg c st = (Ok (), st')" using assms(2) by simp
  note del = flat_delete_lookup [OF base(1) n(2) base(3) run]
  show "flat_inv X cfg dsize k st'" unfolding flat_inv_def using base del(1,2) n by blast
  show "flat_lookup X cfg st' c' = (if c' = c then None else flat_lookup X cfg st c')" by (rule del(4))
  show "flat_lookup X cfg st c \<noteq> None" using del(3) by (auto split: if_splits)
qed

lemma flat_get_data:
  assumes "flat_inv X cfg dsize k st"
  shows "ok_data (flat_get X cfg c st) = flat_lookup X cfg st c"
proof -
  obtain n where "store_ok X n st" using assms unfolding flat_inv_def by blast
  from flat_get_spec [OF this] show ?thesis by (simp add: ok_data_def split: option.splits)
qed

interpretation flat: block_store "flat_inv X cfg dsize" "\<lambda>c d. length d = dsize c" "flat_lookup X cfg"
  "\<lambda>st c. ok_data (flat_get X cfg c st)" "flat_put1 X cfg" "\<lambda>c st. ok_state (flat_delete X cfg c st)" for X cfg dsize
proof unfold_locales
  fix k st j assume "flat_inv X cfg dsize k st" "j \<le> k"
  moreover have "n + j * max_probe_steps cfg < 2 ^ 31" if "n + k * max_probe_steps cfg < 2 ^ 31" for n
    using that \<open>j \<le> k\<close> mult_le_mono1 [of j k "max_probe_steps cfg"] by linarith
  ultimately show "flat_inv X cfg dsize j st" unfolding flat_inv_def by blast
qed (use flat_put1_step flat_del_step flat_get_data in metis)+

section \<open>Reading back what was written\<close>

text \<open>
  The deltaflat backend after a batch: when \<open>put_many\<close> returns \<open>Ok\<close>, \<open>get\<close> gives for
  every CID the block that was there before, else the first block of the batch with that CID,
  else \<open>BlockNotFound\<close>; \<open>has\<close> agrees with \<open>get\<close>.
\<close>

lemma flat_put_get:
  assumes "flat_inv X cfg dsize (length blocks) st"
    and "\<And>b. b \<in> set blocks \<Longrightarrow> length (block_data b) = dsize (block_cid b)"
    and "flat_put_many X cfg blocks st = (Ok (), st')"
  shows "flat_get X cfg c st' =
      (case flat_get X cfg c st of Ok b \<Rightarrow> Ok b
       | _ \<Rightarrow> (case blocks_map blocks c of Some d \<Rightarrow> Ok \<lparr>block_cid = c, block_data = d\<rparr>
                | None \<Rightarrow> Err (BlockNotFound (cid_to_string X c))))
    \<and> flat_has X cfg c st' = is_ok (flat_get X cfg c st')"
proof -
  obtain n where n: "2 ^ 24 \<le> n" "store_ok X n st" "n + length blocks * max_probe_steps cfg < 2 ^ 31"
    using assms(1) unfolding flat_inv_def by blast
  have base: "cid_bytes_law X" "\<not> skip_exists_check cfg" "sized X dsize st" using assms(1) by (auto simp: flat_inv_def)
  note put = flat_put_lookup [OF base(1) n(2) base(3) n(1) base(2) n(3) _ assms(3)]
  have ok: "store_ok X (n + length blocks * max_probe_steps cfg) st'" by (rule put(1)) (rule assms(2))
  have look: "flat_lookup X cfg st' c = (case flat_lookup X cfg st c of Some d \<Rightarrow> Some d | None \<Rightarrow> blocks_map blocks c)"
    by (rule put(3)) (rule assms(2))
  show ?thesis
    unfolding flat_get_spec [OF ok] flat_has_spec [OF ok] look flat_get_spec [OF n(2)]
    by (auto split: option.splits)
qed

text \<open>
  Deletion in the deltaflat backend: \<open>delete\<close> answers \<open>BlockNotFound\<close> exactly for a CID
  that is not stored; afterwards the CID is gone and every other CID reads as before.
\<close>

lemma flat_delete_get:
  assumes "flat_inv X cfg dsize k st" "flat_delete X cfg c st = (r, st')"
  shows "r = (if flat_has X cfg c st then Ok () else Err (BlockNotFound (cid_to_string X c)))
    \<and> flat_get X cfg c st' = Err (BlockNotFound (cid_to_string X c))
    \<and> (\<forall>c'. c' \<noteq> c \<longrightarrow> flat_get X cfg c' st' = flat_get X cfg c' st)"
proof -
  obtain n where n: "store_ok X n st" using assms(1) unfolding flat_inv_def by blast
  have base: "cid_bytes_law X" "sized X dsize st" using assms(1) by (auto simp: flat_inv_def)
  note del = flat_delete_lookup [OF base(1) n base(2) assms(2)]
  show ?thesis
    unfolding flat_get_spec [OF del(1)] del(3,4) flat_get_spec [OF n] flat_has_spec [OF n] by auto
qed

text \<open>One block stored in an empty store.\<close>

definition demo_block :: "(nat \<times> nat \<times> bytes) block" where
  "demo_block = \<lparr>block_cid = (1, 2, []), block_data = [7, 8]\<rparr>"

lemma read_bucket_zero: "read_bucket (replicate (k * BUCKET_BYTES) 0) b = replicate BUCKET_BYTES 0"
  by (auto simp: read_bucket_def read_exact_at_def subvec_def)

lemma zero_lane_inv:
  assumes "ctl_inv c"
  shows "lane_inv X \<lparr>fl_control = c, fl_index = replicate (k * BUCKET_BYTES) 0, fl_data = []\<rparr>"
proof -
  have "page_entries (replicate BUCKET_BYTES 0) = {}" by (auto simp: page_entries_def view_zero)
  then show ?thesis
    using assms by (auto simp: lane_inv_def index_inv_def index_entries_def read_bucket_zero aligned_def page_ok_zero page_uniq_def view_zero)
qed

lemma zero_lane_entries: "index_entries (replicate (k * BUCKET_BYTES) 0) = {}"
  by (auto simp: index_entries_def read_bucket_zero page_entries_def view_zero)

lemma demo_put: "\<exists>st'. flat_put_many demo_crates demo_flat [demo_block] [] = (Ok (), st')"
proof -
  let ?c = "\<lparr>ctl_level = 1, ctl_split_ptr = 0, ctl_item_count = 0, ctl_next_file_id = 0, ctl_next_offset = 0\<rparr>"
  let ?l = "\<lparr>fl_control = ?c, fl_index = replicate (2 * BUCKET_BYTES) 0, fl_data = []\<rparr>"
  let ?cid = "cid_to_bytes demo_crates (1, 2, [])"
  have ctl: "ctl_inv ?c" by (simp add: ctl_inv_def control_ok_def buckets_def)
  have inv: "lane_inv demo_crates ?l" by (rule zero_lane_inv [OF ctl])
  have cid: "?cid \<noteq> []" "length ?cid \<le> MAX_CID_BYTES"
    by (simp_all add: demo_crates_def demo_to_bytes_def demo_varint.simps)
  obtain ev od fp h where sh: "split_hash demo_crates ?cid = (ev, od, fp, h)" by (cases "split_hash demo_crates ?cid")
  have "find_free_slot (replicate BUCKET_BYTES 0) \<noteq> None"
    using find_free_slot_None [OF page_ok_zero, of 0] view_zero [of 0] by (auto simp: occupied_def)
  then obtain s where s: "find_free_slot (read_bucket (fl_index ?l) (home ev (fl_control ?l))) = Some s"
    using read_bucket_zero [of 2] by auto
  have no: "?cid \<notin> e_cid ` index_entries (fl_index ?l)" using zero_lane_entries [of 2] by simp
  have app: "\<exists>l1. append_data demo_flat [7, 8] ?l = (Ok (0, 0, 2), l1)"
    by (simp add: append_data_def append_roll.simps demo_flat_def checked_add_def)
  have bk: "buckets (fl_control ?l) < 2 ^ 31" by (simp add: buckets_def)
  have "max_probe_steps demo_flat = Suc 3" by (simp add: demo_flat_def)
  then obtain l' where l': "insert_block_in_class demo_crates demo_flat demo_block ?cid ?l = (Ok (), l')"
    using insert_store_branch [OF inv bk sh no cid s, of demo_flat "[7, 8]" 3] app cid
    by (auto simp: insert_block_in_class_def demo_block_def)
  have rc: "read_control_raw [] = Ok None" by (simp add: read_control_raw_def read_exact_at_def)
  have idx: "ensure_index_buckets [] 2 = replicate (2 * BUCKET_BYTES) 0"
    by (simp add: ensure_index_buckets_def set_len_def Let_def)
  have load: "load_or_init_control demo_flat \<lparr>lf_control = [], lf_index = [], lf_data = []\<rparr>
    = (Ok ?c, \<lparr>lf_control = write_control_raw [] ?c, lf_index = replicate (2 * BUCKET_BYTES) 0, lf_data = []\<rparr>)"
    using rc idx by (simp add: load_or_init_control_def demo_flat_def bucket_count_def checked_add_def checked_shl1_def Let_def)
  show ?thesis
    using load l' by (simp add: flat_put_many_def demo_block_def put_lane_def open_class_files_def om_get_or_def demo_flat_def Let_def)
qed

definition demo_dsize :: "nat \<times> nat \<times> bytes \<Rightarrow> nat" where
  "demo_dsize c = 2"

lemma demo_flat_inv: "k \<le> 4 \<Longrightarrow> flat_inv demo_crates demo_flat demo_dsize k []"
  by (auto simp: flat_inv_def store_ok_def sized_def store_data_def demo_flat_def intro!: exI [of _ "2 ^ 24"])

end
