(* ===== verification/Redb_Store.thy ===== *)
theory Redb_Store
  imports Block_Store_Spec
begin

text \<open>
  The redb backend of \<open>storage.rs\<close> (\<open>RedbStore\<close>). The embedded database \<open>redb\<close> is not part of
  the repository: it is a parameter, a record of the calls the code makes on a table, each of
  which may fail (\<open>None\<close>). A write transaction that is not committed changes nothing, so the
  operations return the old table with every error. \<open>rd_view\<close> is the documented meaning of a
  table, a map from keys to values; \<open>redb_law\<close> says that the calls respect it.
\<close>

record 't redb =
  rd_txn :: "'t \<Rightarrow> bool"
  rd_commit :: "'t \<Rightarrow> bool"
  rd_get :: "'t \<Rightarrow> string \<Rightarrow> bytes option option"
  rd_insert :: "string \<Rightarrow> bytes \<Rightarrow> 't \<Rightarrow> 't option"
  rd_remove :: "string \<Rightarrow> 't \<Rightarrow> (bytes option \<times> 't) option"
  rd_iter :: "'t \<Rightarrow> (string \<times> bytes) list option"
  rd_view :: "'t \<Rightarrow> string \<Rightarrow> bytes option"

definition redb_law :: "'t redb \<Rightarrow> bool" where
  "redb_law R \<longleftrightarrow>
     (\<forall>t k r. rd_get R t k = Some r \<longrightarrow> r = rd_view R t k)
   \<and> (\<forall>k v t t'. rd_insert R k v t = Some t' \<longrightarrow> rd_view R t' = (rd_view R t)(k \<mapsto> v))
   \<and> (\<forall>k t r t'. rd_remove R k t = Some (r, t') \<longrightarrow> r = rd_view R t k \<and> rd_view R t' = (rd_view R t)(k := None))
   \<and> (\<forall>t kvs. rd_iter R t = Some kvs \<longrightarrow> distinct (map fst kvs) \<and> map_of kvs = rd_view R t)"

lemma redb_lawD:
  assumes "redb_law R"
  shows "rd_get R t k = Some r \<Longrightarrow> r = rd_view R t k"
    "rd_insert R k v t = Some t' \<Longrightarrow> rd_view R t' = (rd_view R t)(k \<mapsto> v)"
    "rd_remove R k t = Some (r, t') \<Longrightarrow> r = rd_view R t k \<and> rd_view R t' = (rd_view R t)(k := None)"
    "rd_iter R t = Some kvs \<Longrightarrow> distinct (map fst kvs) \<and> map_of kvs = rd_view R t"
  using assms unfolding redb_law_def by blast+

definition db_err :: storage_error where
  "db_err = DatabaseError ''redb''"

record store_stats =
  block_count :: nat
  total_size :: nat

section \<open>The operations\<close>

fun redb_put_loop :: "'t redb \<Rightarrow> (string \<times> bytes) list \<Rightarrow> 't \<Rightarrow> ('t, storage_error) result" where
  "redb_put_loop R [] t = Ok t"
| "redb_put_loop R ((key, value) # kvs) t =
     (case rd_get R t key of
        None \<Rightarrow> Err db_err
      | Some (Some _) \<Rightarrow> redb_put_loop R kvs t
      | Some None \<Rightarrow> rbind (ok_or (rd_insert R key value t) db_err) (redb_put_loop R kvs))"

definition redb_put_many ::
  "('c, 'm) crates \<Rightarrow> 't redb \<Rightarrow> bool \<Rightarrow> 'c block list \<Rightarrow> 't \<Rightarrow> (unit, storage_error) result \<times> 't" where
  "redb_put_many X R verify blocks t =
     (if blocks = [] then (Ok (), t)
      else case verify_on_write X verify blocks of
        Err e \<Rightarrow> (Err e, t)
      | Panic \<Rightarrow> (Panic, t)
      | Ok _ \<Rightarrow>
          if \<not> rd_txn R t then (Err db_err, t)
          else (case redb_put_loop R (map (\<lambda>b. (cid_to_string X (block_cid b), block_data b)) blocks) t of
                  Err e \<Rightarrow> (Err e, t)
                | Panic \<Rightarrow> (Panic, t)
                | Ok t' \<Rightarrow> if rd_commit R t' then (Ok (), t') else (Err db_err, t)))"

definition redb_get :: "('c, 'm) crates \<Rightarrow> 't redb \<Rightarrow> 'c \<Rightarrow> 't \<Rightarrow> ('c block, storage_error) result" where
  "redb_get X R cid t =
     (if \<not> rd_txn R t then Err db_err
      else case rd_get R t (cid_to_string X cid) of
        None \<Rightarrow> Err db_err
      | Some None \<Rightarrow> Err (BlockNotFound (cid_to_string X cid))
      | Some (Some data) \<Rightarrow> Ok \<lparr>block_cid = cid, block_data = data\<rparr>)"

definition redb_has :: "('c, 'm) crates \<Rightarrow> 't redb \<Rightarrow> 'c \<Rightarrow> 't \<Rightarrow> bool" where
  "redb_has X R cid t =
     (rd_txn R t \<and> (case rd_get R t (cid_to_string X cid) of Some (Some _) \<Rightarrow> True | _ \<Rightarrow> False))"

definition redb_delete :: "('c, 'm) crates \<Rightarrow> 't redb \<Rightarrow> 'c \<Rightarrow> 't \<Rightarrow> (unit, storage_error) result \<times> 't" where
  "redb_delete X R cid t =
     (if \<not> rd_txn R t then (Err db_err, t)
      else case rd_remove R (cid_to_string X cid) t of
        None \<Rightarrow> (Err db_err, t)
      | Some (None, _) \<Rightarrow> (Err (BlockNotFound (cid_to_string X cid)), t)
      | Some (Some _, t') \<Rightarrow> if rd_commit R t' then (Ok (), t') else (Err db_err, t))"

definition redb_list_cids :: "('c, 'm) crates \<Rightarrow> 't redb \<Rightarrow> 't \<Rightarrow> 'c list" where
  "redb_list_cids X R t =
     (if \<not> rd_txn R t then []
      else case rd_iter R t of
        None \<Rightarrow> []
      | Some kvs \<Rightarrow> List.map_filter (\<lambda>(key, _). cid_parse X key) kvs)"

definition redb_stats :: "'t redb \<Rightarrow> 't \<Rightarrow> store_stats" where
  "redb_stats R t =
     (if \<not> rd_txn R t then \<lparr>block_count = 0, total_size = 0\<rparr>
      else case rd_iter R t of
        None \<Rightarrow> \<lparr>block_count = 0, total_size = 0\<rparr>
      | Some kvs \<Rightarrow> \<lparr>block_count = length kvs, total_size = sum_list (map (\<lambda>(_, v). length v) kvs)\<rparr>)"

fun redb_remove_all :: "'t redb \<Rightarrow> string list \<Rightarrow> 't \<Rightarrow> 't option" where
  "redb_remove_all R [] t = Some t"
| "redb_remove_all R (key # keys) t = Option.bind (rd_remove R key t) (\<lambda>(_, t'). redb_remove_all R keys t')"

definition redb_clear :: "'t redb \<Rightarrow> 't \<Rightarrow> 't" where
  "redb_clear R t =
     (if \<not> rd_txn R t then t
      else case rd_iter R t of
        None \<Rightarrow> t
      | Some kvs \<Rightarrow>
          (case redb_remove_all R (map fst kvs) t of
             None \<Rightarrow> t
           | Some t' \<Rightarrow> if rd_commit R t' then t' else t))"

section \<open>The contract\<close>

text \<open>A batch of key-value pairs added to a map: the first value of a key wins, an old one first.\<close>

definition add_batch :: "(string \<times> bytes) list \<Rightarrow> (string \<rightharpoonup> bytes) \<Rightarrow> (string \<rightharpoonup> bytes)" where
  "add_batch kvs m = map_of kvs ++ m"

lemma add_batch_simps:
  "add_batch [] m = m"
  "add_batch ((k, v) # kvs) m = add_batch kvs (if m k = None then m(k \<mapsto> v) else m)"
  by (auto simp: add_batch_def map_add_def fun_eq_iff split: option.splits)

lemma redb_put_loop_view:
  "redb_law R \<Longrightarrow> redb_put_loop R kvs t = Ok t' \<Longrightarrow> rd_view R t' = add_batch kvs (rd_view R t)"
proof (induction R kvs t rule: redb_put_loop.induct)
  case (2 R key w kvs t)
  obtain r where r: "rd_get R t key = Some r" using 2(4) by (auto split: option.splits)
  have v: "r = rd_view R t key" by (rule redb_lawD(1) [OF 2(3) r])
  show ?case
  proof (cases r)
    case None
    then obtain t1 where t1: "rd_insert R key w t = Some t1" "redb_put_loop R kvs t1 = Ok t'"
      using 2(4) r by (auto simp: result_simps)
    have "rd_view R t' = add_batch kvs (rd_view R t1)" by (rule 2(1) [OF r None _ 2(3) t1(2)]) (simp add: t1(1))
    then show ?thesis using redb_lawD(2) [OF 2(3) t1(1)] v None by (simp add: add_batch_simps)
  next
    case (Some d)
    then show ?thesis using 2(2) [OF r Some 2(3)] 2(4) r v by (simp add: add_batch_simps)
  qed
qed (simp add: add_batch_simps)

lemma redb_remove_all_view:
  "redb_law R \<Longrightarrow> redb_remove_all R keys t = Some t' \<Longrightarrow> rd_view R t' k = (if k \<in> set keys then None else rd_view R t k)"
  by (induction R keys t rule: redb_remove_all.induct)
    (auto simp: bind_eq_Some_conv dest!: redb_lawD(3))

text \<open>Every key is the text of a CID.\<close>

definition keys_ok :: "('c, 'm) crates \<Rightarrow> (string \<rightharpoonup> bytes) \<Rightarrow> bool" where
  "keys_ok X m \<longleftrightarrow> dom m \<subseteq> range (cid_to_string X)"

lemma keys_ok_batch: "keys_ok X m \<Longrightarrow> keys_ok X (add_batch (map (\<lambda>b. (cid_to_string X (block_cid b), f b)) blocks) m)"
  by (auto simp: keys_ok_def add_batch_def dom_map_of_conv_image_fst)

lemma redb_put_many_Ok:
  assumes "redb_law R" "redb_put_many X R verify blocks t = (Ok (), t')"
  shows "rd_view R t' = add_batch (map (\<lambda>b. (cid_to_string X (block_cid b), block_data b)) blocks) (rd_view R t)"
  using assms(2) redb_put_loop_view [OF assms(1)]
  by (auto simp: redb_put_many_def add_batch_simps split: if_splits result.splits)

lemma redb_delete_Ok:
  assumes "redb_law R" "redb_delete X R c t = (Ok (), t')"
  shows "rd_view R t (cid_to_string X c) \<noteq> None" "rd_view R t' = (rd_view R t)(cid_to_string X c := None)"
  using assms(2) redb_lawD(3) [OF assms(1)] unfolding redb_delete_def
  by (auto split: if_splits option.splits prod.splits)

lemma redb_get_Ok:
  assumes "redb_law R" "redb_get X R c t = Ok b"
  shows "block_cid b = c \<and> rd_view R t (cid_to_string X c) = Some (block_data b)"
  using assms(2) redb_lawD(1) [OF assms(1)] unfolding redb_get_def
  by (auto split: if_splits option.splits)


definition redb_inv :: "('c, 'm) crates \<Rightarrow> 't redb \<Rightarrow> nat \<Rightarrow> 't \<Rightarrow> bool" where
  "redb_inv X R k t \<longleftrightarrow> redb_law R \<and> cid_string_law X \<and> keys_ok X (rd_view R t)"

definition redb_look :: "('c, 'm) crates \<Rightarrow> 't redb \<Rightarrow> 't \<Rightarrow> 'c \<Rightarrow> bytes option" where
  "redb_look X R t c = rd_view R t (cid_to_string X c)"

definition redb_put1 :: "('c, 'm) crates \<Rightarrow> 't redb \<Rightarrow> bool \<Rightarrow> 'c \<Rightarrow> bytes \<Rightarrow> 't \<Rightarrow> 't option" where
  "redb_put1 X R verify c d t = ok_state (redb_put_many X R verify [\<lparr>block_cid = c, block_data = d\<rparr>] t)"

interpretation redb: block_store "redb_inv X R" "\<lambda>_ _. True" "redb_look X R" "\<lambda>t c. ok_data (redb_get X R c t)"
  "redb_put1 X R verify" "\<lambda>c t. ok_state (redb_delete X R c t)" for X R verify
proof unfold_locales
  fix k t c d t' c'
  assume i: "redb_inv X R (Suc k) t" and p: "redb_put1 X R verify c d t = Some t'"
  have law: "redb_law R" and str: "cid_string_law X" and ks: "keys_ok X (rd_view R t)" using i by (auto simp: redb_inv_def)
  have v: "rd_view R t' = add_batch (map (\<lambda>b. (cid_to_string X (block_cid b), block_data b)) [\<lparr>block_cid = c, block_data = d\<rparr>]) (rd_view R t)"
    by (rule redb_put_many_Ok [OF law]) (use p in \<open>simp add: redb_put1_def\<close>)
  have "keys_ok X (rd_view R t')" unfolding v by (rule keys_ok_batch [OF ks])
  then show "redb_inv X R k t'" using law str by (simp add: redb_inv_def)
  show "redb_look X R t' c' = (if c' = c \<and> redb_look X R t c = None then Some d else redb_look X R t c')"
    using v cid_to_string_inject [OF str] by (auto simp: redb_look_def add_batch_simps)
next
  fix k t c t' c'
  assume i: "redb_inv X R k t" and p: "ok_state (redb_delete X R c t) = Some t'"
  have law: "redb_law R" and str: "cid_string_law X" and ks: "keys_ok X (rd_view R t)" using i by (auto simp: redb_inv_def)
  note d = redb_delete_Ok [OF law, of X c t t']
  have v: "rd_view R t (cid_to_string X c) \<noteq> None" "rd_view R t' = (rd_view R t)(cid_to_string X c := None)"
    using d p by simp_all
  show "redb_inv X R k t'" using law str ks v(2) by (auto simp: redb_inv_def keys_ok_def)
  show "redb_look X R t' c' = (if c' = c then None else redb_look X R t c')"
    using v(2) cid_to_string_inject [OF str] by (auto simp: redb_look_def)
  show "redb_look X R t c \<noteq> None" using v(1) by (simp add: redb_look_def)
next
  fix k t c d
  assume "redb_inv X R k t" "ok_data (redb_get X R c t) = Some d"
  then show "redb_look X R t c = Some d"
    using redb_get_Ok [of R X c t] by (auto simp: redb_inv_def redb_look_def ok_data_def split: result.splits)
qed (simp_all add: redb_inv_def)

text \<open>
  A redb batch is atomic: \<open>put_many\<close> returns \<open>Ok\<close> and every CID reads as before or else
  as the first block of the batch with it, or it fails and the table is unchanged, whatever call
  of the database failed and however many blocks were already inserted.
\<close>

lemma redb_put_atomic:
  assumes "redb_law R" "cid_string_law X" "redb_put_many X R verify blocks t = (r, t')"
  shows "(r \<noteq> Ok () \<longrightarrow> t' = t) \<and> (r = Ok () \<longrightarrow> (\<forall>c. redb_look X R t' c =
    (case redb_look X R t c of Some d \<Rightarrow> Some d | None \<Rightarrow> map_of (map (\<lambda>b. (block_cid b, block_data b)) blocks) c)))"
proof (cases "r = Ok ()")
  case True
  have m: "map_of (map (\<lambda>b. (cid_to_string X (block_cid b), block_data b)) blocks) (cid_to_string X c)
    = map_of (map (\<lambda>b. (block_cid b, block_data b)) blocks) c" for c
    by (induction blocks) (auto simp: cid_to_string_inject [OF assms(2)])
  have "rd_view R t' = add_batch (map (\<lambda>b. (cid_to_string X (block_cid b), block_data b)) blocks) (rd_view R t)"
    by (rule redb_put_many_Ok [OF assms(1)]) (use assms(3) True in simp)
  then show ?thesis using True m by (simp add: redb_look_def add_batch_def map_add_def split: option.splits)
next
  case False
  then show ?thesis using assms(3) by (auto simp: redb_put_many_def split: if_splits result.splits)
qed

text \<open>
  Listing, counting and clearing agree with the map: when the database does not fail, the
  listing has each stored CID once, \<open>block_count\<close> is their number and \<open>total_size\<close> the sum
  of the lengths of their data, and after \<open>clear\<close> nothing is stored.
\<close>

lemma redb_list_stats:
  assumes "redb_inv X R k t" "rd_txn R t" "rd_iter R t \<noteq> None"
  shows "set (redb_list_cids X R t) = {c. redb_look X R t c \<noteq> None} \<and> distinct (redb_list_cids X R t)
    \<and> block_count (redb_stats R t) = card {c. redb_look X R t c \<noteq> None}
    \<and> total_size (redb_stats R t) = (\<Sum>c \<in> {c. redb_look X R t c \<noteq> None}. length (the (redb_look X R t c)))
    \<and> (\<forall>t'. redb_remove_all R (map fst (the (rd_iter R t))) t = Some t' \<and> rd_commit R t' \<longrightarrow>
          (\<forall>c. redb_look X R (redb_clear R t) c = None))"
proof -
  obtain kvs where it: "rd_iter R t = Some kvs" using assms(3) by blast
  have law: "redb_law R" and str: "cid_string_law X" and ks: "keys_ok X (rd_view R t)" using assms(1) by (auto simp: redb_inv_def)
  have kv: "distinct (map fst kvs)" "map_of kvs = rd_view R t" using redb_lawD(4) [OF law it] by auto
  have sub: "fst ` set kvs \<subseteq> range (cid_to_string X)" using ks kv(2) by (metis dom_map_of_conv_image_fst keys_ok_def)
  define cs where "cs = List.map_filter (\<lambda>(key, _). cid_parse X key) kvs"
  have cs: "kvs = map (\<lambda>c. (cid_to_string X c, the (redb_look X R t c))) cs"
  proof -
    have "kvs' = map (\<lambda>c. (cid_to_string X c, the (redb_look X R t c))) (List.map_filter (\<lambda>(key, _). cid_parse X key) kvs')"
      if "set kvs' \<subseteq> set kvs" for kvs'
      using that
    proof (induction kvs')
      case (Cons kv kvs')
      obtain k v where kve: "kv = (k, v)" by fastforce
      have m: "(k, v) \<in> set kvs" using Cons(2) kve by simp
      then obtain c where c: "k = cid_to_string X c" using sub by force
      have "map_of kvs k = Some v" using kv(1) m by simp
      then have "redb_look X R t c = Some v" using kv(2) c by (simp add: redb_look_def)
      moreover have "cid_parse X k = Some c" using str c by (simp add: cid_string_law_def)
      ultimately show ?case using Cons kve c by (simp add: map_filter_simps)
    qed (simp add: map_filter_simps)
    then show ?thesis unfolding cs_def by blast
  qed
  have d: "distinct cs" using kv(1) unfolding cs by (simp add: distinct_map comp_def)
  have sc: "set cs = {c. redb_look X R t c \<noteq> None}"
  proof -
    have "c \<in> set cs \<longleftrightarrow> cid_to_string X c \<in> fst ` set kvs" for c
      by (subst cs) (auto simp: image_iff cid_to_string_inject [OF str])
    then show ?thesis using kv(2) by (auto simp: redb_look_def dom_map_of_conv_image_fst [symmetric] dom_def)
  qed
  have st: "redb_stats R t = \<lparr>block_count = length cs, total_size = sum_list (map (\<lambda>c. length (the (redb_look X R t c))) cs)\<rparr>"
    using assms(2) it by (simp add: redb_stats_def) (subst cs, simp add: comp_def)+
  have clear: "redb_look X R (redb_clear R t) c = None" if rm: "redb_remove_all R (map fst kvs) t = Some t'" "rd_commit R t'" for t' c
  proof -
    have "redb_clear R t = t'" using assms(2) it rm by (simp add: redb_clear_def)
    moreover have "redb_look X R t' c = None"
      using redb_remove_all_view [OF law rm(1), of "cid_to_string X c"] kv(2) map_of_eq_None_iff [of kvs "cid_to_string X c"]
      by (simp add: redb_look_def split: if_splits)
    ultimately show ?thesis by simp
  qed
  have len: "length cs = card {c. redb_look X R t c \<noteq> None}" using distinct_card [OF d] sc by simp
  have sum: "sum_list (map (\<lambda>c. length (the (redb_look X R t c))) cs)
    = (\<Sum>c \<in> {c. redb_look X R t c \<noteq> None}. length (the (redb_look X R t c)))"
    unfolding sum_list_distinct_conv_sum_set [OF d] sc ..
  have list: "redb_list_cids X R t = cs" using it assms(2) by (simp add: redb_list_cids_def cs_def)
  show ?thesis unfolding st list using sc d clear len sum by (simp add: it)
qed

section \<open>A concrete database\<close>

text \<open>A table as an association list, and one on which every commit fails.\<close>

definition demo_redb :: "bool \<Rightarrow> (string \<times> bytes) list redb" where
  "demo_redb ok =
     \<lparr>rd_txn = (\<lambda>_. True), rd_commit = (\<lambda>_. ok),
      rd_get = (\<lambda>t k. Some (map_of t k)),
      rd_insert = (\<lambda>k v t. Some ((k, v) # filter (\<lambda>(k', _). k' \<noteq> k) t)),
      rd_remove = (\<lambda>k t. Some (map_of t k, filter (\<lambda>(k', _). k' \<noteq> k) t)),
      rd_iter = (\<lambda>t. if distinct (map fst t) then Some t else None),
      rd_view = map_of\<rparr>"

lemma map_of_filter_neq: "map_of (filter (\<lambda>(k', _). k' \<noteq> k) t) = (map_of t)(k := None)"
  by (induction t) (auto simp: fun_eq_iff)

lemma demo_redb_law [simp]: "redb_law (demo_redb ok)"
  by (auto simp: redb_law_def demo_redb_def map_of_filter_neq split: if_splits)

definition demo_blocks :: "(nat \<times> nat \<times> bytes) block list" where
  "demo_blocks = [\<lparr>block_cid = (1, 2, []), block_data = [7, 8]\<rparr>, \<lparr>block_cid = (1, 2, []), block_data = [9]\<rparr>]"

end
