(* ===== verification/Delta_Store.thy ===== *)
theory Delta_Store
  imports Redb_Store
begin

text \<open>
  The deltastore backend of \<open>storage.rs\<close> (\<open>DeltaStore\<close>): data is appended to block files by
  size class, a redb index maps CIDs to encoded locations, a second table keeps the append
  position of each class. Both tables change in one transaction; the files do not belong to
  it. Block files are a map from class and file number to contents; their paths are injective
  in these two numbers.
\<close>

record delta_location =
  loc_class_id :: u8
  loc_file_id :: nat
  loc_offset :: nat
  loc_len :: nat

record class_state =
  cs_file_id :: nat
  cs_next_offset :: nat

record 't delta_store =
  ds_index :: 't
  ds_class_state :: 't
  ds_files :: "(nat \<times> nat, bytes) omap"

record delta_config =
  dc_max_file_bytes :: nat
  dc_skip_exists_check :: bool
  dc_verify :: bool

section \<open>The encodings\<close>

definition encode_location :: "delta_location \<Rightarrow> bytes" where
  "encode_location loc =
     [1] @ [loc_class_id loc] @ le_bytes 4 (loc_file_id loc) @ le_bytes 8 (loc_offset loc) @ le_bytes 4 (loc_len loc)"

definition decode_location :: "bytes \<Rightarrow> (delta_location, storage_error) result" where
  "decode_location bs =
     (if length bs \<noteq> 18 then Err (DatabaseError ''delta location length mismatch'')
      else if bs ! 0 \<noteq> 1 then Err (DatabaseError ''unsupported delta location version'')
      else Ok \<lparr>loc_class_id = bs ! 1, loc_file_id = le_nat (subvec 2 6 bs), loc_offset = le_nat (subvec 6 14 bs),
               loc_len = le_nat (subvec 14 18 bs)\<rparr>)"

definition encode_class_state :: "class_state \<Rightarrow> bytes" where
  "encode_class_state s = le_bytes 4 (cs_file_id s) @ le_bytes 8 (cs_next_offset s)"

definition decode_class_state :: "bytes \<Rightarrow> (class_state, storage_error) result" where
  "decode_class_state bs =
     (if length bs \<noteq> 12 then Err (DatabaseError ''delta class state length mismatch'')
      else Ok \<lparr>cs_file_id = le_nat (subvec 0 4 bs), cs_next_offset = le_nat (subvec 4 12 bs)\<rparr>)"

definition two_digits :: "nat \<Rightarrow> string" where
  "two_digits n = [''0123456789'' ! (n div 10 mod 10), ''0123456789'' ! (n mod 10)]"

text \<open>\<open>format!("c{:02}", class_id)\<close>; a class id is below 11.\<close>

definition class_state_key :: "nat \<Rightarrow> string" where
  "class_state_key class_id = ''c'' @ two_digits class_id"

section \<open>Writing\<close>

text \<open>The loop that moves to the next file while the data does not fit.\<close>

function delta_roll :: "nat \<Rightarrow> nat \<Rightarrow> class_state \<Rightarrow> (class_state, storage_error) result" where
  "delta_roll max_bytes len s =
     rbind (padd 64 (cs_next_offset s) len) (\<lambda>e.
       if max_bytes < e
       then (case checked_add 32 (cs_file_id s) 1 of
           None \<Rightarrow> Err (DatabaseError ''delta file_id overflow'')
         | Some f \<Rightarrow> delta_roll max_bytes len \<lparr>cs_file_id = f, cs_next_offset = 0\<rparr>)
       else Ok s)"
  by pat_completeness auto
termination
  by (relation "measure (\<lambda>(max_bytes, len, s). 2 ^ 32 - cs_file_id s)") auto

declare delta_roll.simps [simp del]

text \<open>
  The state of a batch: the index inside the transaction, the class states loaded so far, the
  files opened so far, and the files.
\<close>

record 't delta_batch =
  db_index :: 't
  db_states :: "(nat, class_state) omap"
  db_open :: "(nat \<times> nat) list"
  db_files :: "(nat \<times> nat, bytes) omap"

text \<open>Opening a file creates it when it is not there and moves the append position to its end.\<close>

definition open_block_file :: "nat \<Rightarrow> class_state \<Rightarrow> 't delta_batch \<Rightarrow> class_state \<times> 't delta_batch" where
  "open_block_file class_id s b =
     (let key = (class_id, cs_file_id s) in
      if key \<in> set (db_open b) then (s, b)
      else let file = om_get_or [] (db_files b) key
           in (s\<lparr>cs_next_offset := length file\<rparr>, b\<lparr>db_open := key # db_open b, db_files := om_insert key file (db_files b)\<rparr>))"

text \<open>One block that is not yet in the index; the files are changed even when the call fails.\<close>

definition delta_append ::
  "delta_config \<Rightarrow> nat \<Rightarrow> bytes \<Rightarrow> class_state \<Rightarrow> 't delta_batch \<Rightarrow> (delta_location, storage_error) result \<times> 't delta_batch" where
  "delta_append cfg class_id data s b =
     (case delta_roll (dc_max_file_bytes cfg) (length data) s of
        Err e \<Rightarrow> (Err e, b)
      | Panic \<Rightarrow> (Panic, b)
      | Ok s1 \<Rightarrow>
          (let (s2, b2) = open_block_file class_id s1 b;
               key = (class_id, cs_file_id s2);
               file = om_get_or [] (db_files b2) key;
               b3 = b2\<lparr>db_files := om_insert key (write_all_at file (cs_next_offset s2) data) (db_files b2)\<rparr>
           in case checked_add 64 (cs_next_offset s2) (length data) of
                None \<Rightarrow> (Err (DatabaseError ''delta offset overflow''), b3)
              | Some next_offset \<Rightarrow>
                  (let b4 = b3\<lparr>db_states := om_insert class_id (s2\<lparr>cs_next_offset := next_offset\<rparr>) (db_states b3)\<rparr> in
                   if 2 ^ 32 \<le> length data then (Err (DatabaseError ''block length exceeds u32''), b4)
                   else (Ok \<lparr>loc_class_id = word_of_nat class_id, loc_file_id = cs_file_id s2, loc_offset = cs_next_offset s2,
                             loc_len = length data\<rparr>, b4))))"

definition load_class_state ::
  "'t redb \<Rightarrow> 't \<Rightarrow> nat \<Rightarrow> 't delta_batch \<Rightarrow> (class_state, storage_error) result" where
  "load_class_state R table class_id b =
     (case om_get (db_states b) class_id of
        Some s \<Rightarrow> Ok s
      | None \<Rightarrow>
          (case rd_get R table (class_state_key class_id) of
             None \<Rightarrow> Err db_err
           | Some (Some v) \<Rightarrow> decode_class_state v
           | Some None \<Rightarrow> Ok \<lparr>cs_file_id = 0, cs_next_offset = 0\<rparr>))"

definition delta_put_block ::
  "('c, 'm) crates \<Rightarrow> 't redb \<Rightarrow> delta_config \<Rightarrow> 't \<Rightarrow> 'c block \<Rightarrow> 't delta_batch \<Rightarrow> (unit, storage_error) result \<times> 't delta_batch" where
  "delta_put_block X R cfg table blk b =
     (let cid_key = cid_to_string X (block_cid blk) in
      case (if dc_skip_exists_check cfg then Some None else rd_get R (db_index b) cid_key) of
        None \<Rightarrow> (Err db_err, b)
      | Some (Some _) \<Rightarrow> (Ok (), b)
      | Some None \<Rightarrow>
          (let class_id = fst (class_for_len (length (block_data blk))) in
           case load_class_state R table class_id b of
             Err e \<Rightarrow> (Err e, b)
           | Panic \<Rightarrow> (Panic, b)
           | Ok s \<Rightarrow>
               (case delta_append cfg class_id (block_data blk) s b of
                  (Err e, b1) \<Rightarrow> (Err e, b1)
                | (Panic, b1) \<Rightarrow> (Panic, b1)
                | (Ok loc, b1) \<Rightarrow>
                    (case rd_insert R cid_key (encode_location loc) (db_index b1) of
                       None \<Rightarrow> (Err db_err, b1)
                     | Some index' \<Rightarrow> (Ok (), b1\<lparr>db_index := index'\<rparr>)))))"

fun delta_put_loop ::
  "('c, 'm) crates \<Rightarrow> 't redb \<Rightarrow> delta_config \<Rightarrow> 't \<Rightarrow> 'c block list \<Rightarrow> 't delta_batch \<Rightarrow> (unit, storage_error) result \<times> 't delta_batch" where
  "delta_put_loop X R cfg table [] b = (Ok (), b)"
| "delta_put_loop X R cfg table (blk # blks) b =
     (case delta_put_block X R cfg table blk b of
        (Ok _, b1) \<Rightarrow> delta_put_loop X R cfg table blks b1
      | (Err e, b1) \<Rightarrow> (Err e, b1)
      | (Panic, b1) \<Rightarrow> (Panic, b1))"

fun save_class_states :: "'t redb \<Rightarrow> (nat \<times> class_state) list \<Rightarrow> 't \<Rightarrow> 't option" where
  "save_class_states R [] t = Some t"
| "save_class_states R ((class_id, s) # ss) t =
     Option.bind (rd_insert R (class_state_key class_id) (encode_class_state s) t) (save_class_states R ss)"

definition delta_put_many ::
  "('c, 'm) crates \<Rightarrow> 't redb \<Rightarrow> delta_config \<Rightarrow> 'c block list \<Rightarrow> 't delta_store \<Rightarrow> (unit, storage_error) result \<times> 't delta_store" where
  "delta_put_many X R cfg blocks ds =
     (if blocks = [] then (Ok (), ds)
      else case verify_on_write X (dc_verify cfg) blocks of
        Err e \<Rightarrow> (Err e, ds)
      | Panic \<Rightarrow> (Panic, ds)
      | Ok _ \<Rightarrow>
          if \<not> (rd_txn R (ds_index ds) \<and> rd_txn R (ds_class_state ds)) then (Err db_err, ds)
          else (case delta_put_loop X R cfg (ds_class_state ds) blocks
                  \<lparr>db_index = ds_index ds, db_states = [], db_open = [], db_files = ds_files ds\<rparr> of
                  (Err e, b) \<Rightarrow> (Err e, ds\<lparr>ds_files := db_files b\<rparr>)
                | (Panic, b) \<Rightarrow> (Panic, ds\<lparr>ds_files := db_files b\<rparr>)
                | (Ok _, b) \<Rightarrow>
                    (case save_class_states R (db_states b) (ds_class_state ds) of
                       None \<Rightarrow> (Err db_err, ds\<lparr>ds_files := db_files b\<rparr>)
                     | Some cs \<Rightarrow>
                         if rd_commit R (db_index b) \<and> rd_commit R cs
                         then (Ok (), \<lparr>ds_index = db_index b, ds_class_state = cs, ds_files = db_files b\<rparr>)
                         else (Err db_err, ds\<lparr>ds_files := db_files b\<rparr>))))"

section \<open>Reading and deleting\<close>

definition delta_get :: "('c, 'm) crates \<Rightarrow> 't redb \<Rightarrow> 'c \<Rightarrow> 't delta_store \<Rightarrow> ('c block, storage_error) result" where
  "delta_get X R cid ds =
     (let cid_key = cid_to_string X cid in
      if \<not> rd_txn R (ds_index ds) then Err db_err
      else case rd_get R (ds_index ds) cid_key of
        None \<Rightarrow> Err db_err
      | Some None \<Rightarrow> Err (BlockNotFound cid_key)
      | Some (Some loc_bytes) \<Rightarrow>
          rbind (decode_location loc_bytes) (\<lambda>loc.
            case om_get (ds_files ds) (unat (loc_class_id loc), loc_file_id loc) of
              None \<Rightarrow> Err (BlockNotFound cid_key)
            | Some file \<Rightarrow>
                (case read_exact_at file (loc_offset loc) (loc_len loc) of
                   None \<Rightarrow> Err (IoError ''failed to fill whole buffer'')
                 | Some data \<Rightarrow> Ok \<lparr>block_cid = cid, block_data = data\<rparr>)))"

definition delta_has :: "('c, 'm) crates \<Rightarrow> 't redb \<Rightarrow> 'c \<Rightarrow> 't delta_store \<Rightarrow> bool" where
  "delta_has X R cid ds = redb_has X R cid (ds_index ds)"

definition delta_delete :: "('c, 'm) crates \<Rightarrow> 't redb \<Rightarrow> 'c \<Rightarrow> 't delta_store \<Rightarrow> (unit, storage_error) result \<times> 't delta_store" where
  "delta_delete X R cid ds =
     (case redb_delete X R cid (ds_index ds) of (r, index) \<Rightarrow> (r, ds\<lparr>ds_index := index\<rparr>))"

definition delta_list_cids :: "('c, 'm) crates \<Rightarrow> 't redb \<Rightarrow> 't delta_store \<Rightarrow> 'c list" where
  "delta_list_cids X R ds = redb_list_cids X R (ds_index ds)"

definition delta_stats :: "'t redb \<Rightarrow> 't delta_store \<Rightarrow> store_stats" where
  "delta_stats R ds =
     (if \<not> rd_txn R (ds_index ds) then \<lparr>block_count = 0, total_size = 0\<rparr>
      else case rd_iter R (ds_index ds) of
        None \<Rightarrow> \<lparr>block_count = 0, total_size = 0\<rparr>
      | Some kvs \<Rightarrow>
          (case try_map (\<lambda>(_, v). decode_location v) kvs of
             Ok locs \<Rightarrow> \<lparr>block_count = length locs, total_size = sum_list (map loc_len locs)\<rparr>
           | _ \<Rightarrow> \<lparr>block_count = 0, total_size = 0\<rparr>))"

definition clear_table :: "'t redb \<Rightarrow> 't \<Rightarrow> 't option" where
  "clear_table R t =
     (if rd_txn R t then Option.bind (rd_iter R t) (\<lambda>kvs. redb_remove_all R (map fst kvs) t) else None)"

text \<open>The block files go first; the tables follow in one transaction.\<close>

definition delta_clear :: "'t redb \<Rightarrow> 't delta_store \<Rightarrow> 't delta_store" where
  "delta_clear R ds =
     (let ds1 = ds\<lparr>ds_files := []\<rparr> in
      case (clear_table R (ds_index ds), clear_table R (ds_class_state ds)) of
        (Some index, Some cs) \<Rightarrow>
          if rd_commit R index \<and> rd_commit R cs then ds1\<lparr>ds_index := index, ds_class_state := cs\<rparr> else ds1
      | _ \<Rightarrow> ds1)"

end
