(* ===== verification/Delta_Contract.thy ===== *)
theory Delta_Contract
  imports Delta_Store
begin

text \<open>
  The deltastore backend keeps the contract of a block store, also when a batch fails: block
  files are only ever appended to, so a location that was readable stays readable, and the
  index changes by a committed transaction only.
\<close>

section \<open>Locations\<close>

lemma subvec_join [simp]: "a \<le> b \<Longrightarrow> b \<le> c \<Longrightarrow> subvec a b xs @ subvec b c xs = subvec a c xs"
  using take_add [of "b - a" "c - b" "drop a xs"] by (simp add: subvec_def)

definition location_ok :: "delta_location \<Rightarrow> bool" where
  "location_ok l \<longleftrightarrow> loc_file_id l < 2 ^ 32 \<and> loc_offset l < 2 ^ 64 \<and> loc_len l < 2 ^ 32"

lemma decode_encode_location: "location_ok l \<Longrightarrow> decode_location (encode_location l) = Ok l"
  by (simp add: location_ok_def decode_location_def encode_location_def subvec_def)

lemma decode_encode_class_state:
  "cs_file_id s < 2 ^ 32 \<Longrightarrow> cs_next_offset s < 2 ^ 64 \<Longrightarrow> decode_class_state (encode_class_state s) = Ok s"
  by (simp add: decode_class_state_def encode_class_state_def subvec_def)

lemma decode_class_state_bound: "decode_class_state bs = Ok s \<Longrightarrow> cs_file_id s < 2 ^ 32"
  using le_nat_less [of "subvec 0 4 bs"] by (auto simp: decode_class_state_def subvec_def split: if_splits)

text \<open>
  Locations and class states survive the database: decoding what was encoded gives the
  same record for every value of its fields, and anything of another length or version is refused.
\<close>

lemma delta_codec_roundtrip:
  assumes "location_ok l" "cs_file_id s < 2 ^ 32" "cs_next_offset s < 2 ^ 64"
  shows "decode_location (encode_location l) = Ok l \<and> length (encode_location l) = 18
    \<and> decode_class_state (encode_class_state s) = Ok s
    \<and> (\<forall>bs l'. decode_location bs = Ok l' \<longrightarrow> bs = encode_location l' \<and> location_ok l')"
proof -
  have "bs = encode_location l' \<and> location_ok l'" if "decode_location bs = Ok l'" for bs l'
  proof -
    have len: "length bs = 18" and v: "bs ! 0 = 1" and l': "l' = \<lparr>loc_class_id = bs ! 1, loc_file_id = le_nat (subvec 2 6 bs),
        loc_offset = le_nat (subvec 6 14 bs), loc_len = le_nat (subvec 14 18 bs)\<rparr>"
      using that by (auto simp: decode_location_def split: if_splits)
    have sub: "le_bytes (b - a) (le_nat (subvec a b bs)) = subvec a b bs \<and> le_nat (subvec a b bs) < 256 ^ (b - a)" if "a \<le> b" "b \<le> 18" for a b
      using le_bytes_le_nat [of "subvec a b bs"] le_nat_less [of "subvec a b bs"] that len by (simp add: subvec_def)
    have "encode_location l' = [bs ! 0] @ [bs ! 1] @ subvec 2 6 bs @ subvec 6 14 bs @ subvec 14 18 bs"
      using v sub [of 2 6] sub [of 6 14] sub [of 14 18] by (simp add: encode_location_def l')
    also have "[bs ! 0] @ [bs ! 1] @ subvec 2 6 bs @ subvec 6 14 bs @ subvec 14 18 bs = subvec 0 18 bs"
      using len by (cases bs; cases "tl bs") (auto simp: subvec_def [of 0] subvec_def [of 2 18])
    also have "\<dots> = bs" using len by (simp add: subvec_def)
    finally show ?thesis using sub [of 2 6] sub [of 6 14] sub [of 14 18] by (simp add: location_ok_def l')
  qed
  moreover have "length (encode_location l) = 18" by (simp add: encode_location_def)
  ultimately show ?thesis
    using decode_encode_location [OF assms(1)] decode_encode_class_state [OF assms(2,3)] by blast
qed

section \<open>Files only grow\<close>

definition files_le :: "(nat \<times> nat, bytes) omap \<Rightarrow> (nat \<times> nat, bytes) omap \<Rightarrow> bool" where
  "files_le F G \<longleftrightarrow> (\<forall>key f. om_get F key = Some f \<longrightarrow> (\<exists>t. om_get G key = Some (f @ t)))"

lemma files_le_refl [simp]: "files_le F F"
  by (auto simp: files_le_def)

lemma files_le_trans: "files_le F G \<Longrightarrow> files_le G H \<Longrightarrow> files_le F H"
  unfolding files_le_def by (metis append.assoc)

lemma files_le_insert: "files_le F (om_insert key (om_get_or [] F key @ t) F)"
  by (auto simp: files_le_def om_get_or_def)

lemma read_append: "read_exact_at f off n = Some d \<Longrightarrow> read_exact_at (f @ t) off n = Some d"
  by (auto simp: read_exact_at_def subvec_append1 split: if_splits)

lemma write_at_end: "write_all_at file (length file) bs = file @ bs"
  by (simp add: write_all_at_def)

definition loc_data :: "(nat \<times> nat, bytes) omap \<Rightarrow> bytes \<Rightarrow> bytes option" where
  "loc_data files v = (case decode_location v of
     Ok loc \<Rightarrow> Option.bind (om_get files (unat (loc_class_id loc), loc_file_id loc)) (\<lambda>f. read_exact_at f (loc_offset loc) (loc_len loc))
   | _ \<Rightarrow> None)"

lemma loc_data_mono: "files_le F G \<Longrightarrow> loc_data F v = Some d \<Longrightarrow> loc_data G v = Some d"
proof -
  assume le: "files_le F G" and d: "loc_data F v = Some d"
  then obtain loc f where l: "decode_location v = Ok loc" "om_get F (unat (loc_class_id loc), loc_file_id loc) = Some f"
    "read_exact_at f (loc_offset loc) (loc_len loc) = Some d"
    by (auto simp: loc_data_def bind_eq_Some_conv split: result.splits)
  obtain t where "om_get G (unat (loc_class_id loc), loc_file_id loc) = Some (f @ t)" using le l(2) unfolding files_le_def by blast
  then show ?thesis using l read_append [OF l(3), of t] by (simp add: loc_data_def)
qed

section \<open>A batch\<close>

text \<open>
  The append position of a class in the cache is the end of its open file, and a class that is
  not in the cache has no open file; files of a class are opened in increasing order.
\<close>

definition batch_inv :: "'t delta_batch \<Rightarrow> bool" where
  "batch_inv b \<longleftrightarrow>
     (\<forall>cl s. om_get (db_states b) cl = Some s \<longrightarrow> cs_file_id s < 2 ^ 32 \<and> (cl, cs_file_id s) \<in> set (db_open b)
        \<and> (\<exists>f. om_get (db_files b) (cl, cs_file_id s) = Some f \<and> cs_next_offset s = length f))
   \<and> (\<forall>cl f. (cl, f) \<in> set (db_open b) \<longrightarrow> (\<exists>s. om_get (db_states b) cl = Some s \<and> f \<le> cs_file_id s))"

definition state_inv :: "nat \<Rightarrow> class_state \<Rightarrow> 't delta_batch \<Rightarrow> bool" where
  "state_inv cl s b \<longleftrightarrow> cs_file_id s < 2 ^ 32 \<and>
     (case om_get (db_states b) cl of Some s' \<Rightarrow> s' = s | None \<Rightarrow> True)"

lemma load_class_state_inv:
  assumes "batch_inv b" "load_class_state R table cl b = Ok s"
  shows "state_inv cl s b"
  using assms decode_class_state_bound
  by (auto simp: load_class_state_def state_inv_def batch_inv_def split: option.splits)

lemma delta_roll_spec:
  "delta_roll m len s = Ok s' \<Longrightarrow> cs_file_id s < 2 ^ 32 \<Longrightarrow>
     s' = s \<or> (cs_file_id s < cs_file_id s' \<and> cs_file_id s' < 2 ^ 32 \<and> cs_next_offset s' = 0)"
proof (induction m len s rule: delta_roll.induct)
  case (1 m len s)
  have run: "rbind (padd 64 (cs_next_offset s) len) (\<lambda>e. if m < e
       then (case checked_add 32 (cs_file_id s) 1 of None \<Rightarrow> Err (DatabaseError ''delta file_id overflow'')
         | Some f \<Rightarrow> delta_roll m len \<lparr>cs_file_id = f, cs_next_offset = 0\<rparr>) else Ok s) = Ok s'"
    using 1(2) by (simp add: delta_roll.simps [of m len s])
  then have lt: "cs_next_offset s + len < 2 ^ 64" by (auto simp: result_simps)
  show ?case
  proof (cases "m < cs_next_offset s + len")
    case True
    then obtain f where f: "checked_add 32 (cs_file_id s) 1 = Some f" "delta_roll m len \<lparr>cs_file_id = f, cs_next_offset = 0\<rparr> = Ok s'"
      using run lt by (auto simp: padd_def split: option.splits)
    then have "f = cs_file_id s + 1" "f < 2 ^ 32" by auto
    then show ?thesis using 1(1) [OF _ True f] lt by auto
  next
    case False
    then show ?thesis using run lt by (simp add: padd_def)
  qed
qed

text \<open>After opening, the append position is the end of the file.\<close>

lemma open_block_file_spec:
  assumes "batch_inv b" "state_inv cl s b" "s1 = s \<or> (cs_file_id s < cs_file_id s1 \<and> cs_next_offset s1 = 0)"
    and "open_block_file cl s1 b = (s2, b2)"
  shows "cs_file_id s2 = cs_file_id s1" "om_get (db_files b2) (cl, cs_file_id s2) = Some f \<Longrightarrow> cs_next_offset s2 = length f"
    "\<exists>f. om_get (db_files b2) (cl, cs_file_id s2) = Some f" "files_le (db_files b) (db_files b2)"
    "db_states b2 = db_states b" "db_index b2 = db_index b" "set (db_open b2) = insert (cl, cs_file_id s1) (set (db_open b))"
    "\<And>key. key \<noteq> (cl, cs_file_id s1) \<Longrightarrow> om_get (db_files b2) key = om_get (db_files b) key"
proof -
  let ?key = "(cl, cs_file_id s1)"
  have end': "\<exists>f. om_get (db_files b) ?key = Some f \<and> cs_next_offset s1 = length f" if op: "?key \<in> set (db_open b)"
  proof -
    obtain s' where s': "om_get (db_states b) cl = Some s'" "cs_file_id s1 \<le> cs_file_id s'"
      using assms(1) op unfolding batch_inv_def by blast
    then have "s' = s" using assms(2) by (simp add: state_inv_def)
    then have "s1 = s" using assms(3) s'(2) by auto
    then show ?thesis using assms(1) s'(1) \<open>s' = s\<close> unfolding batch_inv_def by blast
  qed
  show "files_le (db_files b) (db_files b2)"
    using assms(4) files_le_insert [of "db_files b" ?key "[]"] by (auto simp: open_block_file_def Let_def split: if_splits)
  show "cs_file_id s2 = cs_file_id s1" "om_get (db_files b2) (cl, cs_file_id s2) = Some f \<Longrightarrow> cs_next_offset s2 = length f"
    "\<exists>f. om_get (db_files b2) (cl, cs_file_id s2) = Some f"
    "db_states b2 = db_states b" "db_index b2 = db_index b" "set (db_open b2) = insert (cl, cs_file_id s1) (set (db_open b))"
    "\<And>key. key \<noteq> (cl, cs_file_id s1) \<Longrightarrow> om_get (db_files b2) key = om_get (db_files b) key"
    using assms(4) end' by (auto simp: open_block_file_def Let_def split: if_splits)
qed

text \<open>Appending one block: whatever the outcome, files only grow; on success the location reads back.\<close>

lemma delta_append_spec:
  assumes "batch_inv b" "state_inv cl s b" "cl < 11" "delta_append cfg cl data s b = (r, b1)"
  shows "files_le (db_files b) (db_files b1) \<and> db_index b1 = db_index b
    \<and> (\<forall>loc. r = Ok loc \<longrightarrow> batch_inv b1 \<and> loc_data (db_files b1) (encode_location loc) = Some data)"
proof -
  consider s1 where "delta_roll (dc_max_file_bytes cfg) (length data) s = Ok s1"
    | "\<And>l. r \<noteq> Ok l" "b1 = b"
    using assms(4) by (cases "delta_roll (dc_max_file_bytes cfg) (length data) s") (auto simp: delta_append_def)
  then show ?thesis
  proof cases
    case 1
    have fid: "cs_file_id s < 2 ^ 32" using assms(2) by (simp add: state_inv_def)
    note roll = delta_roll_spec [OF 1 fid]
    obtain s2 b2 where ob: "open_block_file cl s1 b = (s2, b2)" by fastforce
    have next': "s1 = s \<or> (cs_file_id s < cs_file_id s1 \<and> cs_next_offset s1 = 0)" using roll by blast
    note op = open_block_file_spec [OF assms(1,2) next' ob]
    let ?key = "(cl, cs_file_id s2)"
    obtain f where f: "om_get (db_files b2) ?key = Some f" using op(3) by blast
    have off: "cs_next_offset s2 = length f" by (rule op(2) [OF f])
    have fid2: "cs_file_id s2 < 2 ^ 32" using roll fid op(1) by auto
    let ?files = "om_insert ?key (f @ data) (db_files b2)"
    have files: "db_files b1 = ?files" and idx: "db_index b1 = db_index b2"
      using assms(4) 1 ob f off by (auto simp: delta_append_def Let_def om_get_or_def write_at_end split: option.splits if_splits)
    have le: "files_le (db_files b) (db_files b1)"
      unfolding files by (rule files_le_trans [OF op(4)])
        (use files_le_insert [of "db_files b2" ?key data] f in \<open>simp add: om_get_or_def\<close>)
    have "batch_inv b1 \<and> loc_data (db_files b1) (encode_location loc) = Some data" if r: "r = Ok loc" for loc
    proof -
      have st: "length f + length data < 2 ^ 64" "length data < 2 ^ 32"
        "b1 = b2\<lparr>db_files := ?files, db_states := om_insert cl (s2\<lparr>cs_next_offset := length f + length data\<rparr>) (db_states b2)\<rparr>"
        "loc = \<lparr>loc_class_id = word_of_nat cl, loc_file_id = cs_file_id s2, loc_offset = length f, loc_len = length data\<rparr>"
        using assms(4) 1 ob f off r by (auto simp: delta_append_def Let_def om_get_or_def write_at_end split: option.splits if_splits)
      have "location_ok loc" using st fid2 by (simp add: location_ok_def)
      moreover have "unat (word_of_nat cl :: u8) = cl" using assms(3) by simp
      moreover have "read_exact_at (f @ data) (length f) (length data) = Some data"
        using read_write_same [of f "length f" data] by (simp add: write_at_end)
      ultimately have "loc_data (db_files b1) (encode_location loc) = Some data"
        by (simp add: loc_data_def decode_encode_location files) (simp add: st(4))
      moreover have "batch_inv b1"
      proof -
        have old: "cl' \<noteq> cl \<Longrightarrow> om_get (db_files b1) (cl', g) = om_get (db_files b) (cl', g)" for cl' g
          using op(8) [of "(cl', g)"] by (simp add: files)
        have opn: "f' \<le> cs_file_id s2" if o: "(cl, f') \<in> set (db_open b)" for f'
        proof -
          obtain s' where s': "om_get (db_states b) cl = Some s'" "f' \<le> cs_file_id s'" using assms(1) o unfolding batch_inv_def by blast
          then show ?thesis using assms(2) next' op(1) by (auto simp: state_inv_def)
        qed
        have sts: "db_states b1 = om_insert cl (s2\<lparr>cs_next_offset := length f + length data\<rparr>) (db_states b)"
          and opens: "set (db_open b1) = insert ?key (set (db_open b))" using st(3) op(1,5,7) by simp_all
        show ?thesis
          unfolding batch_inv_def
        proof (intro conjI allI impI)
          fix cl' s' assume "om_get (db_states b1) cl' = Some s'"
          then consider "cl' = cl" "s' = s2\<lparr>cs_next_offset := length f + length data\<rparr>" | "cl' \<noteq> cl" "om_get (db_states b) cl' = Some s'"
            by (auto simp: sts split: if_splits)
          then show "cs_file_id s' < 2 ^ 32" "(cl', cs_file_id s') \<in> set (db_open b1)"
            "\<exists>f. om_get (db_files b1) (cl', cs_file_id s') = Some f \<and> cs_next_offset s' = length f"
            using assms(1) fid2 old unfolding batch_inv_def opens by (cases; auto simp: files)+
        next
          fix cl' f' assume "(cl', f') \<in> set (db_open b1)"
          then show "\<exists>s. om_get (db_states b1) cl' = Some s \<and> f' \<le> cs_file_id s"
            using assms(1) opn unfolding batch_inv_def opens sts by (cases "cl' = cl") auto
        qed
      qed
      ultimately show ?thesis by blast
    qed
    then show ?thesis using le idx op(6) by simp
  qed simp
qed

section \<open>The store as a map\<close>

text \<open>Every location in the index is readable; what an index and files hold for a key.\<close>

definition readable :: "(string \<rightharpoonup> bytes) \<Rightarrow> (nat \<times> nat, bytes) omap \<Rightarrow> bool" where
  "readable m files \<longleftrightarrow> (\<forall>k v. m k = Some v \<longrightarrow> loc_data files v \<noteq> None)"

definition key_data :: "(string \<rightharpoonup> bytes) \<Rightarrow> (nat \<times> nat, bytes) omap \<Rightarrow> string \<rightharpoonup> bytes" where
  "key_data m files k = Option.bind (m k) (loc_data files)"

lemma readable_mono: "files_le F G \<Longrightarrow> readable m F \<Longrightarrow> readable m G"
  unfolding readable_def by (metis loc_data_mono not_None_eq)

lemma key_data_mono:
  assumes "files_le F G" "readable m F"
  shows "key_data m G = key_data m F"
proof
  fix k
  show "key_data m G k = key_data m F k"
  proof (cases "m k")
    case (Some v)
    then obtain d where "loc_data F v = Some d" using assms(2) unfolding readable_def by blast
    then show ?thesis using Some loc_data_mono [OF assms(1)] by (simp add: key_data_def)
  qed (simp add: key_data_def)
qed

lemma key_data_None: "readable m F \<Longrightarrow> key_data m F k = None \<longleftrightarrow> m k = None"
  by (cases "m k") (auto simp: key_data_def readable_def)

text \<open>The batch seen as a map; a step keeps it readable.\<close>

definition batch_ok :: "'t redb \<Rightarrow> 't delta_batch \<Rightarrow> bool" where
  "batch_ok R b \<longleftrightarrow> batch_inv b \<and> readable (rd_view R (db_index b)) (db_files b)"

definition batch_data :: "'t redb \<Rightarrow> 't delta_batch \<Rightarrow> string \<rightharpoonup> bytes" where
  "batch_data R b = key_data (rd_view R (db_index b)) (db_files b)"

lemma delta_put_block_spec:
  assumes law: "redb_law R" and ok: "batch_ok R b" and ns: "\<not> dc_skip_exists_check cfg"
    and run: "delta_put_block X R cfg table blk b = (r, b1)"
  shows "files_le (db_files b) (db_files b1)
    \<and> (r = Ok () \<longrightarrow> batch_ok R b1 \<and> batch_data R b1 = add_batch [(cid_to_string X (block_cid blk), block_data blk)] (batch_data R b))"
proof -
  let ?key = "cid_to_string X (block_cid blk)" and ?cl = "fst (class_for_len (length (block_data blk)))"
  have inv: "batch_inv b" and rd: "readable (rd_view R (db_index b)) (db_files b)" using ok by (auto simp: batch_ok_def)
  consider (fail) "b1 = b" "r \<noteq> Ok ()" | (old) v where "rd_get R (db_index b) ?key = Some (Some v)" "b1 = b"
    | (new) s where "rd_get R (db_index b) ?key = Some None" "load_class_state R table ?cl b = Ok s"
    using run ns by (auto simp: delta_put_block_def Let_def split: option.splits result.splits)
  then show ?thesis
  proof cases
    case old
    then have "rd_view R (db_index b) ?key = Some v" using redb_lawD(1) [OF law] by fastforce
    then have "batch_data R b ?key \<noteq> None" using key_data_None [OF rd] by (simp add: batch_data_def)
    then show ?thesis using old(2) ok by (auto simp: add_batch_simps)
  next
    case new
    have vn: "rd_view R (db_index b) ?key = None" using redb_lawD(1) [OF law new(1)] by simp
    obtain ra b2 where ap: "delta_append cfg ?cl (block_data blk) s b = (ra, b2)" by fastforce
    have cl: "?cl < 11" by (rule class_for_len_less)
    note sp = delta_append_spec [OF inv load_class_state_inv [OF inv new(2)] cl ap]
    have le: "files_le (db_files b) (db_files b2)" and ix: "db_index b2 = db_index b" using sp by auto
    have f1: "db_files b1 = db_files b2"
      using run ns new ap by (auto simp: delta_put_block_def Let_def split: option.splits result.splits)
    have "batch_ok R b1 \<and> batch_data R b1 = add_batch [(?key, block_data blk)] (batch_data R b)" if r: "r = Ok ()"
    proof -
      obtain loc index' where l: "ra = Ok loc" "rd_insert R ?key (encode_location loc) (db_index b2) = Some index'"
        "b1 = b2\<lparr>db_index := index'\<rparr>"
        using run ns new ap r by (auto simp: delta_put_block_def Let_def split: option.splits result.splits)
      have v: "rd_view R index' = (rd_view R (db_index b))(?key \<mapsto> encode_location loc)" using redb_lawD(2) [OF law l(2)] ix by simp
      have b2: "batch_inv b2" "loc_data (db_files b2) (encode_location loc) = Some (block_data blk)" using sp l(1) by auto
      have rd2: "readable (rd_view R (db_index b)) (db_files b2)" by (rule readable_mono [OF le rd])
      have "readable (rd_view R index') (db_files b2)" using rd2 b2(2) unfolding v readable_def by auto
      moreover have "batch_inv b1" using b2(1) l(3) by (simp add: batch_inv_def)
      moreover have "key_data (rd_view R index') (db_files b2) = (batch_data R b)(?key \<mapsto> block_data blk)"
      proof
        fix k
        have "key_data (rd_view R (db_index b)) (db_files b2) k = batch_data R b k"
          using key_data_mono [OF le rd] by (simp add: batch_data_def)
        then show "key_data (rd_view R index') (db_files b2) k = ((batch_data R b)(?key \<mapsto> block_data blk)) k"
          using b2(2) by (simp add: key_data_def v)
      qed
      moreover have "batch_data R b ?key = None" using vn by (simp add: batch_data_def key_data_def)
      ultimately show ?thesis using l(3) by (simp add: batch_ok_def batch_data_def add_batch_simps)
    qed
    then show ?thesis using le f1 by simp
  qed simp
qed

lemma delta_put_loop_spec:
  assumes law: "redb_law R" and ns: "\<not> dc_skip_exists_check cfg"
  shows "batch_ok R b \<Longrightarrow> delta_put_loop X R cfg table blks b = (r, b1) \<Longrightarrow> files_le (db_files b) (db_files b1)
    \<and> (r = Ok () \<longrightarrow> batch_ok R b1 \<and> batch_data R b1 =
         add_batch (map (\<lambda>x. (cid_to_string X (block_cid x), block_data x)) blks) (batch_data R b))"
proof (induction blks arbitrary: b)
  case (Cons blk blks)
  obtain r2 b2 where pb: "delta_put_block X R cfg table blk b = (r2, b2)" by fastforce
  note sp = delta_put_block_spec [OF law Cons(2) ns pb]
  show ?case
  proof (cases "r2 = Ok ()")
    case True
    then have "delta_put_loop X R cfg table blks b2 = (r, b1)" using Cons(3) pb by simp
    then show ?thesis using Cons(1) [of b2] sp True files_le_trans by (auto simp: add_batch_simps)
  next
    case False
    then have "b1 = b2" "r \<noteq> Ok ()" using Cons(3) pb by (auto split: result.splits)
    then show ?thesis using sp by simp
  qed
qed (simp add: add_batch_simps)

text \<open>What the whole store holds.\<close>

definition delta_ok :: "'t redb \<Rightarrow> 't delta_store \<Rightarrow> bool" where
  "delta_ok R ds \<longleftrightarrow> readable (rd_view R (ds_index ds)) (ds_files ds)"

definition delta_data :: "'t redb \<Rightarrow> 't delta_store \<Rightarrow> string \<rightharpoonup> bytes" where
  "delta_data R ds = key_data (rd_view R (ds_index ds)) (ds_files ds)"

lemma delta_put_many_spec:
  assumes law: "redb_law R" and ns: "\<not> dc_skip_exists_check cfg" and ok: "delta_ok R ds"
    and run: "delta_put_many X R cfg blocks ds = (r, ds')"
  shows "delta_ok R ds' \<and> (r \<noteq> Ok () \<longrightarrow> ds_index ds' = ds_index ds \<and> ds_class_state ds' = ds_class_state ds \<and> delta_data R ds' = delta_data R ds)
    \<and> (r = Ok () \<longrightarrow> delta_data R ds' = add_batch (map (\<lambda>x. (cid_to_string X (block_cid x), block_data x)) blocks) (delta_data R ds))"
proof -
  let ?b = "\<lparr>db_index = ds_index ds, db_states = [], db_open = [], db_files = ds_files ds\<rparr>"
  obtain rl b where lp: "delta_put_loop X R cfg (ds_class_state ds) blocks ?b = (rl, b)" by fastforce
  have b0: "batch_ok R ?b" using ok by (simp add: batch_ok_def batch_inv_def delta_ok_def)
  note sp = delta_put_loop_spec [OF law ns b0 lp]
  have le: "files_le (ds_files ds) (db_files b)" using sp by simp
  have keep: "delta_ok R (ds\<lparr>ds_files := db_files b\<rparr>)" "delta_data R (ds\<lparr>ds_files := db_files b\<rparr>) = delta_data R ds"
    using readable_mono [OF le] key_data_mono [OF le] ok by (simp_all add: delta_ok_def delta_data_def)
  consider (same) "ds' = ds" "r \<noteq> Ok () \<or> blocks = []" | (fail) "ds' = ds\<lparr>ds_files := db_files b\<rparr>" "r \<noteq> Ok ()"
    | (good) cs where "rl = Ok ()" "r = Ok ()" "ds' = \<lparr>ds_index = db_index b, ds_class_state = cs, ds_files = db_files b\<rparr>"
  proof -
    define v where "v = verify_on_write X (dc_verify cfg) blocks"
    show thesis
      using that run lp by (cases v; cases rl) (auto simp: delta_put_many_def v_def [symmetric] split: if_splits option.splits)
  qed
  then show ?thesis
  proof cases
    case same
    then show ?thesis using ok by (auto simp: add_batch_simps)
  next
    case fail
    then show ?thesis using keep by simp
  next
    case good
    then show ?thesis using sp by (simp add: delta_ok_def delta_data_def batch_ok_def batch_data_def)
  qed
qed


lemma delta_get_data:
  assumes "redb_law R"
  shows "ok_data (delta_get X R c s) = (if rd_txn R (ds_index s) \<and> rd_get R (ds_index s) (cid_to_string X c) \<noteq> None
      then delta_data R s (cid_to_string X c) else None)"
  using redb_lawD(1) [OF assms, of "ds_index s" "cid_to_string X c"]
  by (auto simp: delta_get_def Let_def ok_data_def delta_data_def key_data_def loc_data_def
      split: option.splits result.splits)

definition delta_inv :: "('c, 'm) crates \<Rightarrow> 't redb \<Rightarrow> delta_config \<Rightarrow> nat \<Rightarrow> 't delta_store \<Rightarrow> bool" where
  "delta_inv X R cfg k ds \<longleftrightarrow> redb_law R \<and> cid_string_law X \<and> \<not> dc_skip_exists_check cfg \<and> delta_ok R ds"

definition delta_look :: "('c, 'm) crates \<Rightarrow> 't redb \<Rightarrow> 't delta_store \<Rightarrow> 'c \<Rightarrow> bytes option" where
  "delta_look X R ds c = delta_data R ds (cid_to_string X c)"

definition delta_put1 :: "('c, 'm) crates \<Rightarrow> 't redb \<Rightarrow> delta_config \<Rightarrow> 'c \<Rightarrow> bytes \<Rightarrow> 't delta_store \<Rightarrow> 't delta_store option" where
  "delta_put1 X R cfg c d ds = ok_state (delta_put_many X R cfg [\<lparr>block_cid = c, block_data = d\<rparr>] ds)"

interpretation delta: block_store "delta_inv X R cfg" "\<lambda>_ _. True" "delta_look X R" "\<lambda>ds c. ok_data (delta_get X R c ds)"
  "delta_put1 X R cfg" "\<lambda>c ds. ok_state (delta_delete X R c ds)" for X R cfg
proof unfold_locales
  fix k ds c d ds' c'
  assume i: "delta_inv X R cfg (Suc k) ds" and p: "delta_put1 X R cfg c d ds = Some ds'"
  have law: "redb_law R" "cid_string_law X" "\<not> dc_skip_exists_check cfg" "delta_ok R ds" using i by (auto simp: delta_inv_def)
  have run: "delta_put_many X R cfg [\<lparr>block_cid = c, block_data = d\<rparr>] ds = (Ok (), ds')" using p by (simp add: delta_put1_def)
  note sp = delta_put_many_spec [OF law(1,3,4) run]
  show "delta_inv X R cfg k ds'" using sp law by (simp add: delta_inv_def)
  show "delta_look X R ds' c' = (if c' = c \<and> delta_look X R ds c = None then Some d else delta_look X R ds c')"
    using sp cid_to_string_inject [OF law(2)] by (simp add: delta_look_def add_batch_simps)
next
  fix k ds c ds' c'
  assume i: "delta_inv X R cfg k ds" and p: "ok_state (delta_delete X R c ds) = Some ds'"
  have law: "redb_law R" "cid_string_law X" "delta_ok R ds" using i by (auto simp: delta_inv_def)
  obtain index where ix: "redb_delete X R c (ds_index ds) = (Ok (), index)" "ds' = ds\<lparr>ds_index := index\<rparr>"
    using p by (auto simp: delta_delete_def split: prod.splits)
  note del = redb_delete_Ok [OF law(1) ix(1)]
  have rd: "readable (rd_view R (ds_index ds)) (ds_files ds)" using law(3) by (simp add: delta_ok_def)
  show "delta_inv X R cfg k ds'" using i rd del(2) ix(2) by (auto simp: delta_inv_def delta_ok_def readable_def)
  show "delta_look X R ds' c' = (if c' = c then None else delta_look X R ds c')"
    using del(2) ix(2) cid_to_string_inject [OF law(2)] by (simp add: delta_look_def delta_data_def key_data_def)
  show "delta_look X R ds c \<noteq> None" using del(1) key_data_None [OF rd] by (simp add: delta_look_def delta_data_def)
next
  fix k ds c d
  assume "delta_inv X R cfg k ds" "ok_data (delta_get X R c ds) = Some d"
  then show "delta_look X R ds c = Some d"
    by (auto simp: delta_inv_def delta_look_def delta_get_data split: if_splits)
qed (simp_all add: delta_inv_def)

section \<open>Failed batches\<close>

text \<open>
  C21. A deltastore batch is atomic for readers, although its data goes to plain files: when
  \<open>put_many\<close> fails, at whatever block and for whatever reason, the index is unchanged, every
  block stored before reads the same data as before, and no other block appears; when it
  succeeds every CID reads as before or else as the first block of the batch with it.
\<close>

theorem delta_put_atomic:
  assumes "delta_inv X R cfg k ds" "delta_put_many X R cfg blocks ds = (r, ds')"
  shows "delta_inv X R cfg k ds'
    \<and> (r \<noteq> Ok () \<longrightarrow> ds_index ds' = ds_index ds \<and> (\<forall>c. ok_data (delta_get X R c ds') = ok_data (delta_get X R c ds)))
    \<and> (r = Ok () \<longrightarrow> (\<forall>c. delta_look X R ds' c =
         (case delta_look X R ds c of Some d \<Rightarrow> Some d | None \<Rightarrow> map_of (map (\<lambda>b. (block_cid b, block_data b)) blocks) c)))"
proof -
  have law: "redb_law R" "cid_string_law X" "\<not> dc_skip_exists_check cfg" "delta_ok R ds" using assms(1) by (auto simp: delta_inv_def)
  note sp = delta_put_many_spec [OF law(1,3,4) assms(2)]
  have m: "map_of (map (\<lambda>b. (cid_to_string X (block_cid b), block_data b)) blocks) (cid_to_string X c)
    = map_of (map (\<lambda>b. (block_cid b, block_data b)) blocks) c" for c
    by (induction blocks) (auto simp: cid_to_string_inject [OF law(2)])
  show ?thesis
    using sp m law by (auto simp: delta_get_data delta_inv_def delta_look_def add_batch_def map_add_def split: option.splits)
qed


text \<open>A store on the concrete database: a batch that commits, and one whose commit fails.\<close>

definition demo_delta :: delta_config where
  "demo_delta = \<lparr>dc_max_file_bytes = 1024, dc_skip_exists_check = False, dc_verify = False\<rparr>"

definition demo_ds :: "(string \<times> bytes) list delta_store" where
  "demo_ds = \<lparr>ds_index = [], ds_class_state = [], ds_files = []\<rparr>"

lemma demo_delta_inv [simp]: "delta_inv demo_crates (demo_redb ok) demo_delta k demo_ds"
  by (auto simp: delta_inv_def demo_delta_def delta_ok_def readable_def demo_ds_def) (simp add: demo_redb_def)

lemma demo_delta_put:
  "fst (delta_put_many demo_crates (demo_redb ok) demo_delta demo_blocks demo_ds) = (if ok then Ok () else Err db_err)"
  by (simp add: delta_put_many_def demo_blocks_def demo_redb_def demo_delta_def demo_ds_def delta_put_block_def Let_def
      load_class_state_def class_for_len_def DELTA_SIZE_CLASSES_def delta_append_def delta_roll.simps padd_def
      open_block_file_def om_get_or_def checked_add_def)

theorem delta_put_atomic_witness:
  "(\<exists>ds'. delta_put_many demo_crates (demo_redb False) demo_delta demo_blocks demo_ds = (Err db_err, ds') \<and> ds_index ds' = [])
   \<and> (\<exists>ds'. delta_put_many demo_crates (demo_redb True) demo_delta demo_blocks demo_ds = (Ok (), ds')
        \<and> delta_look demo_crates (demo_redb True) ds' (1, 2, []) = Some [7, 8])"
proof -
  obtain d1 where d1: "delta_put_many demo_crates (demo_redb False) demo_delta demo_blocks demo_ds = (Err db_err, d1)"
    using demo_delta_put [of False] by (metis prod.collapse)
  obtain d2 where d2: "delta_put_many demo_crates (demo_redb True) demo_delta demo_blocks demo_ds = (Ok (), d2)"
    using demo_delta_put [of True] by (metis prod.collapse)
  have "delta_look demo_crates (demo_redb True) demo_ds c = None" for c
    by (simp add: delta_look_def delta_data_def key_data_def demo_ds_def) (simp add: demo_redb_def)
  then show ?thesis
    using delta_put_atomic [OF demo_delta_inv d1] delta_put_atomic [OF demo_delta_inv d2] d1 d2
    by (simp add: demo_blocks_def) (simp add: demo_ds_def)
qed

end
