(* ===== verification/Geom_Tree.thy ===== *)
theory Geom_Tree
  imports Redb_Store
begin

text \<open>
  The geomtree backend of \<open>storage.rs\<close> (\<open>GeomTreeStore\<close>): one file per block, in a
  directory tree sharded by the even bytes of the digest. The tree below the root is the list of
  its files, each with the names on its path; the root holds nothing else. The order in which
  \<open>read_dir\<close> yields entries is not specified, so only the set of a listing is meaningful.
\<close>

record geom_config =
  gc_shard_levels :: nat
  gc_bytes_per_level :: nat
  gc_verify :: bool

type_synonym geom_path = "string list"
type_synonym geom_tree = "(geom_path \<times> bytes) list"

definition FILE_EXT :: string where
  "FILE_EXT = ''.data''"

section \<open>Paths\<close>

definition cid_entropy32 :: "('c, 'm) crates \<Rightarrow> 'c \<Rightarrow> bytes" where
  "cid_entropy32 X cid =
     (let digest = mh_digest X (cid_hash X cid) in
      if 32 \<le> length digest then take 32 digest else blake3 X (cid_to_bytes X cid))"

text \<open>The even and the odd bytes.\<close>

definition split_geometry :: "('c, 'm) crates \<Rightarrow> 'c \<Rightarrow> bytes \<times> bytes" where
  "split_geometry X cid =
     (let h = cid_entropy32 X cid
      in (map (\<lambda>i. h ! (i * 2)) [0..<16], map (\<lambda>i. h ! (i * 2 + 1)) [0..<16]))"

fun shard_dirs :: "nat \<Rightarrow> bytes \<Rightarrow> nat list \<Rightarrow> geom_path" where
  "shard_dirs per base [] = []"
| "shard_dirs per base (level # ls) =
     (let start = level * per in
      if length base \<le> start then []
      else hex_lower (subvec start (min (start + per) (length base)) base) # shard_dirs per base ls)"

definition block_path :: "('c, 'm) crates \<Rightarrow> geom_config \<Rightarrow> 'c \<Rightarrow> geom_path" where
  "block_path X cfg cid =
     shard_dirs (gc_bytes_per_level cfg) (fst (split_geometry X cid)) [0..<gc_shard_levels cfg]
       @ [cid_to_string X cid @ FILE_EXT]"

definition walk_block_files :: "geom_tree \<Rightarrow> geom_path list" where
  "walk_block_files tree = filter (\<lambda>p. p \<noteq> [] \<and> ends_with (last p) FILE_EXT) (map fst tree)"

section \<open>The operations\<close>

text \<open>\<open>create_new\<close> fails for a file that exists; the loop then goes on with the next block.\<close>

fun geom_put_loop :: "('c, 'm) crates \<Rightarrow> geom_config \<Rightarrow> 'c block list \<Rightarrow> geom_tree \<Rightarrow> geom_tree" where
  "geom_put_loop X cfg [] tree = tree"
| "geom_put_loop X cfg (b # bs) tree =
     (let path = block_path X cfg (block_cid b) in
      case om_get tree path of
        Some _ \<Rightarrow> geom_put_loop X cfg bs tree
      | None \<Rightarrow> geom_put_loop X cfg bs ((path, block_data b) # tree))"

definition geom_put_many ::
  "('c, 'm) crates \<Rightarrow> geom_config \<Rightarrow> 'c block list \<Rightarrow> geom_tree \<Rightarrow> (unit, storage_error) result \<times> geom_tree" where
  "geom_put_many X cfg blocks tree =
     (if blocks = [] then (Ok (), tree)
      else case verify_on_write X (gc_verify cfg) blocks of
        Err e \<Rightarrow> (Err e, tree)
      | Panic \<Rightarrow> (Panic, tree)
      | Ok _ \<Rightarrow> (Ok (), geom_put_loop X cfg blocks tree))"

definition geom_get :: "('c, 'm) crates \<Rightarrow> geom_config \<Rightarrow> 'c \<Rightarrow> geom_tree \<Rightarrow> ('c block, storage_error) result" where
  "geom_get X cfg cid tree =
     (case om_get tree (block_path X cfg cid) of
        None \<Rightarrow> Err (BlockNotFound (cid_to_string X cid))
      | Some data \<Rightarrow> Ok \<lparr>block_cid = cid, block_data = data\<rparr>)"

text \<open>A seek beyond the largest signed offset is refused by the operating system.\<close>

definition geom_get_range ::
  "('c, 'm) crates \<Rightarrow> geom_config \<Rightarrow> 'c \<Rightarrow> nat \<Rightarrow> nat \<Rightarrow> geom_tree \<Rightarrow> (bytes \<times> nat, storage_error) result" where
  "geom_get_range X cfg cid start len tree =
     (case om_get tree (block_path X cfg cid) of
        None \<Rightarrow> Err (BlockNotFound (cid_to_string X cid))
      | Some file \<Rightarrow>
          if 2 ^ 63 \<le> start then Err (IoError ''Invalid argument'')
          else (case read_exact_at file start (min len (length file - start)) of
                  None \<Rightarrow> Err (IoError ''failed to fill whole buffer'')
                | Some buf \<Rightarrow> Ok (buf, length file)))"

definition file_size :: "('c, 'm) crates \<Rightarrow> geom_config \<Rightarrow> 'c \<Rightarrow> geom_tree \<Rightarrow> (nat, storage_error) result" where
  "file_size X cfg cid tree =
     (case om_get tree (block_path X cfg cid) of
        None \<Rightarrow> Err (BlockNotFound (cid_to_string X cid))
      | Some data \<Rightarrow> Ok (length data))"

definition geom_has :: "('c, 'm) crates \<Rightarrow> geom_config \<Rightarrow> 'c \<Rightarrow> geom_tree \<Rightarrow> bool" where
  "geom_has X cfg cid tree = (om_get tree (block_path X cfg cid) \<noteq> None)"

definition geom_delete :: "('c, 'm) crates \<Rightarrow> geom_config \<Rightarrow> 'c \<Rightarrow> geom_tree \<Rightarrow> (unit, storage_error) result \<times> geom_tree" where
  "geom_delete X cfg cid tree =
     (case om_get tree (block_path X cfg cid) of
        None \<Rightarrow> (Err (BlockNotFound (cid_to_string X cid)), tree)
      | Some _ \<Rightarrow> (Ok (), om_remove (block_path X cfg cid) tree))"

definition geom_list_cids :: "('c, 'm) crates \<Rightarrow> geom_tree \<Rightarrow> 'c list" where
  "geom_list_cids X tree =
     List.map_filter (\<lambda>p. Option.bind (strip_suffix (last p) FILE_EXT) (cid_parse X)) (walk_block_files tree)"

definition geom_stats :: "geom_tree \<Rightarrow> store_stats" where
  "geom_stats tree =
     (let files = walk_block_files tree
      in \<lparr>block_count = length files, total_size = sum_list (map (\<lambda>p. length (om_get_or [] tree p)) files)\<rparr>)"

definition geom_clear :: "geom_tree \<Rightarrow> geom_tree" where
  "geom_clear tree = []"

section \<open>The contract\<close>

lemma block_path_inject:
  "cid_string_law X \<Longrightarrow> block_path X cfg c = block_path X cfg c' \<longleftrightarrow> c = c'"
  by (auto simp: block_path_def cid_to_string_inject)

definition geom_look :: "('c, 'm) crates \<Rightarrow> geom_config \<Rightarrow> geom_tree \<Rightarrow> 'c \<Rightarrow> bytes option" where
  "geom_look X cfg tree c = om_get tree (block_path X cfg c)"

definition geom_inv :: "('c, 'm) crates \<Rightarrow> geom_config \<Rightarrow> nat \<Rightarrow> geom_tree \<Rightarrow> bool" where
  "geom_inv X cfg k tree \<longleftrightarrow> cid_string_law X \<and> distinct (map fst tree) \<and> fst ` set tree \<subseteq> range (block_path X cfg)"

definition geom_put1 :: "('c, 'm) crates \<Rightarrow> geom_config \<Rightarrow> 'c \<Rightarrow> bytes \<Rightarrow> geom_tree \<Rightarrow> geom_tree option" where
  "geom_put1 X cfg c d tree = ok_state (geom_put_many X cfg [\<lparr>block_cid = c, block_data = d\<rparr>] tree)"

lemma geom_put_loop_inv: "geom_inv X cfg k tree \<Longrightarrow> geom_inv X cfg k (geom_put_loop X cfg bs tree)"
proof (induction X cfg bs tree rule: geom_put_loop.induct)
  case (2 X cfg b bs tree)
  show ?case
  proof (cases "om_get tree (block_path X cfg (block_cid b))")
    case None
    moreover have "geom_inv X cfg k ((block_path X cfg (block_cid b), block_data b) # tree)"
      using 2(3) None by (auto simp: geom_inv_def om_get_def map_of_eq_None_iff)
    ultimately show ?thesis using 2 by (simp add: Let_def)
  qed (use 2 in \<open>simp add: Let_def\<close>)
qed simp

lemma geom_put_loop_look:
  assumes "cid_string_law X"
  shows "geom_look X cfg (geom_put_loop X cfg bs tree) c =
    (case geom_look X cfg tree c of Some d \<Rightarrow> Some d | None \<Rightarrow> map_of (map (\<lambda>b. (block_cid b, block_data b)) bs) c)"
proof (induction bs arbitrary: tree)
  case (Cons b bs)
  have "geom_look X cfg ((block_path X cfg (block_cid b), d) # tree) c
      = (if c = block_cid b then Some d else geom_look X cfg tree c)" for d
    using block_path_inject [OF assms] by (simp add: geom_look_def om_get_def)
  then show ?case using Cons [of tree] Cons [of "(block_path X cfg (block_cid b), block_data b) # tree"]
    by (auto simp: Let_def geom_look_def [of X cfg tree "block_cid b"] split: option.splits)
qed (simp split: option.splits)

interpretation geom: block_store "geom_inv X cfg" "\<lambda>_ _. True" "geom_look X cfg" "\<lambda>tree c. ok_data (geom_get X cfg c tree)"
  "geom_put1 X cfg" "\<lambda>c tree. ok_state (geom_delete X cfg c tree)" for X cfg
proof unfold_locales
  fix k tree c d tree' c'
  assume i: "geom_inv X cfg (Suc k) tree" and p: "geom_put1 X cfg c d tree = Some tree'"
  have t: "tree' = geom_put_loop X cfg [\<lparr>block_cid = c, block_data = d\<rparr>] tree"
    using p by (auto simp: geom_put1_def geom_put_many_def split: result.splits)
  have str: "cid_string_law X" using i by (simp add: geom_inv_def)
  have "geom_inv X cfg (Suc k) tree'" unfolding t by (rule geom_put_loop_inv [OF i])
  then show "geom_inv X cfg k tree'" by (simp add: geom_inv_def)
  show "geom_look X cfg tree' c' = (if c' = c \<and> geom_look X cfg tree c = None then Some d else geom_look X cfg tree c')"
    unfolding t geom_put_loop_look [OF str] by (auto split: option.splits)
next
  fix k tree c tree' c'
  assume i: "geom_inv X cfg k tree" and p: "ok_state (geom_delete X cfg c tree) = Some tree'"
  have str: "cid_string_law X" using i by (simp add: geom_inv_def)
  have t: "tree' = om_remove (block_path X cfg c) tree" "geom_look X cfg tree c \<noteq> None"
    using p by (auto simp: geom_delete_def geom_look_def split: option.splits)
  show "geom_inv X cfg k tree'" using i by (auto simp: geom_inv_def t(1) om_remove_def distinct_map_filter image_subset_iff split: prod.splits)
  show "geom_look X cfg tree' c' = (if c' = c then None else geom_look X cfg tree c')"
    using block_path_inject [OF str] by (auto simp: geom_look_def t(1))
  show "geom_look X cfg tree c \<noteq> None" by (rule t(2))
qed (auto simp: geom_inv_def geom_get_def geom_look_def ok_data_def split: option.splits)

section \<open>Listing\<close>

lemma ends_with_append [simp]: "ends_with (s @ t) t"
  by (simp add: ends_with_def)

lemma strip_suffix_append [simp]: "strip_suffix (s @ t) t = Some s"
  by (simp add: strip_suffix_def)

lemma last_block_path [simp]: "last (block_path X cfg c) = cid_to_string X c @ FILE_EXT" "block_path X cfg c \<noteq> []"
  by (simp_all add: block_path_def)

lemma walk_all:
  assumes "geom_inv X cfg k tree"
  shows "walk_block_files tree = map fst tree"
proof -
  have "p \<noteq> [] \<and> ends_with (last p) FILE_EXT" if p: "p \<in> set (map fst tree)" for p
  proof -
    obtain c where "p = block_path X cfg c" using assms p by (auto simp: geom_inv_def)
    then show ?thesis by simp
  qed
  then show ?thesis unfolding walk_block_files_def by (simp add: filter_id_conv)
qed

text \<open>
  The geomtree backend lists exactly what it stores: the walk over the tree finds each
  stored CID once, whatever the sharding, \<open>stats\<close> counts them and adds up their sizes, and two
  different CIDs never share a file.
\<close>

lemma geom_list_stats:
  assumes "geom_inv X cfg k tree"
  shows "set (geom_list_cids X tree) = {c. geom_look X cfg tree c \<noteq> None} \<and> distinct (geom_list_cids X tree)
    \<and> block_count (geom_stats tree) = card {c. geom_look X cfg tree c \<noteq> None}
    \<and> total_size (geom_stats tree) = (\<Sum>c \<in> {c. geom_look X cfg tree c \<noteq> None}. length (the (geom_look X cfg tree c)))
    \<and> (\<forall>c c'. block_path X cfg c = block_path X cfg c' \<longrightarrow> c = c')"
proof -
  have str: "cid_string_law X" and d: "distinct (map fst tree)" and sub: "fst ` set tree \<subseteq> range (block_path X cfg)"
    using assms by (auto simp: geom_inv_def)
  define cs where "cs = geom_list_cids X tree"
  have paths: "map fst tree = map (block_path X cfg) cs"
  proof -
    have "ps = map (block_path X cfg) (List.map_filter (\<lambda>p. Option.bind (strip_suffix (last p) FILE_EXT) (cid_parse X)) ps)"
      if "set ps \<subseteq> range (block_path X cfg)" for ps
      using that str by (induction ps) (auto simp: map_filter_simps cid_string_law_def)
    then show ?thesis using sub by (simp add: cs_def geom_list_cids_def walk_all [OF assms])
  qed
  have dc: "distinct cs" using d unfolding paths by (simp add: distinct_map)
  have sc: "set cs = {c. geom_look X cfg tree c \<noteq> None}"
  proof -
    have "c \<in> set cs \<longleftrightarrow> block_path X cfg c \<in> set (map fst tree)" for c
      unfolding paths using block_path_inject [OF str] by auto
    then show ?thesis by (auto simp: geom_look_def om_get_None_iff om_keys_def)
  qed
  have tot: "sum_list (map (\<lambda>p. length (om_get_or [] tree p)) (map fst tree)) = (\<Sum>c \<in> set cs. length (the (geom_look X cfg tree c)))"
  proof -
    have "map (\<lambda>p. length (om_get_or [] tree p)) (map fst tree) = map (\<lambda>c. length (the (geom_look X cfg tree c))) cs"
      unfolding paths using sc by (auto simp: om_get_or_def geom_look_def)
    then show ?thesis by (simp only: sum_list_distinct_conv_sum_set [OF dc])
  qed
  have len: "length (map fst tree) = card (set cs)" unfolding paths using distinct_card [OF dc] by simp
  show ?thesis
    using sc dc tot len block_path_inject [OF str] unfolding geom_stats_def walk_all [OF assms] cs_def [symmetric] Let_def
    by simp
qed

text \<open>One block in a tree of three levels.\<close>

definition demo_geom :: geom_config where
  "demo_geom = \<lparr>gc_shard_levels = 3, gc_bytes_per_level = 2, gc_verify = False\<rparr>"

end
