(* ===== verification/Block_Store.thy ===== *)
theory Block_Store
  imports DeltaFlat_Contract Delta_Contract Geom_Tree
begin

text \<open>
  \<open>BlockStore\<close> of \<open>storage.rs\<close>: the environment it reads its settings from, the choice of the
  backend, and the operations it dispatches. The environment is a map from names to values.
  Values are taken to be ASCII: \<open>trim\<close> and \<open>to_lowercase\<close> are those of ASCII text.
\<close>

section \<open>Settings\<close>

definition is_ascii_space :: "char \<Rightarrow> bool" where
  "is_ascii_space c = (of_char c = (32::nat) \<or> of_char c \<in> {9::nat, 10, 11, 12, 13})"

definition trim :: "string \<Rightarrow> string" where
  "trim s = rev (dropWhile is_ascii_space (rev (dropWhile is_ascii_space s)))"

lemma trim_id: "s \<noteq> [] \<Longrightarrow> \<not> is_ascii_space (hd s) \<Longrightarrow> \<not> is_ascii_space (last s) \<Longrightarrow> trim s = s"
  using dropWhile_eq_self_iff [of is_ascii_space s] dropWhile_eq_self_iff [of is_ascii_space "rev s"] by (simp add: trim_def hd_rev)

definition char_lower :: "char \<Rightarrow> char" where
  "char_lower c = (let n = of_char c :: nat in if 65 \<le> n \<and> n \<le> 90 then char_of (n + 32) else c)"

definition lowercase :: "string \<Rightarrow> string" where
  "lowercase s = map char_lower s"

text \<open>\<open>str::parse\<close> for an unsigned integer of \<open>w\<close> bits: an optional plus sign, then digits.\<close>

definition is_digit :: "char \<Rightarrow> bool" where
  "is_digit c = (let n = of_char c :: nat in 48 \<le> n \<and> n \<le> 57)"

fun digits_value :: "nat \<Rightarrow> string \<Rightarrow> nat" where
  "digits_value acc [] = acc"
| "digits_value acc (c # cs) = digits_value (acc * 10 + (of_char c - 48)) cs"

definition parse_uint :: "nat \<Rightarrow> string \<Rightarrow> nat option" where
  "parse_uint w s =
     (let ds = (case s of c # cs \<Rightarrow> if c = CHR ''+'' then cs else s | [] \<Rightarrow> []) in
      if ds \<noteq> [] \<and> list_all is_digit ds \<and> digits_value 0 ds < 2 ^ w then Some (digits_value 0 ds) else None)"

definition env_flag :: "(string \<rightharpoonup> string) \<Rightarrow> string \<Rightarrow> bool \<Rightarrow> bool" where
  "env_flag env name dflt =
     (case env name of
        Some v \<Rightarrow> lowercase (trim v) \<in> set [''1'', ''true'', ''yes'', ''on'']
      | None \<Rightarrow> dflt)"

definition env_usize :: "(string \<rightharpoonup> string) \<Rightarrow> string \<Rightarrow> nat \<Rightarrow> nat" where
  "env_usize env name dflt =
     (case Option.bind (env name) (parse_uint 64) of
        Some v \<Rightarrow> if 0 < v then v else dflt
      | None \<Rightarrow> dflt)"

definition env_u64 :: "(string \<rightharpoonup> string) \<Rightarrow> string \<Rightarrow> nat \<Rightarrow> nat" where
  "env_u64 env name dflt =
     (case Option.bind (env name) (parse_uint 64) of
        Some v \<Rightarrow> if 0 < v then v else dflt
      | None \<Rightarrow> dflt)"

definition verify_blocks_env :: "(string \<rightharpoonup> string) \<Rightarrow> bool" where
  "verify_blocks_env env = env_flag env ''NEVERUST_VERIFY_BLOCKS_ON_WRITE'' False"

definition clamp :: "nat \<Rightarrow> nat \<Rightarrow> nat \<Rightarrow> nat" where
  "clamp lo hi x = min hi (max lo x)"

section \<open>Choosing and opening a backend\<close>

datatype backend_kind = RedbKind | DeltaKind | FlatKind | GeomKind

definition backend_of_name :: "string \<Rightarrow> backend_kind" where
  "backend_of_name name =
     (let backend = lowercase name in
      if backend \<in> set [''deltastore'', ''delta'', ''delta-store''] then DeltaKind
      else if backend \<in> set [''deltaflat'', ''delta-flat'', ''deltastore-flat''] then FlatKind
      else if backend = ''geomtree'' then GeomKind
      else RedbKind)"

definition backend_of_env :: "(string \<rightharpoonup> string) \<Rightarrow> backend_kind" where
  "backend_of_env env =
     backend_of_name (lowercase (case env ''NEVERUST_STORAGE_BACKEND'' of Some v \<Rightarrow> v | None \<Rightarrow> ''redb''))"

definition open_delta_config :: "(string \<rightharpoonup> string) \<Rightarrow> delta_config" where
  "open_delta_config env =
     \<lparr>dc_max_file_bytes = max (env_u64 env ''NEVERUST_DELTASTORE_MAX_FILE_BYTES'' (1024 * 1024 * 1024)) (last DELTA_SIZE_CLASSES),
      dc_skip_exists_check = env_flag env ''NEVERUST_DELTASTORE_SKIP_EXISTS_CHECK'' False,
      dc_verify = verify_blocks_env env\<rparr>"

text \<open>\<open>cpus\<close> is the available parallelism; \<open>None\<close> when the system does not tell.\<close>

definition open_flat_config :: "(string \<rightharpoonup> string) \<Rightarrow> nat option \<Rightarrow> flat_config" where
  "open_flat_config env cpus =
     (let default_lanes = clamp 1 16 (case cpus of Some n \<Rightarrow> n | None \<Rightarrow> 8) in
      \<lparr>max_file_bytes = max (env_u64 env ''NEVERUST_DELTAFLAT_MAX_FILE_BYTES'' (1024 * 1024 * 1024)) (last DELTA_SIZE_CLASSES),
       max_probe_steps = max (env_usize env ''NEVERUST_DELTAFLAT_MAX_PROBE_STEPS'' 16384) 1 mod 2 ^ 32,
       lane_count = clamp 1 4096 (env_usize env ''NEVERUST_DELTAFLAT_LANES'' default_lanes),
       skip_exists_check = env_flag env ''NEVERUST_DELTAFLAT_SKIP_EXISTS_CHECK'' False,
       initial_level = env_usize env ''NEVERUST_DELTAFLAT_INITIAL_LEVEL'' 12,
       verify_blocks_on_write = verify_blocks_env env\<rparr>)"

definition open_geom_config :: "(string \<rightharpoonup> string) \<Rightarrow> geom_config" where
  "open_geom_config env =
     \<lparr>gc_shard_levels = clamp 1 8 (env_usize env ''NEVERUST_GEOMTREE_SHARD_LEVELS'' 3),
      gc_bytes_per_level = clamp 1 8 (env_usize env ''NEVERUST_GEOMTREE_BYTES_PER_LEVEL'' 2),
      gc_verify = verify_blocks_env env\<rparr>"

section \<open>Dispatch\<close>

datatype 't store_backend = RedbB 't | DeltaB "'t delta_store" | FlatB flat_store | GeomB geom_tree

record 't store_cfg =
  sc_redb :: "'t redb"
  sc_verify :: bool
  sc_delta :: delta_config
  sc_flat :: flat_config
  sc_geom :: geom_config

fun store_put_many ::
  "('c, 'm) crates \<Rightarrow> 't store_cfg \<Rightarrow> 'c block list \<Rightarrow> 't store_backend \<Rightarrow> (unit, storage_error) result \<times> 't store_backend" where
  "store_put_many X C blocks (RedbB t) = map_prod id RedbB (redb_put_many X (sc_redb C) (sc_verify C) blocks t)"
| "store_put_many X C blocks (DeltaB ds) = map_prod id DeltaB (delta_put_many X (sc_redb C) (sc_delta C) blocks ds)"
| "store_put_many X C blocks (FlatB st) = map_prod id FlatB (flat_put_many X (sc_flat C) blocks st)"
| "store_put_many X C blocks (GeomB tree) = map_prod id GeomB (geom_put_many X (sc_geom C) blocks tree)"

definition store_put ::
  "('c, 'm) crates \<Rightarrow> 't store_cfg \<Rightarrow> 'c block \<Rightarrow> 't store_backend \<Rightarrow> (unit, storage_error) result \<times> 't store_backend" where
  "store_put X C b s = store_put_many X C [b] s"

definition store_put_data ::
  "('c, 'm) crates \<Rightarrow> 't store_cfg \<Rightarrow> bytes \<Rightarrow> 't store_backend \<Rightarrow> ('c, storage_error) result \<times> 't store_backend" where
  "store_put_data X C data s =
     (case map_err VerificationFailed (block_new X data) of
        Err e \<Rightarrow> (Err e, s)
      | Panic \<Rightarrow> (Panic, s)
      | Ok b \<Rightarrow> (case store_put X C b s of (r, s') \<Rightarrow> (rbind r (\<lambda>_. Ok (block_cid b)), s')))"

fun store_get :: "('c, 'm) crates \<Rightarrow> 't store_cfg \<Rightarrow> 'c \<Rightarrow> 't store_backend \<Rightarrow> ('c block, storage_error) result" where
  "store_get X C cid (RedbB t) = redb_get X (sc_redb C) cid t"
| "store_get X C cid (DeltaB ds) = delta_get X (sc_redb C) cid ds"
| "store_get X C cid (FlatB st) = flat_get X (sc_flat C) cid st"
| "store_get X C cid (GeomB tree) = geom_get X (sc_geom C) cid tree"

text \<open>The range of a block that was loaded in full.\<close>

definition range_of_block :: "nat \<Rightarrow> nat \<Rightarrow> 'c block \<Rightarrow> (bytes \<times> nat, storage_error) result" where
  "range_of_block start len b =
     (let total = length (block_data b) in
      rbind (padd 64 start len) (\<lambda>e0.
        let e = min e0 total
        in Ok (if start < total then subvec start e (block_data b) else [], total)))"

fun store_get_range ::
  "('c, 'm) crates \<Rightarrow> 't store_cfg \<Rightarrow> 'c \<Rightarrow> nat \<Rightarrow> nat \<Rightarrow> 't store_backend \<Rightarrow> (bytes \<times> nat, storage_error) result" where
  "store_get_range X C cid start len (GeomB tree) = geom_get_range X (sc_geom C) cid start len tree"
| "store_get_range X C cid start len s = rbind (store_get X C cid s) (range_of_block start len)"

fun store_block_size :: "('c, 'm) crates \<Rightarrow> 't store_cfg \<Rightarrow> 'c \<Rightarrow> 't store_backend \<Rightarrow> (nat, storage_error) result" where
  "store_block_size X C cid (GeomB tree) = file_size X (sc_geom C) cid tree"
| "store_block_size X C cid s = rbind (store_get X C cid s) (\<lambda>b. Ok (length (block_data b)))"

fun store_has :: "('c, 'm) crates \<Rightarrow> 't store_cfg \<Rightarrow> 'c \<Rightarrow> 't store_backend \<Rightarrow> bool" where
  "store_has X C cid (RedbB t) = redb_has X (sc_redb C) cid t"
| "store_has X C cid (DeltaB ds) = delta_has X (sc_redb C) cid ds"
| "store_has X C cid (FlatB st) = flat_has X (sc_flat C) cid st"
| "store_has X C cid (GeomB tree) = geom_has X (sc_geom C) cid tree"

fun store_delete ::
  "('c, 'm) crates \<Rightarrow> 't store_cfg \<Rightarrow> 'c \<Rightarrow> 't store_backend \<Rightarrow> (unit, storage_error) result \<times> 't store_backend" where
  "store_delete X C cid (RedbB t) = map_prod id RedbB (redb_delete X (sc_redb C) cid t)"
| "store_delete X C cid (DeltaB ds) = map_prod id DeltaB (delta_delete X (sc_redb C) cid ds)"
| "store_delete X C cid (FlatB st) = map_prod id FlatB (flat_delete X (sc_flat C) cid st)"
| "store_delete X C cid (GeomB tree) = map_prod id GeomB (geom_delete X (sc_geom C) cid tree)"

fun store_list_cids :: "('c, 'm) crates \<Rightarrow> 't store_cfg \<Rightarrow> 't store_backend \<Rightarrow> 'c list" where
  "store_list_cids X C (RedbB t) = redb_list_cids X (sc_redb C) t"
| "store_list_cids X C (DeltaB ds) = delta_list_cids X (sc_redb C) ds"
| "store_list_cids X C (FlatB st) = flat_list_cids X (sc_flat C) st"
| "store_list_cids X C (GeomB tree) = geom_list_cids X tree"

fun store_stats_of :: "'t store_cfg \<Rightarrow> 't store_backend \<Rightarrow> store_stats" where
  "store_stats_of C (RedbB t) = redb_stats (sc_redb C) t"
| "store_stats_of C (DeltaB ds) = delta_stats (sc_redb C) ds"
| "store_stats_of C (FlatB st) = (case flat_stats (sc_flat C) st of (n, sz) \<Rightarrow> \<lparr>block_count = n, total_size = sz\<rparr>)"
| "store_stats_of C (GeomB tree) = geom_stats tree"

fun store_clear :: "'t store_cfg \<Rightarrow> 't store_backend \<Rightarrow> 't store_backend" where
  "store_clear C (RedbB t) = RedbB (redb_clear (sc_redb C) t)"
| "store_clear C (DeltaB ds) = DeltaB (delta_clear (sc_redb C) ds)"
| "store_clear C (FlatB st) = FlatB (flat_clear st)"
| "store_clear C (GeomB tree) = GeomB (geom_clear tree)"

section \<open>The contract\<close>

fun store_inv :: "('c, 'm) crates \<Rightarrow> 't store_cfg \<Rightarrow> ('c \<Rightarrow> nat) \<Rightarrow> nat \<Rightarrow> 't store_backend \<Rightarrow> bool" where
  "store_inv X C dsize k (RedbB t) = redb_inv X (sc_redb C) k t"
| "store_inv X C dsize k (DeltaB ds) = delta_inv X (sc_redb C) (sc_delta C) k ds"
| "store_inv X C dsize k (FlatB st) = flat_inv X (sc_flat C) dsize k st"
| "store_inv X C dsize k (GeomB tree) = geom_inv X (sc_geom C) k tree"

fun store_look :: "('c, 'm) crates \<Rightarrow> 't store_cfg \<Rightarrow> 't store_backend \<Rightarrow> 'c \<Rightarrow> bytes option" where
  "store_look X C (RedbB t) = redb_look X (sc_redb C) t"
| "store_look X C (DeltaB ds) = delta_look X (sc_redb C) ds"
| "store_look X C (FlatB st) = flat_lookup X (sc_flat C) st"
| "store_look X C (GeomB tree) = geom_look X (sc_geom C) tree"

definition store_put1 :: "('c, 'm) crates \<Rightarrow> 't store_cfg \<Rightarrow> 'c \<Rightarrow> bytes \<Rightarrow> 't store_backend \<Rightarrow> 't store_backend option" where
  "store_put1 X C c d s = ok_state (store_put X C \<lparr>block_cid = c, block_data = d\<rparr> s)"

lemma ok_state_map [simp]: "ok_state (map_prod id f p) = map_option f (ok_state p)"
  by (cases p) (auto simp: ok_state_def split: result.splits)

lemma store_put1_simps:
  "store_put1 X C c d (RedbB t) = map_option RedbB (redb_put1 X (sc_redb C) (sc_verify C) c d t)"
  "store_put1 X C c d (DeltaB ds) = map_option DeltaB (delta_put1 X (sc_redb C) (sc_delta C) c d ds)"
  "store_put1 X C c d (FlatB st) = map_option FlatB (flat_put1 X (sc_flat C) c d st)"
  "store_put1 X C c d (GeomB tree) = map_option GeomB (geom_put1 X (sc_geom C) c d tree)"
  by (simp_all add: store_put1_def store_put_def redb_put1_def delta_put1_def flat_put1_def geom_put1_def)

lemma store_put_step:
  assumes "store_inv X C dsize (Suc k) s" "length d = dsize c" "store_put1 X C c d s = Some s'"
  shows "store_inv X C dsize k s' \<and>
    store_look X C s' c' = (if c' = c \<and> store_look X C s c = None then Some d else store_look X C s c')"
proof (cases s)
  case (RedbB t)
  then obtain u where u: "redb_put1 X (sc_redb C) (sc_verify C) c d t = Some u" "s' = RedbB u" using assms(3) by (auto simp: store_put1_simps)
  have i: "redb_inv X (sc_redb C) (Suc k) t" using assms(1) RedbB by simp
  show ?thesis using redb.put_inv [OF i TrueI u(1)] redb.put_look [OF i TrueI u(1), of c'] u(2) RedbB by simp
next
  case (DeltaB ds)
  then obtain u where u: "delta_put1 X (sc_redb C) (sc_delta C) c d ds = Some u" "s' = DeltaB u" using assms(3) by (auto simp: store_put1_simps)
  have i: "delta_inv X (sc_redb C) (sc_delta C) (Suc k) ds" using assms(1) DeltaB by simp
  show ?thesis using delta.put_inv [OF i TrueI u(1)] delta.put_look [OF i TrueI u(1), of c'] u(2) DeltaB by simp
next
  case (FlatB st)
  then obtain u where u: "flat_put1 X (sc_flat C) c d st = Some u" "s' = FlatB u" using assms(3) by (auto simp: store_put1_simps)
  have i: "flat_inv X (sc_flat C) dsize (Suc k) st" using assms(1) FlatB by simp
  show ?thesis using flat.put_inv [OF i assms(2) u(1)] flat.put_look [OF i assms(2) u(1), of c'] u(2) FlatB by simp
next
  case (GeomB tree)
  then obtain u where u: "geom_put1 X (sc_geom C) c d tree = Some u" "s' = GeomB u" using assms(3) by (auto simp: store_put1_simps)
  have i: "geom_inv X (sc_geom C) (Suc k) tree" using assms(1) GeomB by simp
  show ?thesis using geom.put_inv [OF i TrueI u(1)] geom.put_look [OF i TrueI u(1), of c'] u(2) GeomB by simp
qed

lemma store_del_step:
  assumes "store_inv X C dsize k s" "ok_state (store_delete X C c s) = Some s'"
  shows "store_inv X C dsize k s' \<and> store_look X C s' c' = (if c' = c then None else store_look X C s c')
    \<and> store_look X C s c \<noteq> None"
proof (cases s)
  case (RedbB t)
  then obtain u where u: "ok_state (redb_delete X (sc_redb C) c t) = Some u" "s' = RedbB u" using assms(2) by auto
  have i: "redb_inv X (sc_redb C) k t" using assms(1) RedbB by simp
  show ?thesis using redb.del_inv [OF i u(1)] redb.del_look [OF i u(1), of c'] redb.del_present [OF i u(1)] u(2) RedbB by simp
next
  case (DeltaB ds)
  then obtain u where u: "ok_state (delta_delete X (sc_redb C) c ds) = Some u" "s' = DeltaB u" using assms(2) by auto
  have i: "delta_inv X (sc_redb C) (sc_delta C) k ds" using assms(1) DeltaB by simp
  show ?thesis using delta.del_inv [OF i u(1)] delta.del_look [OF i u(1), of c'] delta.del_present [OF i u(1)] u(2) DeltaB by simp
next
  case (FlatB st)
  then obtain u where u: "ok_state (flat_delete X (sc_flat C) c st) = Some u" "s' = FlatB u" using assms(2) by auto
  have i: "flat_inv X (sc_flat C) dsize k st" using assms(1) FlatB by simp
  show ?thesis using flat.del_inv [OF i u(1)] flat.del_look [OF i u(1), of c'] flat.del_present [OF i u(1)] u(2) FlatB by simp
next
  case (GeomB tree)
  then obtain u where u: "ok_state (geom_delete X (sc_geom C) c tree) = Some u" "s' = GeomB u" using assms(2) by auto
  have i: "geom_inv X (sc_geom C) k tree" using assms(1) GeomB by simp
  show ?thesis using geom.del_inv [OF i u(1)] geom.del_look [OF i u(1), of c'] geom.del_present [OF i u(1)] u(2) GeomB by simp
qed

lemma store_get_Some:
  assumes "store_inv X C dsize k s" "ok_data (store_get X C c s) = Some d"
  shows "store_look X C s c = Some d"
proof (cases s)
  case (RedbB t)
  then show ?thesis using assms redb.get_look [of X "sc_redb C" k t c d] by simp
next
  case (DeltaB ds)
  then show ?thesis using assms delta.get_look [of X "sc_redb C" "sc_delta C" k ds c d] by simp
next
  case (FlatB st)
  then show ?thesis using assms flat.get_look [of X "sc_flat C" dsize k st c d] by simp
next
  case (GeomB tree)
  then show ?thesis using assms geom.get_look [of X "sc_geom C" k tree c d] by simp
qed

lemma store_inv_le: "store_inv X C dsize k s \<Longrightarrow> j \<le> k \<Longrightarrow> store_inv X C dsize j s"
  by (cases s) (auto intro: redb.inv_le delta.inv_le flat.inv_le geom.inv_le)

interpretation store: block_store "store_inv X C dsize" "\<lambda>c d. length d = dsize c" "store_look X C"
  "\<lambda>s c. ok_data (store_get X C c s)" "store_put1 X C" "\<lambda>c s. ok_state (store_delete X C c s)" for X C dsize
  by unfold_locales (blast dest: store_put_step store_del_step store_get_Some store_inv_le)+

section \<open>Reads\<close>

lemma rbind_case: "rbind x f = (case x of Ok a \<Rightarrow> f a | Err e \<Rightarrow> Err e | Panic \<Rightarrow> Panic)"
  by (cases x) auto

lemma store_get_cid: "store_get X C c s = Ok b \<Longrightarrow> block_cid b = c"
proof (cases s)
  case (FlatB st)
  have "flat_get_loop X c lane cs st = Ok b \<Longrightarrow> block_cid b = c" for lane cs
    by (induction cs) (auto simp: rbind_case split: option.splits result.splits)
  then show "store_get X C c s = Ok b \<Longrightarrow> block_cid b = c" using FlatB by (auto simp: flat_get_def)
next
  case (DeltaB ds)
  assume g: "store_get X C c s = Ok b"
  have "delta_get X R c ds = Ok b \<Longrightarrow> block_cid b = c" for R
    unfolding delta_get_def Let_def
    by (auto simp: rbind_case split: if_splits option.splits result.splits)
  then show "block_cid b = c" using DeltaB g by simp
qed (auto simp: redb_get_def geom_get_def split: if_splits option.splits)

lemma store_get_NotFound:
  assumes "store_inv X C dsize k s" "store_get X C c s = Err (BlockNotFound x)"
  shows "store_look X C s c = None"
proof (cases s)
  case (RedbB t)
  then show ?thesis
    using assms redb_lawD(1) [of "sc_redb C" t "cid_to_string X c"]
    by (auto simp: redb_get_def redb_look_def redb_inv_def db_err_def split: if_splits option.splits)
next
  case (DeltaB ds)
  have law: "redb_law (sc_redb C)" and ok: "readable (rd_view (sc_redb C) (ds_index ds)) (ds_files ds)"
    using assms(1) DeltaB by (auto simp: delta_inv_def delta_ok_def)
  show ?thesis
  proof (cases "rd_view (sc_redb C) (ds_index ds) (cid_to_string X c)")
    case None
    then show ?thesis using DeltaB by (simp add: delta_look_def delta_data_def key_data_def)
  next
    case (Some v)
    then have "loc_data (ds_files ds) v \<noteq> None" using ok unfolding readable_def by blast
    then have "delta_get X (sc_redb C) c ds \<noteq> Err (BlockNotFound x)"
      using Some redb_lawD(1) [OF law, of "ds_index ds" "cid_to_string X c"]
      by (auto simp: delta_get_def Let_def loc_data_def db_err_def bind_eq_Some_conv split: option.splits result.splits)
    then show ?thesis using assms(2) DeltaB by simp
  qed
next
  case (FlatB st)
  then show ?thesis using assms flat_get_data [of X "sc_flat C" dsize k st c] by (simp add: ok_data_def)
next
  case (GeomB tree)
  then show ?thesis using assms by (auto simp: geom_get_def geom_look_def split: option.splits)
qed

lemma store_has_look:
  assumes "store_inv X C dsize k s" "store_has X C c s"
  shows "store_look X C s c \<noteq> None"
proof (cases s)
  case (RedbB t)
  then show ?thesis
    using assms redb_lawD(1) [of "sc_redb C" t "cid_to_string X c"]
    by (auto simp: redb_has_def redb_look_def redb_inv_def split: option.splits)
next
  case (DeltaB ds)
  have law: "redb_law (sc_redb C)" and ok: "readable (rd_view (sc_redb C) (ds_index ds)) (ds_files ds)"
    using assms(1) DeltaB by (auto simp: delta_inv_def delta_ok_def)
  have "rd_view (sc_redb C) (ds_index ds) (cid_to_string X c) \<noteq> None"
    using assms(2) DeltaB redb_lawD(1) [OF law, of "ds_index ds" "cid_to_string X c"]
    by (auto simp: delta_has_def redb_has_def split: option.splits)
  then show ?thesis using key_data_None [OF ok] DeltaB by (simp add: delta_look_def delta_data_def)
next
  case (FlatB st)
  obtain n where "store_ok X n st" using assms(1) FlatB by (auto simp: flat_inv_def)
  then show ?thesis using assms(2) FlatB by (simp add: flat_has_spec)
next
  case (GeomB tree)
  then show ?thesis using assms(2) by (simp add: geom_has_def geom_look_def)
qed


text \<open>
  Range reads agree on every backend: for an offset below \<open>2^63\<close> whose end fits in 64 bits,
  \<open>get_range\<close> returns the bytes of the block between \<open>start\<close> and \<open>start + len\<close>, cut at its end,
  and its size, and fails exactly as \<open>get\<close> does; \<open>block_size\<close> returns that size.
\<close>

lemma get_range_agrees:
  assumes "start < 2 ^ 63" "start + len < 2 ^ 64"
  shows "store_get_range X C c start len s =
      rbind (store_get X C c s) (\<lambda>b. Ok (take len (drop start (block_data b)), length (block_data b)))
    \<and> store_block_size X C c s = rbind (store_get X C c s) (\<lambda>b. Ok (length (block_data b)))"
proof -
  have r: "range_of_block start len = (\<lambda>b :: 'a block. Ok (take len (drop start (block_data b)), length (block_data b)))"
    by (rule ext) (use assms(2) in \<open>auto simp: range_of_block_def padd_def Let_def subvec_def min_def\<close>)
  have g: "geom_get_range X cfg c start len tree
    = rbind (geom_get X cfg c tree) (\<lambda>b. Ok (take len (drop start (block_data b)), length (block_data b)))" for cfg tree
  proof (cases "om_get tree (block_path X cfg c)")
    case (Some f)
    have "read_exact_at f start (min len (length f - start)) = Some (take len (drop start f))"
      by (auto simp: read_exact_at_def subvec_def min_def not_le)
    then show ?thesis using Some assms(1) by (simp add: geom_get_range_def geom_get_def)
  qed (simp add: geom_get_range_def geom_get_def)
  show ?thesis
    by (cases s) (simp_all add: r g file_size_def geom_get_def split: option.splits)
qed

text \<open>
  Verification on write: with \<open>NEVERUST_VERIFY_BLOCKS_ON_WRITE\<close> set, a batch is stored only
  if the data of each of its blocks of codec 0xcd02 has that block's BLAKE3 CID; otherwise every
  backend answers \<open>VerificationFailed\<close> and keeps its state.
\<close>

lemma put_many_verifies:
  assumes "sc_verify C" "dc_verify (sc_delta C)" "verify_blocks_on_write (sc_flat C)" "gc_verify (sc_geom C)"
    and "store_put_many X C blocks s = (r, s')"
  shows "(r = Ok () \<longrightarrow> (\<forall>b \<in> set blocks. cid_codec X (block_cid b) = 0xcd02 \<longrightarrow> verify_blake3 X (block_data b) (block_cid b) = Ok ()))
    \<and> (\<forall>b \<in> set blocks. \<forall>e. cid_codec X (block_cid b) = 0xcd02 \<and> verify_blake3 X (block_data b) (block_cid b) = Err e \<longrightarrow>
         s' = s \<and> r \<noteq> Ok ())"
proof -
  have v: "verify_on_write X True bs = Ok () \<longleftrightarrow>
      (\<forall>b \<in> set bs. cid_codec X (block_cid b) = 0xcd02 \<longrightarrow> verify_blake3 X (block_data b) (block_cid b) = Ok ())" for bs
    by (induction bs) (auto simp: result_simps)
  define w where "w = verify_on_write X True blocks"
  have "w = Ok () \<or> blocks = [] \<or> (s' = s \<and> r \<noteq> Ok ())"
    using assms unfolding w_def
    by (cases s; cases "verify_on_write X True blocks")
      (auto simp: redb_put_many_def delta_put_many_def flat_put_many_def geom_put_many_def)
  then show ?thesis using v [of blocks] unfolding w_def by fastforce
qed

section \<open>Concrete stores\<close>

text \<open>A configuration, and an empty store of each kind.\<close>

definition demo_store :: "(string \<times> bytes) list store_cfg" where
  "demo_store = \<lparr>sc_redb = demo_redb True, sc_verify = True, sc_delta = demo_delta\<lparr>dc_verify := True\<rparr>,
     sc_flat = demo_flat\<lparr>verify_blocks_on_write := True\<rparr>, sc_geom = demo_geom\<lparr>gc_verify := True\<rparr>\<rparr>"

definition demo_cmds :: "(nat \<times> nat \<times> bytes) store_cmd list" where
  "demo_cmds = [PutCmd (1, 2, []) [7, 8], PutCmd (1, 2, []) [9, 9], PutCmd (3, 2, []) [5, 6], DelCmd (3, 2, [])]"


end
