(* ===== verification/Wire_Codec.thy ===== *)
theory Wire_Codec
  imports Crates
begin

text \<open>
  A small library of self-delimiting encodings: each value is written in front of any rest and
  read back from there. The protobuf crate \<open>prost\<close> is a parameter of the components that use
  it; this library gives a concrete codec for their message types, at which the witnesses show
  that what they assume of \<open>prost\<close> can hold.
\<close>

definition self_delimiting :: "('a \<Rightarrow> bytes) \<Rightarrow> (bytes \<Rightarrow> ('a \<times> bytes) option) \<Rightarrow> bool" where
  "self_delimiting f g \<longleftrightarrow> (\<forall>x r. g (f x @ r) = Some (x, r))"

definition read_whole :: "(bytes \<Rightarrow> ('a \<times> bytes) option) \<Rightarrow> bytes \<Rightarrow> 'a option" where
  "read_whole g bs = (case g bs of Some (x, []) \<Rightarrow> Some x | _ \<Rightarrow> None)"

lemma read_whole_put: "self_delimiting f g \<Longrightarrow> read_whole g (f x) = Some x"
  unfolding self_delimiting_def read_whole_def by (metis (no_types, lifting) append_Nil2 list.simps(4) option.simps(5) prod.simps(2))

definition w_bytes :: "bytes \<Rightarrow> bytes" where
  "w_bytes bs = demo_varint (length bs) @ bs"

definition r_bytes :: "bytes \<Rightarrow> (bytes \<times> bytes) option" where
  "r_bytes s = Option.bind (demo_read_varint s) (\<lambda>(n, r). if n \<le> length r then Some (take n r, drop n r) else None)"

definition w_string :: "string \<Rightarrow> bytes" where
  "w_string s = w_bytes (ascii s)"

definition r_string :: "bytes \<Rightarrow> (string \<times> bytes) option" where
  "r_string s = map_option (apfst (map (\<lambda>b. char_of (unat b)))) (r_bytes s)"

definition w_pair :: "('a \<Rightarrow> bytes) \<Rightarrow> ('b \<Rightarrow> bytes) \<Rightarrow> 'a \<times> 'b \<Rightarrow> bytes" where
  "w_pair f g = (\<lambda>(x, y). f x @ g y)"

definition r_pair :: "(bytes \<Rightarrow> ('a \<times> bytes) option) \<Rightarrow> (bytes \<Rightarrow> ('b \<times> bytes) option) \<Rightarrow> bytes \<Rightarrow> (('a \<times> 'b) \<times> bytes) option" where
  "r_pair f g s = Option.bind (f s) (\<lambda>(x, r). Option.bind (g r) (\<lambda>(y, r'). Some ((x, y), r')))"

definition w_option :: "('a \<Rightarrow> bytes) \<Rightarrow> 'a option \<Rightarrow> bytes" where
  "w_option f x = (case x of None \<Rightarrow> [0] | Some y \<Rightarrow> 1 # f y)"

fun r_option :: "(bytes \<Rightarrow> ('a \<times> bytes) option) \<Rightarrow> bytes \<Rightarrow> ('a option \<times> bytes) option" where
  "r_option f [] = None"
| "r_option f (b # s) = (if b = 0 then Some (None, s) else map_option (apfst Some) (f s))"

fun w_list :: "('a \<Rightarrow> bytes) \<Rightarrow> 'a list \<Rightarrow> bytes" where
  "w_list f xs = demo_varint (length xs) @ concat (map f xs)"

fun r_times :: "(bytes \<Rightarrow> ('a \<times> bytes) option) \<Rightarrow> nat \<Rightarrow> bytes \<Rightarrow> ('a list \<times> bytes) option" where
  "r_times f 0 s = Some ([], s)"
| "r_times f (Suc n) s = Option.bind (f s) (\<lambda>(x, r). Option.bind (r_times f n r) (\<lambda>(xs, r'). Some (x # xs, r')))"

definition r_list :: "(bytes \<Rightarrow> ('a \<times> bytes) option) \<Rightarrow> bytes \<Rightarrow> ('a list \<times> bytes) option" where
  "r_list f s = Option.bind (demo_read_varint s) (\<lambda>(n, r). r_times f n r)"

text \<open>A codec for a type given by a bijection onto one that has a codec.\<close>

definition w_iso :: "('b \<Rightarrow> 'a) \<Rightarrow> ('a \<Rightarrow> bytes) \<Rightarrow> 'b \<Rightarrow> bytes" where
  "w_iso to f x = f (to x)"

definition r_iso :: "('a \<Rightarrow> 'b) \<Rightarrow> (bytes \<Rightarrow> ('a \<times> bytes) option) \<Rightarrow> bytes \<Rightarrow> ('b \<times> bytes) option" where
  "r_iso from f s = map_option (apfst from) (f s)"

lemma varint_codec: "self_delimiting demo_varint demo_read_varint"
  by (simp add: self_delimiting_def)

lemma bytes_codec: "self_delimiting w_bytes r_bytes"
  by (simp add: self_delimiting_def w_bytes_def r_bytes_def)

lemma string_codec: "self_delimiting w_string r_string"
proof -
  have "map ((\<lambda>b. char_of (unat b)) \<circ> (\<lambda>c. word_of_nat (of_char c) :: u8)) x = x" for x
    by (simp add: comp_def)
  then show ?thesis using bytes_codec by (simp add: self_delimiting_def r_string_def w_string_def ascii_def)
qed

lemma pair_codec: "self_delimiting f f' \<Longrightarrow> self_delimiting g g' \<Longrightarrow> self_delimiting (w_pair f g) (r_pair f' g')"
  by (auto simp: self_delimiting_def w_pair_def r_pair_def)

lemma option_codec: "self_delimiting f f' \<Longrightarrow> self_delimiting (w_option f) (r_option f')"
  by (auto simp: self_delimiting_def w_option_def split: option.splits)

lemma list_codec:
  assumes "self_delimiting f f'"
  shows "self_delimiting (w_list f) (r_list f')"
proof -
  have "r_times f' (length xs) (concat (map f xs) @ r) = Some (xs, r)" for xs r
    using assms by (induction xs) (simp_all add: self_delimiting_def)
  then show ?thesis by (simp add: self_delimiting_def r_list_def)
qed

lemma iso_codec: "self_delimiting f f' \<Longrightarrow> (\<And>x. from (to x) = x) \<Longrightarrow> self_delimiting (w_iso to f) (r_iso from f')"
  by (auto simp: self_delimiting_def w_iso_def r_iso_def)

lemmas wire_codecs = pair_codec option_codec list_codec varint_codec bytes_codec string_codec

end
