(* ===== verification/Manifest.thy ===== *)
theory Manifest
  imports Storage_Base Wire_Codec
begin

text \<open>
  \<open>manifest.rs\<close>: the description of a dataset, its protobuf form and its block. The protobuf
  crate \<open>prost\<close> is a parameter: the four calls the code makes, on the message types the code
  declares (\<open>Header\<close>, wrapped in \<open>DagPbNode\<close>). \<open>prost_law\<close> is its documented behaviour:
  encoding into a growing vector does not fail, and decoding inverts it.
\<close>

datatype strategy_type = SteppedStrategy | LinearStrategy

record 'c verification_info =
  vi_verify_root :: 'c
  vi_slot_roots :: "'c list"
  vi_cell_size :: nat
  vi_verifiable_strategy :: strategy_type

record 'c erasure_info =
  ei_ec_k :: nat
  ei_ec_m :: nat
  ei_original_tree_cid :: 'c
  ei_original_dataset_size :: nat
  ei_protected_strategy :: strategy_type
  ei_verification :: "'c verification_info option"

record 'c manifest =
  m_tree_cid :: 'c
  m_block_size :: nat
  m_dataset_size :: nat
  m_codec :: nat
  m_hcodec :: nat
  m_version :: nat
  m_filename :: "string option"
  m_mimetype :: "string option"
  m_erasure :: "'c erasure_info option"

datatype manifest_error = EncodeError | DecodeError | ManifestCidError string | InvalidManifest string | MultihashError string

definition MANIFEST_CODEC :: nat where "MANIFEST_CODEC = 0xcd01"
definition BLOCK_CODEC :: nat where "BLOCK_CODEC = 0xcd02"
definition SHA256_CODEC :: nat where "SHA256_CODEC = 0x12"
definition BLAKE3_CODEC :: nat where "BLAKE3_CODEC = 0x1e"

section \<open>The protobuf messages\<close>

record proto_verification =
  pv_verify_root :: bytes
  pv_slot_roots :: "bytes list"
  pv_cell_size :: nat
  pv_verifiable_strategy :: nat

record proto_erasure =
  pe_ec_k :: nat
  pe_ec_m :: nat
  pe_original_tree_cid :: bytes
  pe_original_dataset_size :: nat
  pe_protected_strategy :: nat
  pe_verification :: "proto_verification option"

record proto_header =
  ph_tree_cid :: bytes
  ph_block_size :: nat
  ph_dataset_size :: nat
  ph_codec :: nat
  ph_hcodec :: nat
  ph_version :: nat
  ph_erasure :: "proto_erasure option"
  ph_filename :: string
  ph_mimetype :: string

record prost =
  pr_encode_header :: "proto_header \<Rightarrow> bytes option"
  pr_decode_header :: "bytes \<Rightarrow> proto_header option"
  pr_encode_node :: "bytes \<Rightarrow> bytes option"
  pr_decode_node :: "bytes \<Rightarrow> bytes option"

definition prost_law :: "prost \<Rightarrow> bool" where
  "prost_law P \<longleftrightarrow>
     (\<forall>h. \<exists>bs. pr_encode_header P h = Some bs \<and> pr_decode_header P bs = Some h)
   \<and> (\<forall>d. \<exists>bs. pr_encode_node P d = Some bs \<and> pr_decode_node P bs = Some d)"

section \<open>Manifests\<close>

fun strategy_from :: "nat \<Rightarrow> strategy_type" where
  "strategy_from n = (if n = 0 then SteppedStrategy else if n = 1 then LinearStrategy else SteppedStrategy)"

fun strategy_as :: "strategy_type \<Rightarrow> nat" where
  "strategy_as SteppedStrategy = 0"
| "strategy_as LinearStrategy = 1"

definition manifest_new ::
  "'c \<Rightarrow> nat \<Rightarrow> nat \<Rightarrow> nat option \<Rightarrow> nat option \<Rightarrow> nat option \<Rightarrow> string option \<Rightarrow> string option \<Rightarrow> 'c manifest" where
  "manifest_new tree_cid block_size dataset_size codec hcodec version filename mimetype =
     \<lparr>m_tree_cid = tree_cid, m_block_size = block_size, m_dataset_size = dataset_size,
      m_codec = case_option BLOCK_CODEC id codec, m_hcodec = case_option BLAKE3_CODEC id hcodec,
      m_version = case_option 1 id version, m_filename = filename, m_mimetype = mimetype, m_erasure = None\<rparr>"

definition new_protected ::
  "'c \<Rightarrow> nat \<Rightarrow> nat \<Rightarrow> nat \<Rightarrow> nat \<Rightarrow> nat \<Rightarrow> nat \<Rightarrow> nat \<Rightarrow> 'c \<Rightarrow> nat \<Rightarrow> strategy_type \<Rightarrow> string option \<Rightarrow> string option \<Rightarrow> 'c manifest" where
  "new_protected tree_cid block_size dataset_size codec hcodec version ec_k ec_m original_tree_cid original_dataset_size strategy filename mimetype =
     \<lparr>m_tree_cid = tree_cid, m_block_size = block_size, m_dataset_size = dataset_size, m_codec = codec, m_hcodec = hcodec,
      m_version = version, m_filename = filename, m_mimetype = mimetype,
      m_erasure = Some \<lparr>ei_ec_k = ec_k, ei_ec_m = ec_m, ei_original_tree_cid = original_tree_cid,
        ei_original_dataset_size = original_dataset_size, ei_protected_strategy = strategy, ei_verification = None\<rparr>\<rparr>"

definition is_protected :: "'c manifest \<Rightarrow> bool" where
  "is_protected m = (m_erasure m \<noteq> None)"

definition is_verifiable :: "'c manifest \<Rightarrow> bool" where
  "is_verifiable m = (Option.bind (m_erasure m) ei_verification \<noteq> None)"

definition blocks_count :: "'c manifest \<Rightarrow> (nat, manifest_error) result" where
  "blocks_count m =
     rbind (padd 64 (m_dataset_size m) (m_block_size m)) (\<lambda>a.
       rbind (psub a 1) (\<lambda>b. if m_block_size m = 0 then Panic else Ok (b div m_block_size m)))"

section \<open>Encoding\<close>

definition verification_to_proto :: "('c, 'm) crates \<Rightarrow> 'c verification_info \<Rightarrow> proto_verification" where
  "verification_to_proto X v =
     \<lparr>pv_verify_root = cid_to_bytes X (vi_verify_root v), pv_slot_roots = map (cid_to_bytes X) (vi_slot_roots v),
      pv_cell_size = vi_cell_size v mod 2 ^ 32, pv_verifiable_strategy = strategy_as (vi_verifiable_strategy v)\<rparr>"

definition erasure_to_proto :: "('c, 'm) crates \<Rightarrow> 'c erasure_info \<Rightarrow> proto_erasure" where
  "erasure_to_proto X e =
     \<lparr>pe_ec_k = ei_ec_k e, pe_ec_m = ei_ec_m e, pe_original_tree_cid = cid_to_bytes X (ei_original_tree_cid e),
      pe_original_dataset_size = ei_original_dataset_size e, pe_protected_strategy = strategy_as (ei_protected_strategy e),
      pe_verification = map_option (verification_to_proto X) (ei_verification e)\<rparr>"

definition manifest_to_header :: "('c, 'm) crates \<Rightarrow> 'c manifest \<Rightarrow> proto_header" where
  "manifest_to_header X m =
     \<lparr>ph_tree_cid = cid_to_bytes X (m_tree_cid m), ph_block_size = m_block_size m mod 2 ^ 32,
      ph_dataset_size = m_dataset_size m, ph_codec = m_codec m mod 2 ^ 32, ph_hcodec = m_hcodec m mod 2 ^ 32,
      ph_version = m_version m, ph_erasure = map_option (erasure_to_proto X) (m_erasure m),
      ph_filename = case_option [] id (m_filename m), ph_mimetype = case_option [] id (m_mimetype m)\<rparr>"

definition manifest_encode :: "('c, 'm) crates \<Rightarrow> prost \<Rightarrow> 'c manifest \<Rightarrow> (bytes, manifest_error) result" where
  "manifest_encode X P m =
     rbind (ok_or (pr_encode_header P (manifest_to_header X m)) EncodeError)
       (\<lambda>buf. ok_or (pr_encode_node P buf) EncodeError)"

section \<open>Decoding\<close>

definition verification_of_proto :: "('c, 'm) crates \<Rightarrow> proto_verification \<Rightarrow> ('c verification_info, manifest_error) result" where
  "verification_of_proto X v =
     rbind (ok_or (cid_try_from X (pv_verify_root v)) (ManifestCidError ''Invalid verify root CID'')) (\<lambda>root.
     rbind (try_map (\<lambda>bs. ok_or (cid_try_from X bs) (ManifestCidError ''Invalid slot root'')) (pv_slot_roots v)) (\<lambda>slots.
       Ok \<lparr>vi_verify_root = root, vi_slot_roots = slots, vi_cell_size = pv_cell_size v,
           vi_verifiable_strategy = strategy_from (pv_verifiable_strategy v)\<rparr>))"

definition erasure_of_proto :: "('c, 'm) crates \<Rightarrow> proto_erasure \<Rightarrow> ('c erasure_info, manifest_error) result" where
  "erasure_of_proto X e =
     rbind (ok_or (cid_try_from X (pe_original_tree_cid e)) (ManifestCidError ''Invalid original tree CID'')) (\<lambda>orig.
     rbind (case pe_verification e of None \<Rightarrow> Ok None | Some v \<Rightarrow> rbind (verification_of_proto X v) (\<lambda>v. Ok (Some v))) (\<lambda>verification.
       Ok \<lparr>ei_ec_k = pe_ec_k e, ei_ec_m = pe_ec_m e, ei_original_tree_cid = orig,
           ei_original_dataset_size = pe_original_dataset_size e,
           ei_protected_strategy = strategy_from (pe_protected_strategy e), ei_verification = verification\<rparr>))"

definition non_empty :: "string \<Rightarrow> string option" where
  "non_empty s = (if s = [] then None else Some s)"

definition manifest_decode :: "('c, 'm) crates \<Rightarrow> prost \<Rightarrow> bytes \<Rightarrow> ('c manifest, manifest_error) result" where
  "manifest_decode X P data =
     rbind (ok_or (pr_decode_node P data) DecodeError) (\<lambda>node.
     rbind (ok_or (pr_decode_header P node) DecodeError) (\<lambda>header.
     rbind (ok_or (cid_try_from X (ph_tree_cid header)) (ManifestCidError ''Invalid tree CID'')) (\<lambda>tree_cid.
     rbind (case ph_erasure header of None \<Rightarrow> Ok None | Some e \<Rightarrow> rbind (erasure_of_proto X e) (\<lambda>e. Ok (Some e))) (\<lambda>erasure.
       Ok \<lparr>m_tree_cid = tree_cid, m_block_size = ph_block_size header, m_dataset_size = ph_dataset_size header,
           m_codec = ph_codec header, m_hcodec = ph_hcodec header, m_version = ph_version header,
           m_filename = non_empty (ph_filename header), m_mimetype = non_empty (ph_mimetype header), m_erasure = erasure\<rparr>))))"

section \<open>Blocks\<close>

definition manifest_hash :: "('c, 'm) crates \<Rightarrow> nat \<Rightarrow> bytes \<Rightarrow> (bytes, manifest_error) result" where
  "manifest_hash X hcodec data =
     (if hcodec = BLAKE3_CODEC then Ok (blake3 X data)
      else if hcodec = SHA256_CODEC then Ok (sha256 X data)
      else Err (InvalidManifest ''Unsupported manifest hash codec''))"

definition to_block :: "('c, 'm) crates \<Rightarrow> prost \<Rightarrow> 'c manifest \<Rightarrow> ('c block, manifest_error) result" where
  "to_block X P m =
     rbind (manifest_encode X P m) (\<lambda>data.
     rbind (manifest_hash X (m_hcodec m) data) (\<lambda>hash_bytes.
       (let multihash = varint X (m_hcodec m) @ varint X (length hash_bytes) @ hash_bytes;
            cid_bytes = varint X (m_version m) @ varint X MANIFEST_CODEC @ multihash
        in rbind (ok_or (cid_try_from X cid_bytes) (ManifestCidError ''Failed to create CID'')) (\<lambda>cid.
             Ok \<lparr>block_cid = cid, block_data = data\<rparr>))))"

definition from_block :: "('c, 'm) crates \<Rightarrow> prost \<Rightarrow> 'c block \<Rightarrow> ('c manifest, manifest_error) result" where
  "from_block X P b =
     (if cid_codec X (block_cid b) \<noteq> MANIFEST_CODEC then Err (InvalidManifest ''Block has codec, expected manifest codec'')
      else manifest_decode X P (block_data b))"

section \<open>What the wire keeps\<close>

text \<open>The fields that are \<open>uint32\<close> on the wire, and the empty string for an absent name.\<close>

definition narrow_verification :: "'c verification_info \<Rightarrow> 'c verification_info" where
  "narrow_verification v = v\<lparr>vi_cell_size := vi_cell_size v mod 2 ^ 32\<rparr>"

definition narrow_erasure :: "'c erasure_info \<Rightarrow> 'c erasure_info" where
  "narrow_erasure e = e\<lparr>ei_verification := map_option narrow_verification (ei_verification e)\<rparr>"

definition narrow :: "'c manifest \<Rightarrow> 'c manifest" where
  "narrow m = m\<lparr>m_block_size := m_block_size m mod 2 ^ 32, m_codec := m_codec m mod 2 ^ 32, m_hcodec := m_hcodec m mod 2 ^ 32,
     m_filename := Option.bind (m_filename m) non_empty, m_mimetype := Option.bind (m_mimetype m) non_empty,
     m_erasure := map_option narrow_erasure (m_erasure m)\<rparr>"

definition manifest_fits :: "'c manifest \<Rightarrow> bool" where
  "manifest_fits m \<longleftrightarrow> m_block_size m < 2 ^ 32 \<and> m_codec m < 2 ^ 32 \<and> m_hcodec m < 2 ^ 32
     \<and> m_filename m \<noteq> Some [] \<and> m_mimetype m \<noteq> Some []
     \<and> (case Option.bind (m_erasure m) ei_verification of None \<Rightarrow> True | Some v \<Rightarrow> vi_cell_size v < 2 ^ 32)"

lemma strategy_roundtrip [simp]: "strategy_from (strategy_as st) = st"
  by (cases st) auto

lemma verification_roundtrip:
  assumes "cid_bytes_law X"
  shows "verification_of_proto X (verification_to_proto X v) = Ok (narrow_verification v)"
proof -
  have "try_map (\<lambda>bs. ok_or (cid_try_from X bs) (ManifestCidError ''Invalid slot root'')) (map (cid_to_bytes X) cs) = Ok cs" for cs
    by (induction cs) (simp_all add: cid_bytes_lawD [OF assms])
  then show ?thesis
    by (simp add: verification_of_proto_def verification_to_proto_def narrow_verification_def cid_bytes_lawD [OF assms] del: strategy_from.simps)
qed

lemma erasure_roundtrip: "cid_bytes_law X \<Longrightarrow> erasure_of_proto X (erasure_to_proto X e) = Ok (narrow_erasure e)"
  by (cases "ei_verification e")
    (simp_all add: erasure_of_proto_def erasure_to_proto_def narrow_erasure_def cid_bytes_lawD verification_roundtrip del: strategy_from.simps)

lemma manifest_decode_encode:
  assumes "prost_law P" "cid_bytes_law X"
  obtains bs where "manifest_encode X P m = Ok bs" "manifest_decode X P bs = Ok (narrow m)"
proof -
  obtain hb where hb: "pr_encode_header P (manifest_to_header X m) = Some hb" "pr_decode_header P hb = Some (manifest_to_header X m)"
    using assms(1) unfolding prost_law_def by blast
  obtain nb where nb: "pr_encode_node P hb = Some nb" "pr_decode_node P nb = Some hb" using assms(1) unfolding prost_law_def by blast
  have name: "non_empty (case_option [] id x) = Option.bind x non_empty" for x :: "string option" by (cases x) (auto simp: non_empty_def)
  have "manifest_decode X P nb = Ok (narrow m)"
    by (cases "m_erasure m")
      (simp_all add: manifest_decode_def hb nb manifest_to_header_def cid_bytes_lawD [OF assms(2)] erasure_roundtrip [OF assms(2)] narrow_def name)
  moreover have "manifest_encode X P m = Ok nb" by (simp add: manifest_encode_def hb nb)
  ultimately show ?thesis by (rule that [rotated])
qed

lemma narrow_id: "manifest_fits m \<Longrightarrow> narrow m = m"
proof -
  assume f: "manifest_fits m"
  have n: "Option.bind x non_empty = x" if "x \<noteq> Some []" for x using that by (cases x) (auto simp: non_empty_def)
  have "map_option narrow_erasure (m_erasure m) = m_erasure m"
  proof (cases "m_erasure m")
    case (Some e)
    then show ?thesis using f by (cases "ei_verification e") (auto simp: narrow_erasure_def narrow_verification_def manifest_fits_def)
  qed simp
  then show ?thesis using f n by (simp add: narrow_def manifest_fits_def)
qed

text \<open>
  C36. Manifests survive encoding: \<open>encode\<close> succeeds, and decoding its bytes gives the manifest
  back whenever its sizes and codecs fit the 32-bit fields of the wire format and no name is the
  empty string; in general it gives the manifest with those fields reduced and empty names absent.
\<close>

theorem manifest_roundtrip:
  assumes "prost_law P" "cid_bytes_law X"
  shows "\<exists>bs. manifest_encode X P m = Ok bs \<and> manifest_decode X P bs = Ok (narrow m) \<and> (manifest_fits m \<longrightarrow> narrow m = m)"
proof -
  obtain bs where "manifest_encode X P m = Ok bs" "manifest_decode X P bs = Ok (narrow m)" by (rule manifest_decode_encode [OF assms])
  then show ?thesis using narrow_id by blast
qed

text \<open>
  Manifest blocks: for the two supported hash codecs \<open>to_block\<close> of a version-1 manifest
  gives a block with codec 0xcd01 whose CID carries the digest of its data, and \<open>from_block\<close> of
  it gives the manifest back; every other hash codec is refused, and so is a block of any other codec.
\<close>

lemma manifest_block:
  assumes "prost_law P" "cid_bytes_law X" "cid_v1_law X" "cid_new_law X" "mh_wrap_law X" "digest_law X" "m_version m = 1"
  shows "(m_hcodec m \<in> {BLAKE3_CODEC, SHA256_CODEC} \<longrightarrow> (\<exists>b. to_block X P m = Ok b \<and> cid_codec X (block_cid b) = MANIFEST_CODEC
        \<and> mh_code X (cid_hash X (block_cid b)) = m_hcodec m
        \<and> mh_digest X (cid_hash X (block_cid b)) = (if m_hcodec m = BLAKE3_CODEC then blake3 X (block_data b) else sha256 X (block_data b))
        \<and> from_block X P b = Ok (narrow m)))
    \<and> (m_hcodec m \<notin> {BLAKE3_CODEC, SHA256_CODEC} \<longrightarrow> to_block X P m = Err (InvalidManifest ''Unsupported manifest hash codec''))
    \<and> (\<forall>b. cid_codec X (block_cid b) \<noteq> MANIFEST_CODEC \<longrightarrow> \<not> is_ok (from_block X P b))"
proof -
  obtain bs where bs: "manifest_encode X P m = Ok bs" "manifest_decode X P bs = Ok (narrow m)" by (rule manifest_decode_encode [OF assms(1,2)])
  have "\<exists>b. to_block X P m = Ok b \<and> cid_codec X (block_cid b) = MANIFEST_CODEC \<and> mh_code X (cid_hash X (block_cid b)) = m_hcodec m
      \<and> mh_digest X (cid_hash X (block_cid b)) = (if m_hcodec m = BLAKE3_CODEC then blake3 X (block_data b) else sha256 X (block_data b))
      \<and> from_block X P b = Ok (narrow m)" if h: "m_hcodec m \<in> {BLAKE3_CODEC, SHA256_CODEC}"
  proof -
    define d where "d = (if m_hcodec m = BLAKE3_CODEC then blake3 X bs else sha256 X bs)"
    have mh: "manifest_hash X (m_hcodec m) bs = Ok d" using h by (auto simp: manifest_hash_def d_def)
    have "length d = 32" using assms(6) by (simp add: d_def)
    then obtain w where w: "mh_wrap X (m_hcodec m) d = Some w" using mh_wrap_Ex [OF assms(5), of d] by auto
    have cid: "cid_try_from X (varint X 1 @ varint X MANIFEST_CODEC @ varint X (m_hcodec m) @ varint X (length d) @ d)
      = Some (cid_new_v1 X MANIFEST_CODEC w)" using assms(3) w unfolding cid_v1_law_def by blast
    have "to_block X P m = Ok \<lparr>block_cid = cid_new_v1 X MANIFEST_CODEC w, block_data = bs\<rparr>"
      unfolding to_block_def bs(1) rbind.simps mh Let_def assms(7) cid ok_or_simps ..
    then show ?thesis using assms(4) mh_wrap_SomeD [OF assms(5) w] bs(2) by (simp add: from_block_def d_def)
  qed
  moreover have "m_hcodec m \<notin> {BLAKE3_CODEC, SHA256_CODEC} \<longrightarrow> to_block X P m = Err (InvalidManifest ''Unsupported manifest hash codec'')"
    by (auto simp: to_block_def bs(1) manifest_hash_def)
  ultimately show ?thesis by (simp add: from_block_def)
qed

section \<open>A concrete protobuf\<close>

definition verification_tuple :: "proto_verification \<Rightarrow> bytes \<times> bytes list \<times> nat \<times> nat" where
  "verification_tuple v = (pv_verify_root v, pv_slot_roots v, pv_cell_size v, pv_verifiable_strategy v)"

definition tuple_verification :: "bytes \<times> bytes list \<times> nat \<times> nat \<Rightarrow> proto_verification" where
  "tuple_verification = (\<lambda>(a, b, c, d). \<lparr>pv_verify_root = a, pv_slot_roots = b, pv_cell_size = c, pv_verifiable_strategy = d\<rparr>)"

definition erasure_tuple :: "proto_erasure \<Rightarrow> nat \<times> nat \<times> bytes \<times> nat \<times> nat \<times> proto_verification option" where
  "erasure_tuple e = (pe_ec_k e, pe_ec_m e, pe_original_tree_cid e, pe_original_dataset_size e, pe_protected_strategy e, pe_verification e)"

definition tuple_erasure :: "nat \<times> nat \<times> bytes \<times> nat \<times> nat \<times> proto_verification option \<Rightarrow> proto_erasure" where
  "tuple_erasure = (\<lambda>(a, b, c, d, e, f). \<lparr>pe_ec_k = a, pe_ec_m = b, pe_original_tree_cid = c, pe_original_dataset_size = d,
     pe_protected_strategy = e, pe_verification = f\<rparr>)"

definition header_tuple :: "proto_header \<Rightarrow> bytes \<times> nat \<times> nat \<times> nat \<times> nat \<times> nat \<times> proto_erasure option \<times> string \<times> string" where
  "header_tuple h = (ph_tree_cid h, ph_block_size h, ph_dataset_size h, ph_codec h, ph_hcodec h, ph_version h, ph_erasure h,
     ph_filename h, ph_mimetype h)"

definition tuple_header :: "bytes \<times> nat \<times> nat \<times> nat \<times> nat \<times> nat \<times> proto_erasure option \<times> string \<times> string \<Rightarrow> proto_header" where
  "tuple_header = (\<lambda>(a, b, c, d, e, f, g, h, i). \<lparr>ph_tree_cid = a, ph_block_size = b, ph_dataset_size = c, ph_codec = d, ph_hcodec = e,
     ph_version = f, ph_erasure = g, ph_filename = h, ph_mimetype = i\<rparr>)"

definition w_verification :: "proto_verification \<Rightarrow> bytes" where
  "w_verification = w_iso verification_tuple (w_pair w_bytes (w_pair (w_list w_bytes) (w_pair demo_varint demo_varint)))"

definition r_verification :: "bytes \<Rightarrow> (proto_verification \<times> bytes) option" where
  "r_verification = r_iso tuple_verification (r_pair r_bytes (r_pair (r_list r_bytes) (r_pair demo_read_varint demo_read_varint)))"

definition w_erasure :: "proto_erasure \<Rightarrow> bytes" where
  "w_erasure = w_iso erasure_tuple (w_pair demo_varint (w_pair demo_varint (w_pair w_bytes (w_pair demo_varint
     (w_pair demo_varint (w_option w_verification))))))"

definition r_erasure :: "bytes \<Rightarrow> (proto_erasure \<times> bytes) option" where
  "r_erasure = r_iso tuple_erasure (r_pair demo_read_varint (r_pair demo_read_varint (r_pair r_bytes (r_pair demo_read_varint
     (r_pair demo_read_varint (r_option r_verification))))))"

definition w_header :: "proto_header \<Rightarrow> bytes" where
  "w_header = w_iso header_tuple (w_pair w_bytes (w_pair demo_varint (w_pair demo_varint (w_pair demo_varint (w_pair demo_varint
     (w_pair demo_varint (w_pair (w_option w_erasure) (w_pair w_string w_string))))))))"

definition r_header :: "bytes \<Rightarrow> (proto_header \<times> bytes) option" where
  "r_header = r_iso tuple_header (r_pair r_bytes (r_pair demo_read_varint (r_pair demo_read_varint (r_pair demo_read_varint (r_pair demo_read_varint
     (r_pair demo_read_varint (r_pair (r_option r_erasure) (r_pair r_string r_string))))))))"

lemma verification_codec: "self_delimiting w_verification r_verification"
  unfolding w_verification_def r_verification_def
  by (intro iso_codec wire_codecs) (simp add: verification_tuple_def tuple_verification_def)

lemma erasure_codec: "self_delimiting w_erasure r_erasure"
  unfolding w_erasure_def r_erasure_def
  by (intro iso_codec wire_codecs verification_codec) (simp add: erasure_tuple_def tuple_erasure_def)

lemma header_codec: "self_delimiting w_header r_header"
  unfolding w_header_def r_header_def
  by (intro iso_codec wire_codecs erasure_codec) (simp add: header_tuple_def tuple_header_def)

definition demo_prost :: prost where
  "demo_prost = \<lparr>pr_encode_header = Some \<circ> w_header, pr_decode_header = read_whole r_header,
     pr_encode_node = Some, pr_decode_node = Some\<rparr>"

lemma demo_prost_law [simp]: "prost_law demo_prost"
  by (simp add: prost_law_def demo_prost_def read_whole_put [OF header_codec])

definition demo_manifest :: "(nat \<times> nat \<times> bytes) manifest" where
  "demo_manifest = manifest_new (0xcd03, 0x1e, [1, 2]) 65536 100000 None None None (Some ''a.txt'') None"

theorem manifest_roundtrip_witness:
  "\<exists>bs. manifest_encode demo_crates demo_prost demo_manifest = Ok bs \<and> manifest_decode demo_crates demo_prost bs = Ok demo_manifest"
proof -
  have "manifest_fits demo_manifest"
    by (simp add: manifest_fits_def demo_manifest_def manifest_new_def BLOCK_CODEC_def BLAKE3_CODEC_def)
  then show ?thesis using manifest_roundtrip [OF demo_prost_law demo_cid_bytes_law, of demo_manifest] by auto
qed

end
