(* ===== verification/Merkle_Tree.thy ===== *)
theory Merkle_Tree
  imports Crates
begin

unbundle bit_operations_syntax

text \<open>
  \<open>neverust-core/src/archivist_tree.rs\<close>: the Merkle tree over block CIDs, its inclusion
  proofs and the serialized block list. A \<open>Sha256\<close> hasher is the concatenation of what it is
  fed. \<open>compress\<close> and \<open>build_next_layer\<close> return \<open>Ok\<close> on every path of the source, so the
  model drops that \<open>Ok\<close>. The loop of \<open>build_layers\<close> does not end on an empty list, which
  \<open>new\<close> excludes: it is a partial function, and its termination on the inputs \<open>new\<close> gives it
  is proved.
\<close>

datatype tree_error =
    EmptyBlockList
  | IndexOutOfBounds nat nat
  | NoLayers
  | InvalidRootLayer nat
  | MultihashError string
  | TreeCidError string

datatype tree_key = KeyNone | BottomLayer | KeyOdd | OddAndBottomLayer

fun key_byte :: "tree_key \<Rightarrow> u8" where
  "key_byte KeyNone = 0x00"
| "key_byte BottomLayer = 0x01"
| "key_byte KeyOdd = 0x02"
| "key_byte OddAndBottomLayer = 0x03"

definition tree_key_from :: "u8 \<Rightarrow> tree_key" where
  "tree_key_from v =
     (if v = 0x00 then KeyNone else if v = 0x01 then BottomLayer else if v = 0x02 then KeyOdd
      else if v = 0x03 then OddAndBottomLayer else KeyNone)"

record archivist_proof =
  ap_index :: nat
  ap_nleaves :: nat
  ap_path :: "bytes list"

record 'c archivist_tree =
  at_layers :: "bytes list list"
  at_block_cids :: "'c list"

section \<open>Building the tree\<close>

definition zero_hash :: bytes where
  "zero_hash = replicate 32 0"

definition compress :: "('c, 'm) crates \<Rightarrow> bytes \<Rightarrow> bytes \<Rightarrow> tree_key \<Rightarrow> bytes" where
  "compress X left right key = sha256 X (left @ right @ [key_byte key])"

definition build_next_layer :: "('c, 'm) crates \<Rightarrow> bytes list \<Rightarrow> bool \<Rightarrow> bytes list" where
  "build_next_layer X current is_bottom_layer =
     (let len = length current;
          half_n = len div 2;
          is_odd = len mod 2 = 1
      in map (\<lambda>i. compress X (current ! (2 * i)) (current ! (2 * i + 1))
                     (if is_bottom_layer then BottomLayer else KeyNone)) [0..<half_n]
         @ (if is_odd
            then [compress X (current ! (len - 1)) zero_hash
                    (if is_bottom_layer then OddAndBottomLayer else KeyOdd)]
            else []))"

partial_function (option) build_layers_loop ::
  "('c, 'm) crates \<Rightarrow> bytes list list \<Rightarrow> bool \<Rightarrow> bytes list list option" where
  "build_layers_loop X layers is_bottom_layer =
     (let current_layer = last layers in
      if length current_layer = 1 \<and> \<not> is_bottom_layer then Some layers
      else build_layers_loop X (layers @ [build_next_layer X current_layer is_bottom_layer]) False)"

declare build_layers_loop.simps [code]

definition build_layers :: "('c, 'm) crates \<Rightarrow> bytes list \<Rightarrow> bytes list list option" where
  "build_layers X leaves = build_layers_loop X [leaves] True"

definition tree_leaf :: "('c, 'm) crates \<Rightarrow> 'c \<Rightarrow> bytes" where
  "tree_leaf X c = mh_digest X (cid_hash X c)"

definition tree_new :: "('c, 'm) crates \<Rightarrow> 'c list \<Rightarrow> ('c archivist_tree, tree_error) result option" where
  "tree_new X block_cids =
     (if block_cids = [] then Some (Err EmptyBlockList)
      else Option.bind (build_layers X (map (tree_leaf X) block_cids))
        (\<lambda>layers. Some (Ok \<lparr>at_layers = layers, at_block_cids = block_cids\<rparr>)))"

definition root_cid :: "('c, 'm) crates \<Rightarrow> 'c archivist_tree \<Rightarrow> ('c, tree_error) result" where
  "root_cid X t =
     (if at_layers t = [] then Err NoLayers
      else let root_layer = last (at_layers t) in
        if length root_layer \<noteq> 1 then Err (InvalidRootLayer (length root_layer))
        else rbind (ok_or (mh_wrap X 0x12 (root_layer ! 0)) (MultihashError ''multihash''))
          (\<lambda>mh. Ok (cid_new_v1 X 0xcd03 mh)))"

definition leaves_count :: "'c archivist_tree \<Rightarrow> nat" where
  "leaves_count t = (case at_layers t of [] \<Rightarrow> 0 | layer # _ \<Rightarrow> length layer)"

definition tree_depth :: "'c archivist_tree \<Rightarrow> nat" where
  "tree_depth t = length (at_layers t) - 1"

section \<open>Proofs\<close>

fun get_proof_loop :: "bytes list list \<Rightarrow> nat \<Rightarrow> nat \<Rightarrow> nat \<Rightarrow> nat \<Rightarrow> (bytes list, tree_error) result" where
  "get_proof_loop layers i 0 k m = Ok []"
| "get_proof_loop layers i (Suc todo) k m =
     (let j = k XOR 1 in
      rbind (if j < m then rbind (index_vec layers i) (\<lambda>layer. index_vec layer j) else Ok zero_hash)
        (\<lambda>sibling_hash.
          rbind (get_proof_loop layers (Suc i) todo (k div 2) ((m + 1) div 2))
            (\<lambda>path. Ok (sibling_hash # path))))"

definition get_proof :: "'c archivist_tree \<Rightarrow> nat \<Rightarrow> (archivist_proof, tree_error) result" where
  "get_proof t index =
     (case at_layers t of
        [] \<Rightarrow> Err NoLayers
      | layer # _ \<Rightarrow>
        let nleaves = length layer in
        if index \<ge> nleaves then Err (IndexOutOfBounds index nleaves)
        else rbind (get_proof_loop (at_layers t) 0 (length (at_layers t) - 1) index nleaves)
          (\<lambda>path. Ok \<lparr>ap_index = index, ap_nleaves = nleaves, ap_path = path\<rparr>))"

fun reconstruct_loop ::
  "('c, 'm) crates \<Rightarrow> bytes list \<Rightarrow> nat \<Rightarrow> nat \<Rightarrow> bytes \<Rightarrow> tree_key \<Rightarrow> (bytes, tree_error) result" where
  "reconstruct_loop X [] m index current bottom_flag = Ok current"
| "reconstruct_loop X (sibling_hash # path) m index current bottom_flag =
     rbind
       (if index AND 1 \<noteq> 0 then Ok (compress X sibling_hash current bottom_flag)
        else rbind (psub m 1) (\<lambda>last_index.
          if index = last_index
          then Ok (compress X current sibling_hash (tree_key_from (key_byte bottom_flag + 2)))
          else Ok (compress X current sibling_hash bottom_flag)))
       (\<lambda>current'. rbind (padd 64 m 1) (\<lambda>m'.
          reconstruct_loop X path (m' div 2) (index div 2) current' KeyNone))"

definition reconstruct_root ::
  "('c, 'm) crates \<Rightarrow> bytes list \<Rightarrow> nat \<Rightarrow> nat \<Rightarrow> bytes \<Rightarrow> (bytes, tree_error) result" where
  "reconstruct_root X path nleaves index leaf = reconstruct_loop X path nleaves index leaf BottomLayer"

definition verify_proof ::
  "('c, 'm) crates \<Rightarrow> archivist_proof \<Rightarrow> bytes \<Rightarrow> bytes \<Rightarrow> (bool, tree_error) result" where
  "verify_proof X proof leaf expected_root =
     rbind (reconstruct_root X (ap_path proof) (ap_nleaves proof) (ap_index proof) leaf)
       (\<lambda>reconstructed. Ok (reconstructed = expected_root))"

section \<open>The serialized block list\<close>

definition serialize_cid :: "('c, 'm) crates \<Rightarrow> 'c \<Rightarrow> bytes" where
  "serialize_cid X c = (let b = cid_to_bytes X c in le_bytes 4 (length b mod 2 ^ 32) @ b)"

definition serialize_block_list :: "('c, 'm) crates \<Rightarrow> 'c archivist_tree \<Rightarrow> bytes" where
  "serialize_block_list X t =
     le_bytes 4 (length (at_block_cids t) mod 2 ^ 32) @ concat (map (serialize_cid X) (at_block_cids t))"

text \<open>\<open>Cursor::read_exact\<close>: the bytes and the rest, or an error.\<close>

definition cursor_read :: "nat \<Rightarrow> bytes \<Rightarrow> string \<Rightarrow> (bytes \<times> bytes, tree_error) result" where
  "cursor_read n data msg =
     (if n \<le> length data then Ok (take n data, drop n data) else Err (TreeCidError msg))"

fun deserialize_loop :: "('c, 'm) crates \<Rightarrow> nat \<Rightarrow> bytes \<Rightarrow> ('c list, tree_error) result" where
  "deserialize_loop X 0 data = Ok []"
| "deserialize_loop X (Suc count) data =
     rbind (cursor_read 4 data ''Failed to read CID length'') (\<lambda>(len_bytes, data1).
     rbind (cursor_read (le_nat len_bytes) data1 ''Failed to read CID bytes'') (\<lambda>(bs, data2).
     rbind (ok_or (cid_try_from X bs) (TreeCidError ''Failed to parse CID'')) (\<lambda>c.
     rbind (deserialize_loop X count data2) (\<lambda>cids. Ok (c # cids)))))"

definition deserialize_block_list :: "('c, 'm) crates \<Rightarrow> bytes \<Rightarrow> ('c list, tree_error) result" where
  "deserialize_block_list X data =
     rbind (cursor_read 4 data ''Failed to read count'') (\<lambda>(count_bytes, data1).
       deserialize_loop X (le_nat count_bytes) data1)"


section \<open>One layer\<close>

lemma and_one_odd [simp]: "(k :: nat) AND Suc 0 \<noteq> 0 \<longleftrightarrow> odd k"
  by (simp add: and_Suc_0_eq odd_iff_mod_2_eq_one)

lemma xor_one_sibling: "(k :: nat) XOR Suc 0 = (if even k then Suc k else k - 1)"
  by (auto simp: xor_Suc_0_eq)

definition pair_key :: "bool \<Rightarrow> tree_key" where
  "pair_key bottom = (if bottom then BottomLayer else KeyNone)"

definition odd_key :: "bool \<Rightarrow> tree_key" where
  "odd_key bottom = (if bottom then OddAndBottomLayer else KeyOdd)"

lemma odd_key_from [simp]: "tree_key_from (key_byte (pair_key b) + 2) = odd_key b"
  by (simp add: pair_key_def odd_key_def tree_key_from_def)

lemma pair_key_simps [simp]: "pair_key False = KeyNone" "pair_key True = BottomLayer"
  by (simp_all add: pair_key_def)

lemma length_build_next_layer [simp]: "length (build_next_layer X l b) = (length l + 1) div 2"
  by (auto simp: build_next_layer_def Let_def) presburger+

text \<open>The parent of node \<open>k\<close>: the hash of the node and its sibling, in order.\<close>

lemma parent_hash:
  assumes "k < length l"
  shows "build_next_layer X l b ! (k div 2) =
    (if odd k then compress X (l ! (k - 1)) (l ! k) (pair_key b)
     else if k = length l - 1 then compress X (l ! k) zero_hash (odd_key b)
     else compress X (l ! k) (l ! Suc k) (pair_key b))"
proof (cases "k div 2 < length l div 2")
  case True
  then have "build_next_layer X l b ! (k div 2) =
      compress X (l ! (2 * (k div 2))) (l ! (2 * (k div 2) + 1)) (pair_key b)"
    by (simp add: build_next_layer_def Let_def nth_append pair_key_def)
  moreover have "odd k \<Longrightarrow> 2 * (k div 2) = k - 1 \<and> 2 * (k div 2) + 1 = k" by presburger
  moreover have "even k \<Longrightarrow> 2 * (k div 2) = k \<and> k \<noteq> length l - 1" using True assms by presburger
  ultimately show ?thesis by auto
next
  case False
  then have e: "even k" "odd (length l)" "k = length l - 1" "k div 2 = length l div 2"
    using assms by presburger+
  then have "length l mod 2 = 1" by presburger
  with e show ?thesis by (simp add: build_next_layer_def Let_def nth_append odd_key_def)
qed

lemma parent_index: "k < n \<Longrightarrow> k div 2 < ((n::nat) + 1) div 2"
  by presburger

lemma build_next_layer_lengths:
  "digest_law X \<Longrightarrow> h \<in> set (build_next_layer X l b) \<Longrightarrow> length h = 32"
  by (auto simp: build_next_layer_def Let_def compress_def split: if_splits)

section \<open>The tower of layers\<close>

text \<open>A list of layers, each the parent layer of the one before, ending in a single node.\<close>

fun tower :: "('c, 'm) crates \<Rightarrow> bool \<Rightarrow> bytes list list \<Rightarrow> bool" where
  "tower X b [] = False"
| "tower X b [l] = (length l = 1 \<and> \<not> b)"
| "tower X b (l # l' # ls) =
     ((b \<or> length l \<noteq> 1) \<and> l \<noteq> [] \<and> l' = build_next_layer X l b \<and> tower X False (l' # ls))"

lemma tower_hd_nonempty: "tower X b (l # ls) \<Longrightarrow> l \<noteq> []"
  by (cases ls) auto

lemma tower_last: "tower X b ls \<Longrightarrow> length (last ls) = 1"
  by (induction X b ls rule: tower.induct) auto

lemma build_layers_loop_tower:
  assumes "l \<noteq> []"
  shows "\<exists>ls. tower X b (l # ls) \<and> build_layers_loop X (pre @ [l]) b = Some (pre @ l # ls)"
  using assms
proof (induction "length l + (if b then 1 else 0)" arbitrary: l b pre rule: less_induct)
  case less
  show ?case
  proof (cases "length l = 1 \<and> \<not> b")
    case True
    then have "build_layers_loop X (pre @ [l]) b = Some (pre @ l # [])"
      by (subst build_layers_loop.simps) simp
    with True show ?thesis by (intro exI [of _ "[]"]) simp
  next
    case False
    let ?n = "build_next_layer X l b"
    have l: "length l \<ge> 1" using less.prems by (cases l) auto
    have "length ?n + (if False then 1 else 0) < length l + (if b then 1 else 0)"
      using False l by (auto; presburger)
    moreover have "?n \<noteq> []"
      using l by (subst length_greater_0_conv [symmetric]) simp
    ultimately obtain ls where "tower X False (?n # ls)"
      "build_layers_loop X ((pre @ [l]) @ [?n]) False = Some ((pre @ [l]) @ ?n # ls)"
      using less.hyps [of ?n False "pre @ [l]"] by auto
    with False less.prems show ?thesis
      by (intro exI [of _ "?n # ls"]) (subst build_layers_loop.simps, auto)
  qed
qed

lemma tower_new:
  assumes "cids \<noteq> []"
  obtains ls where "tower X True (map (tree_leaf X) cids # ls)"
    and "tree_new X cids = Some (Ok \<lparr>at_layers = map (tree_leaf X) cids # ls, at_block_cids = cids\<rparr>)"
  using build_layers_loop_tower [of "map (tree_leaf X) cids" X True "[]"] assms
  by (auto simp: tree_new_def build_layers_def)

lemma tree_newD:
  assumes "tree_new X cids = Some (Ok t)"
  obtains ls where "cids \<noteq> []" "tower X True (map (tree_leaf X) cids # ls)"
    "t = \<lparr>at_layers = map (tree_leaf X) cids # ls, at_block_cids = cids\<rparr>"
proof -
  have ne: "cids \<noteq> []" using assms by (auto simp: tree_new_def)
  obtain ls where "tower X True (map (tree_leaf X) cids # ls)"
    "tree_new X cids = Some (Ok \<lparr>at_layers = map (tree_leaf X) cids # ls, at_block_cids = cids\<rparr>)"
    by (rule tower_new [OF ne])
  with assms ne that show thesis by simp
qed

section \<open>Proofs verify\<close>

text \<open>The path that leads from node \<open>k\<close> of the first layer to the root.\<close>

fun path_of :: "bytes list list \<Rightarrow> nat \<Rightarrow> bytes list" where
  "path_of [] k = []"
| "path_of [l] k = []"
| "path_of (l # l' # ls) k =
     (if (k XOR 1) < length l then l ! (k XOR 1) else zero_hash) # path_of (l' # ls) (k div 2)"

lemma length_path_of [simp]: "length (path_of ls k) = length ls - 1"
  by (induction ls k rule: path_of.induct) auto

lemma get_proof_loop_path:
  "tower X b (l # ls) \<Longrightarrow>
   get_proof_loop (pre @ l # ls) (length pre) (length ls) k (length l) = Ok (path_of (l # ls) k)"
proof (induction ls arbitrary: l b k pre)
  case (Cons l' ls)
  then have t: "tower X False (l' # ls)" and l': "l' = build_next_layer X l b" by auto
  have "get_proof_loop ((pre @ [l]) @ l' # ls) (length (pre @ [l])) (length ls) (k div 2) (length l') =
      Ok (path_of (l' # ls) (k div 2))"
    by (rule Cons.IH [OF t])
  with l' show ?case by (auto simp: Let_def nth_append index_vec_def)
qed simp

lemma reconstruct_path:
  assumes "tower X b (l # ls)" "k < length l" "length l < 2 ^ 64 - 1"
  shows "reconstruct_loop X (path_of (l # ls) k) (length l) k (l ! k) (pair_key b) =
    Ok (hd (last (l # ls)))"
  using assms
proof (induction ls arbitrary: l b k)
  case Nil
  then show ?case by (cases l) auto
next
  case (Cons l' ls)
  then have t: "tower X False (l' # ls)" and l': "l' = build_next_layer X l b" by auto
  have k': "k div 2 < length l'" and m: "length l' < 2 ^ 64 - 1"
    using Cons.prems parent_index by (auto simp: l')
  have IH: "reconstruct_loop X (path_of (l' # ls) (k div 2)) (length l') (k div 2) (l' ! (k div 2)) KeyNone =
      Ok (hd (last (l' # ls)))"
    using Cons.IH [OF t k' m] by simp
  have "l' ! (k div 2) = (if odd k then compress X (l ! (k - 1)) (l ! k) (pair_key b)
     else if k = length l - 1 then compress X (l ! k) zero_hash (odd_key b)
     else compress X (l ! k) (l ! Suc k) (pair_key b))"
    unfolding l' by (rule parent_hash [OF Cons.prems(2)])
  moreover have "k = length l - 1 \<Longrightarrow> even k \<Longrightarrow> \<not> Suc k < length l" by auto
  moreover have "k \<noteq> length l - 1 \<Longrightarrow> Suc k < length l" using Cons.prems(2) by linarith
  ultimately show ?case
    using IH Cons.prems(2,3) l' by (auto simp: xor_one_sibling psub_def padd_def)
qed

text \<open>The tree of a non-empty list exists and every proof it gives verifies.\<close>

lemma tree_proofs_verify:
  assumes "cids \<noteq> []" "length cids < 2 ^ 64 - 1"
  shows "\<exists>t. tree_new X cids = Some (Ok t) \<and>
    (\<forall>i < length cids. \<exists>p. get_proof t i = Ok p \<and> length (ap_path p) = tree_depth t \<and>
       verify_proof X p (tree_leaf X (cids ! i)) (hd (last (at_layers t))) = Ok True)"
proof -
  let ?l = "map (tree_leaf X) cids"
  obtain ls where t: "tower X True (?l # ls)"
    and n: "tree_new X cids = Some (Ok \<lparr>at_layers = ?l # ls, at_block_cids = cids\<rparr>)"
    by (rule tower_new [OF assms(1)])
  have "\<exists>p. get_proof \<lparr>at_layers = ?l # ls, at_block_cids = cids\<rparr> i = Ok p \<and>
      length (ap_path p) = length ls \<and>
      verify_proof X p (tree_leaf X (cids ! i)) (hd (last (?l # ls))) = Ok True"
    if i: "i < length cids" for i
  proof -
    have "reconstruct_loop X (path_of (?l # ls) i) (length ?l) i (?l ! i) BottomLayer =
        Ok (hd (last (?l # ls)))"
      using reconstruct_path [OF t, of i] i assms(2) by simp
    moreover have "get_proof_loop (?l # ls) 0 (length ls) i (length ?l) = Ok (path_of (?l # ls) i)"
      using get_proof_loop_path [OF t, of "[]"] by simp
    ultimately show ?thesis
      using i by (simp add: get_proof_def verify_proof_def reconstruct_root_def Let_def)
  qed
  with n show ?thesis by (simp add: tree_depth_def)
qed

text \<open>
  C5. Completeness of Merkle proofs: for every non-empty list of block CIDs \<open>new\<close> terminates
  with a tree, \<open>get_proof\<close> gives a proof for every leaf without panicking, and
  \<open>verify_proof\<close> accepts that proof for the leaf's digest and the root of the tree.
\<close>

theorem merkle_proof_complete:
  assumes "cids \<noteq> []" "length cids < 2 ^ 64 - 1"
  shows "\<exists>t. tree_new X cids = Some (Ok t) \<and>
    (\<forall>i < length cids. \<exists>p. get_proof t i = Ok p \<and> length (ap_path p) = tree_depth t \<and>
       verify_proof X p (tree_leaf X (cids ! i)) (hd (last (at_layers t))) = Ok True)"
  by (rule tree_proofs_verify [OF assms])

definition demo_cids :: "(nat \<times> nat \<times> bytes) list" where
  "demo_cids = map (\<lambda>b. (0xcd02, 0x12, replicate 32 b)) [1, 2, 3]"

theorem merkle_proof_complete_witness:
  "\<exists>t. tree_new demo_crates demo_cids = Some (Ok t) \<and>
    (\<forall>i < length demo_cids. \<exists>p. get_proof t i = Ok p \<and> length (ap_path p) = tree_depth t \<and>
       verify_proof demo_crates p (tree_leaf demo_crates (demo_cids ! i)) (hd (last (at_layers t))) = Ok True)"
  by (rule merkle_proof_complete) (simp_all add: demo_cids_def)


section \<open>Proofs bind\<close>

text \<open>
  The byte strings that are hashed: for the parent of node \<open>k\<close> of a layer, for a whole tree, and
  when \<open>reconstruct_root\<close> recomputes a root.
\<close>

definition node_preimage :: "bytes list \<Rightarrow> bool \<Rightarrow> nat \<Rightarrow> bytes" where
  "node_preimage l b k =
     (if odd k then l ! (k - 1) @ l ! k @ [key_byte (pair_key b)]
      else if k = length l - 1 then l ! k @ zero_hash @ [key_byte (odd_key b)]
      else l ! k @ l ! Suc k @ [key_byte (pair_key b)])"

fun tree_preimages :: "bool \<Rightarrow> bytes list list \<Rightarrow> bytes set" where
  "tree_preimages b [] = {}"
| "tree_preimages b [l] = {}"
| "tree_preimages b (l # l' # ls) = node_preimage l b ` {..<length l} \<union> tree_preimages False (l' # ls)"

definition step_preimage :: "bytes \<Rightarrow> nat \<Rightarrow> nat \<Rightarrow> bytes \<Rightarrow> tree_key \<Rightarrow> bytes" where
  "step_preimage s m k cur key =
     (if odd k then s @ cur @ [key_byte key]
      else cur @ s @ [key_byte (if k = m - 1 then tree_key_from (key_byte key + 2) else key)])"

fun proof_preimages :: "('c, 'm) crates \<Rightarrow> bytes list \<Rightarrow> nat \<Rightarrow> nat \<Rightarrow> bytes \<Rightarrow> tree_key \<Rightarrow> bytes set" where
  "proof_preimages X [] m k cur key = {}"
| "proof_preimages X (s # path) m k cur key =
     insert (step_preimage s m k cur key)
       (proof_preimages X path ((m + 1) div 2) (k div 2) (sha256 X (step_preimage s m k cur key)) KeyNone)"

lemma parent_preimage:
  "k < length l \<Longrightarrow> build_next_layer X l b ! (k div 2) = sha256 X (node_preimage l b k)"
  by (simp add: parent_hash compress_def node_preimage_def)

lemma reconstruct_step:
  assumes "reconstruct_loop X (s # path) m k cur key = Ok r"
  shows "reconstruct_loop X path ((m + 1) div 2) (k div 2) (sha256 X (step_preimage s m k cur key)) KeyNone = Ok r"
  using assms
  by (auto simp: step_preimage_def compress_def result_simps psub_def padd_def and_Suc_0_eq mod2_eq_if
      split: if_splits)

text \<open>A step that hashes the byte string of a node has that node at its place.\<close>

lemma preimage_node:
  assumes "step_preimage s m k cur key = node_preimage l b k" "length cur = length (l ! k)"
  shows "cur = l ! k"
proof (cases "odd k")
  case True
  with assms have "s @ cur = l ! (k - 1) @ l ! k"
    by (simp add: step_preimage_def node_preimage_def append_assoc [symmetric] del: append_assoc)
  with assms(2) show ?thesis by simp
next
  case False
  with assms show ?thesis by (auto simp: step_preimage_def node_preimage_def split: if_splits)
qed

lemma reconstruct_sound:
  assumes "tower X b (l # ls)" "digest_law X"
    and "\<not> colliding (sha256 X) (tree_preimages b (l # ls)) (proof_preimages X path m k cur key)"
    and "k < length l" "\<And>h. h \<in> set l \<Longrightarrow> length h = 32" "length cur = 32"
    and "length path = length ls"
    and "reconstruct_loop X path m k cur key = Ok (hd (last (l # ls)))"
  shows "cur = l ! k"
  using assms
proof (induction ls arbitrary: l b k m cur key path)
  case Nil
  then show ?case by (cases l) auto
next
  case (Cons l' ls)
  from Cons.prems(1) have t: "tower X False (l' # ls)" and l': "l' = build_next_layer X l b" by auto
  from Cons.prems(7) obtain s path' where path: "path = s # path'" "length path' = length ls"
    by (cases path) auto
  let ?pre = "step_preimage s m k cur key" and ?m = "(m + 1) div 2"
  have rest: "reconstruct_loop X path' ?m (k div 2) (sha256 X ?pre) KeyNone = Ok (hd (last (l' # ls)))"
    using reconstruct_step [OF Cons.prems(8) [unfolded path(1)]] by simp
  have nc: "\<not> colliding (sha256 X) (tree_preimages False (l' # ls))
      (proof_preimages X path' ?m (k div 2) (sha256 X ?pre) KeyNone)"
    using Cons.prems(3) unfolding path(1) by (rule contrapos_nn) (erule colliding_mono; auto)
  have "length (sha256 X ?pre) = 32" using Cons.prems(2) by simp
  moreover have "k div 2 < length l'" using Cons.prems(4) parent_index by (simp add: l')
  moreover have "length h = 32" if "h \<in> set l'" for h
    using that Cons.prems(2) by (auto simp: l' dest: build_next_layer_lengths)
  ultimately have "sha256 X ?pre = l' ! (k div 2)"
    using Cons.IH [OF t Cons.prems(2) nc _ _ _ path(2) rest] by blast
  then have "sha256 X (node_preimage l b k) = sha256 X ?pre"
    using parent_preimage [OF Cons.prems(4), of X b] by (simp add: l')
  then have "?pre = node_preimage l b k"
    using Cons.prems(3) collidingI [of "node_preimage l b k" "tree_preimages b (l # l' # ls)" ?pre
        "proof_preimages X path m k cur key" "sha256 X"] Cons.prems(4)
    by (force simp: path(1))
  moreover have "length cur = length (l ! k)" using Cons.prems(4,5,6) by simp
  ultimately show ?case by (rule preimage_node)
qed

text \<open>
  C4. Soundness of Merkle proofs: a proof of the tree's depth that \<open>verify_proof\<close> accepts for
  some 32-byte digest and the tree's root can only be for the leaf at the proof's index, whatever
  sibling hashes and leaf count the proof claims, unless a byte string hashed by the verification
  collides under SHA-256 with one hashed when the tree was built.
\<close>

theorem merkle_proof_sound:
  assumes "digest_law X" "tree_new X cids = Some (Ok t)"
    and "\<forall>c \<in> set cids. length (tree_leaf X c) = 32" "length leaf = 32"
    and "ap_index p < length cids" "length (ap_path p) = tree_depth t"
    and "verify_proof X p leaf (hd (last (at_layers t))) = Ok True"
  shows "leaf = tree_leaf X (cids ! ap_index p) \<or>
    colliding (sha256 X) (tree_preimages True (at_layers t))
      (proof_preimages X (ap_path p) (ap_nleaves p) (ap_index p) leaf BottomLayer)"
proof (rule disjCI)
  assume nc: "\<not> colliding (sha256 X) (tree_preimages True (at_layers t))
      (proof_preimages X (ap_path p) (ap_nleaves p) (ap_index p) leaf BottomLayer)"
  obtain ls where tw: "tower X True (map (tree_leaf X) cids # ls)"
    and t: "t = \<lparr>at_layers = map (tree_leaf X) cids # ls, at_block_cids = cids\<rparr>"
    by (rule tree_newD [OF assms(2)])
  have "reconstruct_loop X (ap_path p) (ap_nleaves p) (ap_index p) leaf BottomLayer =
      Ok (hd (last (map (tree_leaf X) cids # ls)))"
    using assms(7) by (simp add: t verify_proof_def reconstruct_root_def result_simps)
  from reconstruct_sound [OF tw assms(1) _ _ _ assms(4) _ this] nc assms(3,5,6)
  show "leaf = tree_leaf X (cids ! ap_index p)" by (auto simp: t tree_depth_def)
qed

theorem merkle_proof_sound_witness:
  "\<exists>t p. tree_new demo_crates demo_cids = Some (Ok t) \<and>
     verify_proof demo_crates p (replicate 32 1) (hd (last (at_layers t))) = Ok True \<and>
     (replicate 32 1 = tree_leaf demo_crates (demo_cids ! ap_index p) \<or>
      colliding (sha256 demo_crates) (tree_preimages True (at_layers t))
        (proof_preimages demo_crates (ap_path p) (ap_nleaves p) (ap_index p) (replicate 32 1) BottomLayer))"
proof -
  obtain t p where t: "tree_new demo_crates demo_cids = Some (Ok t)"
    and p: "get_proof t 0 = Ok p" "length (ap_path p) = tree_depth t"
    and v: "verify_proof demo_crates p (tree_leaf demo_crates (demo_cids ! 0)) (hd (last (at_layers t))) = Ok True"
    using tree_proofs_verify [of demo_cids demo_crates] by (auto simp: demo_cids_def)
  have i: "ap_index p = 0"
    using p(1) by (auto simp: get_proof_def Let_def result_simps split: list.splits if_splits)
  have leaf: "tree_leaf demo_crates (demo_cids ! 0) = replicate 32 1"
    by (simp add: demo_cids_def tree_leaf_def demo_crates_def)
  have l32: "\<forall>c \<in> set demo_cids. length (tree_leaf demo_crates c) = 32"
    by (simp add: demo_cids_def tree_leaf_def demo_crates_def)
  have "replicate 32 1 = tree_leaf demo_crates (demo_cids ! ap_index p) \<or>
      colliding (sha256 demo_crates) (tree_preimages True (at_layers t))
        (proof_preimages demo_crates (ap_path p) (ap_nleaves p) (ap_index p) (replicate 32 1) BottomLayer)"
    by (rule merkle_proof_sound [OF demo_digest_law t l32])
      (use p i v leaf in \<open>simp_all add: demo_cids_def\<close>)
  with t v leaf show ?thesis by metis
qed

section \<open>Shape of the tree\<close>

lemma tower_depth:
  "tower X b (l # ls) \<Longrightarrow> length l \<le> 2 ^ length ls \<and>
     (2 \<le> length l \<longrightarrow> 2 ^ (length ls - 1) < length l) \<and> (length l = 1 \<longrightarrow> length ls = (if b then 1 else 0))"
proof (induction ls arbitrary: l b)
  case (Cons l' ls)
  then have t: "tower X False (l' # ls)" and l': "l' = build_next_layer X l b" by auto
  from Cons.IH [OF t] have IH: "length l' \<le> 2 ^ length ls"
    "2 \<le> length l' \<Longrightarrow> 2 ^ (length ls - 1) < length l'" "length l' = 1 \<Longrightarrow> ls = []" by auto
  have len: "length l' = (length l + 1) div 2" by (simp add: l')
  have "length l \<le> 2 * length l'" unfolding len by presburger
  then have "length l \<le> 2 ^ length (l' # ls)" using IH(1) by simp
  moreover have "2 ^ length ls < length l" if "2 \<le> length l"
  proof (cases "length l' = 1")
    case True
    with IH(3) that show ?thesis by simp
  next
    case False
    then have "2 \<le> length l'" using that len by presburger
    then have lt: "2 ^ (length ls - 1) < length l'" by (rule IH(2))
    have ne: "ls \<noteq> []" using t False by (cases ls) auto
    have "2 ^ length ls = 2 * (2::nat) ^ (length ls - 1)" using ne by (cases ls) auto
    with lt len show ?thesis by linarith
  qed
  moreover have "length l = 1 \<Longrightarrow> ls = [] \<and> b" using Cons.prems IH(3) len by auto
  ultimately show ?case by auto
qed auto

text \<open>
  Depth and root: a tree over \<open>n\<close> blocks has \<open>\<lceil>log2 n\<rceil>\<close> levels above its leaves (one level
  when \<open>n = 1\<close>), and its root CID is the SHA-256 multihash of the single root node under the
  codec 0xcd03; no error branch of \<open>root_cid\<close> is taken.
\<close>

lemma tree_shape:
  assumes "tree_new X cids = Some (Ok t)" "digest_law X" "mh_wrap_law X"
  shows "leaves_count t = length cids \<and> length cids \<le> 2 ^ tree_depth t \<and>
    (2 \<le> length cids \<longrightarrow> 2 ^ (tree_depth t - 1) < length cids) \<and>
    (length cids = 1 \<longrightarrow> tree_depth t = 1) \<and>
    length (hd (last (at_layers t))) = 32 \<and>
    (\<exists>m. mh_wrap X 0x12 (hd (last (at_layers t))) = Some m \<and> root_cid X t = Ok (cid_new_v1 X 0xcd03 m))"
proof -
  obtain ls where tw: "tower X True (map (tree_leaf X) cids # ls)"
    and t: "t = \<lparr>at_layers = map (tree_leaf X) cids # ls, at_block_cids = cids\<rparr>"
    by (rule tree_newD [OF assms(1)])
  have one: "length (last (map (tree_leaf X) cids # ls)) = 1" by (rule tower_last [OF tw])
  then obtain r where r: "last (map (tree_leaf X) cids # ls) = [r]" by (auto simp: length_Suc_conv)
  have ne: "ls \<noteq> []" using tw by auto
  have len: "length r = 32"
  proof -
    have "\<exists>l b. last (l0 # l1 # ls') = build_next_layer X l b" if "tower X b (l0 # l1 # ls')" for b l0 l1 ls'
      using that by (induction ls' arbitrary: b l0 l1) auto
    with tw ne obtain l b where "last (map (tree_leaf X) cids # ls) = build_next_layer X l b"
      by (metis neq_Nil_conv)
    with r assms(2) show ?thesis by (metis build_next_layer_lengths list.set_intros(1))
  qed
  then obtain m where "mh_wrap X 0x12 r = Some m" using mh_wrap_Ex [OF assms(3)] by fastforce
  with r len tower_depth [OF tw] show ?thesis
    by (auto simp: t tree_depth_def leaves_count_def root_cid_def)
qed

section \<open>The block list survives serialization\<close>

lemma cursor_read_append [simp]: "length bs = n \<Longrightarrow> cursor_read n (bs @ rest) msg = Ok (bs, rest)"
  by (auto simp: cursor_read_def)

lemma deserialize_loop_serialize:
  assumes "cid_bytes_law X" "\<forall>c \<in> set cids. length (cid_to_bytes X c) < 2 ^ 32"
  shows "deserialize_loop X (length cids) (concat (map (serialize_cid X) cids) @ rest) = Ok cids"
  using assms(2)
proof (induction cids)
  case (Cons c cids)
  have "length (cid_to_bytes X c) < 256 ^ 4" using Cons.prems by simp
  with Cons cid_bytes_lawD [OF assms(1)] show ?case by (simp add: serialize_cid_def Let_def)
qed simp

text \<open>
  Round trip of the block list: \<open>deserialize_block_list\<close> returns the CIDs that
  \<open>serialize_block_list\<close> wrote, in order, whatever bytes follow them.
\<close>

lemma block_list_roundtrip:
  assumes "cid_bytes_law X" "length (at_block_cids t) < 2 ^ 32"
    and "\<forall>c \<in> set (at_block_cids t). length (cid_to_bytes X c) < 2 ^ 32"
  shows "deserialize_block_list X (serialize_block_list X t @ rest) = Ok (at_block_cids t)"
proof -
  have "length (at_block_cids t) < 256 ^ 4" using assms(2) by simp
  with deserialize_loop_serialize [OF assms(1,3), of rest] assms(2) show ?thesis
    by (simp add: deserialize_block_list_def serialize_block_list_def)
qed

section \<open>Errors\<close>

lemma get_proof_out_of_bounds:
  assumes "tree_new X cids = Some (Ok t)" "length cids \<le> i"
  shows "get_proof t i = Err (IndexOutOfBounds i (length cids))"
proof -
  obtain ls where "t = \<lparr>at_layers = map (tree_leaf X) cids # ls, at_block_cids = cids\<rparr>"
    by (rule tree_newD [OF assms(1)])
  with assms(2) show ?thesis by (simp add: get_proof_def)
qed



end
