(* ===== verification/Metrics.thy ===== *)
theory Metrics
  imports Prelude
begin

text \<open>
  \<open>metrics.rs\<close>: the counters of a node. Each is an atomic integer of 64 bits, so additions and
  subtractions wrap around. Averages and rates, which are floating-point, and the text of the
  Prometheus page are not modelled.
\<close>

record metrics =
  mt_peer_connections :: nat
  mt_total_peers_seen :: nat
  mt_blocks_sent :: nat
  mt_blocks_received :: nat
  mt_bytes_sent :: nat
  mt_bytes_received :: nat
  mt_cache_hits :: nat
  mt_cache_misses :: nat
  mt_total_exchange_time_ms :: nat
  mt_total_exchanges :: nat
  mt_discovery_queries :: nat
  mt_discovery_successes :: nat
  mt_discovery_failures :: nat
  mt_blocks_from_discovery :: nat

definition metrics_new :: metrics where
  "metrics_new = \<lparr>mt_peer_connections = 0, mt_total_peers_seen = 0, mt_blocks_sent = 0, mt_blocks_received = 0, mt_bytes_sent = 0,
     mt_bytes_received = 0, mt_cache_hits = 0, mt_cache_misses = 0, mt_total_exchange_time_ms = 0, mt_total_exchanges = 0,
     mt_discovery_queries = 0, mt_discovery_successes = 0, mt_discovery_failures = 0, mt_blocks_from_discovery = 0\<rparr>"

definition fetch_add :: "nat \<Rightarrow> nat \<Rightarrow> nat" where
  "fetch_add x d = (x + d) mod 2 ^ 64"

definition fetch_sub :: "nat \<Rightarrow> nat \<Rightarrow> nat" where
  "fetch_sub x d = (x + 2 ^ 64 - d) mod 2 ^ 64"

definition peer_connected :: "metrics \<Rightarrow> metrics" where
  "peer_connected m = m\<lparr>mt_peer_connections := fetch_add (mt_peer_connections m) 1, mt_total_peers_seen := fetch_add (mt_total_peers_seen m) 1\<rparr>"

definition peer_disconnected :: "metrics \<Rightarrow> metrics" where
  "peer_disconnected m = m\<lparr>mt_peer_connections := fetch_sub (mt_peer_connections m) 1\<rparr>"

definition block_sent :: "nat \<Rightarrow> metrics \<Rightarrow> metrics" where
  "block_sent sz m = m\<lparr>mt_blocks_sent := fetch_add (mt_blocks_sent m) 1, mt_bytes_sent := fetch_add (mt_bytes_sent m) sz\<rparr>"

definition block_received :: "nat \<Rightarrow> metrics \<Rightarrow> metrics" where
  "block_received sz m =
     m\<lparr>mt_blocks_received := fetch_add (mt_blocks_received m) 1, mt_bytes_received := fetch_add (mt_bytes_received m) sz\<rparr>"

definition cache_hit :: "metrics \<Rightarrow> metrics" where
  "cache_hit m = m\<lparr>mt_cache_hits := fetch_add (mt_cache_hits m) 1\<rparr>"

definition cache_miss :: "metrics \<Rightarrow> metrics" where
  "cache_miss m = m\<lparr>mt_cache_misses := fetch_add (mt_cache_misses m) 1\<rparr>"

definition record_exchange_time :: "nat \<Rightarrow> metrics \<Rightarrow> metrics" where
  "record_exchange_time ms m =
     m\<lparr>mt_total_exchange_time_ms := fetch_add (mt_total_exchange_time_ms m) ms, mt_total_exchanges := fetch_add (mt_total_exchanges m) 1\<rparr>"

definition discovery_query :: "metrics \<Rightarrow> metrics" where
  "discovery_query m = m\<lparr>mt_discovery_queries := fetch_add (mt_discovery_queries m) 1\<rparr>"

definition discovery_success :: "metrics \<Rightarrow> metrics" where
  "discovery_success m = m\<lparr>mt_discovery_successes := fetch_add (mt_discovery_successes m) 1\<rparr>"

definition discovery_failure :: "metrics \<Rightarrow> metrics" where
  "discovery_failure m = m\<lparr>mt_discovery_failures := fetch_add (mt_discovery_failures m) 1\<rparr>"

definition block_from_discovery :: "metrics \<Rightarrow> metrics" where
  "block_from_discovery m = m\<lparr>mt_blocks_from_discovery := fetch_add (mt_blocks_from_discovery m) 1\<rparr>"

section \<open>Traffic of a batch\<close>

text \<open>The counters after blocks of the given sizes were sent.\<close>

lemma fold_block_sent:
  assumes "mt_blocks_sent m < 2 ^ 64" "mt_bytes_sent m < 2 ^ 64"
  shows "mt_blocks_sent (fold block_sent szs m) = (mt_blocks_sent m + length szs) mod 2 ^ 64
    \<and> mt_bytes_sent (fold block_sent szs m) = (mt_bytes_sent m + sum_list szs) mod 2 ^ 64"
  using assms
proof (induction szs arbitrary: m)
  case (Cons sz szs)
  have "mt_blocks_sent (block_sent sz m) < 2 ^ 64" "mt_bytes_sent (block_sent sz m) < 2 ^ 64"
    by (simp_all add: block_sent_def fetch_add_def)
  from Cons(1) [OF this] show ?case by (simp add: block_sent_def fetch_add_def mod_simps add.assoc)
qed simp

end
