(* ===== verification/Blockexc_Msg.thy ===== *)
theory Blockexc_Msg
  imports Wire_Codec
begin

text \<open>
  The messages of the block exchange protocol (\<open>messages.rs\<close>). Numeric fields keep their width:
  \<open>u64\<close> is a \<open>64 word\<close>, \<open>i32\<close> a \<open>32 word\<close> in two's complement. The encoder and decoder that
  \<open>prost\<close> derives for \<open>Message\<close> are a parameter; \<open>message_law\<close> is their documented behaviour:
  encoding into a growing vector does not fail, and decoding inverts it.
\<close>

type_synonym i32 = "32 word"

record block_address =
  ba_leaf :: bool
  ba_tree_cid :: bytes
  ba_index :: u64w
  ba_cid :: bytes

record proof_node =
  pn_hash :: bytes

record message_proof =
  mp_mcodec :: u64w
  mp_index :: u64w
  mp_nleaves :: u64w
  mp_path :: "proof_node list"

record wantlist_entry =
  we_address :: "block_address option"
  we_priority :: i32
  we_cancel :: bool
  we_want_type :: i32
  we_send_dont_have :: bool

record wantlist =
  wl_entries :: "wantlist_entry list"
  wl_full :: bool

record message_block =
  mb_prefix :: bytes
  mb_data :: bytes
  mb_range_start :: u64w
  mb_range_end :: u64w
  mb_total_size :: u64w

record block_delivery =
  bd_cid :: bytes
  bd_data :: bytes
  bd_address :: "block_address option"
  bd_proof :: "message_proof option"

record block_presence =
  bp_address :: "block_address option"
  bp_type :: i32
  bp_price :: bytes

record account_message =
  am_address :: bytes

record state_channel_update =
  sc_update :: bytes

record message =
  msg_wantlist :: "wantlist option"
  msg_payload :: "block_delivery list"
  msg_block_presences :: "block_presence list"
  msg_pending_bytes :: i32
  msg_account :: "account_message option"
  msg_payment :: "state_channel_update option"

datatype want_type = WantBlock | WantHave
datatype presence_type = PresenceHave | PresenceDontHave

fun want_type_as :: "want_type \<Rightarrow> i32" where
  "want_type_as WantBlock = 0"
| "want_type_as WantHave = 1"

text \<open>\<open>from_i32\<close>, which the derived enumeration provides.\<close>

definition want_type_from :: "i32 \<Rightarrow> want_type option" where
  "want_type_from n = (if n = 0 then Some WantBlock else if n = 1 then Some WantHave else None)"

fun presence_type_as :: "presence_type \<Rightarrow> i32" where
  "presence_type_as PresenceHave = 0"
| "presence_type_as PresenceDontHave = 1"

section \<open>Constructors and accessors\<close>

definition address_from_cid :: "bytes \<Rightarrow> block_address" where
  "address_from_cid cid = \<lparr>ba_leaf = False, ba_tree_cid = [], ba_index = 0, ba_cid = cid\<rparr>"

definition address_from_tree_leaf :: "bytes \<Rightarrow> u64w \<Rightarrow> block_address" where
  "address_from_tree_leaf tree_cid index = \<lparr>ba_leaf = True, ba_tree_cid = tree_cid, ba_index = index, ba_cid = []\<rparr>"

definition address_cid_bytes :: "block_address \<Rightarrow> bytes" where
  "address_cid_bytes a = (if ba_leaf a then ba_tree_cid a else ba_cid a)"

definition entry_from_cid :: "bytes \<Rightarrow> want_type \<Rightarrow> wantlist_entry" where
  "entry_from_cid cid want_type =
     \<lparr>we_address = Some (address_from_cid cid), we_priority = 1, we_cancel = False,
      we_want_type = want_type_as want_type, we_send_dont_have = True\<rparr>"

definition entry_from_cid_struct :: "('c, 'm) crates \<Rightarrow> 'c \<Rightarrow> want_type \<Rightarrow> wantlist_entry" where
  "entry_from_cid_struct X cid want_type = entry_from_cid (cid_to_bytes X cid) want_type"

definition entry_from_tree_leaf :: "bytes \<Rightarrow> u64w \<Rightarrow> want_type \<Rightarrow> wantlist_entry" where
  "entry_from_tree_leaf tree_cid index want_type =
     \<lparr>we_address = Some (address_from_tree_leaf tree_cid index), we_priority = 1, we_cancel = False,
      we_want_type = want_type_as want_type, we_send_dont_have = True\<rparr>"

definition entry_cancel_cid :: "bytes \<Rightarrow> wantlist_entry" where
  "entry_cancel_cid cid =
     \<lparr>we_address = Some (address_from_cid cid), we_priority = 0, we_cancel = True,
      we_want_type = want_type_as WantBlock, we_send_dont_have = False\<rparr>"

definition entry_cid_bytes :: "wantlist_entry \<Rightarrow> bytes option" where
  "entry_cid_bytes e = map_option address_cid_bytes (we_address e)"

definition delivery_from_cid_and_data :: "bytes \<Rightarrow> bytes \<Rightarrow> block_delivery" where
  "delivery_from_cid_and_data cid data =
     \<lparr>bd_cid = cid, bd_data = data, bd_address = Some (address_from_cid cid), bd_proof = None\<rparr>"

definition delivery_from_tree_leaf :: "bytes \<Rightarrow> bytes \<Rightarrow> bytes \<Rightarrow> u64w \<Rightarrow> message_proof \<Rightarrow> block_delivery" where
  "delivery_from_tree_leaf cid data tree_cid index pf =
     \<lparr>bd_cid = cid, bd_data = data, bd_address = Some (address_from_tree_leaf tree_cid index), bd_proof = Some pf\<rparr>"

definition presence_from_cid :: "bytes \<Rightarrow> presence_type \<Rightarrow> bytes \<Rightarrow> block_presence" where
  "presence_from_cid cid presence_type price =
     \<lparr>bp_address = Some (address_from_cid cid), bp_type = presence_type_as presence_type, bp_price = price\<rparr>"

definition presence_cid_bytes :: "block_presence \<Rightarrow> bytes option" where
  "presence_cid_bytes p = map_option address_cid_bytes (bp_address p)"

section \<open>The codec\<close>

record codec =
  pm_encode :: "message \<Rightarrow> bytes option"
  pm_decode :: "bytes \<Rightarrow> message option"

definition message_law :: "codec \<Rightarrow> bool" where
  "message_law M \<longleftrightarrow> (\<forall>m. \<exists>bs. pm_encode M m = Some bs \<and> pm_decode M bs = Some m)"

definition encode_message :: "codec \<Rightarrow> message \<Rightarrow> (bytes, unit) result" where
  "encode_message M msg = ok_or (pm_encode M msg) ()"

definition decode_message :: "codec \<Rightarrow> bytes \<Rightarrow> (message, unit) result" where
  "decode_message M bs = ok_or (pm_decode M bs) ()"

lemma message_lawE:
  assumes "message_law M"
  obtains bs where "encode_message M m = Ok bs" "decode_message M bs = Ok m"
  using assms by (fastforce simp: message_law_def encode_message_def decode_message_def)

lemma want_type_from_as [simp]: "want_type_from (want_type_as t) = Some t"
  by (cases t) (simp_all add: want_type_from_def)

lemma want_type_from_Some: "want_type_from n = Some t \<Longrightarrow> want_type_as t = n"
  by (auto simp: want_type_from_def split: if_splits)

lemma cid_bytes_simps [simp]:
  "address_cid_bytes (address_from_cid c) = c"
  "address_cid_bytes (address_from_tree_leaf c i) = c"
  "entry_cid_bytes (entry_from_cid c t) = Some c"
  "entry_cid_bytes (entry_from_tree_leaf c i t) = Some c"
  "entry_cid_bytes (entry_cancel_cid c) = Some c"
  "presence_cid_bytes (presence_from_cid c pt price) = Some c"
  by (simp_all add: address_cid_bytes_def address_from_cid_def address_from_tree_leaf_def entry_cid_bytes_def entry_from_cid_def
      entry_from_tree_leaf_def entry_cancel_cid_def presence_cid_bytes_def presence_from_cid_def)

section \<open>A concrete codec\<close>

text \<open>Every field in order, self-delimiting: a codec that satisfies \<open>message_law\<close>.\<close>

definition w_word :: "'n::len word \<Rightarrow> bytes" where "w_word = w_iso unat demo_varint"
definition r_word :: "bytes \<Rightarrow> ('n::len word \<times> bytes) option" where "r_word = r_iso word_of_nat demo_read_varint"
definition w_bool :: "bool \<Rightarrow> bytes" where "w_bool = w_iso of_bool demo_varint"
definition r_bool :: "bytes \<Rightarrow> (bool \<times> bytes) option" where "r_bool = r_iso (\<lambda>n. n = 1) demo_read_varint"

lemma word_codec: "self_delimiting w_word r_word"
  unfolding w_word_def r_word_def by (intro iso_codec varint_codec) simp

lemma bool_codec: "self_delimiting w_bool r_bool"
  unfolding w_bool_def r_bool_def by (intro iso_codec varint_codec) simp

lemmas field_codecs = wire_codecs word_codec bool_codec

definition w_address :: "block_address \<Rightarrow> bytes" where
  "w_address = w_iso (\<lambda>a. (ba_leaf a, ba_tree_cid a, ba_index a, ba_cid a)) (w_pair w_bool (w_pair w_bytes (w_pair w_word w_bytes)))"

definition r_address :: "bytes \<Rightarrow> (block_address \<times> bytes) option" where
  "r_address = r_iso (\<lambda>(l, t, i, c). \<lparr>ba_leaf = l, ba_tree_cid = t, ba_index = i, ba_cid = c\<rparr>) (r_pair r_bool (r_pair r_bytes (r_pair r_word r_bytes)))"

definition w_proof :: "message_proof \<Rightarrow> bytes" where
  "w_proof = w_iso (\<lambda>p. (mp_mcodec p, mp_index p, mp_nleaves p, map pn_hash (mp_path p))) (w_pair w_word (w_pair w_word (w_pair w_word (w_list w_bytes))))"

definition r_proof :: "bytes \<Rightarrow> (message_proof \<times> bytes) option" where
  "r_proof = r_iso (\<lambda>(k, i, n, hs). \<lparr>mp_mcodec = k, mp_index = i, mp_nleaves = n, mp_path = map (\<lambda>h. \<lparr>pn_hash = h\<rparr>) hs\<rparr>)
     (r_pair r_word (r_pair r_word (r_pair r_word (r_list r_bytes))))"

definition w_entry :: "wantlist_entry \<Rightarrow> bytes" where
  "w_entry = w_iso (\<lambda>e. (we_address e, we_priority e, we_cancel e, we_want_type e, we_send_dont_have e))
     (w_pair (w_option w_address) (w_pair w_word (w_pair w_bool (w_pair w_word w_bool))))"

definition r_entry :: "bytes \<Rightarrow> (wantlist_entry \<times> bytes) option" where
  "r_entry = r_iso (\<lambda>(a, p, c, t, d). \<lparr>we_address = a, we_priority = p, we_cancel = c, we_want_type = t, we_send_dont_have = d\<rparr>)
     (r_pair (r_option r_address) (r_pair r_word (r_pair r_bool (r_pair r_word r_bool))))"

definition w_wantlist :: "wantlist \<Rightarrow> bytes" where
  "w_wantlist = w_iso (\<lambda>w. (wl_entries w, wl_full w)) (w_pair (w_list w_entry) w_bool)"

definition r_wantlist :: "bytes \<Rightarrow> (wantlist \<times> bytes) option" where
  "r_wantlist = r_iso (\<lambda>(e, f). \<lparr>wl_entries = e, wl_full = f\<rparr>) (r_pair (r_list r_entry) r_bool)"

definition w_delivery :: "block_delivery \<Rightarrow> bytes" where
  "w_delivery = w_iso (\<lambda>d. (bd_cid d, bd_data d, bd_address d, bd_proof d)) (w_pair w_bytes (w_pair w_bytes (w_pair (w_option w_address) (w_option w_proof))))"

definition r_delivery :: "bytes \<Rightarrow> (block_delivery \<times> bytes) option" where
  "r_delivery = r_iso (\<lambda>(c, d, a, p). \<lparr>bd_cid = c, bd_data = d, bd_address = a, bd_proof = p\<rparr>)
     (r_pair r_bytes (r_pair r_bytes (r_pair (r_option r_address) (r_option r_proof))))"

definition w_presence :: "block_presence \<Rightarrow> bytes" where
  "w_presence = w_iso (\<lambda>p. (bp_address p, bp_type p, bp_price p)) (w_pair (w_option w_address) (w_pair w_word w_bytes))"

definition r_presence :: "bytes \<Rightarrow> (block_presence \<times> bytes) option" where
  "r_presence = r_iso (\<lambda>(a, t, p). \<lparr>bp_address = a, bp_type = t, bp_price = p\<rparr>) (r_pair (r_option r_address) (r_pair r_word r_bytes))"

definition w_message :: "message \<Rightarrow> bytes" where
  "w_message = w_iso (\<lambda>m. (msg_wantlist m, msg_payload m, msg_block_presences m, msg_pending_bytes m, map_option am_address (msg_account m), map_option sc_update (msg_payment m)))
     (w_pair (w_option w_wantlist) (w_pair (w_list w_delivery) (w_pair (w_list w_presence) (w_pair w_word (w_pair (w_option w_bytes) (w_option w_bytes))))))"

definition r_message :: "bytes \<Rightarrow> (message \<times> bytes) option" where
  "r_message = r_iso (\<lambda>(w, d, p, n, a, u). \<lparr>msg_wantlist = w, msg_payload = d, msg_block_presences = p, msg_pending_bytes = n,
       msg_account = map_option (\<lambda>x. \<lparr>am_address = x\<rparr>) a, msg_payment = map_option (\<lambda>x. \<lparr>sc_update = x\<rparr>) u\<rparr>)
     (r_pair (r_option r_wantlist) (r_pair (r_list r_delivery) (r_pair (r_list r_presence) (r_pair r_word (r_pair (r_option r_bytes) (r_option r_bytes))))))"

lemma address_codec: "self_delimiting w_address r_address"
  unfolding w_address_def r_address_def by (intro iso_codec field_codecs) simp

lemma record_eta:
  "(\<lambda>x. \<lparr>pn_hash = pn_hash x\<rparr>) = (\<lambda>x. x)" "(\<lambda>x. \<lparr>am_address = am_address x\<rparr>) = (\<lambda>x. x)" "(\<lambda>x. \<lparr>sc_update = sc_update x\<rparr>) = (\<lambda>x. x)"
  by auto

lemma proof_codec: "self_delimiting w_proof r_proof"
  unfolding w_proof_def r_proof_def by (intro iso_codec field_codecs) (simp add: comp_def record_eta)

lemma entry_codec: "self_delimiting w_entry r_entry"
  unfolding w_entry_def r_entry_def by (intro iso_codec field_codecs address_codec) simp

lemma wantlist_codec: "self_delimiting w_wantlist r_wantlist"
  unfolding w_wantlist_def r_wantlist_def by (intro iso_codec field_codecs entry_codec) simp

lemma delivery_codec: "self_delimiting w_delivery r_delivery"
  unfolding w_delivery_def r_delivery_def by (intro iso_codec field_codecs address_codec proof_codec) simp

lemma presence_codec: "self_delimiting w_presence r_presence"
  unfolding w_presence_def r_presence_def by (intro iso_codec field_codecs address_codec) simp

lemma message_codec: "self_delimiting w_message r_message"
  unfolding w_message_def r_message_def
  by (intro iso_codec field_codecs wantlist_codec delivery_codec presence_codec) (simp add: option.map_comp comp_def record_eta option.map_ident)

definition demo_codec :: codec where
  "demo_codec = \<lparr>pm_encode = Some \<circ> w_message, pm_decode = read_whole r_message\<rparr>"

lemma demo_message_law [simp]: "message_law demo_codec"
  by (simp add: message_law_def demo_codec_def read_whole_put [OF message_codec])

end
