(* ===== verification/Blockexc_Wire.thy ===== *)
theory Blockexc_Wire
  imports Prelude
begin

text \<open>
  The framing of the block exchange protocol (\<open>blockexc.rs\<close>): a message is written behind its
  length as an unsigned varint. A stream is the bytes that are still to come; reading past them
  is an unexpected end of file. Shifts and masks are those of 64-bit words.
\<close>

unbundle bit_operations_syntax

datatype io_error = UnexpectedEof | InvalidData string

section \<open>Writing and reading\<close>

function write_varint :: "64 word \<Rightarrow> bytes" where
  "write_varint len = (if 0x80 \<le> len then (ucast len OR 0x80) # write_varint (drop_bit 7 len) else [ucast len])"
  by pat_completeness auto
termination
proof (relation "measure unat")
  fix len :: "64 word"
  assume "0x80 \<le> len"
  then have "0x80 \<le> unat len" by (simp add: word_le_nat_alt)
  then show "(drop_bit 7 len, len) \<in> measure unat" by (simp add: unat_drop_bit_eq drop_bit_nat_def)
qed simp

declare write_varint.simps [simp del]

definition write_length_prefixed :: "bytes \<Rightarrow> bytes" where
  "write_length_prefixed data = write_varint (word_of_nat (length data)) @ data"

fun read_varint :: "64 word \<Rightarrow> nat \<Rightarrow> bytes \<Rightarrow> (64 word \<times> bytes, io_error) result" where
  "read_varint len shift [] = Err UnexpectedEof"
| "read_varint len shift (byte # s) =
     (let len' = len OR push_bit shift (ucast (byte AND 0x7F)); shift' = shift + 7 in
      if byte AND 0x80 = 0 then Ok (len', s)
      else if 64 \<le> shift' then Err (InvalidData ''varint too long'')
      else read_varint len' shift' s)"

definition read_length_prefixed :: "nat \<Rightarrow> bytes \<Rightarrow> (bytes \<times> bytes, io_error) result" where
  "read_length_prefixed max_size s =
     rbind (read_varint 0 0 s) (\<lambda>(len, s').
       if max_size < unat len then Err (InvalidData ''message too large'')
       else if unat len \<le> length s' then Ok (take (unat len) s', drop (unat len) s')
       else Err UnexpectedEof)"

definition MAX_MESSAGE :: nat where
  "MAX_MESSAGE = 100 * 1024 * 1024"

section \<open>A stream of frames\<close>

text \<open>Reading messages one after another.\<close>

fun read_frames :: "(bytes \<Rightarrow> (bytes \<times> bytes, io_error) result) \<Rightarrow> nat \<Rightarrow> bytes \<Rightarrow> (bytes list \<times> bytes, io_error) result" where
  "read_frames rd 0 s = Ok ([], s)"
| "read_frames rd (Suc n) s = rbind (rd s) (\<lambda>(m, s'). rbind (read_frames rd n s') (\<lambda>(ms, r). Ok (m # ms, r)))"

locale framing =
  fixes wr :: "bytes \<Rightarrow> bytes" and rd :: "bytes \<Rightarrow> (bytes \<times> bytes, io_error) result" and fits :: "bytes \<Rightarrow> bool"
  assumes rd_wr: "fits m \<Longrightarrow> rd (wr m @ r) = Ok (m, r)"
    and rd_fits: "rd s = Ok (m, r) \<Longrightarrow> fits m"
    and rd_shorter: "rd s = Ok (m, r) \<Longrightarrow> length r < length s"
begin

lemma read_written:
  "(\<And>m. m \<in> set ms \<Longrightarrow> fits m) \<Longrightarrow> read_frames rd (length ms) (concat (map wr ms) @ r) = Ok (ms, r)"
  by (induction ms) (simp_all add: rd_wr)

lemma read_frames_fits: "read_frames rd n s = Ok (ms, r) \<Longrightarrow> m \<in> set ms \<Longrightarrow> fits m"
  by (induction n arbitrary: s ms) (auto simp: result_simps dest: rd_fits)

lemma read_frames_bound: "read_frames rd n s = Ok (ms, r) \<Longrightarrow> n + length r \<le> length s"
proof (induction n arbitrary: s ms)
  case (Suc n)
  then obtain m s' ms' where "rd s = Ok (m, s')" "read_frames rd n s' = Ok (ms', r)" by (auto simp: result_simps)
  then show ?case using Suc(1) [of s' ms'] rd_shorter [of s m s'] by simp
qed simp

lemma wr_inject: "fits m \<Longrightarrow> fits m' \<Longrightarrow> wr m @ r = wr m' @ r' \<Longrightarrow> m = m' \<and> r = r'"
  by (metis rd_wr prod.inject result.inject(1))

end

section \<open>The varint\<close>

lemma bit_0x7F: "bit (0x7F :: int) n \<longleftrightarrow> n < 7"
  using bit_mask_iff [of 7 n, where ?'a = int] by (auto simp: mask_eq_exp_minus_1)

lemma bit_0x80: "bit (0x80 :: int) n \<longleftrightarrow> n = 7"
  using bit_exp_iff [of 7 n, where ?'a = int] by auto

lemma varint_cont: "(ucast len OR 0x80 :: u8) AND 0x80 \<noteq> 0"
proof -
  have "bit ((ucast len OR 0x80 :: u8) AND 0x80) 7" by (simp add: bit_simps)
  then show ?thesis by (metis bit_0_eq bot_apply bot_bool_def)
qed

lemma varint_low: "ucast ((ucast len OR 0x80 :: u8) AND 0x7F) = (take_bit 7 len :: 64 word)"
  by (rule bit_word_eqI) (auto simp: bit_simps bit_0x7F bit_0x80)

lemma varint_last:
  assumes "len < (0x80 :: 64 word)"
  shows "(ucast len :: u8) AND 0x80 = 0" "ucast ((ucast len :: u8) AND 0x7F) = len"
proof -
  have "unat len < 2 ^ 7" using assms by (simp add: word_less_nat_alt)
  then have "unat (drop_bit 7 len) = 0" by (simp add: unat_drop_bit_eq drop_bit_nat_def)
  then have z: "drop_bit 7 len = 0" by (simp add: unat_eq_0)
  have b: "n < 7" if "bit len n" for n
  proof (rule ccontr)
    assume "\<not> n < 7"
    then have "bit (drop_bit 7 len) (n - 7)" using that by (simp add: bit_drop_bit_eq)
    then show False by (simp add: z)
  qed
  show "(ucast len :: u8) AND 0x80 = 0" by (rule bit_word_eqI) (auto simp: bit_simps bit_0x80 dest: b)
  show "ucast ((ucast len :: u8) AND 0x7F) = len" by (rule bit_word_eqI) (auto simp: bit_simps bit_0x7F dest: b)
qed

lemma push_split:
  "push_bit s (take_bit 7 v) OR push_bit (s + 7) (drop_bit 7 v) = push_bit s (v :: 64 word)"
proof (rule bit_word_eqI)
  fix n assume "n < LENGTH(64)"
  have "7 + (n - (s + 7)) = n - s" if "s + 7 \<le> n" using that by simp
  then show "bit (push_bit s (take_bit 7 v) OR push_bit (s + 7) (drop_bit 7 v)) n = bit (push_bit s v) n"
    by (cases "s + 7 \<le> n") (auto simp: bit_simps)
qed

lemma read_write_varint:
  "s < 64 \<Longrightarrow> unat v < 2 ^ (64 - s) \<Longrightarrow> read_varint acc s (write_varint v @ r) = Ok (acc OR push_bit s v, r)"
proof (induction v arbitrary: acc s rule: write_varint.induct)
  case (1 v)
  show ?case
  proof (cases "0x80 \<le> v")
    case True
    then have v7: "2 ^ 7 \<le> unat v" by (simp add: word_le_nat_alt)
    then have "(2 :: nat) ^ 7 < 2 ^ (64 - s)" using 1(3) by (rule le_less_trans)
    then have "7 < 64 - s" by (rule power_less_imp_less_exp [rotated]) simp
    then have s: "s + 7 < 64" by simp
    have "unat (drop_bit 7 v) = unat v div 2 ^ 7" by (simp add: unat_drop_bit_eq drop_bit_nat_def)
    also have "\<dots> < 2 ^ (64 - (s + 7))"
    proof -
      have "64 - s = 7 + (64 - (s + 7))" using s by simp
      then have "unat v < 2 ^ 7 * 2 ^ (64 - (s + 7))" using 1(3) by (metis power_add)
      then show ?thesis by (simp add: div_less_iff_less_mult mult.commute)
    qed
    finally have ih: "read_varint acc' (s + 7) (write_varint (drop_bit 7 v) @ r) = Ok (acc' OR push_bit (s + 7) (drop_bit 7 v), r)" for acc'
      by (rule 1(1) [OF True s])
    show ?thesis
      using True s varint_cont [of v] push_split [of s v] ih
      by (simp add: write_varint.simps [of v] varint_low Let_def or.assoc)
  next
    case False
    then have "v < 0x80" by (simp add: not_le)
    then show ?thesis using varint_last [of v] False by (simp add: write_varint.simps [of v] Let_def)
  qed
qed

lemma read_varint_shorter: "read_varint len s bs = Ok (v, r) \<Longrightarrow> length r < length bs"
  by (induction len s bs rule: read_varint.induct) (auto simp: Let_def intro: less_SucI split: if_splits)

lemma write_varint_ne [simp]: "write_varint v \<noteq> []"
  by (subst write_varint.simps) simp

text \<open>A message whose length is a 64-bit number within the limit.\<close>

definition frame_fits :: "nat \<Rightarrow> bytes \<Rightarrow> bool" where
  "frame_fits max_size m \<longleftrightarrow> length m \<le> max_size \<and> length m < 2 ^ 64"

interpretation frame: framing write_length_prefixed "read_length_prefixed max_size" "frame_fits max_size" for max_size
proof
  fix m r assume f: "frame_fits max_size m"
  have u: "unat (word_of_nat (length m) :: 64 word) = length m" using f by (simp add: frame_fits_def unat_of_nat)
  have "read_varint 0 0 (write_varint (word_of_nat (length m)) @ m @ r) = Ok (word_of_nat (length m), m @ r)"
    using read_write_varint [of 0 "word_of_nat (length m)" 0 "m @ r"] unsigned_less [of "word_of_nat (length m) :: 64 word"] by simp
  then show "read_length_prefixed max_size (write_length_prefixed m @ r) = Ok (m, r)"
    using f u by (simp add: read_length_prefixed_def write_length_prefixed_def frame_fits_def)
next
  fix s m r assume "read_length_prefixed max_size s = Ok (m, r)"
  then obtain len s' where v: "read_varint 0 0 s = Ok (len, s')" "unat len \<le> max_size" "unat len \<le> length s'"
    "m = take (unat len) s'" "r = drop (unat len) s'"
    by (auto simp: read_length_prefixed_def result_simps split: if_splits)
  show "frame_fits max_size m" using v unsigned_less [of len, where ?'a = nat] by (simp add: frame_fits_def)
  show "length r < length s" using read_varint_shorter [OF v(1)] v(5) by simp
qed

text \<open>
  Framing: messages within the size limit written one after another are read back in order,
  whatever follows them on the stream; and whatever bytes a peer sends, a message that is
  accepted is within the limit and every frame consumes at least one byte.
\<close>

lemma wire_roundtrip:
  "((\<forall>m \<in> set ms. frame_fits max_size m) \<longrightarrow>
      read_frames (read_length_prefixed max_size) (length ms) (concat (map write_length_prefixed ms) @ r) = Ok (ms, r)) \<and>
   (read_frames (read_length_prefixed max_size) n s = Ok (ms', r') \<longrightarrow>
      (\<forall>m \<in> set ms'. length m \<le> max_size) \<and> n + length r' \<le> length s)"
  using frame.read_written [of ms max_size r] frame.read_frames_fits [of max_size n s ms' r']
    frame.read_frames_bound [of max_size n s ms' r']
  by (auto simp: frame_fits_def)

end
