(* ===== verification/Blockexc_Serve.thy ===== *)
theory Blockexc_Serve
  imports Block_Store Manifest Merkle_Tree Metrics Blockexc_Msg Blockexc_Wire
begin

text \<open>
  The serving side of the block exchange (\<open>blockexc.rs\<close>): finding the leaf of a Merkle tree from
  its manifest, answering a want list in each mode of the node, and the loop over an inbound
  stream. The loop is given the store it reads; \<open>wok\<close> tells, from what was written before,
  whether a write to the stream succeeds. A panic ends the task of the stream; what the counters
  gained while the message that caused it was handled is not kept.
\<close>

section \<open>Results that are turned into options\<close>

text \<open>\<open>.ok()?\<close> in a function that returns an \<open>Option\<close>: \<open>Err\<close> ends it with \<open>None\<close>.\<close>

fun ok_then :: "('a, 'e) result \<Rightarrow> ('a \<Rightarrow> ('b option, unit) result) \<Rightarrow> ('b option, unit) result" where
  "ok_then (Ok a) f = f a"
| "ok_then (Err e) f = Ok None"
| "ok_then Panic f = Panic"

lemma ok_then_Some: "ok_then r f = Ok (Some b) \<longleftrightarrow> (\<exists>a. r = Ok a \<and> f a = Ok (Some b))"
  by (cases r) auto

definition pmul :: "nat \<Rightarrow> nat \<Rightarrow> nat \<Rightarrow> (nat, 'e) result" where
  "pmul w a b = (if a * b < 2 ^ w then Ok (a * b) else Panic)"

section \<open>Leaves of a tree\<close>

definition metadata_cid :: "('c, 'm) crates \<Rightarrow> 'c manifest \<Rightarrow> 'c option" where
  "metadata_cid X m = Option.bind (m_filename m) (\<lambda>s. Option.bind (strip_prefix ''metadata:'' s) (cid_parse X))"

definition message_proof_of :: "('c, 'm) crates \<Rightarrow> 'c \<Rightarrow> u64w \<Rightarrow> archivist_proof \<Rightarrow> message_proof" where
  "message_proof_of X tree_cid index p =
     \<lparr>mp_mcodec = word_of_nat (mh_code X (cid_hash X tree_cid)), mp_index = index,
      mp_nleaves = word_of_nat (ap_nleaves p), mp_path = map (\<lambda>h. \<lparr>pn_hash = h\<rparr>) (ap_path p)\<rparr>"

text \<open>The tree of the block list and the proof of the leaf; a tree whose construction does not end hangs the task.\<close>

definition leaf_proof :: "('c, 'm) crates \<Rightarrow> 'c list \<Rightarrow> nat \<Rightarrow> (archivist_proof, tree_error) result" where
  "leaf_proof X block_cids idx =
     (case tree_new X block_cids of
        Some r \<Rightarrow> rbind r (\<lambda>tree. get_proof tree idx)
      | None \<Rightarrow> Panic)"

definition leaf_of_manifest ::
  "('c, 'm) crates \<Rightarrow> 't store_cfg \<Rightarrow> 't store_backend \<Rightarrow> 'c \<Rightarrow> u64w \<Rightarrow> 'c manifest \<Rightarrow> (block_delivery option, unit) result" where
  "leaf_of_manifest X C s tree_cid index m =
     (let idx = unat index in
      case metadata_cid X m of
        None \<Rightarrow> Ok None
      | Some mc \<Rightarrow>
        ok_then (store_get X C mc s) (\<lambda>metadata_block.
        ok_then (deserialize_block_list X (block_data metadata_block)) (\<lambda>block_cids.
        if length block_cids \<le> idx then Ok None
        else let leaf_cid = block_cids ! idx in
          ok_then (store_get X C leaf_cid s) (\<lambda>leaf_block.
          ok_then (leaf_proof X block_cids idx) (\<lambda>p.
            Ok (Some (delivery_from_tree_leaf (cid_to_bytes X leaf_cid) (block_data leaf_block) (cid_to_bytes X tree_cid) index
              (message_proof_of X tree_cid index p))))))))"

fun resolve_loop ::
  "('c, 'm) crates \<Rightarrow> prost \<Rightarrow> 't store_cfg \<Rightarrow> 't store_backend \<Rightarrow> 'c \<Rightarrow> u64w \<Rightarrow> 'c list \<Rightarrow> (block_delivery option, unit) result" where
  "resolve_loop X P C s tree_cid index [] = Ok None"
| "resolve_loop X P C s tree_cid index (c # cs) =
     (if cid_codec X c \<noteq> 0xcd01 then resolve_loop X P C s tree_cid index cs
      else case store_get X C c s of
        Panic \<Rightarrow> Panic
      | Err _ \<Rightarrow> resolve_loop X P C s tree_cid index cs
      | Ok manifest_block \<Rightarrow>
        (case from_block X P manifest_block of
           Panic \<Rightarrow> Panic
         | Err _ \<Rightarrow> resolve_loop X P C s tree_cid index cs
         | Ok m \<Rightarrow>
           if m_tree_cid m \<noteq> tree_cid then resolve_loop X P C s tree_cid index cs
           else leaf_of_manifest X C s tree_cid index m))"

definition resolve_leaf_delivery ::
  "('c, 'm) crates \<Rightarrow> prost \<Rightarrow> 't store_cfg \<Rightarrow> 't store_backend \<Rightarrow> 'c \<Rightarrow> u64w \<Rightarrow> (block_delivery option, unit) result" where
  "resolve_leaf_delivery X P C s tree_cid index = resolve_loop X P C s tree_cid index (store_list_cids X C s)"

definition has_leaf_block ::
  "('c, 'm) crates \<Rightarrow> prost \<Rightarrow> 't store_cfg \<Rightarrow> 't store_backend \<Rightarrow> 'c \<Rightarrow> u64w \<Rightarrow> (bool, unit) result" where
  "has_leaf_block X P C s tree_cid index =
     rbind (resolve_leaf_delivery X P C s tree_cid index) (\<lambda>d. Ok (d \<noteq> None))"

section \<open>Answering a want list\<close>

record answer =
  an_blocks :: "block_delivery list"
  an_presences :: "block_presence list"
  an_metrics :: metrics

definition push_block :: "block_delivery \<Rightarrow> answer \<Rightarrow> answer" where
  "push_block d a = a\<lparr>an_metrics := block_sent (length (bd_data d)) (an_metrics a), an_blocks := an_blocks a @ [d]\<rparr>"

definition push_presence :: "block_presence \<Rightarrow> answer \<Rightarrow> answer" where
  "push_presence p a = a\<lparr>an_presences := an_presences a @ [p]\<rparr>"

text \<open>The answer to \<open>WantHave\<close>.\<close>

definition answer_have :: "bool \<Rightarrow> wantlist_entry \<Rightarrow> block_address \<Rightarrow> answer \<Rightarrow> answer" where
  "answer_have have entry address a =
     (if have then push_presence \<lparr>bp_address = Some address, bp_type = presence_type_as PresenceHave, bp_price = [0]\<rparr> a
      else if we_send_dont_have entry
      then push_presence \<lparr>bp_address = Some address, bp_type = presence_type_as PresenceDontHave, bp_price = [0]\<rparr> a
      else a)"

definition entry_want_type :: "wantlist_entry \<Rightarrow> want_type" where
  "entry_want_type entry = (case want_type_from (we_want_type entry) of Some t \<Rightarrow> t | None \<Rightarrow> WantHave)"

definition altruistic_leaf ::
  "('c, 'm) crates \<Rightarrow> prost \<Rightarrow> 't store_cfg \<Rightarrow> 't store_backend \<Rightarrow> wantlist_entry \<Rightarrow> block_address \<Rightarrow> 'c \<Rightarrow> answer \<Rightarrow> (answer, unit) result" where
  "altruistic_leaf X P C s entry address tree_cid a =
     (case entry_want_type entry of
        WantHave \<Rightarrow> rbind (has_leaf_block X P C s tree_cid (ba_index address)) (\<lambda>have. Ok (answer_have have entry address a))
      | WantBlock \<Rightarrow> rbind (resolve_leaf_delivery X P C s tree_cid (ba_index address))
          (\<lambda>d. Ok (case d of Some delivery \<Rightarrow> push_block delivery a | None \<Rightarrow> a)))"

definition altruistic_cid ::
  "('c, 'm) crates \<Rightarrow> 't store_cfg \<Rightarrow> 't store_backend \<Rightarrow> wantlist_entry \<Rightarrow> block_address \<Rightarrow> 'c \<Rightarrow> answer \<Rightarrow> (answer, unit) result" where
  "altruistic_cid X C s entry address cid a =
     (case store_get X C cid s of
        Panic \<Rightarrow> Panic
      | r \<Rightarrow>
        let block = (case r of Ok b \<Rightarrow> Some b | _ \<Rightarrow> None) in
        (case entry_want_type entry of
           WantHave \<Rightarrow> Ok (answer_have (block \<noteq> None) entry address a)
         | WantBlock \<Rightarrow>
           Ok (case block of
                 Some b \<Rightarrow> push_block (delivery_from_cid_and_data (cid_to_bytes X cid) (block_data b)) a
               | None \<Rightarrow> a)))"

definition altruistic_entry ::
  "('c, 'm) crates \<Rightarrow> prost \<Rightarrow> 't store_cfg \<Rightarrow> 't store_backend \<Rightarrow> wantlist_entry \<Rightarrow> answer \<Rightarrow> (answer, unit) result" where
  "altruistic_entry X P C s entry a =
     (if we_cancel entry then Ok a
      else case we_address entry of
        None \<Rightarrow> Ok a
      | Some address \<Rightarrow>
        if ba_leaf address
        then (case cid_try_from X (ba_tree_cid address) of
                None \<Rightarrow> Ok a
              | Some tree_cid \<Rightarrow> altruistic_leaf X P C s entry address tree_cid a)
        else (case cid_try_from X (ba_cid address) of
                None \<Rightarrow> Ok a
              | Some cid \<Rightarrow> altruistic_cid X C s entry address cid a))"

text \<open>Marketplace mode: the same walk with and without a payment.\<close>

definition market_block :: "('c, 'm) crates \<Rightarrow> 't store_cfg \<Rightarrow> 't store_backend \<Rightarrow> wantlist_entry \<Rightarrow> (('c \<times> 'c block) option, unit) result" where
  "market_block X C s entry =
     (case Option.bind (entry_cid_bytes entry) (cid_try_from X) of
        None \<Rightarrow> Ok None
      | Some cid \<Rightarrow> ok_then (store_get X C cid s) (\<lambda>b. Ok (Some (cid, b))))"

definition paid_entry :: "('c, 'm) crates \<Rightarrow> 't store_cfg \<Rightarrow> 't store_backend \<Rightarrow> wantlist_entry \<Rightarrow> answer \<Rightarrow> (answer, unit) result" where
  "paid_entry X C s entry a =
     rbind (market_block X C s entry) (\<lambda>found.
       Ok (case found of
             Some (cid, b) \<Rightarrow> push_block (delivery_from_cid_and_data (cid_to_bytes X cid) (block_data b)) a
           | None \<Rightarrow> a))"

definition unpaid_entry ::
  "('c, 'm) crates \<Rightarrow> 't store_cfg \<Rightarrow> nat \<Rightarrow> 't store_backend \<Rightarrow> wantlist_entry \<Rightarrow> answer \<Rightarrow> (answer, unit) result" where
  "unpaid_entry X C price_per_byte s entry a =
     rbind (market_block X C s entry) (\<lambda>found.
       case found of
         Some (cid, b) \<Rightarrow>
           rbind (pmul 64 (length (block_data b)) price_per_byte) (\<lambda>block_price.
             Ok (push_presence (presence_from_cid (cid_to_bytes X cid) PresenceHave (le_bytes 8 block_price)) a))
       | None \<Rightarrow> Ok a)"

definition response_message :: "answer \<Rightarrow> message" where
  "response_message a =
     \<lparr>msg_wantlist = None, msg_payload = an_blocks a, msg_block_presences = an_presences a,
      msg_pending_bytes = 0, msg_account = None, msg_payment = None\<rparr>"

text \<open>What one decoded message leads to: the response to send, if any, and the counters.\<close>

definition handle_message ::
  "('c, 'm) crates \<Rightarrow> prost \<Rightarrow> 't store_cfg \<Rightarrow> string \<Rightarrow> nat \<Rightarrow> 't store_backend \<Rightarrow> message \<Rightarrow> metrics \<Rightarrow> (message option \<times> metrics, unit) result" where
  "handle_message X P C mode price_per_byte s msg mt =
     (let start = \<lparr>an_blocks = [], an_presences = [], an_metrics = mt\<rparr> in
      case msg_wantlist msg of
        None \<Rightarrow> Ok (None, mt)
      | Some wl \<Rightarrow>
        if mode = ''altruistic'' then
          rbind (try_fold (altruistic_entry X P C s) (wl_entries wl) start) (\<lambda>a.
            Ok (if an_blocks a \<noteq> [] \<or> an_presences a \<noteq> [] then Some (response_message a) else None, an_metrics a))
        else if mode = ''marketplace'' then
          (if msg_payment msg \<noteq> None
           then rbind (try_fold (paid_entry X C s) (wl_entries wl) start) (\<lambda>a. Ok (Some (response_message a), an_metrics a))
           else rbind (try_fold (unpaid_entry X C price_per_byte s) (wl_entries wl) start) (\<lambda>a.
             Ok (Some (response_message a), an_metrics a)))
        else Ok (None, mt))"

section \<open>The inbound stream\<close>

text \<open>The bytes written to the stream, the counters, and whether the task panicked.\<close>

function inbound_loop ::
  "('c, 'm) crates \<Rightarrow> prost \<Rightarrow> codec \<Rightarrow> 't store_cfg \<Rightarrow> string \<Rightarrow> nat \<Rightarrow> 't store_backend \<Rightarrow> (bytes \<Rightarrow> bool) \<Rightarrow>
     bytes \<Rightarrow> bytes \<Rightarrow> metrics \<Rightarrow> bytes \<times> metrics \<times> bool" where
  "inbound_loop X P M C mode price s wok input out mt =
     (case read_length_prefixed MAX_MESSAGE input of
        Ok (data, rest) \<Rightarrow>
          (case decode_message M data of
             Ok msg \<Rightarrow>
               (case handle_message X P C mode price s msg mt of
                  Ok (Some response, mt') \<Rightarrow>
                    (case encode_message M response of
                       Ok bs \<Rightarrow>
                         if wok out then inbound_loop X P M C mode price s wok rest (out @ write_length_prefixed bs) mt'
                         else (out, mt', False)
                     | _ \<Rightarrow> inbound_loop X P M C mode price s wok rest out mt')
                | Ok (None, mt') \<Rightarrow> inbound_loop X P M C mode price s wok rest out mt'
                | _ \<Rightarrow> (out, mt, True))
           | _ \<Rightarrow> inbound_loop X P M C mode price s wok rest out mt)
      | _ \<Rightarrow> (out, mt, False))"
  by pat_completeness auto
termination
  by (relation "measure (\<lambda>(X, P, M, C, mode, price, s, wok, input, out, mt). length input)") (auto dest: frame.rd_shorter)

declare inbound_loop.simps [simp del]

section \<open>The leaf that is delivered\<close>

lemma deserialize_loop_length: "deserialize_loop X n data = Ok cids \<Longrightarrow> length cids = n"
  by (induction n arbitrary: data cids) (auto simp: result_simps)

lemma deserialize_block_list_length:
  assumes "deserialize_block_list X data = Ok cids"
  shows "length cids < 2 ^ 32"
proof -
  obtain bs rest where "cursor_read 4 data ''Failed to read count'' = Ok (bs, rest)" "deserialize_loop X (le_nat bs) rest = Ok cids"
    using assms by (auto simp: deserialize_block_list_def result_simps)
  then have "length bs = 4" "length cids = le_nat bs" by (auto simp: cursor_read_def deserialize_loop_length split: if_splits)
  then show ?thesis using le_nat_less [of bs] by simp
qed

lemma leaf_proof_total:
  assumes "deserialize_block_list X data = Ok cids" "i < length cids"
  obtains t p where "tree_new X cids = Some (Ok t)" "get_proof t i = Ok p" "leaf_proof X cids i = Ok p"
    "verify_proof X p (tree_leaf X (cids ! i)) (hd (last (at_layers t))) = Ok True" "ap_index p = i" "ap_nleaves p = length cids"
proof -
  have ne: "cids \<noteq> []" using assms(2) by auto
  have len: "length cids < 2 ^ 64 - 1" using deserialize_block_list_length [OF assms(1)] by simp
  obtain t p where tp: "tree_new X cids = Some (Ok t)" "get_proof t i = Ok p"
    "verify_proof X p (tree_leaf X (cids ! i)) (hd (last (at_layers t))) = Ok True"
    using tree_proofs_verify [OF ne len, of X] assms(2) by blast
  obtain ls where ls: "t = \<lparr>at_layers = map (tree_leaf X) cids # ls, at_block_cids = cids\<rparr>" by (rule tree_newD [OF tp(1)])
  have "ap_index p = i \<and> ap_nleaves p = length cids"
    using tp(2) unfolding ls by (auto simp: get_proof_def Let_def result_simps split: if_splits)
  then show ?thesis using that tp by (simp add: leaf_proof_def)
qed

lemma resolve_loop_Some:
  "resolve_loop X P C s tree_cid index cs = Ok (Some d) \<Longrightarrow>
     \<exists>mb m. store_get X C (block_cid mb) s = Ok mb \<and> from_block X P mb = Ok m \<and> m_tree_cid m = tree_cid
       \<and> leaf_of_manifest X C s tree_cid index m = Ok (Some d)"
proof (induction cs)
  case (Cons c cs)
  show ?case
  proof (cases "\<exists>mb m. store_get X C c s = Ok mb \<and> from_block X P mb = Ok m \<and> m_tree_cid m = tree_cid \<and> cid_codec X c = 0xcd01")
    case True
    then obtain mb m where mb: "store_get X C c s = Ok mb" "from_block X P mb = Ok m" "m_tree_cid m = tree_cid" "cid_codec X c = 0xcd01" by blast
    then show ?thesis using Cons(2) store_get_cid [OF mb(1)] by (intro exI [of _ mb] exI [of _ m]) simp
  next
    case False
    then show ?thesis using Cons by (auto split: if_splits result.splits)
  qed
qed simp

lemma resolve_leaf_SomeE:
  assumes "resolve_leaf_delivery X P C s tree_cid index = Ok (Some d)"
  obtains mb m mdb cids leaf p where "store_get X C (block_cid mb) s = Ok mb" "from_block X P mb = Ok m" "m_tree_cid m = tree_cid"
    "metadata_cid X m = Some (block_cid mdb)" "store_get X C (block_cid mdb) s = Ok mdb"
    "deserialize_block_list X (block_data mdb) = Ok cids" "unat index < length cids" "store_get X C (cids ! unat index) s = Ok leaf"
    "leaf_proof X cids (unat index) = Ok p"
    "d = delivery_from_tree_leaf (cid_to_bytes X (cids ! unat index)) (block_data leaf) (cid_to_bytes X tree_cid) index
      (message_proof_of X tree_cid index p)"
proof -
  obtain mb m where mb: "store_get X C (block_cid mb) s = Ok mb" "from_block X P mb = Ok m" "m_tree_cid m = tree_cid"
    and lm: "leaf_of_manifest X C s tree_cid index m = Ok (Some d)"
    using resolve_loop_Some [OF assms [unfolded resolve_leaf_delivery_def]] by blast
  obtain mc mdb cids leaf p where l: "metadata_cid X m = Some mc" "store_get X C mc s = Ok mdb"
    "deserialize_block_list X (block_data mdb) = Ok cids" "unat index < length cids" "store_get X C (cids ! unat index) s = Ok leaf"
    "leaf_proof X cids (unat index) = Ok p"
    "d = delivery_from_tree_leaf (cid_to_bytes X (cids ! unat index)) (block_data leaf) (cid_to_bytes X tree_cid) index
      (message_proof_of X tree_cid index p)"
    using lm by (auto simp: leaf_of_manifest_def Let_def ok_then_Some split: option.splits if_splits)
  moreover have "block_cid mdb = mc" by (rule store_get_cid [OF l(2)])
  ultimately show ?thesis using that mb by blast
qed

text \<open>The proof as a peer reads it from the message.\<close>

definition received_proof :: "message_proof \<Rightarrow> archivist_proof" where
  "received_proof mp = \<lparr>ap_index = unat (mp_index mp), ap_nleaves = unat (mp_nleaves mp), ap_path = map pn_hash (mp_path mp)\<rparr>"

lemma received_proof_of:
  assumes "ap_index p = unat index" "ap_nleaves p < 2 ^ 64"
  shows "received_proof (message_proof_of X tree_cid index p) = p"
  using assms by (cases p) (simp add: received_proof_def message_proof_of_def unat_of_nat comp_def)


section \<open>What is sent\<close>

text \<open>
  While a want list is walked, every delivery satisfies \<open>D\<close>, every presence \<open>R\<close>, and the
  counters have moved by exactly the deliveries.
\<close>

definition answer_ok :: "(block_delivery \<Rightarrow> bool) \<Rightarrow> (block_presence \<Rightarrow> bool) \<Rightarrow> metrics \<Rightarrow> answer \<Rightarrow> bool" where
  "answer_ok D R mt a \<longleftrightarrow> list_all D (an_blocks a) \<and> list_all R (an_presences a)
     \<and> an_metrics a = fold block_sent (map (\<lambda>d. length (bd_data d)) (an_blocks a)) mt"

lemma answer_ok_start [simp]: "answer_ok D R mt \<lparr>an_blocks = [], an_presences = [], an_metrics = mt\<rparr>"
  by (simp add: answer_ok_def)

lemma answer_ok_push:
  "answer_ok D R mt a \<Longrightarrow> D d \<Longrightarrow> answer_ok D R mt (push_block d a)"
  "answer_ok D R mt a \<Longrightarrow> R p \<Longrightarrow> answer_ok D R mt (push_presence p a)"
  by (simp_all add: answer_ok_def push_block_def push_presence_def)

lemma answer_ok_have: "answer_ok D (\<lambda>_. True) mt a \<Longrightarrow> answer_ok D (\<lambda>_. True) mt (answer_have h e adr a)"
  by (simp add: answer_have_def answer_ok_push)

text \<open>A delivery of stored data under the CID it is stored for.\<close>

definition stored_delivery :: "('c, 'm) crates \<Rightarrow> 't store_cfg \<Rightarrow> 't store_backend \<Rightarrow> block_delivery \<Rightarrow> bool" where
  "stored_delivery X C s d \<longleftrightarrow> (\<exists>c b. store_get X C c s = Ok b \<and> bd_cid d = cid_to_bytes X c \<and> bd_data d = block_data b)"

definition priced :: "('c, 'm) crates \<Rightarrow> 't store_cfg \<Rightarrow> nat \<Rightarrow> 't store_backend \<Rightarrow> block_presence \<Rightarrow> bool" where
  "priced X C price s p \<longleftrightarrow> (\<exists>c b. store_get X C c s = Ok b \<and> length (block_data b) * price < 2 ^ 64
     \<and> p = presence_from_cid (cid_to_bytes X c) PresenceHave (le_bytes 8 (length (block_data b) * price)))"

lemma stored_delivery_cid: "store_get X C c s = Ok b \<Longrightarrow> stored_delivery X C s (delivery_from_cid_and_data (cid_to_bytes X c) (block_data b))"
  by (auto simp: stored_delivery_def delivery_from_cid_and_data_def)

lemma stored_delivery_leaf:
  assumes "resolve_leaf_delivery X P C s t i = Ok (Some d)"
  shows "stored_delivery X C s d"
  by (rule resolve_leaf_SomeE [OF assms]) (auto simp: stored_delivery_def delivery_from_tree_leaf_def)

lemma altruistic_entry_ok:
  assumes "altruistic_entry X P C s e a = Ok a'" "answer_ok (stored_delivery X C s) (\<lambda>_. True) mt a"
  shows "answer_ok (stored_delivery X C s) (\<lambda>_. True) mt a'"
  using assms
  by (auto simp: altruistic_entry_def altruistic_leaf_def altruistic_cid_def Let_def result_simps
      intro: answer_ok_have answer_ok_push stored_delivery_leaf stored_delivery_cid
      split: if_splits option.splits want_type.splits result.splits)

lemma market_block_Some:
  "market_block X C s e = Ok (Some (c, b)) \<longleftrightarrow>
     Option.bind (entry_cid_bytes e) (cid_try_from X) = Some c \<and> store_get X C c s = Ok b"
  by (auto simp: market_block_def ok_then_Some split: option.splits)

lemma paid_entry_ok:
  assumes "paid_entry X C s e a = Ok a'" "answer_ok (stored_delivery X C s) (\<lambda>_. True) mt a"
  shows "answer_ok (stored_delivery X C s) (\<lambda>_. True) mt a'"
proof -
  obtain found where f: "market_block X C s e = Ok found" using assms(1) by (auto simp: paid_entry_def result_simps)
  show ?thesis
  proof (cases found)
    case (Some cb)
    obtain c b where "cb = (c, b)" by fastforce
    then show ?thesis
      using assms f Some answer_ok_push(1) [OF assms(2) stored_delivery_cid] by (auto simp: paid_entry_def market_block_Some)
  qed (use assms f in \<open>auto simp: paid_entry_def\<close>)
qed

lemma unpaid_entry_ok:
  assumes "unpaid_entry X C price s e a = Ok a'" "answer_ok (\<lambda>_. False) (priced X C price s) mt a"
  shows "answer_ok (\<lambda>_. False) (priced X C price s) mt a'"
proof -
  obtain found where f: "market_block X C s e = Ok found" using assms(1) by (auto simp: unpaid_entry_def result_simps)
  show ?thesis
  proof (cases found)
    case (Some cb)
    obtain c b where cb: "cb = (c, b)" by fastforce
    have g: "store_get X C c s = Ok b" using f Some cb by (simp add: market_block_Some)
    have l: "length (block_data b) * price < 2 ^ 64"
      and a': "a' = push_presence (presence_from_cid (cid_to_bytes X c) PresenceHave (le_bytes 8 (length (block_data b) * price))) a"
      using assms(1) f Some cb by (auto simp: unpaid_entry_def pmul_def split: if_splits)
    have "priced X C price s (presence_from_cid (cid_to_bytes X c) PresenceHave (le_bytes 8 (length (block_data b) * price)))"
      unfolding priced_def using g l by blast
    then show ?thesis unfolding a' by (rule answer_ok_push(2) [OF assms(2)])
  qed (use assms f in \<open>auto simp: unpaid_entry_def\<close>)
qed

text \<open>What a walk delivers: deliveries stay, and an entry that is always answered is answered.\<close>

lemma try_fold_delivers:
  assumes "try_fold f es a = Ok a'" "e \<in> set es"
    and mono: "\<And>e a a'. f e a = Ok a' \<Longrightarrow> set (an_blocks a) \<subseteq> set (an_blocks a')"
    and hit: "\<And>a a'. f e a = Ok a' \<Longrightarrow> d \<in> set (an_blocks a')"
  shows "d \<in> set (an_blocks a')"
proof -
  obtain es1 es2 where es: "es = es1 @ e # es2" using assms(2) by (metis split_list)
  obtain a1 a2 where a: "f e a1 = Ok a2" "try_fold f es2 a2 = Ok a'"
    using assms(1) unfolding es try_fold_append by (auto simp: result_simps)
  show ?thesis
    by (rule try_fold_invariant [OF a(2), of "\<lambda>a. d \<in> set (an_blocks a)"]) (use hit [OF a(1)] mono in blast)+
qed

lemma entry_mono:
  "altruistic_entry X P C s e a = Ok a' \<Longrightarrow> set (an_blocks a) \<subseteq> set (an_blocks a')"
  "paid_entry X C s e a = Ok a' \<Longrightarrow> set (an_blocks a) \<subseteq> set (an_blocks a')"
  by (auto simp: altruistic_entry_def altruistic_leaf_def altruistic_cid_def paid_entry_def answer_have_def push_block_def push_presence_def
      Let_def result_simps split: if_splits option.splits want_type.splits result.splits)

text \<open>The entry asks for the data of the block \<open>c\<close> by its CID.\<close>

definition asks_block :: "('c, 'm) crates \<Rightarrow> string \<Rightarrow> wantlist_entry \<Rightarrow> 'c \<Rightarrow> bool" where
  "asks_block X mode e c \<longleftrightarrow>
     (if mode = ''altruistic''
      then \<not> we_cancel e \<and> entry_want_type e = WantBlock
        \<and> (\<exists>adr. we_address e = Some adr \<and> \<not> ba_leaf adr \<and> cid_try_from X (ba_cid adr) = Some c)
      else Option.bind (entry_cid_bytes e) (cid_try_from X) = Some c)"

lemma altruistic_hit:
  assumes "asks_block X ''altruistic'' e c" "store_get X C c s = Ok b" "altruistic_entry X P C s e a = Ok a'"
  shows "delivery_from_cid_and_data (cid_to_bytes X c) (block_data b) \<in> set (an_blocks a')"
  using assms by (auto simp: asks_block_def altruistic_entry_def altruistic_cid_def push_block_def)

lemma paid_hit:
  assumes "asks_block X ''marketplace'' e c" "store_get X C c s = Ok b" "paid_entry X C s e a = Ok a'"
  shows "delivery_from_cid_and_data (cid_to_bytes X c) (block_data b) \<in> set (an_blocks a')"
  using assms by (auto simp: asks_block_def paid_entry_def market_block_def push_block_def)

definition sent_blocks :: "message option \<Rightarrow> block_delivery list" where
  "sent_blocks r = (case r of Some m \<Rightarrow> msg_payload m | None \<Rightarrow> [])"

definition sent_presences :: "message option \<Rightarrow> block_presence list" where
  "sent_presences r = (case r of Some m \<Rightarrow> msg_block_presences m | None \<Rightarrow> [])"

text \<open>The walk behind a response, in each mode.\<close>

lemma handle_altruistic:
  assumes "handle_message X P C ''altruistic'' price s msg mt = Ok (r, mt')" "msg_wantlist msg = Some wl"
  obtains a where "try_fold (altruistic_entry X P C s) (wl_entries wl) \<lparr>an_blocks = [], an_presences = [], an_metrics = mt\<rparr> = Ok a"
    "sent_blocks r = an_blocks a" "mt' = an_metrics a"
  using assms by (auto simp: handle_message_def Let_def result_simps sent_blocks_def response_message_def split: if_splits)

lemma handle_marketplace:
  assumes "handle_message X P C ''marketplace'' price s msg mt = Ok (r, mt')" "msg_wantlist msg = Some wl"
  obtains a where
    "try_fold (if msg_payment msg \<noteq> None then paid_entry X C s else unpaid_entry X C price s) (wl_entries wl)
       \<lparr>an_blocks = [], an_presences = [], an_metrics = mt\<rparr> = Ok a"
    "sent_blocks r = an_blocks a" "sent_presences r = an_presences a" "mt' = an_metrics a"
  using assms by (auto simp: handle_message_def Let_def result_simps sent_blocks_def sent_presences_def response_message_def split: if_splits)

lemma handle_answer:
  assumes "handle_message X P C mode price s msg mt = Ok (r, mt')"
  shows "list_all (stored_delivery X C s) (sent_blocks r) \<and> mt' = fold block_sent (map (\<lambda>d. length (bd_data d)) (sent_blocks r)) mt
    \<and> (mode = ''marketplace'' \<and> msg_payment msg = None \<longrightarrow> sent_blocks r = [] \<and> list_all (priced X C price s) (sent_presences r))"
proof (cases "msg_wantlist msg")
  case None
  then show ?thesis using assms by (simp add: handle_message_def sent_blocks_def sent_presences_def)
next
  case (Some wl)
  consider (alt) "mode = ''altruistic''" | (paid) "mode = ''marketplace''" "msg_payment msg \<noteq> None"
    | (unpaid) "mode = ''marketplace''" "msg_payment msg = None" | (other) "mode \<noteq> ''altruistic''" "mode \<noteq> ''marketplace''" by blast
  then show ?thesis
  proof cases
    case alt
    obtain a where a: "try_fold (altruistic_entry X P C s) (wl_entries wl) \<lparr>an_blocks = [], an_presences = [], an_metrics = mt\<rparr> = Ok a"
      "sent_blocks r = an_blocks a" "mt' = an_metrics a" using handle_altruistic assms Some alt by blast
    have "answer_ok (stored_delivery X C s) (\<lambda>_. True) mt a"
      by (rule try_fold_invariant [OF a(1)]) (auto intro: altruistic_entry_ok)
    then show ?thesis using a alt by (simp add: answer_ok_def)
  next
    case paid
    obtain a where a: "try_fold (paid_entry X C s) (wl_entries wl) \<lparr>an_blocks = [], an_presences = [], an_metrics = mt\<rparr> = Ok a"
      "sent_blocks r = an_blocks a" "mt' = an_metrics a" using handle_marketplace [of X P C price s msg mt r mt' wl] assms Some paid by auto
    have "answer_ok (stored_delivery X C s) (\<lambda>_. True) mt a"
      by (rule try_fold_invariant [OF a(1)]) (auto intro: paid_entry_ok)
    then show ?thesis using a paid by (auto simp: answer_ok_def)
  next
    case unpaid
    obtain a where a: "try_fold (unpaid_entry X C price s) (wl_entries wl) \<lparr>an_blocks = [], an_presences = [], an_metrics = mt\<rparr> = Ok a"
      "sent_blocks r = an_blocks a" "sent_presences r = an_presences a" "mt' = an_metrics a"
      using handle_marketplace [of X P C price s msg mt r mt' wl] assms Some unpaid by auto
    have "answer_ok (\<lambda>_. False) (priced X C price s) mt a"
      by (rule try_fold_invariant [OF a(1)]) (auto intro: unpaid_entry_ok)
    then show ?thesis using a by (cases "an_blocks a") (simp_all add: answer_ok_def)
  next
    case other
    then show ?thesis using assms Some by (simp add: handle_message_def sent_blocks_def)
  qed
qed

lemma handle_delivers:
  assumes "handle_message X P C mode price s msg mt = Ok (r, mt')" "msg_wantlist msg = Some wl" "e \<in> set (wl_entries wl)"
    and "mode = ''altruistic'' \<or> mode = ''marketplace'' \<and> msg_payment msg \<noteq> None" "asks_block X mode e c" "store_get X C c s = Ok b"
  shows "delivery_from_cid_and_data (cid_to_bytes X c) (block_data b) \<in> set (sent_blocks r)"
proof (cases "mode = ''altruistic''")
  case True
  obtain a where a: "try_fold (altruistic_entry X P C s) (wl_entries wl) \<lparr>an_blocks = [], an_presences = [], an_metrics = mt\<rparr> = Ok a"
    "sent_blocks r = an_blocks a" using handle_altruistic assms(1,2) True by blast
  show ?thesis
    unfolding a(2) by (rule try_fold_delivers [OF a(1) assms(3)]) (use entry_mono(1) altruistic_hit [OF assms(5) [unfolded True] assms(6)] in blast)+
next
  case False
  obtain a where a: "try_fold (paid_entry X C s) (wl_entries wl) \<lparr>an_blocks = [], an_presences = [], an_metrics = mt\<rparr> = Ok a"
    "sent_blocks r = an_blocks a" using handle_marketplace [of X P C price s msg mt r mt' wl] assms(1,2,4) False by auto
  have m: "asks_block X ''marketplace'' e c" using assms(4,5) False by auto
  show ?thesis
    unfolding a(2) by (rule try_fold_delivers [OF a(1) assms(3)]) (use entry_mono(2) paid_hit [OF m assms(6)] in blast)+
qed

text \<open>
  C6. Serving. Whatever a peer asks for, what is sent is stored data under the CID it is stored
  for, and the counters grow by exactly what is sent. A mode other than altruistic and
  marketplace answers nothing. Marketplace mode without a payment sends no data, only offers at
  the length of the block times the price per byte. In altruistic mode, and in marketplace mode
  with a payment, every block asked for by its CID that the store returns is sent.
\<close>

theorem serve_correct:
  assumes "handle_message X P C mode price s msg mt = Ok (r, mt')"
  shows "list_all (stored_delivery X C s) (sent_blocks r)
    \<and> mt' = fold block_sent (map (\<lambda>d. length (bd_data d)) (sent_blocks r)) mt
    \<and> (mode \<notin> {''altruistic'', ''marketplace''} \<or> msg_wantlist msg = None \<longrightarrow> r = None)
    \<and> (mode = ''marketplace'' \<and> msg_payment msg = None \<longrightarrow> sent_blocks r = [] \<and> list_all (priced X C price s) (sent_presences r))
    \<and> (mode = ''altruistic'' \<or> mode = ''marketplace'' \<and> msg_payment msg \<noteq> None \<longrightarrow>
         (\<forall>wl e c b. msg_wantlist msg = Some wl \<and> e \<in> set (wl_entries wl) \<and> asks_block X mode e c \<and> store_get X C c s = Ok b \<longrightarrow>
            delivery_from_cid_and_data (cid_to_bytes X c) (block_data b) \<in> set (sent_blocks r)))"
proof -
  have "mode \<notin> {''altruistic'', ''marketplace''} \<or> msg_wantlist msg = None \<longrightarrow> r = None"
    using assms by (auto simp: handle_message_def Let_def split: option.splits)
  then show ?thesis using handle_answer [OF assms] handle_delivers [OF assms] by blast
qed

section \<open>A concrete store\<close>

text \<open>A redb table that holds a manifest, the block list it names and the one leaf of that list.\<close>

definition demo_leaf :: "nat \<times> nat \<times> bytes" where "demo_leaf = (0xcd02, 0x1e, [1])"
definition demo_meta :: "nat \<times> nat \<times> bytes" where "demo_meta = (0xcd02, 0x1e, [2])"
definition demo_tree :: "nat \<times> nat \<times> bytes" where "demo_tree = (0xcd03, 0x12, [3])"
definition demo_mcid :: "nat \<times> nat \<times> bytes" where "demo_mcid = (0xcd01, 0x1e, [4])"

definition demo_tree_manifest :: "(nat \<times> nat \<times> bytes) manifest" where
  "demo_tree_manifest = manifest_new demo_tree 65536 2 None None None (Some (''metadata:'' @ cid_to_string demo_crates demo_meta)) None"

definition demo_list :: bytes where
  "demo_list = serialize_block_list demo_crates \<lparr>at_layers = [], at_block_cids = [demo_leaf]\<rparr>"

definition demo_served :: "bytes \<Rightarrow> (string \<times> bytes) list store_backend" where
  "demo_served mdata = RedbB [(cid_to_string demo_crates demo_mcid, mdata), (cid_to_string demo_crates demo_meta, demo_list),
     (cid_to_string demo_crates demo_leaf, [7, 8])]"

lemmas demo_cid_inject = cid_to_string_inject [OF demo_cid_string_law]

lemma demo_served_get [simp]:
  "store_get demo_crates demo_store demo_mcid (demo_served mdata) = Ok \<lparr>block_cid = demo_mcid, block_data = mdata\<rparr>"
  "store_get demo_crates demo_store demo_meta (demo_served mdata) = Ok \<lparr>block_cid = demo_meta, block_data = demo_list\<rparr>"
  "store_get demo_crates demo_store demo_leaf (demo_served mdata) = Ok \<lparr>block_cid = demo_leaf, block_data = [7, 8]\<rparr>"
proof -
  have ne: "demo_mcid \<noteq> demo_meta" "demo_mcid \<noteq> demo_leaf" "demo_meta \<noteq> demo_leaf" by (simp_all add: demo_mcid_def demo_meta_def demo_leaf_def)
  show "store_get demo_crates demo_store demo_mcid (demo_served mdata) = Ok \<lparr>block_cid = demo_mcid, block_data = mdata\<rparr>"
    "store_get demo_crates demo_store demo_meta (demo_served mdata) = Ok \<lparr>block_cid = demo_meta, block_data = demo_list\<rparr>"
    "store_get demo_crates demo_store demo_leaf (demo_served mdata) = Ok \<lparr>block_cid = demo_leaf, block_data = [7, 8]\<rparr>"
    using ne ne [symmetric] by (simp_all add: demo_served_def demo_store_def redb_get_def demo_redb_def demo_cid_inject)
qed

lemma demo_served_list [simp]: "store_list_cids demo_crates demo_store (demo_served mdata) = [demo_mcid, demo_meta, demo_leaf]"
proof -
  have ne: "demo_mcid \<noteq> demo_meta" "demo_mcid \<noteq> demo_leaf" "demo_meta \<noteq> demo_leaf" by (simp_all add: demo_mcid_def demo_meta_def demo_leaf_def)
  have pr: "cid_parse demo_crates (cid_to_string demo_crates c) = Some c" for c
    using demo_cid_string_law unfolding cid_string_law_def by blast
  show ?thesis
    using ne by (simp add: demo_served_def demo_store_def redb_list_cids_def demo_redb_def demo_cid_inject map_filter_simps pr)
qed

lemma demo_list_read [simp]: "deserialize_block_list demo_crates demo_list = Ok [demo_leaf]"
proof -
  have "\<forall>c \<in> set [demo_leaf]. length (cid_to_bytes demo_crates c) < 2 ^ 32"
    by (simp add: demo_leaf_def demo_crates_def demo_to_bytes_def demo_varint.simps)
  from deserialize_loop_serialize [OF demo_cid_bytes_law this, of "[]"] show ?thesis
    by (simp add: demo_list_def deserialize_block_list_def serialize_block_list_def)
qed

lemma demo_metadata: "metadata_cid demo_crates demo_tree_manifest = Some demo_meta"
proof -
  have "cid_parse demo_crates (cid_to_string demo_crates demo_meta) = Some demo_meta"
    using demo_cid_string_law unfolding cid_string_law_def by blast
  then show ?thesis by (simp add: metadata_cid_def demo_tree_manifest_def manifest_new_def strip_prefix_def)
qed

text \<open>A want list for the leaf by its place in the tree and by its CID.\<close>

definition demo_want :: message where
  "demo_want = \<lparr>msg_wantlist = Some \<lparr>wl_entries = [entry_from_cid (cid_to_bytes demo_crates demo_leaf) WantBlock], wl_full = True\<rparr>,
     msg_payload = [], msg_block_presences = [], msg_pending_bytes = 0, msg_account = None, msg_payment = None\<rparr>"


theorem serve_correct_witness:
  "(\<exists>r mt'. handle_message demo_crates demo_prost demo_store ''altruistic'' 3 (demo_served []) demo_want metrics_new = Ok (r, mt')
      \<and> delivery_from_cid_and_data (cid_to_bytes demo_crates demo_leaf) [7, 8] \<in> set (sent_blocks r) \<and> mt_bytes_sent mt' = 2)
   \<and> (\<exists>r mt'. handle_message demo_crates demo_prost demo_store ''marketplace'' 3 (demo_served []) demo_want metrics_new = Ok (r, mt')
      \<and> sent_blocks r = [])"
proof -
  let ?h = "\<lambda>mode. handle_message demo_crates demo_prost demo_store mode 3 (demo_served []) demo_want metrics_new"
  have e: "asks_block demo_crates ''altruistic'' (entry_from_cid (cid_to_bytes demo_crates demo_leaf) WantBlock) demo_leaf"
    using cid_bytes_lawD [OF demo_cid_bytes_law, of demo_leaf]
    by (simp add: asks_block_def entry_from_cid_def entry_want_type_def want_type_from_def address_from_cid_def)
  have "\<exists>r mt'. ?h ''altruistic'' = Ok (r, mt') \<and> mt_bytes_sent mt' = 2"
    using cid_bytes_lawD [OF demo_cid_bytes_law, of demo_leaf]
    by (simp add: handle_message_def demo_want_def altruistic_entry_def altruistic_cid_def entry_from_cid_def entry_want_type_def
        want_type_from_def address_from_cid_def push_block_def delivery_from_cid_and_data_def block_sent_def fetch_add_def metrics_new_def)
  then obtain r mt' where r: "?h ''altruistic'' = Ok (r, mt')" "mt_bytes_sent mt' = 2" by blast
  have "\<exists>r mt'. ?h ''marketplace'' = Ok (r, mt')"
    using cid_bytes_lawD [OF demo_cid_bytes_law, of demo_leaf]
    by (simp add: handle_message_def demo_want_def unpaid_entry_def market_block_def pmul_def Let_def)
  then obtain r2 mt2 where r2: "?h ''marketplace'' = Ok (r2, mt2)" by blast
  have th: "\<forall>c b. asks_block demo_crates ''altruistic'' (entry_from_cid (cid_to_bytes demo_crates demo_leaf) WantBlock) c
      \<and> store_get demo_crates demo_store c (demo_served []) = Ok b \<longrightarrow>
      delivery_from_cid_and_data (cid_to_bytes demo_crates c) (block_data b) \<in> set (sent_blocks r)"
    using serve_correct [OF r(1), THEN conjunct2, THEN conjunct2, THEN conjunct2, THEN conjunct2]
    by (simp add: demo_want_def del: split_paired_All)
  have "delivery_from_cid_and_data (cid_to_bytes demo_crates demo_leaf) [7, 8] \<in> set (sent_blocks r)"
    using th [THEN spec, of demo_leaf, THEN spec, of "\<lparr>block_cid = demo_leaf, block_data = [7, 8]\<rparr>"] e by simp
  moreover have "sent_blocks r2 = []"
    using serve_correct [OF r2, THEN conjunct2, THEN conjunct2, THEN conjunct2, THEN conjunct1] by (simp add: demo_want_def)
  ultimately show ?thesis using r r2 by blast
qed

end
