(* ===== verification/Blockexc_Fetch.thy ===== *)
theory Blockexc_Fetch
  imports Blockexc_Serve
begin

text \<open>
  The requesting side of the block exchange (\<open>blockexc.rs\<close>): the task of an outbound stream
  sends a want list for one CID, then reads messages until the stream ends and stores the
  payloads that verify against that CID. \<open>wok\<close> tells whether the want list can be written. The
  result is what was written, the store, the counters and whether the task panicked.
\<close>

definition want_message :: "('c, 'm) crates \<Rightarrow> 'c \<Rightarrow> message" where
  "want_message X requested_cid =
     \<lparr>msg_wantlist = Some \<lparr>wl_entries = [entry_from_cid (cid_to_bytes X requested_cid) WantBlock], wl_full = True\<rparr>,
      msg_payload = [], msg_block_presences = [], msg_pending_bytes = 0, msg_account = None, msg_payment = None\<rparr>"

fun store_payload ::
  "('c, 'm) crates \<Rightarrow> 't store_cfg \<Rightarrow> 'c \<Rightarrow> block_delivery list \<Rightarrow> 't store_backend \<Rightarrow> metrics \<Rightarrow> 't store_backend \<times> metrics \<times> bool" where
  "store_payload X C requested_cid [] s mt = (s, mt, False)"
| "store_payload X C requested_cid (msg_block # bs) s mt =
     (case verify_blake3 X (bd_data msg_block) requested_cid of
        Panic \<Rightarrow> (s, mt, True)
      | Err _ \<Rightarrow> store_payload X C requested_cid bs s mt
      | Ok _ \<Rightarrow>
        (case from_cid_and_data X requested_cid (bd_data msg_block) of
           Panic \<Rightarrow> (s, mt, True)
         | Err _ \<Rightarrow> store_payload X C requested_cid bs s mt
         | Ok block \<Rightarrow>
           (case store_put X C block s of
              (Ok _, s') \<Rightarrow> store_payload X C requested_cid bs s' (block_received (length (bd_data msg_block)) mt)
            | (Err _, s') \<Rightarrow> store_payload X C requested_cid bs s' mt
            | (Panic, s') \<Rightarrow> (s', mt, True))))"

function outbound_loop ::
  "('c, 'm) crates \<Rightarrow> codec \<Rightarrow> 't store_cfg \<Rightarrow> 'c \<Rightarrow> bytes \<Rightarrow> 't store_backend \<Rightarrow> metrics \<Rightarrow> 't store_backend \<times> metrics \<times> bool" where
  "outbound_loop X M C requested_cid input s mt =
     (case read_length_prefixed MAX_MESSAGE input of
        Ok (data, rest) \<Rightarrow>
          (case decode_message M data of
             Ok response \<Rightarrow>
               (case store_payload X C requested_cid (msg_payload response) s mt of
                  (s', mt', panicked) \<Rightarrow> if panicked then (s', mt', True) else outbound_loop X M C requested_cid rest s' mt')
           | _ \<Rightarrow> outbound_loop X M C requested_cid rest s mt)
      | _ \<Rightarrow> (s, mt, False))"
  by pat_completeness auto
termination
  by (relation "measure (\<lambda>(X, M, C, requested_cid, input, s, mt). length input)") (auto dest: frame.rd_shorter)

declare outbound_loop.simps [simp del]

definition outbound ::
  "('c, 'm) crates \<Rightarrow> codec \<Rightarrow> 't store_cfg \<Rightarrow> 'c \<Rightarrow> bool \<Rightarrow> bytes \<Rightarrow> 't store_backend \<Rightarrow> metrics \<Rightarrow>
     bytes \<times> 't store_backend \<times> metrics \<times> bool" where
  "outbound X M C requested_cid wok input s mt =
     (case encode_message M (want_message X requested_cid) of
        Ok msg_bytes \<Rightarrow>
          if wok then (write_length_prefixed msg_bytes, outbound_loop X M C requested_cid input s mt)
          else ([], s, mt, False)
      | _ \<Rightarrow> ([], s, mt, False))"

section \<open>Stores whose failed writes leave no trace\<close>

fun is_flat :: "'t store_backend \<Rightarrow> bool" where
  "is_flat (FlatB st) = True"
| "is_flat _ = False"

lemma redb_put_failed: "redb_put_many X R v bs t = (r, t') \<Longrightarrow> r \<noteq> Ok () \<Longrightarrow> t' = t"
  by (auto simp: redb_put_many_def split: if_splits result.splits option.splits)

lemma geom_put_failed: "geom_put_many X cfg bs t = (r, t') \<Longrightarrow> r \<noteq> Ok () \<Longrightarrow> t' = t"
  by (auto simp: geom_put_many_def split: if_splits result.splits)

text \<open>A put of one block, whatever it answers.\<close>

lemma store_put_any:
  assumes "store_inv X C dsize k s" "\<not> is_flat s" "store_put X C \<lparr>block_cid = c, block_data = d\<rparr> s = (r, s')"
  shows "store_inv X C dsize k s' \<and> \<not> is_flat s' \<and>
    store_look X C s' = (if r = Ok () \<and> store_look X C s c = None then (store_look X C s)(c \<mapsto> d) else store_look X C s)"
proof (cases s)
  case (RedbB t)
  then obtain t' where t': "redb_put_many X (sc_redb C) (sc_verify C) [\<lparr>block_cid = c, block_data = d\<rparr>] t = (r, t')" "s' = RedbB t'"
    using assms(3) by (auto simp: store_put_def map_prod_def split: prod.splits)
  have i: "redb_inv X (sc_redb C) (Suc k) t" using assms(1) RedbB by (simp add: redb_inv_def)
  show ?thesis
  proof (cases "r = Ok ()")
    case True
    then have p: "redb_put1 X (sc_redb C) (sc_verify C) c d t = Some t'" using t'(1) by (simp add: redb_put1_def)
    show ?thesis using redb.put_inv [OF i TrueI p] redb.put_look [OF i TrueI p] t'(2) RedbB True by (auto simp: fun_eq_iff)
  next
    case False
    then show ?thesis using redb_put_failed [OF t'(1)] assms(1) t'(2) RedbB by simp
  qed
next
  case (DeltaB ds)
  then obtain ds' where ds': "delta_put_many X (sc_redb C) (sc_delta C) [\<lparr>block_cid = c, block_data = d\<rparr>] ds = (r, ds')" "s' = DeltaB ds'"
    using assms(3) by (auto simp: store_put_def map_prod_def split: prod.splits)
  have i: "delta_inv X (sc_redb C) (sc_delta C) (Suc k) ds" using assms(1) DeltaB by (simp add: delta_inv_def)
  have law: "redb_law (sc_redb C)" "\<not> dc_skip_exists_check (sc_delta C)" "delta_ok (sc_redb C) ds" using i by (auto simp: delta_inv_def)
  show ?thesis
  proof (cases "r = Ok ()")
    case True
    then have p: "delta_put1 X (sc_redb C) (sc_delta C) c d ds = Some ds'" using ds'(1) by (simp add: delta_put1_def)
    show ?thesis using delta.put_inv [OF i TrueI p] delta.put_look [OF i TrueI p] ds'(2) DeltaB True by (auto simp: fun_eq_iff)
  next
    case False
    then show ?thesis using delta_put_many_spec [OF law ds'(1)] i ds'(2) DeltaB by (auto simp: delta_inv_def delta_look_def fun_eq_iff)
  qed
next
  case (GeomB t)
  then obtain t' where t': "geom_put_many X (sc_geom C) [\<lparr>block_cid = c, block_data = d\<rparr>] t = (r, t')" "s' = GeomB t'"
    using assms(3) by (auto simp: store_put_def map_prod_def split: prod.splits)
  have i: "geom_inv X (sc_geom C) (Suc k) t" using assms(1) GeomB by (simp add: geom_inv_def)
  show ?thesis
  proof (cases "r = Ok ()")
    case True
    then have p: "geom_put1 X (sc_geom C) c d t = Some t'" using t'(1) by (simp add: geom_put1_def)
    show ?thesis using geom.put_inv [OF i TrueI p] geom.put_look [OF i TrueI p] t'(2) GeomB True by (auto simp: fun_eq_iff)
  next
    case False
    then show ?thesis using geom_put_failed [OF t'(1)] assms(1) t'(2) GeomB by simp
  qed
qed (use assms(2) in simp)

section \<open>Only verified data is stored\<close>

text \<open>What a task may have done to the store: \<open>s'\<close> differs from \<open>s\<close> at most by verified data for \<open>c\<close>.\<close>

definition fetched :: "('c, 'm) crates \<Rightarrow> 't store_cfg \<Rightarrow> 'c \<Rightarrow> 't store_backend \<Rightarrow> 't store_backend \<Rightarrow> bool" where
  "fetched X C c s s' \<longleftrightarrow> store_look X C s' = store_look X C s \<or>
     (store_look X C s c = None \<and> (\<exists>d. verify_blake3 X d c = Ok () \<and> store_look X C s' = (store_look X C s)(c \<mapsto> d)))"

lemma fetched_refl [simp]: "fetched X C c s s"
  by (simp add: fetched_def)

lemma fetched_trans: "fetched X C c s s' \<Longrightarrow> fetched X C c s' s'' \<Longrightarrow> fetched X C c s s''"
  by (auto simp: fetched_def)

lemma store_payload_fetched:
  assumes "store_payload X C c bs s mt = (s', mt', p)" "store_inv X C dsize k s" "\<not> is_flat s"
  shows "store_inv X C dsize k s' \<and> \<not> is_flat s' \<and> fetched X C c s s'"
  using assms
proof (induction bs arbitrary: s mt)
  case (Cons b bs)
  show ?case
  proof (cases "verify_blake3 X (bd_data b) c")
    case (Ok u)
    then have f: "from_cid_and_data X c (bd_data b) = result.Ok \<lparr>block_cid = c, block_data = bd_data b\<rparr>" by (simp add: from_cid_and_data_def)
    obtain r s1 where put: "store_put X C \<lparr>block_cid = c, block_data = bd_data b\<rparr> s = (r, s1)" by fastforce
    note any = store_put_any [OF Cons(3,4) put]
    have one: "fetched X C c s s1" using any Ok by (auto simp: fetched_def)
    obtain mt1 where "(s', mt', p) = (s1, mt, True) \<or> store_payload X C c bs s1 mt1 = (s', mt', p)"
      using Cons(2) Ok f put by (cases r) auto
    then show ?thesis using Cons(1) [of s1 mt1] any one fetched_trans [OF one] by auto
  qed (use Cons in auto)
qed simp

lemma outbound_loop_fetched:
  "outbound_loop X M C c input s mt = (s', mt', p) \<Longrightarrow> store_inv X C dsize k s \<Longrightarrow> \<not> is_flat s \<Longrightarrow>
     store_inv X C dsize k s' \<and> \<not> is_flat s' \<and> fetched X C c s s'"
proof (induction X M C c input s mt rule: outbound_loop.induct)
  case (1 X M C c input s mt)
  show ?case
  proof (cases "read_length_prefixed MAX_MESSAGE input")
    case (Ok dr)
    obtain data rest where dr: "dr = (data, rest)" by fastforce
    show ?thesis
    proof (cases "decode_message M data")
      case m: (Ok msg)
      obtain s1 mt1 p1 where sp: "store_payload X C c (msg_payload msg) s mt = (s1, mt1, p1)" by (metis prod_cases3)
      note one = store_payload_fetched [OF sp 1(5,6)]
      show ?thesis
      proof (cases p1)
        case True
        then show ?thesis using 1(4) one by (simp add: outbound_loop.simps [of X M C c input] Ok dr m sp)
      next
        case False
        then have "outbound_loop X M C c rest s1 mt1 = (s', mt', p)"
          using 1(4) by (simp add: outbound_loop.simps [of X M C c input] Ok dr m sp)
        then show ?thesis using 1(1) [OF Ok dr [symmetric] m sp [symmetric] refl False] one fetched_trans [of X C c s s1 s'] by blast
      qed
    qed (use 1 Ok dr in \<open>auto simp: outbound_loop.simps [of X M C c input]\<close>)
  qed (use 1 in \<open>auto simp: outbound_loop.simps [of X M C c input]\<close>)
qed

text \<open>
  C7. Fetching is safe against any peer. On the redb, deltastore and geomtree backends, whatever
  bytes the peer sends, the task ends, the store stays well formed and reads as before, except
  that the requested CID may now have data, which it did not have before and which verifies
  against it.
\<close>

theorem outbound_verified:
  assumes "outbound X M C c wok input s mt = (out, s', mt', p)" "store_inv X C dsize k s" "\<not> is_flat s"
  shows "store_inv X C dsize k s' \<and> \<not> is_flat s'
    \<and> (\<forall>c'. store_look X C s' c' \<noteq> store_look X C s c' \<longrightarrow>
         c' = c \<and> store_look X C s c = None \<and> (\<exists>d. store_look X C s' c = Some d \<and> verify_blake3 X d c = Ok ()))"
proof -
  have "(s', mt', p) = (s, mt, False) \<or> outbound_loop X M C c input s mt = (s', mt', p)"
    using assms(1) by (auto simp: outbound_def split: result.splits if_splits)
  then have "store_inv X C dsize k s' \<and> \<not> is_flat s' \<and> fetched X C c s s'"
    using outbound_loop_fetched [OF _ assms(2,3)] assms(2,3) by auto
  then show ?thesis by (auto simp: fetched_def split: if_splits)
qed

section \<open>A fetch that succeeds\<close>

text \<open>A stream that holds one message.\<close>

lemma read_empty: "read_length_prefixed n [] = Err UnexpectedEof"
  by (simp add: read_length_prefixed_def)

lemma read_one_frame: "frame_fits n m \<Longrightarrow> read_length_prefixed n (write_length_prefixed m) = Ok (m, [])"
  using frame.rd_wr [of n m "[]"] by simp

lemma outbound_one:
  assumes "encode_message M r = Ok bs" "decode_message M bs = Ok r" "frame_fits MAX_MESSAGE bs"
    and "store_payload X C c (msg_payload r) s mt = (s', mt', False)"
  shows "outbound_loop X M C c (write_length_prefixed bs) s mt = (s', mt', False)"
  by (simp add: outbound_loop.simps [of X M C c "write_length_prefixed bs"] outbound_loop.simps [of X M C c "[]"]
      read_one_frame [OF assms(3)] assms(2,4) read_empty)

lemma inbound_one:
  assumes "decode_message M bs = Ok m" "frame_fits MAX_MESSAGE bs"
    and "handle_message X P C mode price s m mt = Ok (Some r, mt')" "encode_message M r = Ok rs" "wok []"
  shows "inbound_loop X P M C mode price s wok (write_length_prefixed bs) [] mt = (write_length_prefixed rs, mt', False)"
  by (simp add: inbound_loop.simps [of X P M C mode price s wok "write_length_prefixed bs"] inbound_loop.simps [of X P M C mode price s wok "[]"]
      read_one_frame [OF assms(2)] assms read_empty)

text \<open>The altruistic answer to the want list of a fetch.\<close>

definition delivery_message :: "('c, 'm) crates \<Rightarrow> 'c \<Rightarrow> bytes \<Rightarrow> message" where
  "delivery_message X c d =
     \<lparr>msg_wantlist = None, msg_payload = [delivery_from_cid_and_data (cid_to_bytes X c) d], msg_block_presences = [],
      msg_pending_bytes = 0, msg_account = None, msg_payment = None\<rparr>"

lemma handle_want:
  assumes "cid_bytes_law X" "store_get X C c s = Ok b"
  shows "handle_message X P C ''altruistic'' price s (want_message X c) mt =
    Ok (Some (delivery_message X c (block_data b)), block_sent (length (block_data b)) mt)"
  using assms(2) cid_bytes_lawD [OF assms(1), of c]
  by (simp add: handle_message_def want_message_def delivery_message_def altruistic_entry_def altruistic_cid_def entry_from_cid_def
      entry_want_type_def want_type_from_def address_from_cid_def push_block_def response_message_def delivery_from_cid_and_data_def)

lemma store_payload_one:
  assumes "verify_blake3 X d c = Ok ()" "store_put X C \<lparr>block_cid = c, block_data = d\<rparr> s = (Ok (), s')"
  shows "store_payload X C c (msg_payload (delivery_message X c d)) s mt = (s', block_received (length d) mt, False)"
  using assms by (simp add: delivery_message_def delivery_from_cid_and_data_def from_cid_and_data_def)

text \<open>Two nodes: the fetch of one against the serving loop of the other.\<close>

lemma fetch_from_peer:
  assumes "message_law M" "cid_bytes_law X" "store_get X C c s = Ok b" "verify_blake3 X (block_data b) c = Ok ()"
    and put: "store_put X C' \<lparr>block_cid = c, block_data = block_data b\<rparr> t = (Ok (), t')"
    and "\<And>bs. encode_message M (want_message X c) = Ok bs \<Longrightarrow> frame_fits MAX_MESSAGE bs"
    and "\<And>bs. encode_message M (delivery_message X c (block_data b)) = Ok bs \<Longrightarrow> frame_fits MAX_MESSAGE bs"
    and req: "outbound X M C' c True input t mt = (request, rest)"
  shows "\<exists>response. inbound_loop X P M C ''altruistic'' price s (\<lambda>_. True) request [] mt2
      = (response, block_sent (length (block_data b)) mt2, False)
    \<and> outbound X M C' c True response t mt = (request, t', block_received (length (block_data b)) mt, False)"
proof -
  obtain ws where ws: "encode_message M (want_message X c) = Ok ws" "decode_message M ws = Ok (want_message X c)"
    by (rule message_lawE [OF assms(1)])
  obtain ds where ds: "encode_message M (delivery_message X c (block_data b)) = Ok ds"
    "decode_message M ds = Ok (delivery_message X c (block_data b))"
    by (rule message_lawE [OF assms(1)])
  have r: "request = write_length_prefixed ws" using req ws by (simp add: outbound_def)
  have "inbound_loop X P M C ''altruistic'' price s (\<lambda>_. True) request [] mt2
      = (write_length_prefixed ds, block_sent (length (block_data b)) mt2, False)"
    unfolding r by (rule inbound_one [OF ws(2) assms(6) [OF ws(1)] handle_want [OF assms(2,3)] ds(1)]) simp
  moreover have "outbound_loop X M C' c (write_length_prefixed ds) t mt = (t', block_received (length (block_data b)) mt, False)"
    by (rule outbound_one [OF ds assms(7) [OF ds(1)] store_payload_one [OF assms(4) put]])
  ultimately show ?thesis using ws by (simp add: outbound_def r)
qed

section \<open>A concrete fetch\<close>

text \<open>The bytes of a peer that sends one block that verifies and one that does not.\<close>

definition demo_good :: "nat \<times> nat \<times> bytes" where
  "demo_good = (0xcd02, 0x1e, demo_digest [7, 8])"

lemma demo_good_verifies [simp]: "verify_blake3 demo_crates [7, 8] demo_good = Ok ()"
  by (simp add: verify_blake3_def blake3_cid_def blake3_hash_def demo_crates_def demo_good_def demo_digest_def BLAKE3_CODE_def ARCHIVIST_BLOCK_CODEC_def)

lemma demo_small_frame: "length (w_message m) \<le> 1000 \<Longrightarrow> encode_message demo_codec m = Ok bs \<Longrightarrow> frame_fits MAX_MESSAGE bs"
  by (simp add: encode_message_def demo_codec_def frame_fits_def MAX_MESSAGE_def)

lemma demo_good_bytes: "length (cid_to_bytes demo_crates demo_good) = 38"
  by (simp add: demo_crates_def demo_to_bytes_def demo_good_def demo_varint.simps demo_digest_def)

lemma length_w_bytes: "length bs < 128 \<Longrightarrow> length (w_bytes bs) = Suc (length bs)"
  by (simp add: w_bytes_def demo_varint.simps)

lemmas w_defs = w_message_def w_wantlist_def w_entry_def w_address_def w_delivery_def w_iso_def w_pair_def w_option_def w_word_def w_bool_def
  w_bytes_def demo_varint.simps

lemma demo_frames:
  "encode_message demo_codec (want_message demo_crates demo_good) = Ok bs \<Longrightarrow> frame_fits MAX_MESSAGE bs"
  "encode_message demo_codec (delivery_message demo_crates demo_good [7, 8]) = Ok bs \<Longrightarrow> frame_fits MAX_MESSAGE bs"
  by (rule demo_small_frame;
      simp add: w_defs want_message_def delivery_message_def entry_from_cid_def address_from_cid_def delivery_from_cid_and_data_def demo_good_bytes)+

definition demo_peer :: "(string \<times> bytes) list store_backend" where
  "demo_peer = RedbB [(cid_to_string demo_crates demo_good, [7, 8])]"

lemma demo_peer_get [simp]: "store_get demo_crates demo_store demo_good demo_peer = Ok \<lparr>block_cid = demo_good, block_data = [7, 8]\<rparr>"
  by (simp add: demo_peer_def demo_store_def redb_get_def demo_redb_def)

lemma demo_geom_put:
  obtains t' where "store_put demo_crates demo_store \<lparr>block_cid = demo_good, block_data = [7, 8]\<rparr> (GeomB []) = (Ok (), t')"
proof -
  have "fst (store_put demo_crates demo_store \<lparr>block_cid = demo_good, block_data = [7, 8]\<rparr> (GeomB [])) = Ok ()"
    by (simp add: store_put_def geom_put_many_def om_get_def Let_def)
  then show ?thesis using that by (metis prod.collapse)
qed

lemma demo_fetch:
  obtains response request t' where "outbound demo_crates demo_codec demo_store demo_good True response (GeomB []) metrics_new
      = (request, t', block_received 2 metrics_new, False)"
    "store_look demo_crates demo_store t' demo_good = Some [7, 8]"
proof -
  obtain t' where put: "store_put demo_crates demo_store \<lparr>block_cid = demo_good, block_data = [7, 8]\<rparr> (GeomB []) = (Ok (), t')" by (rule demo_geom_put)
  obtain request rest where req: "outbound demo_crates demo_codec demo_store demo_good True [] (GeomB []) metrics_new = (request, rest)" by (rule prod.exhaust)
  have i: "store_inv demo_crates demo_store demo_dsize 1 (GeomB [])" by (simp add: geom_inv_def)
  have "\<exists>response. inbound_loop demo_crates demo_prost demo_codec demo_store ''altruistic'' 0 demo_peer (\<lambda>_. True) request [] metrics_new
      = (response, block_sent (length (block_data \<lparr>block_cid = demo_good, block_data = [7, 8]\<rparr>)) metrics_new, False)
    \<and> outbound demo_crates demo_codec demo_store demo_good True response (GeomB []) metrics_new
      = (request, t', block_received (length (block_data \<lparr>block_cid = demo_good, block_data = [7, 8]\<rparr>)) metrics_new, False)"
    by (rule fetch_from_peer [OF demo_message_law demo_cid_bytes_law demo_peer_get _ _ _ _ req]) (use put demo_frames in simp_all)
  then obtain response where "outbound demo_crates demo_codec demo_store demo_good True response (GeomB []) metrics_new
      = (request, t', block_received 2 metrics_new, False)" by (auto simp: numeral_2_eq_2)
  moreover have "store_look demo_crates demo_store t' demo_good = Some [7, 8]"
    using store_put_any [OF i _ put] by (simp add: geom_look_def)
  ultimately show ?thesis by (rule that)
qed

theorem outbound_verified_witness:
  "\<exists>response out s' mt' d. outbound demo_crates demo_codec demo_store demo_good True response (GeomB []) metrics_new = (out, s', mt', False)
     \<and> store_look demo_crates demo_store s' demo_good = Some d \<and> verify_blake3 demo_crates d demo_good = Ok ()"
proof -
  obtain response request t' where o: "outbound demo_crates demo_codec demo_store demo_good True response (GeomB []) metrics_new
      = (request, t', block_received 2 metrics_new, False)" and l: "store_look demo_crates demo_store t' demo_good = Some [7, 8]"
    by (rule demo_fetch)
  have i: "store_inv demo_crates demo_store demo_dsize 1 (GeomB [])" by (simp add: geom_inv_def)
  have "store_look demo_crates demo_store (GeomB []) demo_good = None" by (simp add: geom_look_def)
  then show ?thesis using outbound_verified [OF o i] o l by (metis is_flat.simps(4) option.distinct(1))
qed

end
