(* ===== verification/Blockexc_Peer.thy ===== *)
theory Blockexc_Peer
  imports Blockexc_Fetch
begin

text \<open>
  The state machines of the block exchange in \<open>blockexc.rs\<close>: the connection handler that opens a
  stream for a request, the network behaviour that spreads the requests of the node over the
  connected peers, and the client that asks for a block. \<open>'p\<close> stands for \<open>PeerId\<close>. A response
  channel is a number. The tasks of the streams are \<open>inbound_loop\<close> and \<open>outbound\<close>.
\<close>

datatype 'c from_behaviour = RequestBlock 'c
datatype 'c to_behaviour = BlockReceived 'c bytes | PresenceNotice 'c bool

text \<open>What a handler may hand to the swarm.\<close>

datatype 'c handler_event = OutboundSubstreamRequest 'c | NotifyBehaviour "'c to_behaviour"

section \<open>The connection handler\<close>

record ('c, 'p) handler =
  h_peer_id :: 'p
  h_outbound_requested :: bool
  h_has_active_stream :: bool
  h_mode :: string
  h_price_per_byte :: nat
  h_pending_request :: "'c option"

definition handler_new :: "'p \<Rightarrow> string \<Rightarrow> nat \<Rightarrow> ('c, 'p) handler" where
  "handler_new peer_id mode price_per_byte =
     \<lparr>h_peer_id = peer_id, h_outbound_requested = False, h_has_active_stream = False, h_mode = mode,
      h_price_per_byte = price_per_byte, h_pending_request = None\<rparr>"

fun on_behaviour_event :: "'c from_behaviour \<Rightarrow> ('c, 'p) handler \<Rightarrow> ('c, 'p) handler" where
  "on_behaviour_event (RequestBlock cid) h = h\<lparr>h_pending_request := Some cid, h_outbound_requested := False\<rparr>"

definition connection_keep_alive :: "('c, 'p) handler \<Rightarrow> bool" where
  "connection_keep_alive h = (h_has_active_stream h \<or> h_pending_request h \<noteq> None)"

text \<open>\<open>None\<close> is \<open>Poll::Pending\<close>.\<close>

definition handler_poll :: "('c, 'p) handler \<Rightarrow> 'c handler_event option \<times> ('c, 'p) handler" where
  "handler_poll h =
     (case h_pending_request h of
        Some cid \<Rightarrow>
          let h' = h\<lparr>h_pending_request := None\<rparr> in
          if \<not> h_outbound_requested h' then (Some (OutboundSubstreamRequest cid), h'\<lparr>h_outbound_requested := True\<rparr>)
          else (None, h')
      | None \<Rightarrow> (None, h))"

datatype 'c connection_event = NegotiatedInbound | NegotiatedOutbound 'c | DialUpgradeError | OtherConnectionEvent

text \<open>The handler's own state; the negotiated streams are given to their tasks.\<close>

fun on_connection_event :: "'c connection_event \<Rightarrow> ('c, 'p) handler \<Rightarrow> ('c, 'p) handler" where
  "on_connection_event NegotiatedInbound h = h\<lparr>h_has_active_stream := True\<rparr>"
| "on_connection_event (NegotiatedOutbound requested_cid) h = h\<lparr>h_has_active_stream := True\<rparr>"
| "on_connection_event DialUpgradeError h = h"
| "on_connection_event OtherConnectionEvent h = h"

section \<open>The behaviour\<close>

record 'c block_request =
  br_cid :: 'c
  br_response_tx :: nat

record ('c, 'p) behaviour =
  bh_mode :: string
  bh_price_per_byte :: nat
  bh_request_rx :: "'c block_request list"
  bh_pending_requests :: "'c \<rightharpoonup> 'c block_request"
  bh_connected_peers :: "'p list"
  bh_pending_events :: "('p \<times> 'c from_behaviour) list"

datatype blockexc_error =
    RequestFailed string | NotFound | Timeout | NoPeers | CidMismatch string string | BlockExcIo string | BlockExcStorage storage_error

definition behaviour_new :: "string \<Rightarrow> nat \<Rightarrow> ('c, 'p) behaviour" where
  "behaviour_new mode price_per_byte =
     \<lparr>bh_mode = mode, bh_price_per_byte = price_per_byte, bh_request_rx = [], bh_pending_requests = Map.empty,
      bh_connected_peers = [], bh_pending_events = []\<rparr>"

definition request_block :: "'p \<Rightarrow> 'c \<Rightarrow> ('c, 'p) behaviour \<Rightarrow> (unit, blockexc_error) result \<times> ('c, 'p) behaviour" where
  "request_block peer_id cid b =
     (if peer_id \<notin> set (bh_connected_peers b) then (Err NoPeers, b)
      else (Ok (), b\<lparr>bh_pending_events := bh_pending_events b @ [(peer_id, RequestBlock cid)]\<rparr>))"

definition broadcast_want :: "'c \<Rightarrow> ('c, 'p) behaviour \<Rightarrow> (nat, blockexc_error) result \<times> ('c, 'p) behaviour" where
  "broadcast_want cid b =
     (if bh_connected_peers b = [] then (Err NoPeers, b)
      else (Ok (length (bh_connected_peers b)),
            b\<lparr>bh_pending_events := bh_pending_events b @ map (\<lambda>p. (p, RequestBlock cid)) (bh_connected_peers b)\<rparr>))"

definition connected_peer_count :: "('c, 'p) behaviour \<Rightarrow> nat" where
  "connected_peer_count b = length (bh_connected_peers b)"

definition connected_peers :: "('c, 'p) behaviour \<Rightarrow> 'p list" where
  "connected_peers b = bh_connected_peers b"

text \<open>The same for inbound and outbound connections.\<close>

definition handle_established :: "'p \<Rightarrow> ('c, 'p) behaviour \<Rightarrow> ('c, 'p) handler" where
  "handle_established peer b = handler_new peer (bh_mode b) (bh_price_per_byte b)"

datatype 'p swarm_event = ConnectionEstablished 'p | ConnectionClosed 'p nat | OtherSwarmEvent

fun on_swarm_event :: "'p swarm_event \<Rightarrow> ('c, 'p) behaviour \<Rightarrow> ('c, 'p) behaviour" where
  "on_swarm_event (ConnectionEstablished p) b = b\<lparr>bh_connected_peers := List.insert p (bh_connected_peers b)\<rparr>"
| "on_swarm_event (ConnectionClosed p remaining_established) b =
     (if remaining_established = 0 then b\<lparr>bh_connected_peers := removeAll p (bh_connected_peers b)\<rparr> else b)"
| "on_swarm_event OtherSwarmEvent b = b"

text \<open>The channel that is sent the block, if a request was pending, and what happens to store and counters.\<close>

fun on_connection_handler_event ::
  "('c, 'm) crates \<Rightarrow> 't store_cfg \<Rightarrow> 'c to_behaviour \<Rightarrow> ('c, 'p) behaviour \<Rightarrow> 't store_backend \<Rightarrow> metrics \<Rightarrow>
     ('c, 'p) behaviour \<times> (nat \<times> 'c block) list \<times> 't store_backend \<times> metrics" where
  "on_connection_handler_event X C (BlockReceived cid data) b s mt =
     (let block = \<lparr>block_cid = cid, block_data = data\<rparr>;
          sent = (case bh_pending_requests b cid of Some request \<Rightarrow> [(br_response_tx request, block)] | None \<Rightarrow> []);
          (r, s') = store_put X C block s
      in (b\<lparr>bh_pending_requests := (bh_pending_requests b)(cid := None)\<rparr>, sent, s',
          if r = Ok () then block_received (length data) mt else mt))"
| "on_connection_handler_event X C (PresenceNotice cid has_block) b s mt = (b, [], s, mt)"

text \<open>\<open>Some\<close> is \<open>NotifyHandler\<close> for any connection of that peer.\<close>

fun poll_requests :: "'c block_request list \<Rightarrow> ('c, 'p) behaviour \<Rightarrow> ('p \<times> 'c from_behaviour) option \<times> ('c, 'p) behaviour" where
  "poll_requests [] b = (None, b\<lparr>bh_request_rx := []\<rparr>)"
| "poll_requests (request # rx) b =
     (let b1 = b\<lparr>bh_pending_requests := (bh_pending_requests b)(br_cid request \<mapsto> request),
                 bh_pending_events := bh_pending_events b @ map (\<lambda>p. (p, RequestBlock (br_cid request))) (bh_connected_peers b)\<rparr>
      in case bh_pending_events b1 of
           e # es \<Rightarrow> (Some e, b1\<lparr>bh_pending_events := es, bh_request_rx := rx\<rparr>)
         | [] \<Rightarrow> poll_requests rx b1)"

definition behaviour_poll :: "('c, 'p) behaviour \<Rightarrow> ('p \<times> 'c from_behaviour) option \<times> ('c, 'p) behaviour" where
  "behaviour_poll b =
     (case bh_pending_events b of
        e # es \<Rightarrow> (Some e, b\<lparr>bh_pending_events := es\<rparr>)
      | [] \<Rightarrow> poll_requests (bh_request_rx b) b)"

section \<open>The client\<close>

datatype 'c answer_event = Answered "'c block" | SenderDropped | TimedOut

text \<open>
  The first part of \<open>request_block\<close> answers from the local store or sends a request for the
  fresh channel \<open>ch\<close>; the second part is what the client makes of the answer. \<open>swarm_gone\<close> is a
  closed request channel.
\<close>

definition client_request ::
  "('c, 'm) crates \<Rightarrow> 't store_cfg \<Rightarrow> 'c \<Rightarrow> nat \<Rightarrow> bool \<Rightarrow> 't store_backend \<Rightarrow> ('c block, blockexc_error) result option \<times> 'c block_request option" where
  "client_request X C cid ch swarm_gone s =
     (case store_get X C cid s of
        Ok block \<Rightarrow> (Some (Ok block), None)
      | Panic \<Rightarrow> (Some Panic, None)
      | Err _ \<Rightarrow>
        if swarm_gone then (Some (Err (RequestFailed ''Failed to send request to swarm'')), None)
        else (None, Some \<lparr>br_cid = cid, br_response_tx = ch\<rparr>))"

fun client_answer :: "'c answer_event \<Rightarrow> metrics \<Rightarrow> ('c block, blockexc_error) result \<times> metrics" where
  "client_answer (Answered block) mt = (Ok block, block_received (length (block_data block)) mt)"
| "client_answer SenderDropped mt = (Err (RequestFailed ''Channel closed''), mt)"
| "client_answer TimedOut mt = (Err Timeout, mt)"

section \<open>Every queued want reaches every connected peer\<close>

text \<open>Polling until \<open>Pending\<close>.\<close>

lemma poll_requests_some:
  "poll_requests rx b = (Some e, b') \<Longrightarrow> length (bh_request_rx b') < length rx"
  by (induction rx b rule: poll_requests.induct) (auto simp: Let_def less_SucI split: list.splits)

function poll_all :: "('c, 'p) behaviour \<Rightarrow> ('p \<times> 'c from_behaviour) list \<times> ('c, 'p) behaviour" where
  "poll_all b =
     (case behaviour_poll b of
        (Some e, b') \<Rightarrow> (case poll_all b' of (es, b'') \<Rightarrow> (e # es, b''))
      | (None, b') \<Rightarrow> ([], b'))"
  by pat_completeness auto
termination
  by (relation "measures [\<lambda>b. length (bh_request_rx b), \<lambda>b. length (bh_pending_events b)]")
    (auto simp: behaviour_poll_def dest: sym [THEN poll_requests_some] poll_requests_some split: list.splits)

declare poll_all.simps [simp del]

lemma poll_requests_frame:
  "poll_requests rx b = (r, b') \<Longrightarrow> bh_connected_peers b' = bh_connected_peers b"
  by (induction rx b rule: poll_requests.induct) (auto simp: Let_def split: list.splits)

text \<open>The requests, recorded by their CID in the order they arrive.\<close>

fun record_requests :: "'c block_request list \<Rightarrow> ('c \<rightharpoonup> 'c block_request) \<Rightarrow> ('c \<rightharpoonup> 'c block_request)" where
  "record_requests [] m = m"
| "record_requests (r # rs) m = record_requests rs (m(br_cid r \<mapsto> r))"

definition wants_of :: "'p list \<Rightarrow> 'c block_request list \<Rightarrow> ('p \<times> 'c from_behaviour) list" where
  "wants_of peers rx = concat (map (\<lambda>r. map (\<lambda>p. (p, RequestBlock (br_cid r))) peers) rx)"

lemma wants_of_Nil [simp]: "wants_of [] rx = []"
  by (simp add: wants_of_def)

text \<open>One poll with nothing queued, when no peer is connected and when some are.\<close>

lemma poll_requests_none:
  "bh_pending_events b = [] \<Longrightarrow> bh_connected_peers b = [] \<Longrightarrow>
     poll_requests rx b = (None, b\<lparr>bh_request_rx := [], bh_pending_requests := record_requests rx (bh_pending_requests b)\<rparr>)"
  by (induction rx arbitrary: b) (simp_all add: Let_def)

lemma poll_requests_first:
  "bh_pending_events b = [] \<Longrightarrow> bh_connected_peers b = p # ps \<Longrightarrow>
     poll_requests (r # rx) b = (Some (p, RequestBlock (br_cid r)),
       b\<lparr>bh_pending_requests := (bh_pending_requests b)(br_cid r \<mapsto> r),
         bh_pending_events := map (\<lambda>p. (p, RequestBlock (br_cid r))) ps, bh_request_rx := rx\<rparr>)"
  by (simp add: Let_def)

lemma poll_all_spec:
  "poll_all b = (bh_pending_events b @ wants_of (bh_connected_peers b) (bh_request_rx b),
     b\<lparr>bh_pending_events := [], bh_request_rx := [], bh_pending_requests := record_requests (bh_request_rx b) (bh_pending_requests b)\<rparr>)"
proof (induction b rule: poll_all.induct)
  case (1 b)
  show ?case
  proof (cases "bh_pending_events b")
    case (Cons e es)
    then have "behaviour_poll b = (Some e, b\<lparr>bh_pending_events := es\<rparr>)" by (simp add: behaviour_poll_def)
    then show ?thesis using 1 [OF _ refl] Cons by (simp add: poll_all.simps [of b])
  next
    case Nil
    then have bp: "behaviour_poll b = poll_requests (bh_request_rx b) b" by (simp add: behaviour_poll_def)
    show ?thesis
    proof (cases "bh_request_rx b")
      case rx: Nil
      then show ?thesis using bp Nil by (simp add: poll_all.simps [of b] wants_of_def)
    next
      case rx: (Cons r rx)
      show ?thesis
      proof (cases "bh_connected_peers b")
        case peers: Nil
        show ?thesis using bp Nil peers poll_requests_none [OF Nil peers, of "bh_request_rx b"] by (simp add: poll_all.simps [of b])
      next
        case peers: (Cons p ps)
        have "behaviour_poll b = (Some (p, RequestBlock (br_cid r)),
          b\<lparr>bh_pending_requests := (bh_pending_requests b)(br_cid r \<mapsto> r),
            bh_pending_events := map (\<lambda>p. (p, RequestBlock (br_cid r))) ps, bh_request_rx := rx\<rparr>)"
          unfolding bp rx by (rule poll_requests_first [OF Nil peers])
        then show ?thesis using 1 [OF _ refl] Nil peers rx by (simp add: poll_all.simps [of b] wants_of_def fun_upd_def)
      qed
    qed
  qed
qed

text \<open>
  C31. Requests are spread over the peers: polling the behaviour until it has nothing to do
  ends, and has notified, after the events that were queued, every connected peer of every
  request of the channel, in the order of the requests, one event per peer and request. Every
  request is then recorded as pending, the last one for its CID.
\<close>

theorem wants_dispatched:
  "poll_all b = (bh_pending_events b @ concat (map (\<lambda>r. map (\<lambda>p. (p, RequestBlock (br_cid r))) (bh_connected_peers b)) (bh_request_rx b)),
     b\<lparr>bh_pending_events := [], bh_request_rx := [], bh_pending_requests := record_requests (bh_request_rx b) (bh_pending_requests b)\<rparr>)"
  by (rule poll_all_spec [unfolded wants_of_def])

section \<open>The node and its peers\<close>

text \<open>
  The swarm around the behaviour: connections by number, each with its handler, and the
  channels that have been sent a block. A step is a request of the client, a connection that
  opens or closes, a poll of the behaviour whose event goes to some connection of the peer, a
  poll of a handler whose event goes to the behaviour, or a connection event.
\<close>

record ('c, 'p, 't) swarm =
  sw_behaviour :: "('c, 'p) behaviour"
  sw_handlers :: "nat \<rightharpoonup> ('c, 'p) handler"
  sw_answered :: "(nat \<times> 'c block) list"
  sw_store :: "'t store_backend"
  sw_metrics :: metrics

definition swarm_start :: "string \<Rightarrow> nat \<Rightarrow> 't store_backend \<Rightarrow> ('c, 'p, 't) swarm" where
  "swarm_start mode price s =
     \<lparr>sw_behaviour = behaviour_new mode price, sw_handlers = Map.empty, sw_answered = [], sw_store = s, sw_metrics = metrics_new\<rparr>"

definition deliver_event :: "('c, 'm) crates \<Rightarrow> 't store_cfg \<Rightarrow> 'c to_behaviour \<Rightarrow> ('c, 'p, 't) swarm \<Rightarrow> ('c, 'p, 't) swarm" where
  "deliver_event X C ev w =
     (case on_connection_handler_event X C ev (sw_behaviour w) (sw_store w) (sw_metrics w) of
        (b, sent, s, mt) \<Rightarrow> w\<lparr>sw_behaviour := b, sw_answered := sw_answered w @ sent, sw_store := s, sw_metrics := mt\<rparr>)"

inductive swarm_step :: "('c, 'm) crates \<Rightarrow> 't store_cfg \<Rightarrow> ('c, 'p, 't) swarm \<Rightarrow> ('c, 'p, 't) swarm \<Rightarrow> bool" for X C where
  request: "swarm_step X C w (w\<lparr>sw_behaviour := (sw_behaviour w)\<lparr>bh_request_rx := bh_request_rx (sw_behaviour w) @ [r]\<rparr>\<rparr>)"
| connect: "sw_handlers w conn = None \<Longrightarrow>
    swarm_step X C w (w\<lparr>sw_behaviour := on_swarm_event (ConnectionEstablished p) (sw_behaviour w),
      sw_handlers := (sw_handlers w)(conn \<mapsto> handle_established p (sw_behaviour w))\<rparr>)"
| disconnect: "swarm_step X C w (w\<lparr>sw_behaviour := on_swarm_event (ConnectionClosed p n) (sw_behaviour w), sw_handlers := (sw_handlers w)(conn := None)\<rparr>)"
| notify: "behaviour_poll (sw_behaviour w) = (Some (p, ev), b) \<Longrightarrow> sw_handlers w conn = Some h \<Longrightarrow> h_peer_id h = p \<Longrightarrow>
    swarm_step X C w (w\<lparr>sw_behaviour := b, sw_handlers := (sw_handlers w)(conn \<mapsto> on_behaviour_event ev h)\<rparr>)"
| notify_lost: "behaviour_poll (sw_behaviour w) = (r, b) \<Longrightarrow> swarm_step X C w (w\<lparr>sw_behaviour := b\<rparr>)"
| open_stream: "sw_handlers w conn = Some h \<Longrightarrow> handler_poll h = (Some (OutboundSubstreamRequest cid), h') \<Longrightarrow>
    swarm_step X C w (w\<lparr>sw_handlers := (sw_handlers w)(conn \<mapsto> h')\<rparr>)"
| report: "sw_handlers w conn = Some h \<Longrightarrow> handler_poll h = (Some (NotifyBehaviour ev), h') \<Longrightarrow>
    swarm_step X C w (deliver_event X C ev (w\<lparr>sw_handlers := (sw_handlers w)(conn \<mapsto> h')\<rparr>))"
| connection: "sw_handlers w conn = Some h \<Longrightarrow> swarm_step X C w (w\<lparr>sw_handlers := (sw_handlers w)(conn \<mapsto> on_connection_event ev h)\<rparr>)"
| fetch: "outbound X M C cid wok input (sw_store w) (sw_metrics w) = (out, s', mt', panicked) \<Longrightarrow>
    swarm_step X C w (w\<lparr>sw_store := s', sw_metrics := mt'\<rparr>)"

inductive swarm_reach :: "('c, 'm) crates \<Rightarrow> 't store_cfg \<Rightarrow> ('c, 'p, 't) swarm \<Rightarrow> ('c, 'p, 't) swarm \<Rightarrow> bool" for X C w0 where
  refl: "swarm_reach X C w0 w0"
| step: "swarm_reach X C w0 w \<Longrightarrow> swarm_step X C w w' \<Longrightarrow> swarm_reach X C w0 w'"

lemma handler_poll_silent: "handler_poll h \<noteq> (Some (NotifyBehaviour ev), h')"
  by (auto simp: handler_poll_def Let_def split: option.splits if_splits)

lemma swarm_step_answered: "swarm_step X C w w' \<Longrightarrow> sw_answered w' = sw_answered w"
  by (induction rule: swarm_step.induct) (simp_all add: handler_poll_silent)

lemma swarm_answered: "swarm_reach X C w0 w \<Longrightarrow> sw_answered w = sw_answered w0"
  by (induction rule: swarm_reach.induct) (simp_all add: swarm_step_answered)

lemma client_sends: "client_request X C cid ch gone s = (None, Some r) \<Longrightarrow> br_response_tx r = ch \<and> (\<exists>e. store_get X C cid s = Err e)"
  by (auto simp: client_request_def split: result.splits if_splits)

text \<open>
  A handler opens one stream per request it is polled for: after a request the next poll asks
  for an outbound stream for that CID and the one after for nothing, and a request that comes
  before the poll replaces the one before it. But no handler ever reports a block to the
  behaviour, so however the node and its peers run, no channel of a client is sent a block:
  \<open>request_block\<close> returns a block only when it is in the local store at the time of the call,
  even when the block is then fetched and stored.
\<close>

lemma client_never_answered:
  assumes "swarm_reach X C (swarm_start mode price s) w"
  shows "(\<forall>h :: ('c, 'p) handler. \<forall>cid cid'.
        fst (handler_poll (on_behaviour_event (RequestBlock cid) h)) = Some (OutboundSubstreamRequest cid)
      \<and> fst (handler_poll (snd (handler_poll (on_behaviour_event (RequestBlock cid) h)))) = None
      \<and> on_behaviour_event (RequestBlock cid') (on_behaviour_event (RequestBlock cid) h) = on_behaviour_event (RequestBlock cid') h)
    \<and> (\<forall>ch b. (ch, b) \<notin> set (sw_answered w))
    \<and> (\<forall>cid ch gone t b. fst (client_request X C cid ch gone t) = Some (Ok b) \<longrightarrow> store_get X C cid t = Ok b)"
  using swarm_answered [OF assms]
  by (auto simp: swarm_start_def handler_poll_def client_request_def split: result.splits if_splits)

end
