(* ===== verification/Block_Batch.thy ===== *)
theory Block_Batch
  imports Block_Store
begin

text \<open>
  Batches on every backend: what \<open>put_many\<close> does to the map a store stands for, and stores whose
  data is addressed by its content. The upload and download handlers are proved over these laws.
\<close>

section \<open>The map after a batch\<close>

abbreviation batch_of :: "'c block list \<Rightarrow> 'c \<rightharpoonup> bytes" where
  "batch_of blocks \<equiv> map_of (map (\<lambda>b. (block_cid b, block_data b)) blocks)"

lemma batch_of_key:
  assumes "cid_string_law X"
  shows "map_of (map (\<lambda>b. (cid_to_string X (block_cid b), block_data b)) blocks) (cid_to_string X c) = batch_of blocks c"
  by (induction blocks) (auto simp: cid_to_string_inject [OF assms])

text \<open>
  Every entry of a deltaflat store is in the lane of its identifier, which holds of the empty store
  and is kept by \<open>put_many\<close>.
\<close>

definition flat_tight :: "('c, 'm) crates \<Rightarrow> flat_config \<Rightarrow> flat_store \<Rightarrow> bool" where
  "flat_tight X cfg st \<longleftrightarrow> (\<forall>cl lane c. store_data X st (cl, lane) (cid_to_bytes X c) \<noteq> None \<longrightarrow> lane = lane_for_cid X cfg (cid_to_bytes X c))"

fun store_tight :: "('c, 'm) crates \<Rightarrow> 't store_cfg \<Rightarrow> 't store_backend \<Rightarrow> bool" where
  "store_tight X C (FlatB st) = flat_tight X (sc_flat C) st"
| "store_tight X C _ = True"

lemma flat_batch:
  assumes "flat_inv X cfg dsize (length blocks + k) st" "\<And>b. b \<in> set blocks \<Longrightarrow> length (block_data b) = dsize (block_cid b)"
    and "flat_put_many X cfg blocks st = (Ok (), st')"
  shows "flat_inv X cfg dsize k st' \<and> (flat_tight X cfg st \<longrightarrow> flat_tight X cfg st') \<and>
    flat_lookup X cfg st' c = (case flat_lookup X cfg st c of Some d \<Rightarrow> Some d | None \<Rightarrow> batch_of blocks c)"
proof -
  obtain n where n: "2 ^ 24 \<le> n" "store_ok X n st" "n + (length blocks + k) * max_probe_steps cfg < 2 ^ 31"
    using assms(1) unfolding flat_inv_def by blast
  have base: "cid_bytes_law X" "\<not> skip_exists_check cfg" "sized X dsize st" using assms(1) by (auto simp: flat_inv_def)
  have room: "n + length blocks * max_probe_steps cfg < 2 ^ 31" using n(3) by (simp add: add_mult_distrib)
  note put = flat_put_lookup [OF base(1) n(2) base(3) n(1) base(2) room assms(2,3)]
  have "flat_inv X cfg dsize k st'"
    unfolding flat_inv_def using base put(1,2) n
    by (auto intro!: exI [of _ "n + length blocks * max_probe_steps cfg"] simp: add_mult_distrib)
  moreover have "flat_tight X cfg st'" if "flat_tight X cfg st"
    unfolding flat_tight_def using that put(4) by (auto simp: flat_tight_def split: option.splits if_splits)
  ultimately show ?thesis using put(3) [of c] unfolding blocks_map_def by blast
qed

theorem store_put_batch:
  assumes "store_inv X C dsize (length blocks + k) s" "\<And>b. b \<in> set blocks \<Longrightarrow> length (block_data b) = dsize (block_cid b)"
    and "store_put_many X C blocks s = (Ok (), s')"
  shows "store_inv X C dsize k s' \<and> (store_tight X C s \<longrightarrow> store_tight X C s') \<and>
    store_look X C s' c = (case store_look X C s c of Some d \<Rightarrow> Some d | None \<Rightarrow> batch_of blocks c)"
proof (cases s)
  case (RedbB t)
  then obtain t' where t': "redb_put_many X (sc_redb C) (sc_verify C) blocks t = (Ok (), t')" "s' = RedbB t'"
    using assms(3) by (auto simp: map_prod_def split: prod.splits)
  have law: "redb_law (sc_redb C)" and str: "cid_string_law X" and ks: "keys_ok X (rd_view (sc_redb C) t)"
    using assms(1) RedbB by (auto simp: redb_inv_def)
  note v = redb_put_many_Ok [OF law t'(1)]
  have "keys_ok X (rd_view (sc_redb C) t')" unfolding v by (rule keys_ok_batch [OF ks])
  then show ?thesis using v batch_of_key [OF str] law str RedbB t'(2)
    by (simp add: redb_inv_def redb_look_def add_batch_def map_add_def split: option.splits)
next
  case (DeltaB ds)
  then obtain ds' where ds': "delta_put_many X (sc_redb C) (sc_delta C) blocks ds = (Ok (), ds')" "s' = DeltaB ds'"
    using assms(3) by (auto simp: map_prod_def split: prod.splits)
  have law: "redb_law (sc_redb C)" "\<not> dc_skip_exists_check (sc_delta C)" "delta_ok (sc_redb C) ds" "cid_string_law X"
    using assms(1) DeltaB by (auto simp: delta_inv_def)
  show ?thesis using delta_put_many_spec [OF law(1-3) ds'(1)] batch_of_key [OF law(4)] law DeltaB ds'(2)
    by (simp add: delta_inv_def delta_look_def add_batch_def map_add_def split: option.splits)
next
  case (FlatB st)
  then obtain st' where "flat_put_many X (sc_flat C) blocks st = (Ok (), st')" "s' = FlatB st'"
    using assms(3) by (auto simp: map_prod_def split: prod.splits)
  then show ?thesis using flat_batch [of X "sc_flat C" dsize blocks k st st' c] assms(1,2) FlatB by simp
next
  case (GeomB tree)
  then have t: "s' = GeomB (geom_put_loop X (sc_geom C) blocks tree)"
    using assms(3) by (auto simp: geom_put_many_def split: result.splits if_splits)
  have i: "geom_inv X (sc_geom C) (length blocks + k) tree" using assms(1) GeomB by simp
  then have "cid_string_law X" by (simp add: geom_inv_def)
  then show ?thesis using geom_put_loop_inv [OF i] geom_put_loop_look GeomB t by (simp add: geom_inv_def)
qed

section \<open>Content-addressed stores\<close>

text \<open>Data that has the digest its identifier names, for the two hash functions the node uses.\<close>

definition addressed :: "('c, 'm) crates \<Rightarrow> 'c \<Rightarrow> bytes \<Rightarrow> bool" where
  "addressed X c d \<longleftrightarrow> (mh_code X (cid_hash X c) = SHA2_256_CODE \<longrightarrow> mh_digest X (cid_hash X c) = sha256 X d)
     \<and> (mh_code X (cid_hash X c) = BLAKE3_CODE \<longrightarrow> mh_digest X (cid_hash X c) = blake3 X d)"

definition addressed_store :: "('c, 'm) crates \<Rightarrow> 't store_cfg \<Rightarrow> 't store_backend \<Rightarrow> bool" where
  "addressed_store X C s \<longleftrightarrow> (\<forall>c d. store_look X C s c = Some d \<longrightarrow> addressed X c d)"

text \<open>Every read of a stored block succeeds: the database has no fault.\<close>

definition reads_ok :: "('c, 'm) crates \<Rightarrow> 't store_cfg \<Rightarrow> 't store_backend \<Rightarrow> bool" where
  "reads_ok X C s \<longleftrightarrow> (\<forall>c. store_look X C s c \<noteq> None \<longrightarrow> is_ok (store_get X C c s))"

text \<open>
  \<open>A\<close> is a set of byte strings on which the hash has no collision; the theorems take for it the data
  that is stored and the data that is being stored.
\<close>

lemma addressed_bind:
  assumes "inj_on (sha256 X) A" "d \<in> A" "d' \<in> A" "addressed X c d" "addressed X c d'" "mh_code X (cid_hash X c) = SHA2_256_CODE"
  shows "d = d'"
  using assms by (auto simp: addressed_def dest: inj_onD)

lemma sha256_addressed:
  assumes "cid_new_law X" "mh_wrap_law X" "block_new_sha256 X d = Ok b"
  shows "addressed X (block_cid b) (block_data b)" "mh_code X (cid_hash X (block_cid b)) = SHA2_256_CODE" "block_data b = d"
  using assms(3) sha256_cid_parts [OF assms(1,2)] by (auto simp: block_new_sha256_def addressed_def codec_defs result_simps)

lemma batch_of_addressed:
  "(\<And>b. b \<in> set blocks \<Longrightarrow> addressed X (block_cid b) (block_data b)) \<Longrightarrow> batch_of blocks c = Some d \<Longrightarrow> addressed X c d"
  by (auto dest!: map_of_SomeD)

section \<open>Room for more blocks\<close>

text \<open>
  A well-formed content-addressed store of data in \<open>A\<close> with room for \<open>k\<close> blocks. The sizes that the invariant of
  the deltaflat backend expects of its blocks follow from content addressing.
\<close>

definition stored_data :: "('c, 'm) crates \<Rightarrow> 't store_cfg \<Rightarrow> 't store_backend \<Rightarrow> bytes set" where
  "stored_data X C s = {d. \<exists>c. store_look X C s c = Some d}"

definition room :: "('c, 'm) crates \<Rightarrow> 't store_cfg \<Rightarrow> bytes set \<Rightarrow> nat \<Rightarrow> 't store_backend \<Rightarrow> bool" where
  "room X C A k s \<longleftrightarrow> (\<exists>dsize. store_inv X C dsize k s) \<and> store_tight X C s \<and> addressed_store X C s \<and> stored_data X C s \<subseteq> A"

lemma room_le: "room X C A k s \<Longrightarrow> j \<le> k \<Longrightarrow> room X C A j s"
  by (auto simp: room_def intro: store_inv_le)

text \<open>Blocks of the hash function the node uploads with: content-addressed by SHA-256.\<close>

definition sha_block :: "('c, 'm) crates \<Rightarrow> 'c block \<Rightarrow> bool" where
  "sha_block X b \<longleftrightarrow> addressed X (block_cid b) (block_data b) \<and> mh_code X (cid_hash X (block_cid b)) = SHA2_256_CODE"

definition batch_ok_in :: "('c, 'm) crates \<Rightarrow> bytes set \<Rightarrow> 'c block list \<Rightarrow> bool" where
  "batch_ok_in X A blocks \<longleftrightarrow> (\<forall>b \<in> set blocks. sha_block X b \<and> block_data b \<in> A)"

lemma batch_of_sha:
  assumes "inj_on (sha256 X) A" "batch_ok_in X A blocks" "b \<in> set blocks"
  shows "batch_of blocks (block_cid b) = Some (block_data b)"
proof -
  have "batch_of blocks (block_cid b) \<noteq> None" using assms(3) by (auto simp: map_of_eq_None_iff image_image)
  then obtain d where d: "batch_of blocks (block_cid b) = Some d" by blast
  then obtain b' where b': "b' \<in> set blocks" "block_cid b' = block_cid b" "block_data b' = d" by (auto dest!: map_of_SomeD)
  have "addressed X (block_cid b) d" "d \<in> A" "sha_block X b" "block_data b \<in> A"
    using assms(2,3) b' by (auto simp: batch_ok_in_def sha_block_def)
  then show ?thesis using d addressed_bind [OF assms(1), of d "block_data b" "block_cid b"] by (simp add: sha_block_def)
qed

lemma resize:
  assumes "store_inv X C dsize k s" "store_tight X C s" "\<And>c d. store_look X C s c = Some d \<Longrightarrow> dsize' c = length d"
  shows "store_inv X C dsize' k s"
proof (cases s)
  case (FlatB st)
  have i: "flat_inv X (sc_flat C) dsize k st" and t: "flat_tight X (sc_flat C) st" using assms(1,2) FlatB by simp_all
  have sz: "sized X dsize st" using i by (simp add: flat_inv_def)
  have "sized X dsize' st"
    unfolding sized_def
  proof (intro allI impI)
    fix cl lane c d assume d: "store_data X st (cl, lane) (cid_to_bytes X c) = Some d"
    then have "lane = lane_for_cid X (sc_flat C) (cid_to_bytes X c)" "cl = class_of (dsize c)" "length d = dsize c"
      using t sz unfolding flat_tight_def sized_def by blast+
    moreover from this have "store_look X C s c = Some d" using d FlatB by (simp add: flat_lookup_sized [OF sz])
    ultimately show "cl = class_of (dsize' c) \<and> length d = dsize' c" using assms(3) [of c d] by simp
  qed
  then show ?thesis using i FlatB by (simp add: flat_inv_def)
qed (use assms(1) in simp_all)

text \<open>Without a collision of the hash, a batch that was stored reads back, and nothing stored before is lost.\<close>

lemma put_batch:
  assumes "inj_on (sha256 X) A" "room X C A (length blocks + k) s" "batch_ok_in X A blocks"
    and "store_put_many X C blocks s = (Ok (), s')"
  shows "room X C A k s'" "\<And>b. b \<in> set blocks \<Longrightarrow> store_look X C s' (block_cid b) = Some (block_data b)"
    "\<And>c d. store_look X C s c = Some d \<Longrightarrow> store_look X C s' c = Some d"
    "\<And>c d. store_look X C s' c = Some d \<Longrightarrow> store_look X C s c = None \<Longrightarrow> \<exists>b \<in> set blocks. c = block_cid b \<and> d = block_data b"
proof -
  obtain dsize where i: "store_inv X C dsize (length blocks + k) s" and t: "store_tight X C s" and a: "addressed_store X C s"
    and sub: "stored_data X C s \<subseteq> A" using assms(2) by (auto simp: room_def)
  have sha: "mh_code X (cid_hash X c) = SHA2_256_CODE" "addressed X c d" "d \<in> A" if "batch_of blocks c = Some d" for c d
    using that assms(3) by (auto simp: batch_ok_in_def sha_block_def dest!: map_of_SomeD)
  have old: "d = e" if "batch_of blocks c = Some d" "store_look X C s c = Some e" for c d e
  proof -
    have "e \<in> A" "addressed X c e" using that(2) sub a by (auto simp: stored_data_def addressed_store_def)
    then show ?thesis using sha [OF that(1)] addressed_bind [OF assms(1), of d e c] by simp
  qed
  define dsize' where "dsize' c = (case batch_of blocks c of Some d \<Rightarrow> length d
    | None \<Rightarrow> (case store_look X C s c of Some d \<Rightarrow> length d | None \<Rightarrow> 0))" for c
  have i': "store_inv X C dsize' (length blocks + k) s"
    by (rule resize [OF i t]) (use old in \<open>fastforce simp: dsize'_def split: option.splits\<close>)
  have sz: "length (block_data b) = dsize' (block_cid b)" if "b \<in> set blocks" for b
    using batch_of_sha [OF assms(1,3) that] by (simp add: dsize'_def)
  note put = store_put_batch [OF i' sz assms(4)]
  have "addressed_store X C s'" unfolding addressed_store_def
    using put a sha(2) by (auto simp: addressed_store_def split: option.splits)
  moreover have "stored_data X C s' \<subseteq> A"
    using put sub sha(3) by (auto simp: stored_data_def split: option.splits)
  ultimately show "room X C A k s'" using put t unfolding room_def by blast
  show "store_look X C s' (block_cid b) = Some (block_data b)" if "b \<in> set blocks" for b
    using put [of "block_cid b"] batch_of_sha [OF assms(1,3) that] old by (auto split: option.splits)
  show "store_look X C s' c = Some d" if "store_look X C s c = Some d" for c d using put [of c] that by simp
  show "\<exists>b \<in> set blocks. c = block_cid b \<and> d = block_data b" if "store_look X C s' c = Some d" "store_look X C s c = None" for c d
  proof -
    have "batch_of blocks c = Some d" using put [of c] that by simp
    then show ?thesis by (auto dest!: map_of_SomeD)
  qed
qed

lemma put_one:
  assumes "inj_on (sha256 X) A" "room X C A (Suc k) s" "sha_block X b" "block_data b \<in> A" "store_put X C b s = (Ok (), s')"
  shows "room X C A k s'" "store_look X C s' (block_cid b) = Some (block_data b)"
    "\<And>c d. store_look X C s c = Some d \<Longrightarrow> store_look X C s' c = Some d"
  using put_batch [of X A C "[b]" k s s'] assms by (simp_all add: store_put_def batch_ok_in_def)

lemma store_get_reads:
  assumes "reads_ok X C s" "room X C A k s" "store_look X C s c = Some d"
  shows "store_get X C c s = Ok \<lparr>block_cid = c, block_data = d\<rparr>"
proof -
  obtain dsize where i: "store_inv X C dsize k s" using assms(2) by (auto simp: room_def)
  have "is_ok (store_get X C c s)" using assms(1,3) by (simp add: reads_ok_def)
  then obtain b where b: "store_get X C c s = Ok b" by (auto simp: is_ok_iff)
  then have "block_data b = d" using store_get_Some [OF i, of c "block_data b"] assms(3) by (simp add: ok_data_def)
  then show ?thesis using b store_get_cid [OF b] by (cases b) simp
qed

end
