(* ===== verification/Api_Base.thy ===== *)
theory Api_Base
  imports Block_Batch
begin

text \<open>
  What the handlers of \<open>api.rs\<close> share: errors and their status codes, requests and responses,
  decimal numbers, the settings of the upload path and the fallback peers. \<open>axum\<close>, \<open>serde_json\<close>
  and \<open>base64\<close> only carry values: a response is its status, its headers and its body; a JSON body
  is the value that is serialized. Log lines are left out.
\<close>

section \<open>Errors\<close>

datatype api_error =
    BadRequest string
  | NotFound string
  | Unprocessable string
  | ServiceUnavailable string
  | NotImplemented string
  | Internal string

fun api_error_response :: "api_error \<Rightarrow> nat \<times> string" where
  "api_error_response (BadRequest msg) = (400, msg)"
| "api_error_response (NotFound msg) = (404, msg)"
| "api_error_response (Unprocessable msg) = (422, msg)"
| "api_error_response (ServiceUnavailable msg) = (503, msg)"
| "api_error_response (NotImplemented msg) = (501, msg)"
| "api_error_response (Internal msg) = (500, msg)"

text \<open>The error of a read: \<open>not_found\<close> for a missing block, an internal error otherwise.\<close>

fun read_err :: "string \<Rightarrow> string \<Rightarrow> storage_error \<Rightarrow> api_error" where
  "read_err not_found other (BlockNotFound _) = NotFound not_found"
| "read_err not_found other _ = Internal other"

section \<open>Decimal numbers and separators\<close>

fun show_nat :: "nat \<Rightarrow> string" where
  "show_nat n = (if n < 10 then [char_of (48 + n)] else show_nat (n div 10) @ [char_of (48 + n mod 10)])"

declare show_nat.simps [simp del]

definition trim_end_slash :: "string \<Rightarrow> string" where
  "trim_end_slash s = rev (dropWhile (\<lambda>c. c = CHR ''/'') (rev s))"

text \<open>\<open>str::split(c)\<close>: the pieces between the separators, empty ones included.\<close>

fun split_on :: "char \<Rightarrow> string \<Rightarrow> string list" where
  "split_on c [] = [[]]"
| "split_on c (x # xs) = (if x = c then [] # split_on c xs
     else case split_on c xs of p # ps \<Rightarrow> (x # p) # ps | [] \<Rightarrow> [[x]])"

lemma split_on_nonempty [simp]: "split_on c xs \<noteq> []"
  by (induction xs) (auto split: list.splits)

lemma split_on_free: "c \<notin> set xs \<Longrightarrow> split_on c xs = [xs]"
  by (induction xs) auto

lemma split_on_sep: "c \<notin> set xs \<Longrightarrow> split_on c (xs @ c # ys) = xs # split_on c ys"
  by (induction xs) (auto split: list.splits)

lemma split_on_pieces: "p \<in> set (split_on c xs) \<Longrightarrow> c \<notin> set p"
  by (induction xs arbitrary: p) (auto split: list.splits if_splits)

lemma digits_value_append: "digits_value a (xs @ [x]) = digits_value a xs * 10 + (of_char x - 48)"
  by (induction xs arbitrary: a) auto

lemma digit_char: "k < 10 \<Longrightarrow> is_digit (char_of (48 + k)) \<and> (of_char (char_of (48 + k) :: char) :: nat) = 48 + k"
  by (simp add: is_digit_def Let_def)

lemma show_nat_digits: "show_nat n \<noteq> [] \<and> list_all is_digit (show_nat n) \<and> digits_value 0 (show_nat n) = n"
proof (induction n rule: show_nat.induct)
  case (1 n)
  show ?case
  proof (cases "n < 10")
    case True
    then show ?thesis using digit_char [of n] by (simp add: show_nat.simps [of n])
  next
    case False
    then show ?thesis using 1 digit_char [of "n mod 10"] by (simp add: show_nat.simps [of n] digits_value_append del: of_char_of)
  qed
qed

lemma parse_show_nat: "n < 2 ^ w \<Longrightarrow> parse_uint w (show_nat n) = Some n"
proof -
  assume w: "n < 2 ^ w"
  obtain c cs where s: "show_nat n = c # cs" using show_nat_digits [of n] by (cases "show_nat n") auto
  then have "is_digit c" using show_nat_digits [of n] by simp
  then have "c \<noteq> CHR ''+''" by (auto simp: is_digit_def)
  then show ?thesis using s w show_nat_digits [of n] by (simp add: parse_uint_def Let_def)
qed

lemma show_nat_no_dash: "CHR ''-'' \<notin> set (show_nat n)"
proof
  assume "CHR ''-'' \<in> set (show_nat n)"
  then have "is_digit (CHR ''-'')" using show_nat_digits [of n] by (auto simp: list_all_iff)
  then show False by (simp add: is_digit_def)
qed

section \<open>Settings\<close>

definition upload_block_size :: "(string \<rightharpoonup> string) \<Rightarrow> nat" where
  "upload_block_size env = env_usize env ''NEVERUST_UPLOAD_BLOCK_SIZE'' (1024 * 1024)"

definition upload_commit_batch_blocks :: "(string \<rightharpoonup> string) \<Rightarrow> nat \<Rightarrow> nat" where
  "upload_commit_batch_blocks env block_size =
     (let target_commit_bytes = env_usize env ''NEVERUST_UPLOAD_COMMIT_BATCH_BYTES'' (256 * 1024 * 1024)
      in env_usize env ''NEVERUST_UPLOAD_COMMIT_BATCH_BLOCKS'' (max (target_commit_bytes div block_size) 1))"

definition upload_dedupe_blocks :: "(string \<rightharpoonup> string) \<Rightarrow> bool" where
  "upload_dedupe_blocks env =
     (case env ''NEVERUST_UPLOAD_DEDUPE_BLOCKS'' of
        Some v \<Rightarrow> lowercase (trim v) \<notin> set [''0'', ''false'', ''no'', ''off'']
      | None \<Rightarrow> True)"

definition upload_hash_workers :: "(string \<rightharpoonup> string) \<Rightarrow> nat option \<Rightarrow> nat" where
  "upload_hash_workers env cpus =
     env_usize env ''NEVERUST_UPLOAD_HASH_WORKERS'' (clamp 1 32 (case cpus of Some n \<Rightarrow> n | None \<Rightarrow> 1))"

definition upload_inflight_batches :: "(string \<rightharpoonup> string) \<Rightarrow> nat" where
  "upload_inflight_batches env = clamp 1 16 (env_usize env ''NEVERUST_UPLOAD_INFLIGHT_BATCHES'' 4)"

definition configured_http_fallback_peers :: "(string \<rightharpoonup> string) \<Rightarrow> string list" where
  "configured_http_fallback_peers env =
     (case env ''NEVERUST_HTTP_FALLBACK_PEERS'' of
        Some raw \<Rightarrow> filter (\<lambda>v. v \<noteq> []) (map trim (split_on (CHR '','') raw))
      | None \<Rightarrow> [])"

definition default_http_fallback_peers :: "string list" where
  "default_http_fallback_peers =
     ''http://bootstrap:8080''
     # map (\<lambda>i. ''http://node'' @ show_nat i @ '':8080'') [1..<50]
     @ concat (map (\<lambda>peer. map (\<lambda>port. ''http://'' @ peer @ '':'' @ show_nat port) [8080, 8070, 8000, 3000])
         [''91.98.135.54'', ''10.7.1.200''])"

definition fallback_http_peer_urls :: "(string \<rightharpoonup> string) \<Rightarrow> string list" where
  "fallback_http_peer_urls env =
     (let configured = configured_http_fallback_peers env
      in if configured \<noteq> [] then configured else default_http_fallback_peers)"

lemma env_usize_pos: "0 < dflt \<Longrightarrow> 0 < env_usize env name dflt"
  by (auto simp: env_usize_def split: option.splits)

lemma upload_settings_pos [simp]:
  "0 < upload_block_size env" "0 < upload_commit_batch_blocks env bs" "0 < upload_hash_workers env cpus"
  by (auto simp: upload_block_size_def upload_commit_batch_blocks_def upload_hash_workers_def clamp_def intro!: env_usize_pos)

end
