(* ===== verification/Api_Upload.thy ===== *)
theory Api_Upload
  imports Api_Base Merkle_Tree Manifest Chunker
begin

text \<open>
  The upload handlers of \<open>api.rs\<close>: hashing a batch on several threads, committing batches, the
  streaming upload with and without deduplication, and the single-block uploads. The body is the
  sequence of reads of the request stream.

  Without deduplication a batch is hashed and stored by a task of its own. A task waits in
  \<open>up_inflight\<close> as \<open>Todo\<close>, and as \<open>Done\<close> once it ran. The runtime is the argument \<open>sched\<close>: at
  the \<open>n\<close>-th time the handler awaits a task, \<open>sched n\<close> tells which tasks run, in which order, and
  which one is handed over. When the handler returns early the tasks that still wait go on in the
  background; they are those of \<open>up_inflight\<close>.
\<close>

section \<open>Hashing on several threads\<close>

definition hash_err :: "cid_error \<Rightarrow> string" where
  "hash_err e = (case e of InvalidCid _ \<Rightarrow> ''Invalid CID'' | HashMismatch _ _ \<Rightarrow> ''Hash mismatch''
     | CidIo _ \<Rightarrow> ''IO error'' | CidMultihash _ \<Rightarrow> ''Multihash error'')"

definition hash_one :: "('c, 'm) crates \<Rightarrow> bytes \<Rightarrow> ('c block, string) result" where
  "hash_one X data = map_err hash_err (block_new_sha256 X data)"

text \<open>\<open>lanes[idx % worker_count].push((idx, data))\<close>.\<close>

definition push_lane :: "nat \<Rightarrow> nat \<times> 'a \<Rightarrow> (nat \<times> 'a) list list \<Rightarrow> (nat \<times> 'a) list list" where
  "push_lane wc p lanes = lanes[fst p mod wc := lanes ! (fst p mod wc) @ [p]]"

definition spread_lanes :: "nat \<Rightarrow> 'a list \<Rightarrow> (nat \<times> 'a) list list" where
  "spread_lanes wc raw = fold (push_lane wc) (enumerate 0 raw) (replicate wc [])"

definition hash_lane :: "('c, 'm) crates \<Rightarrow> (nat \<times> bytes) list \<Rightarrow> ((nat \<times> 'c block) list, string) result" where
  "hash_lane X lane = try_map (\<lambda>(idx, data). rbind (hash_one X data) (\<lambda>b. Ok (idx, b))) lane"

definition place :: "nat \<times> 'a \<Rightarrow> 'a option list \<Rightarrow> ('a option list, string) result" where
  "place = (\<lambda>(idx, b) ordered. if idx < length ordered then Ok (ordered[idx := Some b]) else Panic)"

definition join_lanes ::
  "('c, 'm) crates \<Rightarrow> (nat \<times> bytes) list list \<Rightarrow> 'c block option list \<Rightarrow> ('c block option list, string) result" where
  "join_lanes X = try_fold (\<lambda>lane ordered. rbind (hash_lane X lane) (\<lambda>out. try_fold place out ordered))"

definition hash_raw_blocks_parallel :: "('c, 'm) crates \<Rightarrow> bytes list \<Rightarrow> nat \<Rightarrow> ('c block list, string) result" where
  "hash_raw_blocks_parallel X raw_blocks workers =
     (let total = length raw_blocks in
      if total = 0 then Ok []
      else let worker_count = min (max workers 1) total in
        if worker_count = 1 then try_map (hash_one X) raw_blocks
        else rbind (join_lanes X (spread_lanes worker_count raw_blocks) (replicate total None))
          (try_map (\<lambda>maybe. ok_or maybe ''Missing hashed block result'')))"

section \<open>Batches\<close>

record upload_cfg =
  uc_block_size :: nat
  uc_commit_batch :: nat
  uc_dedupe :: bool
  uc_workers :: nat
  uc_max_inflight :: nat

definition upload_cfg_of_env :: "(string \<rightharpoonup> string) \<Rightarrow> nat option \<Rightarrow> upload_cfg" where
  "upload_cfg_of_env env cpus =
     \<lparr>uc_block_size = upload_block_size env, uc_commit_batch = upload_commit_batch_blocks env (upload_block_size env),
      uc_dedupe = upload_dedupe_blocks env, uc_workers = upload_hash_workers env cpus,
      uc_max_inflight = upload_inflight_batches env\<rparr>"

text \<open>Two nested failures of \<open>spawn_blocking\<close>: a panic of the worker and its error.\<close>

definition hash_batch :: "('c, 'm) crates \<Rightarrow> nat \<Rightarrow> bytes list \<Rightarrow> ('c block list, api_error) result" where
  "hash_batch X workers batch =
     (case hash_raw_blocks_parallel X batch workers of
        Ok blocks \<Rightarrow> Ok blocks
      | _ \<Rightarrow> Err (Internal ''Failed to hash upload batch''))"

fun pick_unseen :: "'c block list \<Rightarrow> 'c list option \<Rightarrow> 'c list \<Rightarrow> 'c block list \<Rightarrow> 'c list option \<times> 'c list \<times> 'c block list" where
  "pick_unseen [] seen block_cids to_store = (seen, block_cids, to_store)"
| "pick_unseen (b # bs) seen block_cids to_store =
     (case seen of
        Some sn \<Rightarrow>
          if block_cid b \<in> set sn then pick_unseen bs seen (block_cids @ [block_cid b]) to_store
          else pick_unseen bs (Some (block_cid b # sn)) (block_cids @ [block_cid b]) (to_store @ [b])
      | None \<Rightarrow> pick_unseen bs seen (block_cids @ [block_cid b]) (to_store @ [b]))"

text \<open>The result, and the batch, the identifiers seen, the identifiers of the dataset and the store that it leaves.\<close>

definition flush_upload_raw_batch ::
  "('c, 'm) crates \<Rightarrow> 't store_cfg \<Rightarrow> nat \<Rightarrow> bytes list \<Rightarrow> 'c list option \<Rightarrow> 'c list \<Rightarrow> 't store_backend \<Rightarrow>
     (unit, api_error) result \<times> bytes list \<times> 'c list option \<times> 'c list \<times> 't store_backend" where
  "flush_upload_raw_batch X C workers raw_batch seen block_cids s =
     (if raw_batch = [] then (Ok (), raw_batch, seen, block_cids, s)
      else case hash_batch X workers raw_batch of
        Ok blocks \<Rightarrow>
          (case pick_unseen blocks seen block_cids [] of (seen', block_cids', to_store) \<Rightarrow>
             if to_store = [] then (Ok (), [], seen', block_cids', s)
             else (case store_put_many X C to_store s of
                     (r, s') \<Rightarrow> (map_err (\<lambda>_. Internal ''Failed to store block batch'') r, [], seen', block_cids', s')))
      | Err e \<Rightarrow> (Err e, [], seen, block_cids, s)
      | Panic \<Rightarrow> (Panic, [], seen, block_cids, s))"

definition process_upload_raw_batch_no_dedupe ::
  "('c, 'm) crates \<Rightarrow> 't store_cfg \<Rightarrow> nat \<Rightarrow> bytes list \<Rightarrow> 't store_backend \<Rightarrow> ('c list, api_error) result \<times> 't store_backend" where
  "process_upload_raw_batch_no_dedupe X C workers raw_batch s =
     (if raw_batch = [] then (Ok [], s)
      else case hash_batch X workers raw_batch of
        Ok blocks \<Rightarrow>
          (case store_put_many X C blocks s of
             (r, s') \<Rightarrow> (rbind (map_err (\<lambda>_. Internal ''Failed to store block batch'') r) (\<lambda>_. Ok (map block_cid blocks)), s'))
      | Err e \<Rightarrow> (Err e, s)
      | Panic \<Rightarrow> (Panic, s))"

section \<open>Tasks in flight\<close>

datatype 'c upload_task = Todo "bytes list" | Done "('c list, api_error) result"

record 'c flight =
  fl_start :: nat
  fl_len :: nat
  fl_task :: "'c upload_task"

type_synonym scheduler = "nat \<Rightarrow> nat list \<times> nat"

record ('c, 't) upload =
  up_current :: bytes
  up_size :: nat
  up_block_cids :: "'c list"
  up_slots :: "'c option list"
  up_raw_batch :: "bytes list"
  up_inflight :: "'c flight list"
  up_next_start :: nat
  up_seen :: "'c list option"
  up_store :: "'t store_backend"
  up_awaits :: nat

definition run_task :: "('c, 'm) crates \<Rightarrow> 't store_cfg \<Rightarrow> nat \<Rightarrow> nat \<Rightarrow> ('c, 't) upload \<Rightarrow> ('c, 't) upload" where
  "run_task X C workers i u =
     (if i < length (up_inflight u)
      then (case fl_task (up_inflight u ! i) of
              Todo batch \<Rightarrow>
                (case process_upload_raw_batch_no_dedupe X C workers batch (up_store u) of
                   (r, s') \<Rightarrow> u\<lparr>up_inflight := (up_inflight u)[i := (up_inflight u ! i)\<lparr>fl_task := Done r\<rparr>], up_store := s'\<rparr>)
            | Done _ \<Rightarrow> u)
      else u)"

text \<open>\<open>inflight.next().await\<close> with at least one task in flight: the tasks the runtime chose run, one that is done is removed.\<close>

definition next_completed ::
  "('c, 'm) crates \<Rightarrow> 't store_cfg \<Rightarrow> nat \<Rightarrow> scheduler \<Rightarrow> ('c, 't) upload \<Rightarrow> 'c flight \<times> ('c, 't) upload" where
  "next_completed X C workers sched u =
     (let i = snd (sched (up_awaits u)) mod length (up_inflight u);
          v = run_task X C workers i (fold (run_task X C workers) (fst (sched (up_awaits u))) u)
      in (up_inflight v ! i,
          v\<lparr>up_inflight := take i (up_inflight v) @ drop (Suc i) (up_inflight v), up_awaits := Suc (up_awaits v)\<rparr>))"

fun fill_slots :: "nat \<Rightarrow> nat \<Rightarrow> 'c list \<Rightarrow> 'c option list \<Rightarrow> (unit, api_error) result \<times> 'c option list" where
  "fill_slots start_idx offset [] slots = (Ok (), slots)"
| "fill_slots start_idx offset (c # cs) slots =
     (let pos = start_idx + offset in
      if 2 ^ 64 \<le> pos then (Panic, slots)
      else if length slots \<le> pos then (Err (Internal ''Upload CID slot out of bounds''), slots)
      else fill_slots start_idx (Suc offset) cs (slots[pos := Some c]))"

definition collect_flight :: "'c flight \<Rightarrow> ('c, 't) upload \<Rightarrow> (unit, api_error) result \<times> ('c, 't) upload" where
  "collect_flight f u =
     (case fl_task f of
        Done (Ok cids) \<Rightarrow>
          if length cids \<noteq> fl_len f then (Err (Internal ''Upload batch CID count mismatch''), u)
          else (case fill_slots (fl_start f) 0 cids (up_slots u) of (r, slots) \<Rightarrow> (r, u\<lparr>up_slots := slots\<rparr>))
      | Done (Err e) \<Rightarrow> (Err e, u)
      | _ \<Rightarrow> (Err (Internal ''Upload batch task failed''), u))"

lemma length_run_task [simp]: "length (up_inflight (run_task X C workers i u)) = length (up_inflight u)"
  by (auto simp: run_task_def split: upload_task.splits prod.splits)

lemma length_run_tasks [simp]: "length (up_inflight (fold (run_task X C workers) is u)) = length (up_inflight u)"
  by (induction "is" arbitrary: u) auto

lemma length_next_completed:
  "up_inflight u \<noteq> [] \<Longrightarrow> length (up_inflight (snd (next_completed X C workers sched u))) < length (up_inflight u)"
proof -
  assume "up_inflight u \<noteq> []"
  then have "snd (sched (up_awaits u)) mod length (up_inflight u) < length (up_inflight u)" by simp
  then show ?thesis by (simp add: next_completed_def Let_def)
qed

lemma collect_flight_inflight [simp]: "up_inflight (snd (collect_flight f u)) = up_inflight u"
  by (auto simp: collect_flight_def split: upload_task.splits result.splits prod.splits)

lemma await_step:
  assumes "limit < length (up_inflight u)" "(f, v) = next_completed X C workers sched u" "(r, w) = collect_flight f v"
  shows "length (up_inflight w) < length (up_inflight u)"
proof -
  have "up_inflight u \<noteq> []" using assms(1) by auto
  then show ?thesis
    using length_next_completed [of u X C workers sched] collect_flight_inflight [of f v]
    unfolding assms(2) [symmetric] assms(3) [symmetric] by simp
qed

text \<open>Await tasks while more than \<open>limit\<close> are in flight; at the end of the upload the limit is 0.\<close>

function drain_inflight ::
  "('c, 'm) crates \<Rightarrow> 't store_cfg \<Rightarrow> nat \<Rightarrow> scheduler \<Rightarrow> nat \<Rightarrow> ('c, 't) upload \<Rightarrow> (unit, api_error) result \<times> ('c, 't) upload" where
  "drain_inflight X C workers sched limit u =
     (if limit < length (up_inflight u)
      then (case next_completed X C workers sched u of (f, v) \<Rightarrow>
              (case collect_flight f v of
                 (Ok _, w) \<Rightarrow> drain_inflight X C workers sched limit w
               | (Err e, w) \<Rightarrow> (Err e, w)
               | (Panic, w) \<Rightarrow> (Panic, w)))
      else (Ok (), u))"
  by pat_completeness auto
termination
  by (relation "measure (\<lambda>(X, C, workers, sched, limit, u). length (up_inflight u))") (auto intro: await_step)

declare drain_inflight.simps [simp del]

definition spawn_batch :: "('c, 't) upload \<Rightarrow> ('c, 't) upload" where
  "spawn_batch u =
     u\<lparr>up_next_start := sat_add 64 (up_next_start u) (length (up_raw_batch u)), up_raw_batch := [],
       up_inflight := up_inflight u @ [\<lparr>fl_start = up_next_start u, fl_len = length (up_raw_batch u), fl_task = Todo (up_raw_batch u)\<rparr>]\<rparr>"

definition flush_batch :: "('c, 'm) crates \<Rightarrow> 't store_cfg \<Rightarrow> nat \<Rightarrow> ('c, 't) upload \<Rightarrow> (unit, api_error) result \<times> ('c, 't) upload" where
  "flush_batch X C workers u =
     (case flush_upload_raw_batch X C workers (up_raw_batch u) (up_seen u) (up_block_cids u) (up_store u) of
        (r, raw, seen, cids, s) \<Rightarrow> (r, u\<lparr>up_raw_batch := raw, up_seen := seen, up_block_cids := cids, up_store := s\<rparr>))"

section \<open>The stream\<close>

definition push_full :: "upload_cfg \<Rightarrow> ('c, 't) upload \<Rightarrow> ('c, 't) upload" where
  "push_full K u =
     u\<lparr>up_raw_batch := up_raw_batch u @ [up_current u], up_current := [],
       up_slots := (if uc_dedupe K then up_slots u else up_slots u @ [None])\<rparr>"

definition commit_batch ::
  "('c, 'm) crates \<Rightarrow> 't store_cfg \<Rightarrow> upload_cfg \<Rightarrow> scheduler \<Rightarrow> ('c, 't) upload \<Rightarrow> (unit, api_error) result \<times> ('c, 't) upload" where
  "commit_batch X C K sched u =
     (if uc_commit_batch K \<le> length (up_raw_batch u)
      then (if uc_dedupe K then flush_batch X C (uc_workers K) u
            else drain_inflight X C (uc_workers K) sched (uc_max_inflight K) (spawn_batch u))
      else (Ok (), u))"

text \<open>One round of \<open>while !rem.is_empty()\<close>: fill the block, push it when it is full, commit a full batch.\<close>

definition fill_round ::
  "('c, 'm) crates \<Rightarrow> 't store_cfg \<Rightarrow> upload_cfg \<Rightarrow> scheduler \<Rightarrow> bytes \<Rightarrow> ('c, 't) upload \<Rightarrow>
     (unit, api_error) result \<times> bytes \<times> ('c, 't) upload" where
  "fill_round X C K sched rem u =
     (let need = uc_block_size K - length (up_current u);
          n = min need (length rem);
          v = u\<lparr>up_current := up_current u @ take n rem\<rparr>;
          w = (if length (up_current v) = uc_block_size K then push_full K v else v)
      in case commit_batch X C K sched w of (r, z) \<Rightarrow> (r, drop n rem, z))"

partial_function (option) fill_loop ::
  "('c, 'm) crates \<Rightarrow> 't store_cfg \<Rightarrow> upload_cfg \<Rightarrow> scheduler \<Rightarrow> bytes \<Rightarrow> ('c, 't) upload \<Rightarrow>
     ((unit, api_error) result \<times> ('c, 't) upload) option" where
  "fill_loop X C K sched rem u =
     (if rem = [] then Some (Ok (), u)
      else case fill_round X C K sched rem u of
        (r, rem', v) \<Rightarrow> if r = Ok () then fill_loop X C K sched rem' v else Some (r, v))"

declare fill_loop.simps [code]

fun upload_stream ::
  "('c, 'm) crates \<Rightarrow> 't store_cfg \<Rightarrow> upload_cfg \<Rightarrow> scheduler \<Rightarrow> read_event list \<Rightarrow> ('c, 't) upload \<Rightarrow>
     ((unit, api_error) result \<times> ('c, 't) upload) option" where
  "upload_stream X C K sched [] u = Some (Ok (), u)"
| "upload_stream X C K sched (Fail # evs) u = Some (Err (Internal ''Failed to read body stream''), u)"
| "upload_stream X C K sched (Data chunk # evs) u =
     (if chunk = [] then upload_stream X C K sched evs u
      else case checked_add 64 (up_size u) (length chunk) of
        None \<Rightarrow> Some (Err (BadRequest ''Upload too large''), u)
      | Some n \<Rightarrow>
          Option.bind (fill_loop X C K sched chunk (u\<lparr>up_size := n\<rparr>)) (\<lambda>(r, v).
            if r = Ok () then upload_stream X C K sched evs v else Some (r, v)))"

definition start_upload :: "upload_cfg \<Rightarrow> 't store_backend \<Rightarrow> ('c, 't) upload" where
  "start_upload K s =
     \<lparr>up_current = [], up_size = 0, up_block_cids = [], up_slots = [], up_raw_batch = [], up_inflight = [], up_next_start = 0,
      up_seen = (if uc_dedupe K then Some [] else None), up_store = s, up_awaits = 0\<rparr>"

text \<open>The last partial block and the last batch, then the identifiers of all blocks in order.\<close>

definition finish_blocks ::
  "('c, 'm) crates \<Rightarrow> 't store_cfg \<Rightarrow> upload_cfg \<Rightarrow> scheduler \<Rightarrow> ('c, 't) upload \<Rightarrow> ('c list, api_error) result \<times> ('c, 't) upload" where
  "finish_blocks X C K sched u =
     (let v = (if up_current u \<noteq> [] then push_full K u else u) in
      if uc_dedupe K
      then (case flush_batch X C (uc_workers K) v of (r, w) \<Rightarrow> (rbind r (\<lambda>_. Ok (up_block_cids w)), w))
      else (case drain_inflight X C (uc_workers K) sched 0 (if up_raw_batch v \<noteq> [] then spawn_batch v else v) of
              (r, w) \<Rightarrow> (rbind r (\<lambda>_. try_map (\<lambda>maybe. ok_or maybe (Internal ''Upload pipeline missing CID slot'')) (up_slots w)), w)))"

section \<open>Tree, manifest and response\<close>

definition put_or :: "string \<Rightarrow> ('c, 'm) crates \<Rightarrow> 't store_cfg \<Rightarrow> 'c block \<Rightarrow> 't store_backend \<Rightarrow> (unit, api_error) result \<times> 't store_backend" where
  "put_or msg X C b s = (case store_put X C b s of (r, s') \<Rightarrow> (map_err (\<lambda>_. Internal msg) r, s'))"

definition dataset_manifest :: "('c, 'm) crates \<Rightarrow> nat \<Rightarrow> nat \<Rightarrow> 'c \<Rightarrow> 'c \<Rightarrow> 'c manifest" where
  "dataset_manifest X block_size dataset_size tree_cid tree_metadata_cid =
     manifest_new tree_cid block_size dataset_size None (Some SHA256_CODEC) None
       (Some (''metadata:'' @ cid_to_string X tree_metadata_cid)) None"

definition dataset_blocks ::
  "('c, 'm) crates \<Rightarrow> prost \<Rightarrow> nat \<Rightarrow> nat \<Rightarrow> 'c list \<Rightarrow> ('c block \<times> ('c block, api_error) result, api_error) result" where
  "dataset_blocks X P block_size dataset_size block_cids =
     rbind (case tree_new X block_cids of Some r \<Rightarrow> map_err (\<lambda>_. Internal ''Failed to create tree'') r | None \<Rightarrow> Panic) (\<lambda>tree.
     rbind (map_err (\<lambda>_. Internal ''Failed to compute tree CID'') (root_cid X tree)) (\<lambda>tree_cid.
     rbind (map_err (\<lambda>_. Internal ''Failed to create tree metadata block'') (block_new_sha256 X (serialize_block_list X tree))) (\<lambda>mb.
       Ok (mb, map_err (\<lambda>_. Internal ''Failed to encode manifest'')
         (to_block X P (dataset_manifest X block_size dataset_size tree_cid (block_cid mb)))))))"

definition publish_dataset ::
  "('c, 'm) crates \<Rightarrow> prost \<Rightarrow> 't store_cfg \<Rightarrow> nat \<Rightarrow> nat \<Rightarrow> 'c list \<Rightarrow> 't store_backend \<Rightarrow> ('c, api_error) result \<times> 't store_backend" where
  "publish_dataset X P C block_size dataset_size block_cids s =
     (case dataset_blocks X P block_size dataset_size block_cids of
        Err e \<Rightarrow> (Err e, s)
      | Panic \<Rightarrow> (Panic, s)
      | Ok (mb, manifest_result) \<Rightarrow>
        (case put_or ''Failed to store tree metadata'' X C mb s of
           (Ok _, s1) \<Rightarrow>
             (case manifest_result of
                Ok manifest_block \<Rightarrow>
                  (case put_or ''Failed to store manifest'' X C manifest_block s1 of
                     (r, s2) \<Rightarrow> (rbind r (\<lambda>_. Ok (block_cid manifest_block)), s2))
              | Err e \<Rightarrow> (Err e, s1)
              | Panic \<Rightarrow> (Panic, s1))
         | (Err e, s1) \<Rightarrow> (Err e, s1)
         | (Panic, s1) \<Rightarrow> (Panic, s1)))"

text \<open>\<open>base58\<close> is \<open>to_string_of_base(Base58Btc)\<close> of the crate \<open>cid\<close>.\<close>

definition api_cid_string :: "('c, 'm) crates \<Rightarrow> ('c \<Rightarrow> string option) \<Rightarrow> 'c \<Rightarrow> string" where
  "api_cid_string X base58 c = (case base58 c of Some s \<Rightarrow> s | None \<Rightarrow> cid_to_string X c)"

definition archivist_upload ::
  "('c, 'm) crates \<Rightarrow> prost \<Rightarrow> ('c \<Rightarrow> string option) \<Rightarrow> 't store_cfg \<Rightarrow> upload_cfg \<Rightarrow> scheduler \<Rightarrow> read_event list \<Rightarrow> 't store_backend \<Rightarrow>
     ((string, api_error) result \<times> ('c, 't) upload) option" where
  "archivist_upload X P base58 C K sched body s =
     Option.bind (upload_stream X C K sched body (start_upload K s)) (\<lambda>(r, u).
       case r of
         Err e \<Rightarrow> Some (Err e, u)
       | Panic \<Rightarrow> Some (Panic, u)
       | Ok _ \<Rightarrow>
         (case finish_blocks X C K sched u of
            (Err e, v) \<Rightarrow> Some (Err e, v)
          | (Panic, v) \<Rightarrow> Some (Panic, v)
          | (Ok block_cids, v) \<Rightarrow>
            if up_size v = 0 then Some (Err (BadRequest ''Empty data''), v)
            else (case publish_dataset X P C (uc_block_size K) (up_size v) block_cids (up_store v) of
                    (r, s') \<Rightarrow> Some (rbind r (\<lambda>c. Ok (api_cid_string X base58 c)), v\<lparr>up_store := s'\<rparr>))))"

section \<open>Single blocks\<close>

definition store_block ::
  "('c, 'm) crates \<Rightarrow> ('c \<Rightarrow> string option) \<Rightarrow> 't store_cfg \<Rightarrow> bytes \<Rightarrow> 't store_backend \<Rightarrow>
     (string \<times> nat, api_error) result \<times> 't store_backend" where
  "store_block X base58 C body s =
     (if body = [] then (Err (BadRequest ''Empty block data''), s)
      else case map_err (\<lambda>_. Internal ''Failed to create block'') (block_new X body) of
        Err e \<Rightarrow> (Err e, s)
      | Panic \<Rightarrow> (Panic, s)
      | Ok b \<Rightarrow>
        (case put_or ''Failed to store block'' X C b s of
           (r, s') \<Rightarrow> (rbind r (\<lambda>_. Ok (api_cid_string X base58 (block_cid b), block_size_of b)), s')))"

fun read_body :: "read_event list \<Rightarrow> bytes \<Rightarrow> (bytes, api_error) result" where
  "read_body [] data = Ok data"
| "read_body (Fail # evs) data = Err (Internal ''Failed to read body stream'')"
| "read_body (Data chunk # evs) data = read_body evs (data @ chunk)"

definition archivist_upload_raw_block ::
  "('c, 'm) crates \<Rightarrow> ('c \<Rightarrow> string option) \<Rightarrow> 't store_cfg \<Rightarrow> read_event list \<Rightarrow> 't store_backend \<Rightarrow>
     (string, api_error) result \<times> 't store_backend" where
  "archivist_upload_raw_block X base58 C body s =
     (case read_body body [] of
        Err e \<Rightarrow> (Err e, s)
      | Panic \<Rightarrow> (Panic, s)
      | Ok data \<Rightarrow>
        if data = [] then (Err (BadRequest ''Empty data''), s)
        else (case map_err (\<lambda>_. Internal ''Failed to create block'') (block_new_sha256 X data) of
                Err e \<Rightarrow> (Err e, s)
              | Panic \<Rightarrow> (Panic, s)
              | Ok b \<Rightarrow>
                (case put_or ''Failed to store block'' X C b s of
                   (r, s') \<Rightarrow> (rbind r (\<lambda>_. Ok (api_cid_string X base58 (block_cid b))), s'))))"

end
