(* ===== verification/Upload_Hash.thy ===== *)
theory Upload_Hash
  imports Api_Upload
begin

text \<open>
  Hashing a batch on several threads gives the blocks of hashing it in order, whatever the number
  of threads: the lanes partition the batch, and every block returns to its place.
\<close>

lemma hash_one_cases:
  obtains b where "hash_one X d = Ok b" | "hash_one X d = Err ''Multihash error''"
  by (cases "mh_wrap X SHA2_256_CODE (sha256_hash X d)")
    (auto simp: hash_one_def block_new_sha256_def sha256_cid_def hash_err_def Let_def)

lemma hash_one_not_Panic [simp]: "hash_one X d \<noteq> Panic"
  by (rule hash_one_cases [of X d]) auto

lemma try_map_hash:
  "try_map (hash_one X) ds = (if list_all (\<lambda>d. is_ok (hash_one X d)) ds
     then Ok (map (\<lambda>d. case hash_one X d of Ok b \<Rightarrow> b) ds) else Err ''Multihash error'')"
proof (induction ds)
  case (Cons d ds)
  then show ?case by (cases rule: hash_one_cases [of X d]) auto
qed simp

section \<open>The lanes partition the batch\<close>

lemma spread_lanes_snoc: "spread_lanes wc (raw @ [x]) = push_lane wc (length raw, x) (spread_lanes wc raw)"
  by (simp add: spread_lanes_def enumerate_append_eq)

lemma length_spread_lanes [simp]: "length (spread_lanes wc raw) = wc"
  by (induction raw rule: rev_induct) (simp_all add: spread_lanes_snoc push_lane_def, simp add: spread_lanes_def)

lemma spread_lanes_nth:
  "w < wc \<Longrightarrow> spread_lanes wc raw ! w = filter (\<lambda>p. fst p mod wc = w) (enumerate 0 raw)"
  by (induction raw rule: rev_induct)
    (auto simp: spread_lanes_snoc push_lane_def enumerate_append_eq nth_list_update, simp add: spread_lanes_def)

lemma set_spread_lanes:
  assumes "0 < wc"
  shows "set (concat (spread_lanes wc raw)) = set (enumerate 0 raw)"
proof -
  have "(\<exists>w < wc. p \<in> set (spread_lanes wc raw ! w)) \<longleftrightarrow> p \<in> set (enumerate 0 raw)" for p
    using assms by (auto simp: spread_lanes_nth intro!: exI [of _ "fst p mod wc"])
  moreover have "set (concat (spread_lanes wc raw)) = {p. \<exists>w < wc. p \<in> set (spread_lanes wc raw ! w)}"
    unfolding set_concat set_conv_nth [of "spread_lanes wc raw"] by auto
  ultimately show ?thesis by blast
qed

section \<open>Every block returns to its place\<close>

lemma hash_lane_cases:
  "hash_lane X lane = (if list_all (\<lambda>p. is_ok (hash_one X (snd p))) lane
     then Ok (map (\<lambda>p. (fst p, case hash_one X (snd p) of Ok b \<Rightarrow> b)) lane) else Err ''Multihash error'')"
proof (induction lane)
  case (Cons p lane)
  then show ?case by (cases rule: hash_one_cases [of X "snd p"]) (auto simp: hash_lane_def split: prod.splits)
qed (simp add: hash_lane_def)

lemma place_all:
  assumes "\<And>i b. (i, b) \<in> set out \<Longrightarrow> i < length ordered \<and> b = h i"
  shows "try_fold place out ordered = Ok (map (\<lambda>i. if i \<in> fst ` set out then Some (h i) else ordered ! i) [0..<length ordered])"
  using assms
proof (induction out arbitrary: ordered)
  case Nil
  then show ?case by (simp add: map_nth)
next
  case (Cons p out)
  obtain i b where p: "p = (i, b)" by (cases p)
  have i: "i < length ordered" "b = h i" using Cons(2) [of i b] p by auto
  have "try_fold place (p # out) ordered = try_fold place out (ordered[i := Some b])" using i p by (simp add: place_def)
  also have "\<dots> = Ok (map (\<lambda>j. if j \<in> fst ` set out then Some (h j) else ordered[i := Some b] ! j) [0..<length ordered])"
    using Cons(1) [of "ordered[i := Some b]"] Cons(2) by fastforce
  finally show ?case using i p by (auto simp: nth_list_update)
qed

lemma join_lanes_all:
  assumes "\<And>i d. (i, d) \<in> set (concat lanes) \<Longrightarrow> i < length ordered \<and> (\<forall>b. hash_one X d = Ok b \<longrightarrow> b = h i)"
  shows "join_lanes X lanes ordered = (if list_all (\<lambda>p. is_ok (hash_one X (snd p))) (concat lanes)
    then Ok (map (\<lambda>i. if i \<in> fst ` set (concat lanes) then Some (h i) else ordered ! i) [0..<length ordered])
    else Err ''Multihash error'')"
  using assms
proof (induction lanes arbitrary: ordered)
  case Nil
  then show ?case by (simp add: join_lanes_def map_nth)
next
  case (Cons lane lanes)
  show ?case
  proof (cases "list_all (\<lambda>p. is_ok (hash_one X (snd p))) lane")
    case True
    let ?out = "map (\<lambda>p. (fst p, case hash_one X (snd p) of Ok b \<Rightarrow> b)) lane"
    let ?o = "map (\<lambda>i. if i \<in> fst ` set lane then Some (h i) else ordered ! i) [0..<length ordered]"
    have ok: "\<exists>b. hash_one X (snd p) = Ok b" if "p \<in> set lane" for p using True that by (auto simp: list_all_iff is_ok_iff)
    have out: "i < length ordered \<and> b = h i" if "(i, b) \<in> set ?out" for i b
      using that ok Cons(2) by fastforce
    have "fst ` set ?out = fst ` set lane" by (auto simp: image_image)
    then have "try_fold place ?out ordered = Ok ?o" using place_all [of ?out ordered h, OF out] by simp
    then have "join_lanes X (lane # lanes) ordered = join_lanes X lanes ?o"
      using True by (simp add: join_lanes_def hash_lane_cases)
    moreover have "join_lanes X lanes ?o = (if list_all (\<lambda>p. is_ok (hash_one X (snd p))) (concat lanes)
      then Ok (map (\<lambda>i. if i \<in> fst ` set (concat lanes) then Some (h i) else ?o ! i) [0..<length ?o]) else Err ''Multihash error'')"
      by (rule Cons(1)) (use Cons(2) in auto)
    ultimately show ?thesis using True by (auto simp: image_Un)
  next
    case False
    then show ?thesis by (auto simp: join_lanes_def hash_lane_cases)
  qed
qed

lemma hash_parallel_eq: "hash_raw_blocks_parallel X raw workers = try_map (hash_one X) raw"
proof -
  define wc where "wc = min (max workers 1) (length raw)"
  consider "raw = []" | "raw \<noteq> []" "wc = 1" | "raw \<noteq> []" "wc \<noteq> 1" by blast
  then show ?thesis
  proof cases
    case 3
    then have wc: "0 < wc" by (auto simp: wc_def)
    let ?h = "\<lambda>i. case hash_one X (raw ! i) of Ok b \<Rightarrow> b"
    let ?o = "replicate (length raw) None"
    have mem: "p \<in> set (enumerate 0 raw) \<longleftrightarrow> fst p < length raw \<and> snd p = raw ! fst p" for p
      by (auto simp: in_set_enumerate_eq)
    have entry: "i < length ?o \<and> (\<forall>b. hash_one X d = Ok b \<longrightarrow> b = ?h i)" if "(i, d) \<in> set (concat (spread_lanes wc raw))" for i d
      using that unfolding set_spread_lanes [OF wc] by (auto simp: mem)
    have snds: "set raw = snd ` set (enumerate 0 raw)" by (metis list.set_map map_snd_enumerate)
    have all: "list_all (\<lambda>p. is_ok (hash_one X (snd p))) (concat (spread_lanes wc raw)) \<longleftrightarrow> list_all (\<lambda>d. is_ok (hash_one X d)) raw"
      unfolding list_all_iff set_spread_lanes [OF wc] by (simp only: snds ball_simps)
    have idx: "fst ` set (concat (spread_lanes wc raw)) = {..<length raw}"
      unfolding set_spread_lanes [OF wc] by (simp add: list.set_map [symmetric] lessThan_atLeast0 del: list.set_map)
    have j: "join_lanes X (spread_lanes wc raw) ?o = (if list_all (\<lambda>d. is_ok (hash_one X d)) raw
        then Ok (map (\<lambda>i. Some (?h i)) [0..<length raw]) else Err ''Multihash error'')"
      using join_lanes_all [of "spread_lanes wc raw" ?o X ?h, OF entry] unfolding all idx by simp
    have "try_map (\<lambda>maybe. ok_or maybe ''Missing hashed block result'') (map (\<lambda>i. Some (?h i)) is) = Ok (map ?h is)" for "is"
      by (induction "is") auto
    moreover have "map ?h [0..<length raw] = map (\<lambda>d. case hash_one X d of Ok b \<Rightarrow> b) raw"
      by (rule nth_equalityI) auto
    ultimately show ?thesis using 3 j
      unfolding hash_raw_blocks_parallel_def Let_def wc_def [symmetric] by (simp add: try_map_hash)
  qed (simp_all add: hash_raw_blocks_parallel_def wc_def Let_def)
qed

text \<open>
  C39. Hashing on several threads is hashing in order: for every number of workers and every
  batch, \<open>hash_raw_blocks_parallel\<close> returns the block of each piece in the order of the pieces, and
  fails exactly when hashing the pieces one after another fails.
\<close>

theorem hash_parallel_sequential:
  "hash_raw_blocks_parallel X raw workers = hash_raw_blocks_parallel X raw 1
   \<and> hash_raw_blocks_parallel X raw workers = try_map (hash_one X) raw"
  by (simp add: hash_parallel_eq)

end
