(* ===== verification/Upload_Batches.thy ===== *)
theory Upload_Batches
  imports Upload_Hash
begin

text \<open>
  The invariant of a running upload. \<open>PS\<close> are the full pieces cut from the body so far. With
  deduplication those before the current batch are stored and named in \<open>block_cids\<close>. Without it
  every piece before \<open>next_batch_start_idx\<close> has its identifier in its slot and is stored, or
  belongs to a task in flight; a task that failed dooms the upload. \<open>k\<close> is the room the store
  keeps for blocks that are still to come.
\<close>

section \<open>The block of a piece\<close>

definition data_cid :: "('c, 'm) crates \<Rightarrow> bytes \<Rightarrow> 'c" where
  "data_cid X d = cid_new_v1 X ARCHIVIST_BLOCK_CODEC (the (mh_wrap X SHA2_256_CODE (sha256 X d)))"

definition data_block :: "('c, 'm) crates \<Rightarrow> bytes \<Rightarrow> 'c block" where
  "data_block X d = \<lparr>block_cid = data_cid X d, block_data = d\<rparr>"

definition hash_laws :: "('c, 'm) crates \<Rightarrow> bool" where
  "hash_laws X \<longleftrightarrow> digest_law X \<and> mh_wrap_law X \<and> cid_new_law X"

definition stored :: "('c, 'm) crates \<Rightarrow> 't store_cfg \<Rightarrow> 't store_backend \<Rightarrow> bytes \<Rightarrow> bool" where
  "stored X C s d \<longleftrightarrow> store_look X C s (data_cid X d) = Some d"

lemma data_block_simps [simp]: "block_cid (data_block X d) = data_cid X d" "block_data (data_block X d) = d"
  by (simp_all add: data_block_def)

lemma data_block_new: "hash_laws X \<Longrightarrow> block_new_sha256 X d = Ok (data_block X d)"
  by (rule sha256_cid_Ok [of X d]) (auto simp: hash_laws_def block_new_sha256_def data_block_def data_cid_def)

lemma data_cid_parts:
  assumes "hash_laws X"
  shows "addressed X (data_cid X d) d" "mh_code X (cid_hash X (data_cid X d)) = SHA2_256_CODE"
    "mh_digest X (cid_hash X (data_cid X d)) = sha256 X d" "cid_codec X (data_cid X d) = ARCHIVIST_BLOCK_CODEC"
proof -
  have l: "cid_new_law X" "mh_wrap_law X" using assms by (simp_all add: hash_laws_def)
  note n = data_block_new [OF assms, of d]
  show "addressed X (data_cid X d) d" "mh_code X (cid_hash X (data_cid X d)) = SHA2_256_CODE"
    using sha256_addressed [OF l n] by simp_all
  have "sha256_cid X d = Ok (data_cid X d)" using n by (auto simp: block_new_sha256_def data_block_def result_simps)
  then show "mh_digest X (cid_hash X (data_cid X d)) = sha256 X d" "cid_codec X (data_cid X d) = ARCHIVIST_BLOCK_CODEC"
    using sha256_cid_parts [OF l] by simp_all
qed

lemma data_cid_inject:
  assumes "hash_laws X" "inj_on (sha256 X) A" "d \<in> A" "d' \<in> A" "data_cid X d = data_cid X d'"
  shows "d = d'"
  using data_cid_parts(3) [OF assms(1), of d] data_cid_parts(3) [OF assms(1), of d'] assms(2-5) by (auto dest: inj_onD)

lemma hash_batch_Ok: "hash_laws X \<Longrightarrow> hash_batch X workers ds = Ok (map (data_block X) ds)"
  using try_map_all_Ok [of ds "hash_one X" "data_block X"]
  by (simp add: hash_batch_def hash_parallel_eq hash_one_def data_block_new)

section \<open>Storing pieces\<close>

lemma put_pieces:
  assumes "hash_laws X" "inj_on (sha256 X) A" "room X C A (length ds + k) s" "set ds \<subseteq> A"
    and "store_put_many X C (map (data_block X) ds) s = (Ok (), s')"
  shows "room X C A k s'" "\<And>d. d \<in> set ds \<Longrightarrow> stored X C s' d" "\<And>d. stored X C s d \<Longrightarrow> stored X C s' d"
proof -
  let ?bs = "map (data_block X) ds"
  have rm: "room X C A (length ?bs + k) s" using assms(3) by simp
  have sb: "batch_ok_in X A ?bs" using assms(4) data_cid_parts [OF assms(1)] by (auto simp: batch_ok_in_def sha_block_def)
  note put = put_batch [OF assms(2) rm sb assms(5)]
  show "room X C A k s'" by (rule put(1))
  show "stored X C s' d" if "d \<in> set ds" for d using put(2) [of "data_block X d"] that by (simp add: stored_def)
  show "stored X C s' d" if "stored X C s d" for d using that put(3) by (simp add: stored_def)
qed

lemma pick_unseen_spec:
  assumes "pick_unseen (map (data_block X) ds) (Some sn) cids ts = (seen', cids', ts')"
  obtains sn' ds' where "seen' = Some sn'" "set sn' = set sn \<union> data_cid X ` set ds" "cids' = cids @ map (data_cid X) ds"
    "ts' = ts @ map (data_block X) ds'" "set ds' \<subseteq> set ds" "length ds' \<le> length ds"
    "data_cid X ` set ds \<subseteq> set sn \<union> data_cid X ` set ds'"
  using assms
proof (induction ds arbitrary: sn cids ts thesis)
  case Nil
  then show ?case by (auto intro: Nil(1) [of sn "[]"])
next
  case (Cons d ds)
  show ?case
  proof (cases "data_cid X d \<in> set sn")
    case True
    then have "pick_unseen (map (data_block X) ds) (Some sn) (cids @ [data_cid X d]) ts = (seen', cids', ts')"
      using Cons(3) by simp
    then obtain sn' ds' where r: "seen' = Some sn'" "set sn' = set sn \<union> data_cid X ` set ds"
      "cids' = (cids @ [data_cid X d]) @ map (data_cid X) ds" "ts' = ts @ map (data_block X) ds'"
      "set ds' \<subseteq> set ds" "length ds' \<le> length ds" "data_cid X ` set ds \<subseteq> set sn \<union> data_cid X ` set ds'"
      by (rule Cons(1) [rotated])
    show ?thesis by (rule Cons(2) [of sn' ds']) (use r True in auto)
  next
    case False
    then have "pick_unseen (map (data_block X) ds) (Some (data_cid X d # sn)) (cids @ [data_cid X d]) (ts @ [data_block X d])
      = (seen', cids', ts')" using Cons(3) by simp
    then obtain sn' ds' where r: "seen' = Some sn'" "set sn' = set (data_cid X d # sn) \<union> data_cid X ` set ds"
      "cids' = (cids @ [data_cid X d]) @ map (data_cid X) ds" "ts' = (ts @ [data_block X d]) @ map (data_block X) ds'"
      "set ds' \<subseteq> set ds" "length ds' \<le> length ds" "data_cid X ` set ds \<subseteq> set (data_cid X d # sn) \<union> data_cid X ` set ds'"
      by (rule Cons(1) [rotated])
    show ?thesis by (rule Cons(2) [of sn' "d # ds'"]) (use r in auto)
  qed
qed

section \<open>The invariant\<close>

definition unstored :: "('c, 't) upload \<Rightarrow> nat" where
  "unstored u = length (up_raw_batch u)
     + sum_list (map (\<lambda>f. case fl_task f of Todo b \<Rightarrow> length b | Done _ \<Rightarrow> 0) (up_inflight u))"

definition dedupe_inv ::
  "('c, 'm) crates \<Rightarrow> 't store_cfg \<Rightarrow> bytes set \<Rightarrow> nat \<Rightarrow> bytes list \<Rightarrow> ('c, 't) upload \<Rightarrow> bool" where
  "dedupe_inv X C A k PS u \<longleftrightarrow> (\<exists>PS1 sn. PS = PS1 @ up_raw_batch u \<and> up_seen u = Some sn \<and> set sn = data_cid X ` set PS1
     \<and> up_block_cids u = map (data_cid X) PS1 \<and> (\<forall>d \<in> set PS1. stored X C (up_store u) d))
     \<and> room X C A (length (up_raw_batch u) + k) (up_store u)"

definition flight_inv :: "('c, 'm) crates \<Rightarrow> 't store_cfg \<Rightarrow> 't store_backend \<Rightarrow> bytes list \<Rightarrow> 'c flight \<Rightarrow> bool" where
  "flight_inv X C s PS f \<longleftrightarrow> fl_start f + fl_len f \<le> length PS \<and>
     (let ps = subvec (fl_start f) (fl_start f + fl_len f) PS in
      case fl_task f of
        Todo b \<Rightarrow> b = ps
      | Done r \<Rightarrow> r = Ok (map (data_cid X) ps) \<and> (\<forall>d \<in> set ps. stored X C s d))"

definition doomed :: "('c, 't) upload \<Rightarrow> bool" where
  "doomed u \<longleftrightarrow> (\<exists>f \<in> set (up_inflight u). \<exists>r. fl_task f = Done r \<and> \<not> is_ok r)"

definition in_flight :: "'c flight list \<Rightarrow> nat \<Rightarrow> bool" where
  "in_flight fs i \<longleftrightarrow> (\<exists>f \<in> set fs. fl_start f \<le> i \<and> i < fl_start f + fl_len f)"

definition settled :: "('c, 'm) crates \<Rightarrow> 't store_cfg \<Rightarrow> bytes list \<Rightarrow> ('c, 't) upload \<Rightarrow> nat \<Rightarrow> bool" where
  "settled X C PS u i \<longleftrightarrow> up_slots u ! i = Some (data_cid X (PS ! i)) \<and> stored X C (up_store u) (PS ! i)"

definition good_inv ::
  "('c, 'm) crates \<Rightarrow> 't store_cfg \<Rightarrow> bytes set \<Rightarrow> nat \<Rightarrow> bytes list \<Rightarrow> ('c, 't) upload \<Rightarrow> bool" where
  "good_inv X C A k PS u \<longleftrightarrow> length (up_slots u) = length PS \<and> up_next_start u \<le> length PS
     \<and> up_raw_batch u = drop (up_next_start u) PS \<and> (\<forall>f \<in> set (up_inflight u). flight_inv X C (up_store u) PS f)
     \<and> (\<forall>i < up_next_start u. settled X C PS u i \<or> in_flight (up_inflight u) i)
     \<and> room X C A (unstored u + k) (up_store u)"

definition parallel_inv ::
  "('c, 'm) crates \<Rightarrow> 't store_cfg \<Rightarrow> bytes set \<Rightarrow> nat \<Rightarrow> bytes list \<Rightarrow> ('c, 't) upload \<Rightarrow> bool" where
  "parallel_inv X C A k PS u \<longleftrightarrow> doomed u \<or> good_inv X C A k PS u"

lemma stored_flight:
  "flight_inv X C s PS f \<Longrightarrow> (\<And>d. stored X C s d \<Longrightarrow> stored X C s' d) \<Longrightarrow> flight_inv X C s' PS f"
  by (auto simp: flight_inv_def Let_def split: upload_task.splits)

section \<open>With deduplication\<close>

lemma flush_batch_inv:
  assumes "hash_laws X" "inj_on (sha256 X) A" "set PS \<subseteq> A" "dedupe_inv X C A k PS u"
    and "flush_batch X C workers u = (Ok (), v)"
  shows "dedupe_inv X C A k PS v \<and> up_raw_batch v = []"
proof -
  let ?raw = "up_raw_batch u"
  obtain PS1 sn where d: "PS = PS1 @ ?raw" "up_seen u = Some sn" "set sn = data_cid X ` set PS1" "up_block_cids u = map (data_cid X) PS1"
    "\<And>d. d \<in> set PS1 \<Longrightarrow> stored X C (up_store u) d" "room X C A (length ?raw + k) (up_store u)"
    using assms(4) by (auto simp: dedupe_inv_def)
  show ?thesis
  proof (cases "?raw = []")
    case True
    then have "v = u\<lparr>up_raw_batch := []\<rparr>" using assms(5) by (simp add: flush_batch_def flush_upload_raw_batch_def)
    then show ?thesis using assms(4) True by (simp add: dedupe_inv_def)
  next
    case False
    obtain seen' cids' ts where p: "pick_unseen (map (data_block X) ?raw) (Some sn) (map (data_cid X) PS1) [] = (seen', cids', ts)"
      by (metis prod_cases3)
    obtain sn' ds' where q: "seen' = Some sn'" "set sn' = set sn \<union> data_cid X ` set ?raw" "cids' = map (data_cid X) PS1 @ map (data_cid X) ?raw"
      "ts = [] @ map (data_block X) ds'" "set ds' \<subseteq> set ?raw" "length ds' \<le> length ?raw"
      "data_cid X ` set ?raw \<subseteq> set sn \<union> data_cid X ` set ds'"
      by (rule pick_unseen_spec [OF p])
    define s' where "s' = up_store v"
    have s': "store_put_many X C (map (data_block X) ds') (up_store u) = (Ok (), s') \<or> (ds' = [] \<and> s' = up_store u)"
      and v: "v = u\<lparr>up_raw_batch := [], up_seen := seen', up_block_cids := cids', up_store := s'\<rparr>"
      using assms(5) p q(4) False d(2,4)
      by (cases u; auto simp: s'_def flush_batch_def flush_upload_raw_batch_def hash_batch_Ok [OF assms(1)] split: if_splits prod.splits)+
    have ft: "set ds' \<subseteq> A" using assms(3) q(5) d(1) by auto
    have rm: "room X C A (length ds' + k) (up_store u)" by (rule room_le [OF d(6)]) (use q(6) in simp)
    have st: "room X C A k s'" "\<And>d. d \<in> set ds' \<Longrightarrow> stored X C s' d" "\<And>d. stored X C (up_store u) d \<Longrightarrow> stored X C s' d"
      using s' put_pieces [OF assms(1,2) rm ft] rm by auto
    have "stored X C s' d" if "d \<in> set ?raw" for d
    proof -
      have "data_cid X d \<in> data_cid X ` set PS1 \<union> data_cid X ` set ds'" using q(7) that d(3) by auto
      then obtain e where "e \<in> set PS1 \<union> set ds'" "data_cid X d = data_cid X e" by auto
      moreover from this have "e \<in> A" "d \<in> A" using assms(3) d(1) q(5) that by auto
      ultimately show ?thesis using data_cid_inject [OF assms(1,2), of d e] d(5) st(2,3) by auto
    qed
    then have "\<forall>d \<in> set PS. stored X C s' d" using d(1,5) st(3) by auto
    then show ?thesis using v q(1,2,3) d st(1)
      by (auto simp: dedupe_inv_def intro!: exI [of _ PS] exI [of _ sn'])
  qed
qed

end
