(* ===== verification/Upload_Parallel.thy ===== *)
theory Upload_Parallel
  imports Upload_Batches
begin

text \<open>
  The upload without deduplication: whatever the runtime does with the tasks in flight, a task that
  ran keeps the invariant or dooms the upload, and a collected task settles the slots it covers.
\<close>

section \<open>Running a task\<close>

lemma doomed_update:
  assumes "doomed u" "i < length (up_inflight u)" "fl_task (up_inflight u ! i) = Todo b"
  shows "doomed (u\<lparr>up_inflight := (up_inflight u)[i := f], up_store := s\<rparr>)"
proof -
  obtain j r where j: "j < length (up_inflight u)" "fl_task (up_inflight u ! j) = Done r" "\<not> is_ok r"
    using assms(1) by (auto simp: doomed_def in_set_conv_nth)
  then have "j \<noteq> i" using assms(3) by auto
  then have "(up_inflight u)[i := f] ! j = up_inflight u ! j" by simp
  then show ?thesis using j unfolding doomed_def by (auto simp: in_set_conv_nth intro!: bexI [of _ "up_inflight u ! j"] exI [of _ j])
qed

lemma sum_list_update_task:
  assumes "i < length fs"
  shows "sum_list (map g (fs[i := f])) + g (fs ! i) = sum_list (map g fs) + (g f :: nat)"
proof -
  have "sum_list (map g fs) = sum_list (map g (take i fs @ fs ! i # drop (Suc i) fs))" using id_take_nth_drop [OF assms] by simp
  then show ?thesis using assms by (simp add: upd_conv_take_nth_drop)
qed

lemma in_flight_update:
  assumes "i < length fs" "fl_start f = fl_start (fs ! i)" "fl_len f = fl_len (fs ! i)"
  shows "in_flight (fs[i := f]) j \<longleftrightarrow> in_flight fs j"
proof -
  have "fl_start (fs[i := f] ! n) = fl_start (fs ! n) \<and> fl_len (fs[i := f] ! n) = fl_len (fs ! n)" for n
    using assms by (cases "n = i") auto
  then show ?thesis by (auto simp: in_flight_def in_set_conv_nth Bex_def)
qed

lemma process_Ok:
  assumes "hash_laws X" "inj_on (sha256 X) A" "room X C A (length b + k) s" "set b \<subseteq> A"
    and "process_upload_raw_batch_no_dedupe X C workers b s = (r, s')" "is_ok r"
  shows "r = Ok (map (data_cid X) b) \<and> room X C A k s' \<and> (\<forall>d \<in> set b. stored X C s' d) \<and> (\<forall>d. stored X C s d \<longrightarrow> stored X C s' d)"
proof (cases "b = []")
  case True
  then show ?thesis using assms(3,5) by (simp add: process_upload_raw_batch_no_dedupe_def)
next
  case False
  obtain r' where p: "store_put_many X C (map (data_block X) b) s = (r', s')"
    and r: "r = rbind (map_err (\<lambda>_. Internal ''Failed to store block batch'') r') (\<lambda>_. Ok (map block_cid (map (data_block X) b)))"
    using assms(5) False by (auto simp: process_upload_raw_batch_no_dedupe_def hash_batch_Ok [OF assms(1)] split: prod.splits)
  have "r' = Ok ()" using r assms(6) by (cases r') auto
  then show ?thesis using put_pieces [OF assms(1-4), of s'] p r by (auto simp: comp_def)
qed

lemma run_task_inv:
  assumes "hash_laws X" "inj_on (sha256 X) A" "set PS \<subseteq> A" "parallel_inv X C A k PS u"
  shows "parallel_inv X C A k PS (run_task X C workers i u)"
proof (cases "i < length (up_inflight u) \<and> (\<exists>b. fl_task (up_inflight u ! i) = Todo b)")
  case False
  then have "run_task X C workers i u = u" by (auto simp: run_task_def split: upload_task.splits)
  then show ?thesis using assms(4) by simp
next
  case True
  then obtain b where i: "i < length (up_inflight u)" and b: "fl_task (up_inflight u ! i) = Todo b" by blast
  let ?f = "up_inflight u ! i"
  obtain r s' where p: "process_upload_raw_batch_no_dedupe X C workers b (up_store u) = (r, s')" by fastforce
  let ?v = "u\<lparr>up_inflight := (up_inflight u)[i := ?f\<lparr>fl_task := Done r\<rparr>], up_store := s'\<rparr>"
  have run: "run_task X C workers i u = ?v" using i b p by (simp add: run_task_def)
  show ?thesis
  proof (cases "doomed u \<or> \<not> is_ok r")
    case True
    have "doomed ?v" if "\<not> is_ok r" using that i unfolding doomed_def
      by (auto intro!: bexI [of _ "?f\<lparr>fl_task := Done r\<rparr>"] simp: set_update_memI)
    then show ?thesis using True doomed_update [OF _ i b] unfolding run parallel_inv_def by blast
  next
    case False
    then have g: "good_inv X C A k PS u" and ok: "is_ok r" using assms(4) by (auto simp: parallel_inv_def)
    have fi: "flight_inv X C (up_store u) PS ?f" using g i by (simp add: good_inv_def)
    then have sub: "b = subvec (fl_start ?f) (fl_start ?f + fl_len ?f) PS" using b by (simp add: flight_inv_def Let_def)
    have ft: "set b \<subseteq> A" using assms(3) unfolding sub by (auto simp: subvec_def dest!: in_set_takeD in_set_dropD)
    let ?g = "\<lambda>f. case fl_task f of Todo b \<Rightarrow> length b | Done _ \<Rightarrow> 0"
    have un: "unstored u = length b + unstored ?v"
      using sum_list_update_task [OF i, of ?g "?f\<lparr>fl_task := Done r\<rparr>"] b by (simp add: unstored_def)
    have rm: "room X C A (length b + (unstored ?v + k)) (up_store u)" using g un by (simp add: good_inv_def add.assoc)
    note po = process_Ok [OF assms(1,2) rm ft p ok]
    have "flight_inv X C s' PS f" if "f \<in> set (up_inflight ?v)" for f
    proof -
      have "f = ?f\<lparr>fl_task := Done r\<rparr> \<or> f \<in> set (up_inflight u)" using that set_update_subset_insert [of "up_inflight u" i] by auto
      then show ?thesis
      proof
        assume "f = ?f\<lparr>fl_task := Done r\<rparr>"
        then show ?thesis using fi po sub by (simp add: flight_inv_def)
      next
        assume "f \<in> set (up_inflight u)"
        then show ?thesis using g po stored_flight [of X C "up_store u" PS f s'] by (auto simp: good_inv_def)
      qed
    qed
    moreover have "settled X C PS ?v j \<or> in_flight (up_inflight ?v) j" if "j < up_next_start u" for j
      using g that po in_flight_update [OF i, of "?f\<lparr>fl_task := Done r\<rparr>" j] by (auto simp: good_inv_def settled_def)
    moreover have "room X C A (unstored ?v + k) s'" using po by blast
    ultimately have "good_inv X C A k PS ?v" using g unfolding good_inv_def by simp
    then show ?thesis unfolding run parallel_inv_def by blast
  qed
qed

lemma run_tasks_inv:
  assumes "hash_laws X" "inj_on (sha256 X) A" "set PS \<subseteq> A"
  shows "parallel_inv X C A k PS u \<Longrightarrow> parallel_inv X C A k PS (fold (run_task X C workers) is u)"
  by (induction "is" arbitrary: u) (auto intro: run_task_inv [OF assms])

lemma run_task_done:
  "i < length (up_inflight u) \<Longrightarrow> \<exists>r. fl_task (up_inflight (run_task X C workers i u) ! i) = Done r"
  by (auto simp: run_task_def split: upload_task.splits prod.splits)

section \<open>Collecting a task\<close>

lemma fill_slots_spec:
  assumes "start + off + length cs \<le> length slots" "length slots < 2 ^ 64"
  shows "\<exists>slots'. fill_slots start off cs slots = (Ok (), slots') \<and> length slots' = length slots
    \<and> (\<forall>i < length slots. slots' ! i = (if start + off \<le> i \<and> i < start + off + length cs then Some (cs ! (i - (start + off))) else slots ! i))"
  using assms
proof (induction cs arbitrary: off slots)
  case (Cons c cs)
  let ?s = "slots[start + off := Some c]"
  obtain slots' where s': "fill_slots start (Suc off) cs ?s = (Ok (), slots')" "length slots' = length ?s"
    "\<And>i. i < length ?s \<Longrightarrow> slots' ! i = (if start + Suc off \<le> i \<and> i < start + Suc off + length cs then Some (cs ! (i - (start + Suc off))) else ?s ! i)"
    using Cons(1) [of "Suc off" ?s] Cons(2,3) by auto
  have "fill_slots start off (c # cs) slots = (Ok (), slots')" using s'(1) Cons(2,3) by (simp add: Let_def)
  moreover have "slots' ! i = (if start + off \<le> i \<and> i < start + off + length (c # cs) then Some ((c # cs) ! (i - (start + off))) else slots ! i)"
    if "i < length slots" for i
    using s'(3) [of i] that by (auto simp: nth_list_update nth_Cons' Suc_le_eq)
  ultimately show ?case using s'(2) by auto
qed auto

lemma set_take_drop_Suc: "i < length xs \<Longrightarrow> set xs = insert (xs ! i) (set (take i xs @ drop (Suc i) xs))"
  by (metis Un_insert_right id_take_nth_drop list.set(2) set_append)

lemma collect_inv:
  assumes "parallel_inv X C A k PS v" "i < length (up_inflight v)" "fl_task (up_inflight v ! i) = Done r0" "length PS < 2 ^ 64"
    and "w = v\<lparr>up_inflight := take i (up_inflight v) @ drop (Suc i) (up_inflight v), up_awaits := n\<rparr>"
    and "collect_flight (up_inflight v ! i) w = (Ok (), z)"
  shows "parallel_inv X C A k PS z"
proof -
  let ?f = "up_inflight v ! i"
  note split = set_take_drop_Suc [OF assms(2)]
  obtain cids where r0: "r0 = Ok cids" and len: "length cids = fl_len ?f"
    using assms(3,6) by (cases r0) (auto simp: collect_flight_def split: if_splits)
  obtain slots' where fs: "fill_slots (fl_start ?f) 0 cids (up_slots v) = (Ok (), slots')" and z: "z = w\<lparr>up_slots := slots'\<rparr>"
    using assms(3,5,6) r0 by (auto simp: collect_flight_def split: if_splits prod.splits)
  have inf: "set (up_inflight v) = insert ?f (set (up_inflight z))" using split unfolding z assms(5) by simp
  show ?thesis
  proof (cases "doomed v")
    case True
    then have "doomed z" using inf assms(3) r0 unfolding doomed_def by auto
    then show ?thesis by (simp add: parallel_inv_def)
  next
    case False
    then have g: "good_inv X C A k PS v" using assms(1) by (simp add: parallel_inv_def)
    have fi: "flight_inv X C (up_store v) PS ?f" using g assms(2) by (simp add: good_inv_def)
    let ?ps = "subvec (fl_start ?f) (fl_start ?f + fl_len ?f) PS"
    have c: "cids = map (data_cid X) ?ps" and st: "\<forall>d \<in> set ?ps. stored X C (up_store v) d" and bd: "fl_start ?f + fl_len ?f \<le> length PS"
      using fi assms(3) r0 by (auto simp: flight_inv_def Let_def)
    have sl: "length (up_slots v) = length PS" using g by (simp add: good_inv_def)
    obtain slots2 where s2: "fill_slots (fl_start ?f) 0 cids (up_slots v) = (Ok (), slots2)" "length slots2 = length (up_slots v)"
      "\<And>i. i < length (up_slots v) \<Longrightarrow> slots2 ! i = (if fl_start ?f \<le> i \<and> i < fl_start ?f + fl_len ?f
          then Some (cids ! (i - fl_start ?f)) else up_slots v ! i)"
      using fill_slots_spec [of "fl_start ?f" 0 cids "up_slots v"] bd len sl assms(4) by auto
    have eq: "slots2 = slots'" using s2(1) fs by simp
    have cov: "settled X C PS z j \<or> in_flight (up_inflight z) j" if j: "j < up_next_start v" for j
    proof (cases "fl_start ?f \<le> j \<and> j < fl_start ?f + fl_len ?f")
      case True
      then have "PS ! j = ?ps ! (j - fl_start ?f)" "j - fl_start ?f < length ?ps" using bd by (auto simp: nth_subvec length_subvec)
      then have "settled X C PS z j"
        using True s2(3) [of j] bd sl c st eq by (auto simp: settled_def z assms(5))
      then show ?thesis ..
    next
      case out: False
      have "settled X C PS v j \<or> in_flight (up_inflight v) j" using g j by (simp add: good_inv_def)
      moreover have "j < length (up_slots v)" using j g by (auto simp: good_inv_def)
      ultimately show ?thesis
        using out s2(3) [of j] eq inf by (auto simp: settled_def in_flight_def z assms(5))
    qed
    have un: "unstored z = unstored v"
    proof -
      let ?g = "\<lambda>f. case fl_task f of Todo b \<Rightarrow> length b | Done _ \<Rightarrow> (0 :: nat)"
      have "sum_list (map ?g (up_inflight v)) = sum_list (map ?g (take i (up_inflight v) @ ?f # drop (Suc i) (up_inflight v)))"
        using id_take_nth_drop [OF assms(2)] by simp
      then show ?thesis using assms(3) by (simp add: unstored_def z assms(5))
    qed
    have sh: "up_slots z = slots2" "up_next_start z = up_next_start v" "up_raw_batch z = up_raw_batch v" "up_store z = up_store v"
      by (simp_all add: z assms(5) eq)
    have "good_inv X C A k PS z"
      using g cov un inf sl s2(2) by (simp add: good_inv_def sh)
    then show ?thesis by (simp add: parallel_inv_def)
  qed
qed

lemma drain_inv:
  assumes "hash_laws X" "inj_on (sha256 X) A" "set PS \<subseteq> A" "length PS < 2 ^ 64"
  shows "parallel_inv X C A k PS u \<Longrightarrow> drain_inflight X C workers sched limit u = (Ok (), z) \<Longrightarrow>
    parallel_inv X C A k PS z \<and> length (up_inflight z) \<le> limit"
proof (induction "length (up_inflight u)" arbitrary: u rule: less_induct)
  case less
  show ?case
  proof (cases "limit < length (up_inflight u)")
    case False
    then show ?thesis using less(2,3) by (simp add: drain_inflight.simps [of _ _ _ _ _ u])
  next
    case True
    let ?i = "snd (sched (up_awaits u)) mod length (up_inflight u)"
    let ?v = "run_task X C workers ?i (fold (run_task X C workers) (fst (sched (up_awaits u))) u)"
    let ?w = "?v\<lparr>up_inflight := take ?i (up_inflight ?v) @ drop (Suc ?i) (up_inflight ?v), up_awaits := Suc (up_awaits ?v)\<rparr>"
    have nc: "next_completed X C workers sched u = (up_inflight ?v ! ?i, ?w)" by (simp add: next_completed_def Let_def)
    have pos: "0 < length (up_inflight u)" using True by linarith
    then have i: "?i < length (up_inflight ?v)" by simp
    obtain z1 where c: "collect_flight (up_inflight ?v ! ?i) ?w = (Ok (), z1)" and dr: "drain_inflight X C workers sched limit z1 = (Ok (), z)"
      using less(3) True nc by (auto simp: drain_inflight.simps [of _ _ _ _ _ u] split: prod.splits result.splits)
    have inv: "parallel_inv X C A k PS ?v" by (intro run_task_inv run_tasks_inv assms(1-3) less(2))
    obtain r0 where r0: "fl_task (up_inflight ?v ! ?i) = Done r0"
      using run_task_done [of ?i "fold (run_task X C workers) (fst (sched (up_awaits u))) u" X C workers] i by auto
    have "parallel_inv X C A k PS z1" by (rule collect_inv [OF inv i r0 assms(4) refl c])
    moreover have "length (up_inflight z1) < length (up_inflight u)" by (rule await_step [OF True nc [symmetric] c [symmetric]])
    ultimately show ?thesis using less(1) dr by blast
  qed
qed

section \<open>Spawning a task\<close>

lemma spawn_inv:
  assumes "parallel_inv X C A k PS u" "length PS < 2 ^ 64"
  shows "parallel_inv X C A k PS (spawn_batch u) \<and> (\<not> doomed u \<longrightarrow> up_raw_batch (spawn_batch u) = [] \<and> up_next_start (spawn_batch u) = length PS)"
proof (cases "doomed u")
  case True
  then show ?thesis by (auto simp: parallel_inv_def doomed_def spawn_batch_def)
next
  case False
  then have g: "good_inv X C A k PS u" using assms(1) by (simp add: parallel_inv_def)
  let ?n = "up_next_start u"
  have n: "?n \<le> length PS" and raw: "up_raw_batch u = drop ?n PS" using g by (auto simp: good_inv_def)
  have nxt: "sat_add 64 ?n (length (up_raw_batch u)) = length PS" using n assms(2) by (simp add: raw sat_add_def)
  have un: "unstored (spawn_batch u) = unstored u" by (simp add: unstored_def spawn_batch_def)
  have new: "flight_inv X C (up_store u) PS \<lparr>fl_start = ?n, fl_len = length (up_raw_batch u), fl_task = Todo (up_raw_batch u)\<rparr>"
    using n by (simp add: flight_inv_def raw subvec_def)
  have "settled X C PS (spawn_batch u) i \<or> in_flight (up_inflight (spawn_batch u)) i" if "i < length PS" for i
    using g that by (cases "i < ?n") (auto simp: good_inv_def settled_def in_flight_def spawn_batch_def raw)
  then have "good_inv X C A k PS (spawn_batch u)"
    using g un new nxt unfolding good_inv_def by (simp add: spawn_batch_def)
  then show ?thesis using nxt by (simp add: parallel_inv_def spawn_batch_def)
qed

end
