(* ===== verification/Upload_Stream.thy ===== *)
theory Upload_Stream
  imports Upload_Parallel
begin

text \<open>
  The stream of an upload: the loops end, the body is cut every \<open>block_size\<close> bytes however it
  arrives, and when all blocks are committed the handler has the identifiers of the pieces in
  order and every piece is stored.
\<close>

section \<open>What the commits leave alone\<close>

lemma run_task_frame [simp]:
  "up_current (run_task X C workers i u) = up_current u" "up_size (run_task X C workers i u) = up_size u"
  "up_raw_batch (run_task X C workers i u) = up_raw_batch u"
  by (auto simp: run_task_def split: upload_task.splits prod.splits)

lemma run_tasks_frame [simp]:
  "up_current (fold (run_task X C workers) is u) = up_current u" "up_size (fold (run_task X C workers) is u) = up_size u"
  "up_raw_batch (fold (run_task X C workers) is u) = up_raw_batch u"
  by (induction "is" arbitrary: u) auto

lemma next_completed_frame:
  "next_completed X C workers sched u = (f, v) \<Longrightarrow>
     up_current v = up_current u \<and> up_size v = up_size u \<and> up_raw_batch v = up_raw_batch u"
  by (auto simp: next_completed_def Let_def)

lemma collect_frame:
  "collect_flight f u = (r, v) \<Longrightarrow> up_current v = up_current u \<and> up_size v = up_size u \<and> up_raw_batch v = up_raw_batch u"
  by (auto simp: collect_flight_def split: upload_task.splits result.splits prod.splits if_splits)

lemma drain_frame:
  "drain_inflight X C workers sched limit u = (r, v) \<Longrightarrow>
     up_current v = up_current u \<and> up_size v = up_size u \<and> up_raw_batch v = up_raw_batch u"
proof (induction "length (up_inflight u)" arbitrary: u rule: less_induct)
  case less
  show ?case
  proof (cases "limit < length (up_inflight u)")
    case False
    then show ?thesis using less(2) by (simp add: drain_inflight.simps [of _ _ _ _ _ u])
  next
    case True
    obtain f w where nc: "next_completed X C workers sched u = (f, w)" by fastforce
    obtain r1 z where cf: "collect_flight f w = (r1, z)" by fastforce
    have fr: "up_current z = up_current u \<and> up_size z = up_size u \<and> up_raw_batch z = up_raw_batch u"
      using next_completed_frame [OF nc] collect_frame [OF cf] by simp
    have "drain_inflight X C workers sched limit z = (r, v) \<or> v = z"
      using less(2) True nc cf by (auto simp: drain_inflight.simps [of _ _ _ _ _ u] split: result.splits)
    then show ?thesis
      using less(1) [OF await_step [OF True nc [symmetric] cf [symmetric]]] fr by auto
  qed
qed

lemma flush_frame: "flush_batch X C workers u = (r, v) \<Longrightarrow> up_current v = up_current u \<and> up_size v = up_size u"
  by (auto simp: flush_batch_def split: prod.splits)

lemma commit_frame: "commit_batch X C K sched u = (r, v) \<Longrightarrow> up_current v = up_current u \<and> up_size v = up_size u"
  by (auto simp: commit_batch_def spawn_batch_def dest: flush_frame drain_frame split: if_splits)

section \<open>The loops end\<close>

lemma fill_round_progress:
  assumes "length (up_current u) < uc_block_size K" "rem \<noteq> []" "fill_round X C K sched rem u = (r, rem', v)"
  shows "length rem' < length rem \<and> length (up_current v) < uc_block_size K \<and> up_size v = up_size u"
proof -
  let ?n = "min (uc_block_size K - length (up_current u)) (length rem)"
  let ?v = "u\<lparr>up_current := up_current u @ take ?n rem\<rparr>"
  let ?w = "if length (up_current ?v) = uc_block_size K then push_full K ?v else ?v"
  have c: "commit_batch X C K sched ?w = (r, v)" and r': "rem' = drop ?n rem"
    using assms(3) by (auto simp: fill_round_def Let_def split: prod.splits)
  have "0 < ?n" using assms(1,2) by simp
  moreover have "length (up_current ?w) < uc_block_size K" "up_size ?w = up_size u" using assms(1) by (auto simp: push_full_def)
  ultimately show ?thesis using commit_frame [OF c] assms(2) unfolding r' by auto
qed

lemma fill_loop_ends:
  assumes "length (up_current u) < uc_block_size K"
  shows "\<exists>r v. fill_loop X C K sched rem u = Some (r, v) \<and> length (up_current v) < uc_block_size K \<and> up_size v = up_size u"
  using assms
proof (induction "length rem" arbitrary: rem u rule: less_induct)
  case less
  show ?case
  proof (cases "rem = []")
    case True
    then show ?thesis using less(2) by (simp add: fill_loop.simps)
  next
    case False
    obtain r rem' v where f: "fill_round X C K sched rem u = (r, rem', v)" by (metis prod_cases3)
    note p = fill_round_progress [OF less(2) False f]
    show ?thesis
    proof (cases "r = Ok ()")
      case True
      then have "fill_loop X C K sched rem u = fill_loop X C K sched rem' v" using False f by (simp add: fill_loop.simps [of _ _ _ _ rem])
      then show ?thesis using less(1) [of rem' v] p by auto
    next
      case False
      then show ?thesis using \<open>rem \<noteq> []\<close> f p by (simp add: fill_loop.simps [of _ _ _ _ rem])
    qed
  qed
qed

lemma upload_stream_ends:
  assumes "length (up_current u) < uc_block_size K"
  shows "\<exists>r v. upload_stream X C K sched evs u = Some (r, v)"
  using assms
proof (induction X C K sched evs u rule: upload_stream.induct)
  case (3 X C K sched chunk evs u)
  show ?case
  proof (cases "checked_add 64 (up_size u) (length chunk)")
    case (Some n)
    obtain r v where f: "fill_loop X C K sched chunk (u\<lparr>up_size := n\<rparr>) = Some (r, v)" "length (up_current v) < uc_block_size K"
      using fill_loop_ends [of "u\<lparr>up_size := n\<rparr>" K X C sched chunk] 3(3) by auto
    have eq: "upload_stream X C K sched (Data chunk # evs) u = (if r = Ok () then upload_stream X C K sched evs v else Some (r, v))"
      if "chunk \<noteq> []" using that Some f(1) by (simp del: checked_add_Some)
    show ?thesis
    proof (cases "chunk = [] \<or> r \<noteq> Ok ()")
      case True
      then show ?thesis using 3(1,3) eq by (cases "chunk = []") auto
    next
      case False
      then show ?thesis using 3(2) [OF _ Some f(1) refl _ f(2)] eq by auto
    qed
  qed (use 3(1,3) in \<open>cases "chunk = []"; simp del: checked_add_None\<close>)
qed auto

section \<open>Cutting the body\<close>

definition up_inv ::
  "('c, 'm) crates \<Rightarrow> 't store_cfg \<Rightarrow> bytes set \<Rightarrow> upload_cfg \<Rightarrow> nat \<Rightarrow> bytes list \<Rightarrow> ('c, 't) upload \<Rightarrow> bool" where
  "up_inv X C A K k PS u = (if uc_dedupe K then dedupe_inv X C A k PS u else parallel_inv X C A k PS u)"

lemma up_inv_frame [simp]:
  "up_inv X C A K k PS (u\<lparr>up_size := n\<rparr>) = up_inv X C A K k PS u"
  "up_inv X C A K k PS (u\<lparr>up_current := c\<rparr>) = up_inv X C A K k PS u"
  by (simp_all add: up_inv_def dedupe_inv_def parallel_inv_def doomed_def good_inv_def unstored_def settled_def)

text \<open>\<open>r\<close> is what is still to be read of the body.\<close>

definition stream_inv ::
  "('c, 'm) crates \<Rightarrow> 't store_cfg \<Rightarrow> bytes set \<Rightarrow> upload_cfg \<Rightarrow> bytes \<Rightarrow> bytes \<Rightarrow> ('c, 't) upload \<Rightarrow> bool" where
  "stream_inv X C A K body r u \<longleftrightarrow> length (up_current u) < uc_block_size K \<and>
     (\<exists>PS. cut_every (uc_block_size K) body = PS @ cut_every (uc_block_size K) (up_current u @ r)
        \<and> up_inv X C A K (length (cut_every (uc_block_size K) (up_current u @ r)) + 2) PS u)"

definition upload_ok :: "('c, 'm) crates \<Rightarrow> bytes set \<Rightarrow> upload_cfg \<Rightarrow> bytes \<Rightarrow> bool" where
  "upload_ok X A K body \<longleftrightarrow> hash_laws X \<and> inj_on (sha256 X) A \<and> set (cut_every (uc_block_size K) body) \<subseteq> A \<and> length (cut_every (uc_block_size K) body) < 2 ^ 64"

lemma push_full_frame [simp]: "up_current (push_full K u) = []" "up_size (push_full K u) = up_size u"
  by (simp_all add: push_full_def)

lemma cut_full: "length c = n \<Longrightarrow> 0 < n \<Longrightarrow> cut_every n (c @ r) = c # cut_every n r"
  by (subst cut_every.simps) auto

lemma push_full_inv:
  assumes "up_inv X C A K (Suc k) PS u"
  shows "up_inv X C A K k (PS @ [up_current u]) (push_full K u)"
proof (cases "uc_dedupe K")
  case True
  then show ?thesis using assms by (auto simp: up_inv_def dedupe_inv_def push_full_def)
next
  case False
  let ?PS = "PS @ [up_current u]" and ?v = "push_full K u"
  have i: "parallel_inv X C A (Suc k) PS u" using assms False by (simp add: up_inv_def)
  show ?thesis
  proof (cases "doomed u")
    case True
    then have "doomed ?v" by (simp add: doomed_def push_full_def)
    then show ?thesis using False by (simp add: up_inv_def parallel_inv_def)
  next
    case nd: False
    then have g: "good_inv X C A (Suc k) PS u" using i by (simp add: parallel_inv_def)
    have fl: "flight_inv X C (up_store u) ?PS f" if "f \<in> set (up_inflight u)" for f
      using g that subvec_append1 [of "fl_start f + fl_len f" PS "fl_start f" "[up_current u]"]
      by (auto simp: good_inv_def flight_inv_def split: upload_task.splits)
    have st: "settled X C ?PS ?v i \<or> in_flight (up_inflight u) i" if "i < up_next_start u" for i
      using g that False by (auto simp: good_inv_def settled_def push_full_def nth_append)
    have "unstored ?v + k = unstored u + Suc k" by (simp add: unstored_def push_full_def)
    then have "good_inv X C A k ?PS ?v"
      using g fl st False unfolding good_inv_def by (simp add: push_full_def)
    then show ?thesis using False by (simp add: up_inv_def parallel_inv_def)
  qed
qed

lemma commit_inv:
  assumes "hash_laws X" "inj_on (sha256 X) A" "set PS \<subseteq> A" "length PS < 2 ^ 64"
    and "up_inv X C A K k PS u" "commit_batch X C K sched u = (Ok (), v)"
  shows "up_inv X C A K k PS v"
proof (cases "uc_dedupe K")
  case True
  then show ?thesis using assms flush_batch_inv [OF assms(1-3), of C k u "uc_workers K" v]
    by (auto simp: up_inv_def commit_batch_def split: if_splits)
next
  case False
  then have "parallel_inv X C A k PS (spawn_batch u)" using spawn_inv [of X C A k PS u] assms(4,5) by (simp add: up_inv_def)
  then show ?thesis using assms(5,6) False drain_inv [OF assms(1-4), of C k "spawn_batch u" "uc_workers K" sched "uc_max_inflight K" v]
    by (auto simp: up_inv_def commit_batch_def split: if_splits)
qed

lemma fill_round_inv:
  assumes "upload_ok X A K body" "stream_inv X C A K body (rem @ fut) u" "fill_round X C K sched rem u = (Ok (), rem', v)"
  shows "stream_inv X C A K body (rem' @ fut) v"
proof -
  define n where "n = min (uc_block_size K - length (up_current u)) (length rem)"
  define c0 where "c0 = up_current u @ take n rem"
  define w where "w = (if length c0 = uc_block_size K then push_full K (u\<lparr>up_current := c0\<rparr>) else u\<lparr>up_current := c0\<rparr>)"
  let ?bs = "uc_block_size K"
  have c: "commit_batch X C K sched w = (Ok (), v)" and r': "rem' = drop n rem"
    using assms(3) by (auto simp: fill_round_def Let_def n_def c0_def w_def split: prod.splits)
  obtain PS where cur: "length (up_current u) < ?bs" and cut: "cut_every ?bs body = PS @ cut_every ?bs (up_current u @ rem @ fut)"
    and inv: "up_inv X C A K (length (cut_every ?bs (up_current u @ rem @ fut)) + 2) PS u"
    using assms(2) by (auto simp: stream_inv_def)
  have join: "up_current u @ rem @ fut = c0 @ rem' @ fut"
    unfolding r' c0_def using append_take_drop_id [of n rem] by (metis append.assoc)
  have len: "length c0 \<le> ?bs" using cur by (auto simp: c0_def n_def)
  obtain PS' where w: "length (up_current w) < ?bs" "cut_every ?bs body = PS' @ cut_every ?bs (up_current w @ rem' @ fut)"
    "up_inv X C A K (length (cut_every ?bs (up_current w @ rem' @ fut)) + 2) PS' w"
  proof (cases "length c0 = ?bs")
    case True
    have full: "cut_every ?bs (c0 @ rem' @ fut) = c0 # cut_every ?bs (rem' @ fut)"
      by (rule cut_full [OF True]) (use cur in simp)
    have "up_inv X C A K (Suc (length (cut_every ?bs (rem' @ fut)) + 2)) PS (u\<lparr>up_current := c0\<rparr>)"
      using inv unfolding join full by simp
    note p = push_full_inv [OF this]
    have w: "w = push_full K (u\<lparr>up_current := c0\<rparr>)" "up_current w = []" using True by (simp_all add: w_def push_full_def)
    show thesis by (rule that [of "PS @ [c0]"]) (use p cut cur in \<open>simp_all add: w join full\<close>)
  next
    case False
    then have w: "w = u\<lparr>up_current := c0\<rparr>" by (simp add: w_def)
    show thesis by (rule that [of PS]) (use False len inv cut in \<open>simp_all add: w join\<close>)
  qed
  have pre: "set PS' \<subseteq> A" "length PS' < 2 ^ 64" using assms(1) w(2) by (auto simp: upload_ok_def)
  have "up_inv X C A K (length (cut_every ?bs (up_current w @ rem' @ fut)) + 2) PS' v"
    by (rule commit_inv [OF _ _ pre w(3) c]) (use assms(1) in \<open>simp_all add: upload_ok_def\<close>)
  then show ?thesis using w(1,2) commit_frame [OF c] by (auto simp: stream_inv_def)
qed

lemma fill_loop_inv:
  assumes "upload_ok X A K body"
  shows "stream_inv X C A K body (rem @ fut) u \<Longrightarrow> fill_loop X C K sched rem u = Some (Ok (), v) \<Longrightarrow>
    stream_inv X C A K body fut v"
proof (induction "length rem" arbitrary: rem u rule: less_induct)
  case less
  show ?case
  proof (cases "rem = []")
    case True
    then show ?thesis using less(2,3) by (simp add: fill_loop.simps)
  next
    case False
    obtain r rem' w where f: "fill_round X C K sched rem u = (r, rem', w)" by (metis prod_cases3)
    have cur: "length (up_current u) < uc_block_size K" using less(2) by (simp add: stream_inv_def)
    have r: "r = Ok ()" "fill_loop X C K sched rem' w = Some (Ok (), v)"
      using less(3) False f by (auto simp: fill_loop.simps [of _ _ _ _ rem] split: if_splits)
    then show ?thesis
      using less(1) [of rem' w] fill_round_progress [OF cur False f] fill_round_inv [OF assms less(2)] f by blast
  qed
qed

lemma upload_stream_inv:
  assumes "upload_ok X A K body"
  shows "stream_inv X C A K body (contents evs) u \<Longrightarrow> upload_stream X C K sched evs u = Some (Ok (), v) \<Longrightarrow>
    stream_inv X C A K body [] v \<and> up_size v = up_size u + length (contents evs)"
proof (induction evs arbitrary: u)
  case Nil
  then show ?case by (simp add: contents_def)
next
  case (Cons ev evs)
  show ?case
  proof (cases ev)
    case Fail
    then show ?thesis using Cons(3) by simp
  next
    case (Data chunk)
    have ct: "contents (ev # evs) = chunk @ contents evs" by (simp add: contents_def piece_def Data)
    show ?thesis
    proof (cases "chunk = []")
      case True
      then show ?thesis using Cons Data ct by simp
    next
      case False
      obtain n where n: "checked_add 64 (up_size u) (length chunk) = Some n"
        using Cons(3) Data False by (auto split: option.splits)
      let ?u = "u\<lparr>up_size := n\<rparr>"
      obtain w where w: "fill_loop X C K sched chunk ?u = Some (Ok (), w)" "upload_stream X C K sched evs w = Some (Ok (), v)"
        using Cons(3) Data False n by (auto simp: bind_eq_Some_conv split: if_splits)
      have su: "stream_inv X C A K body (chunk @ contents evs) ?u"
        using Cons(2) unfolding ct by (simp add: stream_inv_def)
      then have "length (up_current ?u) < uc_block_size K" by (simp add: stream_inv_def)
      then have "up_size w = up_size u + length chunk"
        using fill_loop_ends [of ?u K X C sched chunk] w(1) n by auto
      then show ?thesis using Cons(1) [OF fill_loop_inv [OF assms su w(1)] w(2)] ct by simp
    qed
  qed
qed

end
