(* ===== verification/Upload_Result.thy ===== *)
theory Upload_Result
  imports Upload_Stream
begin

text \<open>
  What a successful upload leaves in the store: every piece of the body under its identifier, the
  list of identifiers as the metadata block, and a manifest that names it.
\<close>

section \<open>The blocks\<close>

definition pieces_stored :: "('c, 'm) crates \<Rightarrow> 't store_cfg \<Rightarrow> 't store_backend \<Rightarrow> bytes list \<Rightarrow> bool" where
  "pieces_stored X C s ps \<longleftrightarrow> (\<forall>d \<in> set ps. stored X C s d)"

lemma try_map_slots:
  assumes "length slots = length PS" "\<And>i. i < length PS \<Longrightarrow> slots ! i = Some (f (PS ! i))"
  shows "try_map (\<lambda>maybe. ok_or maybe e) slots = Ok (map f PS)"
proof -
  have "slots = map (\<lambda>d. Some (f d)) PS" by (rule nth_equalityI) (use assms in auto)
  moreover have "try_map (\<lambda>maybe. ok_or maybe e) (map (\<lambda>d. Some (f d)) ds) = Ok (map f ds)" for ds by (induction ds) auto
  ultimately show ?thesis by simp
qed

lemma parallel_finish:
  assumes "hash_laws X" "inj_on (sha256 X) A" "set PS \<subseteq> A" "length PS < 2 ^ 64" "parallel_inv X C A k PS v"
    and "drain_inflight X C workers sched 0 (if up_raw_batch v \<noteq> [] then spawn_batch v else v) = (Ok (), w)"
  shows "length (up_slots w) = length PS \<and> (\<forall>i < length PS. settled X C PS w i) \<and> room X C A k (up_store w)"
proof -
  let ?u = "if up_raw_batch v \<noteq> [] then spawn_batch v else v"
  have "parallel_inv X C A k PS ?u" using spawn_inv [OF assms(5,4)] assms(5) by simp
  then have i: "parallel_inv X C A k PS w" "up_inflight w = []" using drain_inv [OF assms(1-4) _ assms(6)] by auto
  then have g: "good_inv X C A k PS w" by (simp add: parallel_inv_def doomed_def)
  have "up_raw_batch w = []" using drain_frame [OF assms(6)] by (simp add: spawn_batch_def split: if_splits)
  then show ?thesis using g i(2) by (auto simp: good_inv_def in_flight_def unstored_def)
qed

lemma finish_inv:
  assumes "stream_inv X C A K body [] u"
  shows "up_inv X C A K 2 (cut_every (uc_block_size K) body) (if up_current u \<noteq> [] then push_full K u else u)"
proof -
  obtain PS where p: "length (up_current u) < uc_block_size K" "cut_every (uc_block_size K) body = PS @ cut_every (uc_block_size K) (up_current u)"
    "up_inv X C A K (length (cut_every (uc_block_size K) (up_current u)) + 2) PS u" using assms by (auto simp: stream_inv_def)
  show ?thesis
  proof (cases "up_current u = []")
    case True
    then show ?thesis using p by (simp add: cut_every.simps [of _ "[]"] numeral_2_eq_2)
  next
    case False
    then have "cut_every (uc_block_size K) (up_current u) = [up_current u]" using p(1)
      by (simp add: cut_every.simps [of _ "up_current u"] cut_every.simps [of _ "[]"])
    then show ?thesis using p False push_full_inv [of X C A K 2 PS u] by (simp add: numeral_2_eq_2)
  qed
qed

lemma finish_blocks_correct:
  assumes "upload_ok X A K body" "stream_inv X C A K body [] u" "finish_blocks X C K sched u = (Ok cids, w)"
  shows "cids = map (data_cid X) (cut_every (uc_block_size K) body)"
    "pieces_stored X C (up_store w) (cut_every (uc_block_size K) body)" "room X C A 2 (up_store w)" "up_size w = up_size u"
proof -
  let ?PS = "cut_every (uc_block_size K) body"
  have ok: "hash_laws X" "inj_on (sha256 X) A" "set ?PS \<subseteq> A" "length ?PS < 2 ^ 64" using assms(1) by (auto simp: upload_ok_def)
  define v where "v = (if up_current u \<noteq> [] then push_full K u else u)"
  have inv: "up_inv X C A K 2 ?PS v" unfolding v_def by (rule finish_inv [OF assms(2)])
  have sz: "up_size v = up_size u" by (simp add: v_def)
  have "cids = map (data_cid X) ?PS \<and> pieces_stored X C (up_store w) ?PS \<and> room X C A 2 (up_store w) \<and> up_size w = up_size u"
  proof (cases "uc_dedupe K")
    case True
    then have f: "flush_batch X C (uc_workers K) v = (Ok (), w)" "cids = up_block_cids w"
      using assms(3) by (auto simp: finish_blocks_def Let_def v_def [symmetric] result_simps split: prod.splits)
    have "dedupe_inv X C A 2 ?PS w \<and> up_raw_batch w = []"
      by (rule flush_batch_inv [OF ok(1-3) _ f(1)]) (use inv True in \<open>simp add: up_inv_def\<close>)
    then show ?thesis using f(2) flush_frame [OF f(1)] sz by (auto simp: dedupe_inv_def pieces_stored_def numeral_2_eq_2)
  next
    case False
    let ?u = "if up_raw_batch v \<noteq> [] then spawn_batch v else v"
    have d: "drain_inflight X C (uc_workers K) sched 0 ?u = (Ok (), w)"
      "try_map (\<lambda>maybe. ok_or maybe (Internal ''Upload pipeline missing CID slot'')) (up_slots w) = Ok cids"
      using assms(3) False by (auto simp: finish_blocks_def Let_def v_def [symmetric] result_simps split: prod.splits)
    have pf: "length (up_slots w) = length ?PS" "\<And>i. i < length ?PS \<Longrightarrow> settled X C ?PS w i" "room X C A 2 (up_store w)"
      using parallel_finish [OF ok _ d(1), of 2] inv False by (auto simp: up_inv_def)
    have "up_size ?u = up_size v" by (simp add: spawn_batch_def)
    then have "up_size w = up_size u" using drain_frame [OF d(1)] sz by simp
    moreover have "cids = map (data_cid X) ?PS"
      using d(2) try_map_slots [of "up_slots w" ?PS "data_cid X" "Internal ''Upload pipeline missing CID slot''"] pf(1,2) by (simp add: settled_def)
    ultimately show ?thesis using pf by (auto simp: pieces_stored_def settled_def in_set_conv_nth)
  qed
  then show "cids = map (data_cid X) ?PS" "pieces_stored X C (up_store w) ?PS" "room X C A 2 (up_store w)" "up_size w = up_size u"
    by auto
qed

section \<open>The metadata block and the manifest\<close>

lemma start_inv:
  assumes "0 < uc_block_size K" "room X C A (length (cut_every (uc_block_size K) body) + 2) s"
  shows "stream_inv X C A K body body (start_upload K s)"
  using assms by (auto simp: stream_inv_def start_upload_def up_inv_def dedupe_inv_def parallel_inv_def good_inv_def unstored_def)

definition manifest_for :: "('c, 'm) crates \<Rightarrow> upload_cfg \<Rightarrow> bytes \<Rightarrow> 'c archivist_tree \<Rightarrow> 'c \<Rightarrow> 'c manifest" where
  "manifest_for X K body tree tree_cid =
     dataset_manifest X (uc_block_size K) (length body) tree_cid (data_cid X (serialize_block_list X tree))"

lemma put_or_Ok: "put_or msg X C b s = (Ok (), s') \<longleftrightarrow> store_put X C b s = (Ok (), s')"
  by (auto simp: put_or_def split: prod.splits)

lemma rbind_ok_or:
  assumes "rbind (ok_or x e) (\<lambda>a. Ok (f a)) = Ok b"
  obtains a where "x = Some a" "b = f a"
  using assms by (cases x) auto

lemma to_block_addressed:
  assumes "hash_laws X" "cid_v1_law X" "m_version m = 1" "m_hcodec m = SHA256_CODEC" "to_block X P m = Ok b"
  shows "addressed X (block_cid b) (block_data b)" "mh_code X (cid_hash X (block_cid b)) = SHA2_256_CODE"
    "cid_codec X (block_cid b) = MANIFEST_CODEC" "manifest_encode X P m = Ok (block_data b)"
proof -
  obtain data where d1: "manifest_encode X P m = Ok data" using assms(5) by (auto simp: to_block_def rbind_eq_Ok)
  have hash: "manifest_hash X SHA256_CODEC data = Ok (sha256 X data)" by (simp add: manifest_hash_def SHA256_CODEC_def BLAKE3_CODEC_def)
  let ?bytes = "varint X 1 @ varint X MANIFEST_CODEC @ varint X SHA256_CODEC @ varint X (length (sha256 X data)) @ sha256 X data"
  have "rbind (ok_or (cid_try_from X ?bytes) (ManifestCidError ''Failed to create CID'')) (\<lambda>cid. Ok \<lparr>block_cid = cid, block_data = data\<rparr>) = Ok b"
    using assms(5) unfolding to_block_def d1 rbind.simps assms(3,4) hash Let_def .
  then obtain cid where c: "cid_try_from X ?bytes = Some cid" and d2: "b = \<lparr>block_cid = cid, block_data = data\<rparr>"
    by (rule rbind_ok_or)
  note d = d1 d2
  have l: "digest_law X" "mh_wrap_law X" "cid_new_law X" using assms(1) by (simp_all add: hash_laws_def)
  obtain w where w: "mh_wrap X SHA256_CODEC (sha256 X data) = Some w" using mh_wrap_Ex [OF l(2), of "sha256 X data"] l(1) by auto
  have "cid_try_from X (varint X 1 @ varint X MANIFEST_CODEC @ varint X SHA256_CODEC @ varint X (length (sha256 X data)) @ sha256 X data)
      = Some (cid_new_v1 X MANIFEST_CODEC w)" using assms(2) w unfolding cid_v1_law_def by blast
  then have b: "block_cid b = cid_new_v1 X MANIFEST_CODEC w" using c d(2) by simp
  have dat: "block_data b = data" using d(2) by simp
  show "addressed X (block_cid b) (block_data b)" "mh_code X (cid_hash X (block_cid b)) = SHA2_256_CODE"
    "cid_codec X (block_cid b) = MANIFEST_CODEC" "manifest_encode X P m = Ok (block_data b)"
    using mh_wrap_SomeD [OF l(2) w] l(3) d(1) unfolding b dat
    by (simp_all add: addressed_def codec_defs SHA256_CODEC_def)
qed

text \<open>The bytes of the two blocks that close an upload.\<close>

definition closing_data :: "('c, 'm) crates \<Rightarrow> prost \<Rightarrow> nat \<Rightarrow> nat \<Rightarrow> 'c list \<Rightarrow> bytes set" where
  "closing_data X P bs n cids =
     (case dataset_blocks X P bs n cids of
        Ok (mb, r) \<Rightarrow> insert (block_data mb) (case r of Ok fb \<Rightarrow> {block_data fb} | _ \<Rightarrow> {})
      | _ \<Rightarrow> {})"

definition published ::
  "('c, 'm) crates \<Rightarrow> prost \<Rightarrow> 't store_cfg \<Rightarrow> nat \<Rightarrow> nat \<Rightarrow> 'c list \<Rightarrow> 't store_backend \<Rightarrow> 'c \<Rightarrow> bool" where
  "published X P C bs n cids s c \<longleftrightarrow> (\<exists>tree tree_cid mb fb. tree_new X cids = Some (Ok tree) \<and> root_cid X tree = Ok tree_cid
     \<and> mb = data_block X (serialize_block_list X tree) \<and> store_look X C s (block_cid mb) = Some (block_data mb)
     \<and> to_block X P (dataset_manifest X bs n tree_cid (block_cid mb)) = Ok fb \<and> block_cid fb = c
     \<and> store_look X C s c = Some (block_data fb))"

lemma publish_correct:
  assumes "hash_laws X" "cid_v1_law X" "inj_on (sha256 X) A" "room X C A 2 s"
    and "closing_data X P bs n cids \<subseteq> A" "publish_dataset X P C bs n cids s = (Ok c, s')"
  shows "room X C A 0 s'" "published X P C bs n cids s' c" "cid_codec X c = MANIFEST_CODEC"
    "\<And>x d. store_look X C s x = Some d \<Longrightarrow> store_look X C s' x = Some d"
proof -
  obtain mb fb s1 where db: "dataset_blocks X P bs n cids = Ok (mb, Ok fb)" and s1: "store_put X C mb s = (Ok (), s1)"
    and s2: "store_put X C fb s1 = (Ok (), s')" and c: "c = block_cid fb"
    using assms(6) by (auto simp: publish_dataset_def put_or_Ok result_simps split: result.splits prod.splits)
  obtain tree tree_cid where t: "tree_new X cids = Some (Ok tree)" "root_cid X tree = Ok tree_cid"
    and mb: "mb = data_block X (serialize_block_list X tree)"
    and fb: "to_block X P (dataset_manifest X bs n tree_cid (block_cid mb)) = Ok fb"
    using db by (auto simp: dataset_blocks_def data_block_new [OF assms(1)] result_simps split: option.splits)
  have m: "m_version (dataset_manifest X bs n tree_cid (block_cid mb)) = 1"
    "m_hcodec (dataset_manifest X bs n tree_cid (block_cid mb)) = SHA256_CODEC" by (simp_all add: dataset_manifest_def manifest_new_def)
  note ad = to_block_addressed [OF assms(1,2) m fb]
  have r2: "room X C A (Suc (Suc 0)) s" using assms(4) by (simp add: numeral_2_eq_2)
  have mbs: "sha_block X mb" using data_cid_parts [OF assms(1)] by (simp add: mb sha_block_def)
  have inA: "block_data mb \<in> A" "block_data fb \<in> A" using assms(5) db by (simp_all add: closing_data_def)
  note p1 = put_one [OF assms(3) r2 mbs inA(1) s1]
  have "sha_block X fb" using ad by (simp add: sha_block_def)
  note p2 = put_one [OF assms(3) p1(1) this inA(2) s2]
  show "room X C A 0 s'" "cid_codec X c = MANIFEST_CODEC" using p2(1) ad(3) c by auto
  show "store_look X C s' x = Some d" if "store_look X C s x = Some d" for x d using p2(3) p1(3) that by blast
  show "published X P C bs n cids s' c"
    unfolding published_def using t mb fb c p2(2,3) p1(2) by blast
qed

end
