(* ===== verification/Folder_Manifest.thy ===== *)
theory Folder_Manifest
  imports Manifest Block_Batch "HOL-Library.List_Lexorder" "HOL-Library.Char_ord" "HOL-Library.Multiset"
begin

text \<open>
  \<open>folder_manifest.rs\<close>: directories that group entries under names, their protobuf form and their
  block. The two calls of \<open>prost\<close> on \<open>DirectoryHeader\<close> are parameters with the law that decoding
  inverts encoding. Names are the bytes of their UTF-8 text, compared in that order.
\<close>

record 'c directory_entry =
  de_name :: string
  de_cid :: 'c
  de_size :: nat
  de_is_directory :: bool
  de_mimetype :: string

record 'c directory_manifest =
  dm_entries :: "'c directory_entry list"
  dm_total_size :: nat
  dm_name :: string

datatype directory_error = DirEncodeError | DirDecodeError | DirCidError string | InvalidDirectory string

definition DIRECTORY_CODEC :: nat where "DIRECTORY_CODEC = 0xcd04"

record proto_dir_entry =
  pd_name :: string
  pd_cid :: bytes
  pd_size :: nat
  pd_is_directory :: nat
  pd_mimetype :: string

record proto_dir_header =
  pdh_entries :: "proto_dir_entry list"
  pdh_total_size :: nat
  pdh_name :: string

record dir_prost =
  dp_encode :: "proto_dir_header \<Rightarrow> bytes option"
  dp_decode :: "bytes \<Rightarrow> proto_dir_header option"

definition dir_prost_law :: "dir_prost \<Rightarrow> bool" where
  "dir_prost_law D \<longleftrightarrow> (\<forall>h. \<exists>bs. dp_encode D h = Some bs \<and> dp_decode D bs = Some h)"

section \<open>Directories\<close>

text \<open>\<open>Iterator::sum\<close> over \<open>u64\<close>, which panics on overflow.\<close>

definition sum_u64 :: "nat list \<Rightarrow> (nat, 'e) result" where
  "sum_u64 ns = try_fold (\<lambda>n acc. padd 64 acc n) ns 0"

definition directory_new :: "'c directory_entry list \<Rightarrow> string \<Rightarrow> ('c directory_manifest, 'e) result" where
  "directory_new entries name =
     rbind (sum_u64 (map de_size entries)) (\<lambda>total_size. Ok \<lparr>dm_entries = entries, dm_total_size = total_size, dm_name = name\<rparr>)"

definition find_entry :: "'c directory_manifest \<Rightarrow> string \<Rightarrow> 'c directory_entry option" where
  "find_entry d name = find (\<lambda>e. de_name e = name) (dm_entries d)"

text \<open>The comparison of \<open>sort_by\<close>: directories before files, then by name.\<close>

definition entry_key :: "'c directory_entry \<Rightarrow> bool \<times> string" where
  "entry_key e = (\<not> de_is_directory e, de_name e)"

definition sort_entries :: "'c directory_entry list \<Rightarrow> 'c directory_entry list" where
  "sort_entries entries = sort_key entry_key entries"

definition sorted_entries :: "'c directory_manifest \<Rightarrow> 'c directory_entry list" where
  "sorted_entries d = sort_entries (dm_entries d)"

section \<open>Encoding\<close>

definition entry_to_proto :: "('c, 'm) crates \<Rightarrow> 'c directory_entry \<Rightarrow> proto_dir_entry" where
  "entry_to_proto X e =
     \<lparr>pd_name = de_name e, pd_cid = cid_to_bytes X (de_cid e), pd_size = de_size e,
      pd_is_directory = (if de_is_directory e then 1 else 0), pd_mimetype = de_mimetype e\<rparr>"

definition directory_encode :: "('c, 'm) crates \<Rightarrow> dir_prost \<Rightarrow> 'c directory_manifest \<Rightarrow> (bytes, directory_error) result" where
  "directory_encode X D d =
     ok_or (dp_encode D \<lparr>pdh_entries = map (entry_to_proto X) (dm_entries d), pdh_total_size = dm_total_size d, pdh_name = dm_name d\<rparr>)
       DirEncodeError"

definition entry_of_proto :: "('c, 'm) crates \<Rightarrow> proto_dir_entry \<Rightarrow> ('c directory_entry, directory_error) result" where
  "entry_of_proto X e =
     rbind (ok_or (cid_try_from X (pd_cid e)) (DirCidError ''Invalid CID'')) (\<lambda>cid.
       Ok \<lparr>de_name = pd_name e, de_cid = cid, de_size = pd_size e, de_is_directory = (pd_is_directory e \<noteq> 0), de_mimetype = pd_mimetype e\<rparr>)"

definition directory_decode :: "('c, 'm) crates \<Rightarrow> dir_prost \<Rightarrow> bytes \<Rightarrow> ('c directory_manifest, directory_error) result" where
  "directory_decode X D data =
     rbind (ok_or (dp_decode D data) DirDecodeError) (\<lambda>header.
     rbind (try_map (entry_of_proto X) (pdh_entries header)) (\<lambda>entries.
       Ok \<lparr>dm_entries = entries, dm_total_size = pdh_total_size header, dm_name = pdh_name header\<rparr>))"

definition directory_to_block :: "('c, 'm) crates \<Rightarrow> dir_prost \<Rightarrow> 'c directory_manifest \<Rightarrow> ('c block, directory_error) result" where
  "directory_to_block X D d =
     rbind (directory_encode X D d) (\<lambda>data.
       (let hcodec = SHA256_CODEC;
            hash_bytes = sha256 X data;
            multihash = varint X hcodec @ varint X (length hash_bytes) @ hash_bytes;
            cid_bytes = varint X 1 @ varint X DIRECTORY_CODEC @ multihash
        in rbind (ok_or (cid_try_from X cid_bytes) (DirCidError ''Failed to create CID'')) (\<lambda>cid.
             Ok \<lparr>block_cid = cid, block_data = data\<rparr>)))"

definition directory_from_block :: "('c, 'm) crates \<Rightarrow> dir_prost \<Rightarrow> 'c block \<Rightarrow> ('c directory_manifest, directory_error) result" where
  "directory_from_block X D b =
     (if cid_codec X (block_cid b) \<noteq> DIRECTORY_CODEC then Err (InvalidDirectory ''Block has codec, expected directory codec'')
      else directory_decode X D (block_data b))"

definition is_directory :: "('c, 'm) crates \<Rightarrow> 'c \<Rightarrow> bool" where
  "is_directory X c = (cid_codec X c = DIRECTORY_CODEC)"

section \<open>Round trip\<close>

lemma entry_roundtrip: "cid_bytes_law X \<Longrightarrow> entry_of_proto X (entry_to_proto X e) = Ok e"
  by (simp add: entry_of_proto_def entry_to_proto_def cid_bytes_lawD)

lemma directory_decode_encode:
  assumes "dir_prost_law D" "cid_bytes_law X"
  obtains bs where "directory_encode X D d = Ok bs" "directory_decode X D bs = Ok d"
proof -
  let ?h = "\<lparr>pdh_entries = map (entry_to_proto X) (dm_entries d), pdh_total_size = dm_total_size d, pdh_name = dm_name d\<rparr>"
  obtain bs where bs: "dp_encode D ?h = Some bs" "dp_decode D bs = Some ?h" using assms(1) unfolding dir_prost_law_def by blast
  have "try_map (entry_of_proto X) (map (entry_to_proto X) es) = Ok es" for es
    by (induction es) (simp_all add: entry_roundtrip [OF assms(2)])
  then have "directory_decode X D bs = Ok d" by (simp add: directory_decode_def bs(2))
  then show ?thesis using that bs(1) by (simp add: directory_encode_def)
qed

lemma directory_block:
  assumes "dir_prost_law D" "cid_bytes_law X" "cid_v1_law X" "cid_new_law X" "mh_wrap_law X" "digest_law X"
  obtains b where "directory_to_block X D d = Ok b" "cid_codec X (block_cid b) = DIRECTORY_CODEC" "sha_block X b"
    "directory_decode X D (block_data b) = Ok d"
proof -
  obtain bs where bs: "directory_encode X D d = Ok bs" "directory_decode X D bs = Ok d" by (rule directory_decode_encode [OF assms(1,2)])
  have "length (sha256 X bs) = 32" using assms(6) by simp
  then obtain w where w: "mh_wrap X SHA256_CODEC (sha256 X bs) = Some w" using mh_wrap_Ex [OF assms(5), of "sha256 X bs"] by auto
  have cid: "cid_try_from X (varint X 1 @ varint X DIRECTORY_CODEC @ varint X SHA256_CODEC @ varint X (length (sha256 X bs)) @ sha256 X bs)
    = Some (cid_new_v1 X DIRECTORY_CODEC w)" using assms(3) w unfolding cid_v1_law_def by blast
  have b: "directory_to_block X D d = Ok \<lparr>block_cid = cid_new_v1 X DIRECTORY_CODEC w, block_data = bs\<rparr>"
    unfolding directory_to_block_def bs(1) rbind.simps Let_def cid ok_or_simps ..
  let ?c = "cid_new_v1 X DIRECTORY_CODEC w"
  have parts: "cid_codec X ?c = DIRECTORY_CODEC" "mh_code X (cid_hash X ?c) = SHA256_CODEC" "mh_digest X (cid_hash X ?c) = sha256 X bs"
    using mh_wrap_SomeD [OF assms(5) w] assms(4) by simp_all
  show ?thesis
    by (rule that [OF b]) (simp_all add: parts bs(2) sha_block_def addressed_def codec_defs SHA256_CODEC_def)
qed

lemma sum_fold_eq:
  "a < 2 ^ 64 \<Longrightarrow> try_fold (\<lambda>n acc. padd 64 acc n) ns a = (if a + sum_list ns < 2 ^ 64 then Ok (a + sum_list ns) else Panic)"
  by (induction ns arbitrary: a) (auto simp: padd_def)

lemma sum_u64_eq: "sum_u64 ns = (if sum_list ns < 2 ^ 64 then Ok (sum_list ns) else Panic)"
  by (simp add: sum_u64_def sum_fold_eq)

text \<open>
  Directory blocks: \<open>to_block\<close> succeeds, gives a block of codec 0xcd04 whose identifier carries
  the SHA-256 digest of its data, and \<open>from_block\<close> of it gives the directory back with every entry;
  a block of another codec is refused; listing keeps the entries, directories before files and by
  name within each.
\<close>

lemma directory_roundtrip:
  assumes "dir_prost_law D" "cid_bytes_law X" "cid_v1_law X" "cid_new_law X" "mh_wrap_law X" "digest_law X"
  shows "(\<exists>b. directory_to_block X D d = Ok b \<and> is_directory X (block_cid b)
      \<and> mh_digest X (cid_hash X (block_cid b)) = sha256 X (block_data b) \<and> directory_from_block X D b = Ok d)
    \<and> (\<forall>b. \<not> is_directory X (block_cid b) \<longrightarrow> \<not> is_ok (directory_from_block X D b))
    \<and> mset (sorted_entries d) = mset (dm_entries d) \<and> sorted (map entry_key (sorted_entries d))"
proof -
  obtain b where "directory_to_block X D d = Ok b" "cid_codec X (block_cid b) = DIRECTORY_CODEC" "sha_block X b"
    "directory_decode X D (block_data b) = Ok d" by (rule directory_block [OF assms])
  then show ?thesis
    by (auto simp: directory_from_block_def is_directory_def sha_block_def addressed_def sorted_entries_def sort_entries_def)
qed

section \<open>A concrete protobuf\<close>

definition dir_entry_tuple :: "proto_dir_entry \<Rightarrow> string \<times> bytes \<times> nat \<times> nat \<times> string" where
  "dir_entry_tuple e = (pd_name e, pd_cid e, pd_size e, pd_is_directory e, pd_mimetype e)"

definition tuple_dir_entry :: "string \<times> bytes \<times> nat \<times> nat \<times> string \<Rightarrow> proto_dir_entry" where
  "tuple_dir_entry = (\<lambda>(a, b, c, d, e). \<lparr>pd_name = a, pd_cid = b, pd_size = c, pd_is_directory = d, pd_mimetype = e\<rparr>)"

definition dir_header_tuple :: "proto_dir_header \<Rightarrow> proto_dir_entry list \<times> nat \<times> string" where
  "dir_header_tuple h = (pdh_entries h, pdh_total_size h, pdh_name h)"

definition tuple_dir_header :: "proto_dir_entry list \<times> nat \<times> string \<Rightarrow> proto_dir_header" where
  "tuple_dir_header = (\<lambda>(a, b, c). \<lparr>pdh_entries = a, pdh_total_size = b, pdh_name = c\<rparr>)"

definition w_dir_entry :: "proto_dir_entry \<Rightarrow> bytes" where
  "w_dir_entry = w_iso dir_entry_tuple (w_pair w_string (w_pair w_bytes (w_pair demo_varint (w_pair demo_varint w_string))))"

definition r_dir_entry :: "bytes \<Rightarrow> (proto_dir_entry \<times> bytes) option" where
  "r_dir_entry = r_iso tuple_dir_entry (r_pair r_string (r_pair r_bytes (r_pair demo_read_varint (r_pair demo_read_varint r_string))))"

definition w_dir_header :: "proto_dir_header \<Rightarrow> bytes" where
  "w_dir_header = w_iso dir_header_tuple (w_pair (w_list w_dir_entry) (w_pair demo_varint w_string))"

definition r_dir_header :: "bytes \<Rightarrow> (proto_dir_header \<times> bytes) option" where
  "r_dir_header = r_iso tuple_dir_header (r_pair (r_list r_dir_entry) (r_pair demo_read_varint r_string))"

lemma dir_entry_codec: "self_delimiting w_dir_entry r_dir_entry"
  unfolding w_dir_entry_def r_dir_entry_def
  by (intro iso_codec wire_codecs) (simp add: dir_entry_tuple_def tuple_dir_entry_def)

lemma dir_header_codec: "self_delimiting w_dir_header r_dir_header"
  unfolding w_dir_header_def r_dir_header_def
  by (intro iso_codec wire_codecs dir_entry_codec) (simp add: dir_header_tuple_def tuple_dir_header_def)

definition demo_dir_prost :: dir_prost where
  "demo_dir_prost = \<lparr>dp_encode = Some \<circ> w_dir_header, dp_decode = read_whole r_dir_header\<rparr>"

lemma demo_dir_prost_law [simp]: "dir_prost_law demo_dir_prost"
  by (simp add: dir_prost_law_def demo_dir_prost_def read_whole_put [OF dir_header_codec])

definition demo_directory :: "(nat \<times> nat \<times> bytes) directory_manifest" where
  "demo_directory = \<lparr>dm_entries = [\<lparr>de_name = ''b'', de_cid = (0xcd01, 0x12, [1]), de_size = 5, de_is_directory = False, de_mimetype = []\<rparr>,
     \<lparr>de_name = ''c'', de_cid = (0xcd04, 0x12, [2]), de_size = 7, de_is_directory = True, de_mimetype = []\<rparr>], dm_total_size = 12, dm_name = ''x''\<rparr>"

end
