(* ===== verification/Api_Download.thy ===== *)
theory Api_Download
  imports Api_Upload Folder_Manifest Blockexc_Serve
begin

text \<open>
  The handlers of \<open>api.rs\<close> that read: single blocks, datasets in full and by range, listing,
  deletion, existence, and the download that falls back to other nodes. Of the request headers the
  handlers read \<open>range\<close> and \<open>accept\<close>; each is \<open>None\<close> when it is absent or not text. The HTTP client
  that asks another node is a parameter: what a request to a URL returns.
\<close>

section \<open>Responses\<close>

record data_item =
  di_cid :: string
  di_tree_cid :: string
  di_dataset_size :: nat
  di_block_size :: nat
  di_protected :: bool
  di_filename :: "string option"
  di_mimetype :: "string option"

datatype http_body =
    RawBody bytes
  | BlockJson string string nat
  | DirectoryJson string string nat "(string \<times> string \<times> nat \<times> bool \<times> string option) list"
  | HtmlBody string
  | EmptyBody

record http_response =
  rs_status :: nat
  rs_headers :: "(string \<times> string) list"
  rs_body :: http_body

record request_headers =
  rh_range :: "string option"
  rh_accept :: "string option"

definition content_range :: "nat \<Rightarrow> nat \<Rightarrow> nat \<Rightarrow> string" where
  "content_range start end_inclusive total_len = ''bytes '' @ show_nat start @ ''-'' @ show_nat end_inclusive @ ''/'' @ show_nat total_len"

section \<open>Range headers\<close>

text \<open>\<open>Ok None\<close> is an unusable header; adding one to the last position panics at the largest \<open>usize\<close>.\<close>

definition parse_range_header :: "string \<Rightarrow> nat \<Rightarrow> ((nat \<times> nat) option, 'e) result" where
  "parse_range_header range_str total_len =
     (case strip_prefix ''bytes='' (trim range_str) of
        None \<Rightarrow> Ok None
      | Some r \<Rightarrow>
        (let parts = split_on (CHR ''-'') r in
         if length parts \<noteq> 2 then Ok None
         else case parse_uint 64 (parts ! 0) of
           None \<Rightarrow> Ok None
         | Some start \<Rightarrow>
           (case (if parts ! 1 = [] then Ok (Some total_len)
                  else case parse_uint 64 (parts ! 1) of None \<Rightarrow> Ok None | Some e \<Rightarrow> rbind (padd 64 e 1) (\<lambda>n. Ok (Some n))) of
              Ok None \<Rightarrow> Ok None
            | Ok (Some e) \<Rightarrow> Ok (if total_len \<le> start \<or> e \<le> start then None else Some (start, min e total_len))
            | Err x \<Rightarrow> Err x
            | Panic \<Rightarrow> Panic)))"

definition range_headers :: "string \<Rightarrow> nat \<Rightarrow> nat \<Rightarrow> nat \<Rightarrow> nat \<Rightarrow> (string \<times> string) list" where
  "range_headers content_type start end_inclusive total_len len =
     [(''Content-Type'', content_type), (''Content-Range'', content_range start end_inclusive total_len),
      (''Content-Length'', show_nat len), (''Accept-Ranges'', ''bytes''),
      (''Cache-Control'', ''public, max-age=31536000, immutable'')]"

definition partial_response :: "string \<Rightarrow> nat \<Rightarrow> nat \<Rightarrow> nat \<Rightarrow> bytes \<Rightarrow> http_response" where
  "partial_response content_type start end_exclusive total_len bs =
     \<lparr>rs_status = 206, rs_headers = range_headers content_type start (end_exclusive - 1) total_len (length bs), rs_body = RawBody bs\<rparr>"

definition unsatisfiable_response :: "nat \<Rightarrow> http_response" where
  "unsatisfiable_response total_len =
     \<lparr>rs_status = 416, rs_headers = [(''Content-Range'', ''bytes */'' @ show_nat total_len)], rs_body = EmptyBody\<rparr>"

definition full_response :: "string \<Rightarrow> bytes \<Rightarrow> http_response" where
  "full_response content_type data =
     \<lparr>rs_status = 200,
      rs_headers = [(''Content-Type'', content_type), (''Content-Length'', show_nat (length data)), (''Accept-Ranges'', ''bytes''),
        (''Cache-Control'', ''public, max-age=31536000, immutable'')],
      rs_body = RawBody data\<rparr>"

definition build_range_response :: "request_headers \<Rightarrow> bytes \<Rightarrow> string \<Rightarrow> (http_response, api_error) result" where
  "build_range_response headers data content_type =
     (case rh_range headers of
        Some range_str \<Rightarrow>
          rbind (parse_range_header range_str (length data)) (\<lambda>parsed.
            Ok (case parsed of
                  Some (start, e) \<Rightarrow> partial_response content_type start e (length data) (subvec start e data)
                | None \<Rightarrow> unsatisfiable_response (length data)))
      | None \<Rightarrow> Ok (full_response content_type data))"

section \<open>Single blocks\<close>

definition parse_cid_path :: "('c, 'm) crates \<Rightarrow> string \<Rightarrow> ('c, api_error) result" where
  "parse_cid_path X cid_str = ok_or (cid_parse X cid_str) (BadRequest ''Invalid CID'')"

definition get_block ::
  "('c, 'm) crates \<Rightarrow> (bytes \<Rightarrow> string) \<Rightarrow> 't store_cfg \<Rightarrow> 't store_backend \<Rightarrow> string \<Rightarrow> request_headers \<Rightarrow> (http_response, api_error) result" where
  "get_block X base64 C s cid_str headers =
     rbind (parse_cid_path X cid_str) (\<lambda>cid.
     rbind (map_err (read_err cid_str ''Failed to retrieve block'') (store_get X C cid s)) (\<lambda>block.
       (let total_len = block_size_of block;
            whole = \<lparr>rs_status = 200, rs_headers = [(''accept-ranges'', ''bytes'')],
              rs_body = BlockJson cid_str (base64 (block_data block)) total_len\<rparr>
        in case rh_range headers of
             None \<Rightarrow> Ok whole
           | Some range_str \<Rightarrow>
             rbind (parse_range_header range_str total_len) (\<lambda>parsed.
               Ok (case parsed of
                     None \<Rightarrow> whole
                   | Some (start, e) \<Rightarrow>
                     (let range_data = subvec start e (block_data block)
                      in \<lparr>rs_status = 206,
                          rs_headers = [(''content-range'', content_range start (e - 1) total_len), (''accept-ranges'', ''bytes'')],
                          rs_body = BlockJson cid_str (base64 range_data) (length range_data)\<rparr>))))))"

section \<open>Datasets\<close>

definition metadata_cid_from_manifest :: "('c, 'm) crates \<Rightarrow> 'c manifest \<Rightarrow> 'c option" where
  "metadata_cid_from_manifest X m = Option.bind (m_filename m) (\<lambda>s. Option.bind (strip_prefix ''metadata:'' s) (cid_parse X))"

definition manifest_to_response :: "('c, 'm) crates \<Rightarrow> ('c \<Rightarrow> string option) \<Rightarrow> 'c \<Rightarrow> 'c manifest \<Rightarrow> data_item" where
  "manifest_to_response X base58 cid m =
     \<lparr>di_cid = api_cid_string X base58 cid, di_tree_cid = api_cid_string X base58 (m_tree_cid m), di_dataset_size = m_dataset_size m,
      di_block_size = m_block_size m, di_protected = is_protected m, di_filename = m_filename m, di_mimetype = m_mimetype m\<rparr>"

text \<open>The manifest, and the identifiers its metadata block lists.\<close>

definition load_manifest_metadata ::
  "('c, 'm) crates \<Rightarrow> prost \<Rightarrow> 't store_cfg \<Rightarrow> 't store_backend \<Rightarrow> 'c \<Rightarrow> string \<Rightarrow> ('c manifest \<times> 'c list, api_error) result" where
  "load_manifest_metadata X P C s cid cid_str =
     rbind (map_err (read_err cid_str ''Failed to retrieve block'') (store_get X C cid s)) (\<lambda>block.
     rbind (map_err (\<lambda>_. Internal ''Failed to decode manifest'') (from_block X P block)) (\<lambda>manifest.
     rbind (ok_or (metadata_cid_from_manifest X manifest) (Internal ''Manifest missing metadata CID in filename field'')) (\<lambda>metadata_cid.
     rbind (map_err (read_err ''metadata for manifest not found'' ''Failed to fetch tree metadata'') (store_get X C metadata_cid s)) (\<lambda>mb.
     rbind (map_err (\<lambda>_. Internal ''Failed to deserialize tree metadata'') (deserialize_block_list X (block_data mb))) (\<lambda>block_cids.
       Ok (manifest, block_cids))))))"

definition append_block ::
  "('c, 'm) crates \<Rightarrow> 't store_cfg \<Rightarrow> 't store_backend \<Rightarrow> 'c \<Rightarrow> bytes \<Rightarrow> (bytes, api_error) result" where
  "append_block X C s c data =
     rbind (map_err (read_err ''manifest block not found'' ''Failed to fetch block'') (store_get X C c s))
       (\<lambda>b. Ok (data @ block_data b))"

definition retrieve_local_cid_data ::
  "('c, 'm) crates \<Rightarrow> prost \<Rightarrow> 't store_cfg \<Rightarrow> 't store_backend \<Rightarrow> 'c \<Rightarrow> string \<Rightarrow> (bytes, api_error) result" where
  "retrieve_local_cid_data X P C s cid cid_str =
     rbind (map_err (read_err cid_str ''Failed to retrieve block'') (store_get X C cid s)) (\<lambda>block.
       if cid_codec X cid = 0xcd01 then
         rbind (map_err (\<lambda>_. Internal ''Failed to decode manifest'') (from_block X P block)) (\<lambda>manifest.
         rbind (ok_or (metadata_cid_from_manifest X manifest) (Internal ''Manifest missing metadata CID in filename field'')) (\<lambda>metadata_cid.
         rbind (map_err (read_err ''metadata for manifest not found'' ''Failed to fetch tree metadata'') (store_get X C metadata_cid s)) (\<lambda>mb.
         rbind (map_err (\<lambda>_. Internal ''Failed to deserialize tree metadata'') (deserialize_block_list X (block_data mb))) (\<lambda>block_cids.
         rbind (map_err (\<lambda>_. Internal ''unreachable'') (blocks_count manifest)) (\<lambda>count.
           if length block_cids \<noteq> count then Err (Internal ''Block count mismatch'')
           else rbind (try_fold (append_block X C s) block_cids []) (\<lambda>data.
             if length data \<noteq> m_dataset_size manifest then Err (Internal ''Data size mismatch'') else Ok data))))))
       else Ok (block_data block))"

text \<open>The bytes of one block that lie in the range; a slice out of bounds panics.\<close>

definition range_step ::
  "('c, 'm) crates \<Rightarrow> 't store_cfg \<Rightarrow> 't store_backend \<Rightarrow> nat \<Rightarrow> 'c list \<Rightarrow> nat \<Rightarrow> nat \<Rightarrow> nat \<Rightarrow> bytes \<Rightarrow> (bytes, api_error) result" where
  "range_step X C s block_size block_cids range_start range_end idx data =
     rbind (index_vec block_cids idx) (\<lambda>c.
     rbind (map_err (read_err ''manifest block not found'' ''Failed to fetch block'') (store_get X C c s)) (\<lambda>b.
       (let block_start_byte = idx * block_size in
        rbind (if idx = range_start div block_size then psub range_start block_start_byte else Ok 0) (\<lambda>slice_start.
        rbind (if idx = (range_end - 1) div block_size
               then rbind (psub range_end block_start_byte) (\<lambda>e. Ok (min e (length (block_data b)))) else Ok (length (block_data b))) (\<lambda>slice_end.
          if slice_start \<le> slice_end \<and> slice_end \<le> length (block_data b)
          then Ok (data @ subvec slice_start slice_end (block_data b)) else Panic)))))"

definition retrieve_manifest_range ::
  "('c, 'm) crates \<Rightarrow> 't store_cfg \<Rightarrow> 't store_backend \<Rightarrow> 'c manifest \<Rightarrow> 'c list \<Rightarrow> nat \<Rightarrow> nat \<Rightarrow> (bytes, api_error) result" where
  "retrieve_manifest_range X C s manifest block_cids range_start range_end =
     (let block_size = m_block_size manifest in
      if block_size = 0 then Panic
      else let first_block = range_start div block_size in
        rbind (psub range_end 1) (\<lambda>last_byte.
        rbind (psub range_end range_start) (\<lambda>_.
        rbind (psub (length block_cids) 1) (\<lambda>last_index.
          try_fold (range_step X C s block_size block_cids range_start range_end)
            [first_block..<Suc (min (last_byte div block_size) last_index)] []))))"

definition archivist_list_data ::
  "('c, 'm) crates \<Rightarrow> prost \<Rightarrow> ('c \<Rightarrow> string option) \<Rightarrow> 't store_cfg \<Rightarrow> 't store_backend \<Rightarrow> data_item list" where
  "archivist_list_data X P base58 C s =
     concat (map (\<lambda>cid. if cid_codec X cid \<noteq> 0xcd01 then []
       else case store_get X C cid s of
         Ok block \<Rightarrow> (case from_block X P block of Ok m \<Rightarrow> [manifest_to_response X base58 cid m] | _ \<Rightarrow> [])
       | _ \<Rightarrow> []) (store_list_cids X C s))"

section \<open>Downloads\<close>

definition contains :: "string \<Rightarrow> string \<Rightarrow> bool" where
  "contains s sub = list_ex (\<lambda>i. take (length sub) (drop i s) = sub) [0..<Suc (length s)]"

definition directory_json :: "('c, 'm) crates \<Rightarrow> string \<Rightarrow> 'c directory_manifest \<Rightarrow> http_body" where
  "directory_json X cid_str d =
     DirectoryJson cid_str (dm_name d) (dm_total_size d)
       (map (\<lambda>e. (de_name e, cid_to_string X (de_cid e), de_size e, de_is_directory e,
          if de_mimetype e = [] then None else Some (de_mimetype e))) (dm_entries d))"

text \<open>\<open>page\<close> renders the HTML listing of a directory.\<close>

definition directory_response ::
  "('c, 'm) crates \<Rightarrow> dir_prost \<Rightarrow> ('c directory_manifest \<Rightarrow> 'c \<Rightarrow> string) \<Rightarrow> 't store_cfg \<Rightarrow> 't store_backend \<Rightarrow> request_headers \<Rightarrow> 'c \<Rightarrow> string \<Rightarrow>
     (http_response, api_error) result" where
  "directory_response X D page C s headers cid cid_str =
     rbind (map_err (read_err cid_str ''Failed to retrieve block'') (store_get X C cid s)) (\<lambda>block.
     rbind (map_err (\<lambda>_. Internal ''Failed to decode directory'') (directory_from_block X D block)) (\<lambda>directory.
       (let accept = (case rh_accept headers of Some a \<Rightarrow> a | None \<Rightarrow> ''*/*'') in
        if contains accept ''application/json'' \<and> \<not> contains accept ''text/html''
        then Ok \<lparr>rs_status = 200, rs_headers = [(''Content-Type'', ''application/json'')], rs_body = directory_json X cid_str directory\<rparr>
        else Ok \<lparr>rs_status = 200, rs_headers = [(''Content-Type'', ''text/html; charset=utf-8'')], rs_body = HtmlBody (page directory cid)\<rparr>)))"

definition manifest_range_response ::
  "('c, 'm) crates \<Rightarrow> 't store_cfg \<Rightarrow> 't store_backend \<Rightarrow> 'c manifest \<Rightarrow> 'c list \<Rightarrow> nat \<Rightarrow> nat \<Rightarrow> (http_response, api_error) result" where
  "manifest_range_response X C s manifest block_cids start end_exclusive =
     rbind (retrieve_manifest_range X C s manifest block_cids start end_exclusive) (\<lambda>data.
       Ok (partial_response ''application/octet-stream'' start end_exclusive (m_dataset_size manifest) data))"

definition archivist_download_local ::
  "('c, 'm) crates \<Rightarrow> prost \<Rightarrow> dir_prost \<Rightarrow> ('c directory_manifest \<Rightarrow> 'c \<Rightarrow> string) \<Rightarrow> 't store_cfg \<Rightarrow> 't store_backend \<Rightarrow> request_headers \<Rightarrow> string \<Rightarrow>
     (http_response, api_error) result" where
  "archivist_download_local X P D page C s headers cid_str =
     rbind (parse_cid_path X cid_str) (\<lambda>cid.
       if is_directory X cid then directory_response X D page C s headers cid cid_str
       else if cid_codec X cid = 0xcd01 then
         rbind (load_manifest_metadata X P C s cid cid_str) (\<lambda>(manifest, block_cids).
           case rh_range headers of
             Some range_str \<Rightarrow>
               rbind (parse_range_header range_str (m_dataset_size manifest)) (\<lambda>parsed.
                 case parsed of
                   Some (start, end_exclusive) \<Rightarrow> manifest_range_response X C s manifest block_cids start end_exclusive
                 | None \<Rightarrow> Ok (unsatisfiable_response (m_dataset_size manifest)))
           | None \<Rightarrow>
             rbind (retrieve_local_cid_data X P C s cid cid_str) (\<lambda>data.
               build_range_response headers data ''application/octet-stream''))
       else rbind (retrieve_local_cid_data X P C s cid cid_str) (\<lambda>data.
              build_range_response headers data ''application/octet-stream''))"

definition archivist_download_network_manifest ::
  "('c, 'm) crates \<Rightarrow> prost \<Rightarrow> ('c \<Rightarrow> string option) \<Rightarrow> 't store_cfg \<Rightarrow> 't store_backend \<Rightarrow> string \<Rightarrow> (data_item, api_error) result" where
  "archivist_download_network_manifest X P base58 C s cid_str =
     rbind (parse_cid_path X cid_str) (\<lambda>cid.
     rbind (map_err (read_err cid_str ''Failed to retrieve manifest'') (store_get X C cid s)) (\<lambda>block.
     rbind (map_err (\<lambda>_. Internal ''Failed to decode manifest'') (from_block X P block)) (\<lambda>m.
       Ok (manifest_to_response X base58 cid m))))"

section \<open>Deletion and existence\<close>

definition delete_quietly :: "('c, 'm) crates \<Rightarrow> 't store_cfg \<Rightarrow> 'c \<Rightarrow> 't store_backend \<Rightarrow> 't store_backend" where
  "delete_quietly X C c s = snd (store_delete X C c s)"

definition delete_dataset :: "('c, 'm) crates \<Rightarrow> prost \<Rightarrow> 't store_cfg \<Rightarrow> 'c \<Rightarrow> 't store_backend \<Rightarrow> 't store_backend" where
  "delete_dataset X P C cid s =
     (case store_get X C cid s of
        Ok manifest_block \<Rightarrow>
          (case from_block X P manifest_block of
             Ok manifest \<Rightarrow>
               (case metadata_cid_from_manifest X manifest of
                  Some mc \<Rightarrow>
                    delete_quietly X C mc
                      (case store_get X C mc s of
                         Ok metadata_block \<Rightarrow>
                           (case deserialize_block_list X (block_data metadata_block) of
                              Ok block_cids \<Rightarrow> fold (delete_quietly X C) block_cids s
                            | _ \<Rightarrow> s)
                       | _ \<Rightarrow> s)
                | None \<Rightarrow> s)
           | _ \<Rightarrow> s)
      | _ \<Rightarrow> s)"

definition archivist_delete ::
  "('c, 'm) crates \<Rightarrow> prost \<Rightarrow> 't store_cfg \<Rightarrow> string \<Rightarrow> 't store_backend \<Rightarrow> (nat, api_error) result \<times> 't store_backend" where
  "archivist_delete X P C cid_str s =
     (case parse_cid_path X cid_str of
        Ok cid \<Rightarrow> (Ok 204, delete_quietly X C cid (if cid_codec X cid = 0xcd01 then delete_dataset X P C cid s else s))
      | Err e \<Rightarrow> (Err e, s)
      | Panic \<Rightarrow> (Panic, s))"

definition archivist_exists ::
  "('c, 'm) crates \<Rightarrow> 't store_cfg \<Rightarrow> 't store_backend \<Rightarrow> string \<Rightarrow> (string \<times> bool, api_error) result" where
  "archivist_exists X C s cid_str = rbind (parse_cid_path X cid_str) (\<lambda>cid. Ok (cid_str, store_has X C cid s))"

section \<open>Asking other nodes\<close>

text \<open>
  \<open>http\<close> is \<open>client.get(url).send()\<close> followed by \<open>bytes()\<close>: \<open>None\<close> for a transport error, the
  status and the body, \<open>None\<close> when reading it fails. \<open>peers\<close> is the list after shuffling.
\<close>

type_synonym http_client = "string \<Rightarrow> (nat \<times> bytes option) option"

definition is_success :: "nat \<Rightarrow> bool" where
  "is_success status \<longleftrightarrow> 200 \<le> status \<and> status < 300"

fun ask_peers ::
  "('c, 'm) crates \<Rightarrow> http_client \<Rightarrow> 't store_cfg \<Rightarrow> 'c \<Rightarrow> string \<Rightarrow> string list \<Rightarrow> 't store_backend \<Rightarrow> (bytes, api_error) result \<times> 't store_backend" where
  "ask_peers X http C cid cid_str [] s = (Err (NotFound cid_str), s)"
| "ask_peers X http C cid cid_str (base_url # peers) s =
     (case http (base_url @ ''/api/archivist/v1/data/'' @ cid_str @ ''/network/stream'') of
        Some (status, Some data) \<Rightarrow>
          if is_success status then
            (if cid_codec X cid \<noteq> 0xcd01
             then (case map_err (\<lambda>_. Internal ''Failed to create block'') (from_cid_and_data X cid data) of
                     Ok block \<Rightarrow>
                       (case put_or ''Failed to store block'' X C block s of (r, s') \<Rightarrow> (rbind r (\<lambda>_. Ok data), s'))
                   | Err e \<Rightarrow> (Err e, s)
                   | Panic \<Rightarrow> (Panic, s))
             else (Ok data, s))
          else ask_peers X http C cid cid_str peers s
      | _ \<Rightarrow> ask_peers X http C cid cid_str peers s)"

definition fetch_cid_from_peers ::
  "('c, 'm) crates \<Rightarrow> http_client \<Rightarrow> string list \<Rightarrow> 't store_cfg \<Rightarrow> 'c \<Rightarrow> string \<Rightarrow> 't store_backend \<Rightarrow> (bytes, api_error) result \<times> 't store_backend" where
  "fetch_cid_from_peers X http peers C cid cid_str s = ask_peers X http C cid cid_str (take 25 peers) s"

definition try_manifest_range ::
  "('c, 'm) crates \<Rightarrow> prost \<Rightarrow> 't store_cfg \<Rightarrow> 't store_backend \<Rightarrow> request_headers \<Rightarrow> 'c \<Rightarrow> string \<Rightarrow> (http_response option, api_error) result" where
  "try_manifest_range X P C s headers cid cid_str =
     (if cid_codec X cid = 0xcd01
      then (case load_manifest_metadata X P C s cid cid_str of
              Ok (manifest, block_cids) \<Rightarrow>
                (case rh_range headers of
                   Some range_str \<Rightarrow>
                     rbind (parse_range_header range_str (m_dataset_size manifest)) (\<lambda>parsed.
                       case parsed of
                         Some (start, e) \<Rightarrow> rbind (manifest_range_response X C s manifest block_cids start e) (\<lambda>resp. Ok (Some resp))
                       | None \<Rightarrow> Ok None)
                 | None \<Rightarrow> Ok None)
            | Err _ \<Rightarrow> Ok None
            | Panic \<Rightarrow> Panic)
      else Ok None)"

definition archivist_download ::
  "('c, 'm) crates \<Rightarrow> prost \<Rightarrow> http_client \<Rightarrow> string list \<Rightarrow> 't store_cfg \<Rightarrow> request_headers \<Rightarrow> string \<Rightarrow> 't store_backend \<Rightarrow>
     (http_response, api_error) result \<times> 't store_backend" where
  "archivist_download X P http peers C headers cid_str s =
     (case parse_cid_path X cid_str of
        Err e \<Rightarrow> (Err e, s)
      | Panic \<Rightarrow> (Panic, s)
      | Ok cid \<Rightarrow>
        (case try_manifest_range X P C s headers cid cid_str of
           Err e \<Rightarrow> (Err e, s)
         | Panic \<Rightarrow> (Panic, s)
         | Ok (Some resp) \<Rightarrow> (Ok resp, s)
         | Ok None \<Rightarrow>
           (let answer = (case retrieve_local_cid_data X P C s cid cid_str of
                  Err (NotFound _) \<Rightarrow> fetch_cid_from_peers X http peers C cid cid_str s
                | r \<Rightarrow> (r, s))
            in (rbind (fst answer) (\<lambda>data. build_range_response headers data ''application/octet-stream''), snd answer))))"

end
