(* ===== verification/Upload_Download.thy ===== *)
theory Upload_Download
  imports Upload_Result Api_Download
begin

text \<open>
  Upload and download composed: what was uploaded is what a download returns, in full and by range.
  The hash function is assumed free of collisions only on the data that is stored and on the blocks
  of this upload.
\<close>

section \<open>Laws and sizes\<close>

definition api_laws :: "('c, 'm) crates \<Rightarrow> prost \<Rightarrow> ('c \<Rightarrow> string option) \<Rightarrow> bool" where
  "api_laws X P base58 \<longleftrightarrow> hash_laws X \<and> cid_v1_law X \<and> cid_bytes_law X \<and> cid_string_law X \<and> prost_law P
     \<and> (\<forall>c str. base58 c = Some str \<longrightarrow> cid_parse X str = Some c)
     \<and> (\<forall>d. length (cid_to_bytes X (data_cid X d)) < 2 ^ 32)"

definition upload_fits :: "upload_cfg \<Rightarrow> bytes \<Rightarrow> bool" where
  "upload_fits K body \<longleftrightarrow> 0 < uc_block_size K \<and> uc_block_size K < 2 ^ 32 \<and> length (cut_every (uc_block_size K) body) < 2 ^ 32
     \<and> length body + uc_block_size K < 2 ^ 64"

text \<open>Every byte string that the upload hashes.\<close>

definition upload_data :: "('c, 'm) crates \<Rightarrow> prost \<Rightarrow> upload_cfg \<Rightarrow> bytes \<Rightarrow> bytes set" where
  "upload_data X P K body =
     set (cut_every (uc_block_size K) body)
     \<union> closing_data X P (uc_block_size K) (length body) (map (data_cid X) (cut_every (uc_block_size K) body))"

definition dataset_in :: "('c, 'm) crates \<Rightarrow> prost \<Rightarrow> 't store_cfg \<Rightarrow> 't store_backend \<Rightarrow> nat \<Rightarrow> bytes \<Rightarrow> 'c \<Rightarrow> bool" where
  "dataset_in X P C s bs body c \<longleftrightarrow> published X P C bs (length body) (map (data_cid X) (cut_every bs body)) s c
     \<and> pieces_stored X C s (cut_every bs body) \<and> cid_codec X c = MANIFEST_CODEC"

section \<open>An upload leaves the dataset\<close>

lemma upload_dataset:
  assumes "api_laws X P base58" "upload_fits K (contents body)"
    and "inj_on (sha256 X) (stored_data X C s \<union> upload_data X P K (contents body))"
    and "room X C (stored_data X C s \<union> upload_data X P K (contents body)) (length (cut_every (uc_block_size K) (contents body)) + 2) s"
    and "archivist_upload X P base58 C K sched body s = Some (Ok cid_str, u)"
  obtains c k where "cid_parse X cid_str = Some c" "dataset_in X P C (up_store u) (uc_block_size K) (contents body) c"
    "room X C (stored_data X C s \<union> upload_data X P K (contents body)) 0 (up_store u)" "contents body \<noteq> []"
proof -
  let ?A = "stored_data X C s \<union> upload_data X P K (contents body)" and ?ps = "cut_every (uc_block_size K) (contents body)"
  have laws: "hash_laws X" "cid_v1_law X" "cid_string_law X" "\<And>c str. base58 c = Some str \<Longrightarrow> cid_parse X str = Some c"
    using assms(1) by (auto simp: api_laws_def)
  have sub: "set ?ps \<subseteq> ?A" by (auto simp: upload_data_def)
  have uok: "upload_ok X ?A K (contents body)" using assms(2,3) laws(1) sub by (auto simp: upload_ok_def upload_fits_def)
  obtain r u1 where str: "upload_stream X C K sched body (start_upload K s) = Some (r, u1)"
    using assms(5) by (auto simp: archivist_upload_def bind_eq_Some_conv)
  then have "r = Ok ()" using assms(5) by (cases r) (auto simp: archivist_upload_def)
  then obtain cids w c s' where st: "upload_stream X C K sched body (start_upload K s) = Some (Ok (), u1)"
    and fin: "finish_blocks X C K sched u1 = (Ok cids, w)" and sz: "up_size w \<noteq> 0"
    and pub: "publish_dataset X P C (uc_block_size K) (up_size w) cids (up_store w) = (Ok c, s')"
    and res: "cid_str = api_cid_string X base58 c" "u = w\<lparr>up_store := s'\<rparr>"
    using assms(5) str by (auto simp: archivist_upload_def result_simps split: result.splits prod.splits if_splits)
  have "stream_inv X C ?A K (contents body) (contents body) (start_upload K s)"
    by (rule start_inv) (use assms(2,4) in \<open>auto simp: upload_fits_def\<close>)
  then have s1: "stream_inv X C ?A K (contents body) [] u1" "up_size u1 = length (contents body)"
    using upload_stream_inv [OF uok _ st] by (auto simp: start_upload_def)
  note fb = finish_blocks_correct [OF uok s1(1) fin]
  have size: "up_size w = length (contents body)" using fb(4) s1(2) by simp
  have cl: "closing_data X P (uc_block_size K) (up_size w) cids \<subseteq> ?A" unfolding fb(1) size by (auto simp: upload_data_def)
  note pc = publish_correct [OF laws(1,2) assms(3) fb(3) cl pub]
  have "cid_parse X cid_str = Some c"
    using laws(3,4) by (auto simp: res(1) api_cid_string_def cid_string_law_def split: option.splits)
  moreover have "dataset_in X P C s' (uc_block_size K) (contents body) c"
    using pc(2,3,4) fb(1,2) size by (auto simp: dataset_in_def pieces_stored_def stored_def)
  moreover have "contents body \<noteq> []" using sz size by auto
  ultimately show ?thesis using that pc(1) res(2) by auto
qed

section \<open>Reading a dataset\<close>

lemma strip_prefix_append [simp]: "strip_prefix p (p @ s) = Some s"
  by (simp add: strip_prefix_def)

lemma dataset_manifest_fits:
  assumes "bs < 2 ^ 32"
  shows "manifest_fits (dataset_manifest X bs n tree_cid mc)"
  using assms by (simp add: manifest_fits_def dataset_manifest_def manifest_new_def BLOCK_CODEC_def SHA256_CODEC_def)

lemma deserialize_serialize:
  assumes "cid_bytes_law X" "length cids < 2 ^ 32" "\<And>c. c \<in> set cids \<Longrightarrow> length (cid_to_bytes X c) < 2 ^ 32" "at_block_cids t = cids"
  shows "deserialize_block_list X (serialize_block_list X t) = Ok cids"
proof -
  have "le_nat (le_bytes 4 (length cids mod 2 ^ 32)) = length cids" using assms(2) by simp
  then show ?thesis
    using deserialize_loop_serialize [OF assms(1), of cids "[]"] assms(2,3,4)
    by (simp add: deserialize_block_list_def serialize_block_list_def cursor_read_def)
qed

lemma load_dataset:
  assumes "api_laws X P base58" "upload_fits K body" "dataset_in X P C s (uc_block_size K) body c" "reads_ok X C s" "room X C A k s"
  obtains m block where "store_get X C c s = Ok block" "from_block X P block = Ok m" "load_manifest_metadata X P C s c cid_str
      = Ok (m, map (data_cid X) (cut_every (uc_block_size K) body))"
    "m_block_size m = uc_block_size K" "m_dataset_size m = length body" "cid_codec X c = 0xcd01"
    "\<exists>mc mb. metadata_cid_from_manifest X m = Some mc \<and> store_get X C mc s = Ok mb
       \<and> deserialize_block_list X (block_data mb) = Ok (map (data_cid X) (cut_every (uc_block_size K) body))"
proof -
  let ?bs = "uc_block_size K" and ?cids = "map (data_cid X) (cut_every (uc_block_size K) body)"
  have laws: "hash_laws X" "cid_v1_law X" "cid_bytes_law X" "cid_string_law X" "prost_law P"
    "\<And>d. length (cid_to_bytes X (data_cid X d)) < 2 ^ 32" using assms(1) by (auto simp: api_laws_def)
  obtain tree tree_cid fb where t: "tree_new X ?cids = Some (Ok tree)"
    and mb: "store_look X C s (data_cid X (serialize_block_list X tree)) = Some (serialize_block_list X tree)"
    and fb: "to_block X P (dataset_manifest X ?bs (length body) tree_cid (data_cid X (serialize_block_list X tree))) = Ok fb"
    and c: "block_cid fb = c" "store_look X C s c = Some (block_data fb)" and codec: "cid_codec X c = MANIFEST_CODEC"
    using assms(3) by (auto simp: dataset_in_def published_def)
  let ?m = "dataset_manifest X ?bs (length body) tree_cid (data_cid X (serialize_block_list X tree))"
  let ?mc = "data_cid X (serialize_block_list X tree)"
  have m: "m_version ?m = 1" "m_hcodec ?m = SHA256_CODEC" by (simp_all add: dataset_manifest_def manifest_new_def)
  note enc = to_block_addressed(4) [OF laws(1,2) m fb]
  have dec: "manifest_decode X P (block_data fb) = Ok ?m"
  proof -
    obtain bs where "manifest_encode X P ?m = Ok bs" "manifest_decode X P bs = Ok (narrow ?m)"
      by (rule manifest_decode_encode [OF laws(5,3)])
    moreover have "narrow ?m = ?m" by (rule narrow_id [OF dataset_manifest_fits]) (use assms(2) in \<open>simp add: upload_fits_def\<close>)
    ultimately show ?thesis using enc by simp
  qed
  have g: "store_get X C c s = Ok \<lparr>block_cid = c, block_data = block_data fb\<rparr>" by (rule store_get_reads [OF assms(4,5) c(2)])
  have fr: "from_block X P \<lparr>block_cid = c, block_data = block_data fb\<rparr> = Ok ?m" using codec dec by (simp add: from_block_def)
  have md: "metadata_cid_from_manifest X ?m = Some ?mc"
    using laws(4) by (simp add: metadata_cid_from_manifest_def dataset_manifest_def manifest_new_def cid_string_law_def strip_prefix_def)
  have gm: "store_get X C ?mc s = Ok \<lparr>block_cid = ?mc, block_data = serialize_block_list X tree\<rparr>" by (rule store_get_reads [OF assms(4,5) mb])
  have "at_block_cids tree = ?cids" by (rule tree_newD [OF t]) simp
  then have ds: "deserialize_block_list X (serialize_block_list X tree) = Ok ?cids"
    using deserialize_serialize [OF laws(3), of ?cids tree] assms(2) laws(6) by (auto simp: upload_fits_def)
  have ld: "load_manifest_metadata X P C s c cid_str = Ok (?m, ?cids)" by (simp add: load_manifest_metadata_def g fr md gm ds)
  show ?thesis
    by (rule that [OF g fr ld])
      (use md gm ds codec in \<open>auto simp: dataset_manifest_def manifest_new_def MANIFEST_CODEC_def\<close>)
qed

lemma append_blocks:
  assumes "reads_ok X C s" "room X C A k s" "pieces_stored X C s ps"
  shows "try_fold (append_block X C s) (map (data_cid X) ps) acc = Ok (acc @ concat ps)"
  using assms(3)
  by (induction ps arbitrary: acc) (simp_all add: pieces_stored_def append_block_def stored_def store_get_reads [OF assms(1,2)])

lemma retrieve_dataset:
  assumes "api_laws X P base58" "upload_fits K body" "dataset_in X P C s (uc_block_size K) body c" "reads_ok X C s" "room X C A k s"
  shows "retrieve_local_cid_data X P C s c cid_str = Ok body"
proof -
  let ?bs = "uc_block_size K" and ?ps = "cut_every (uc_block_size K) body"
  obtain m block mc mb where g: "store_get X C c s = Ok block" "from_block X P block = Ok m" "m_block_size m = ?bs" "m_dataset_size m = length body"
    "cid_codec X c = 0xcd01" "metadata_cid_from_manifest X m = Some mc" "store_get X C mc s = Ok mb"
    "deserialize_block_list X (block_data mb) = Ok (map (data_cid X) ?ps)"
    by (rule load_dataset [OF assms, of undefined]) blast
  have pos: "0 < ?bs" "length body + ?bs < 2 ^ 64" using assms(2) by (simp_all add: upload_fits_def)
  have "blocks_count m = Ok ((length body + ?bs - 1) div ?bs)" using g(3,4) pos by (simp add: blocks_count_def padd_def psub_def)
  then have cnt: "blocks_count m = Ok (length ?ps)" using length_cut [OF pos(1), of body] by simp
  have "pieces_stored X C s ?ps" using assms(3) by (simp add: dataset_in_def)
  then have "try_fold (append_block X C s) (map (data_cid X) ?ps) [] = Ok body"
    using append_blocks [OF assms(4,5), of ?ps "[]"] cut_concat [OF pos(1), of body] by simp
  then show ?thesis using g cnt by (simp add: retrieve_local_cid_data_def)
qed

end
