(* ===== verification/Range_Download.thy ===== *)
theory Range_Download
  imports Upload_Download
begin

text \<open>
  Range requests: what \<open>parse_range_header\<close> accepts, and that a range of a dataset is assembled
  from the blocks that overlap it into exactly the requested bytes.
\<close>

section \<open>The header\<close>

lemma parse_range_bounds: "parse_range_header r n = Ok (Some (a, e)) \<Longrightarrow> a < e \<and> e \<le> n"
  by (auto simp: parse_range_header_def Let_def split: option.splits if_splits result.splits)

lemma parse_range_not_Err: "parse_range_header r n \<noteq> Err x"
  by (auto simp: parse_range_header_def Let_def padd_def split: option.splits if_splits result.splits)

lemma digit_not_space: "is_digit c \<Longrightarrow> \<not> is_ascii_space c"
  by (auto simp: is_digit_def is_ascii_space_def Let_def)

definition range_text :: "nat \<Rightarrow> nat option \<Rightarrow> string" where
  "range_text a b = ''bytes='' @ show_nat a @ ''-'' @ (case b of Some n \<Rightarrow> show_nat n | None \<Rightarrow> [])"

lemma trim_range_text: "trim (range_text a b) = range_text a b"
proof (rule trim_id)
  show "\<not> is_ascii_space (last (range_text a b))"
  proof (cases b)
    case None
    then show ?thesis by (simp add: range_text_def is_ascii_space_def)
  next
    case (Some n)
    have d: "show_nat n \<noteq> []" "list_all is_digit (show_nat n)" using show_nat_digits [of n] by auto
    then have "is_digit (last (show_nat n))" by (simp add: list_all_iff)
    then show ?thesis using d(1) Some by (simp add: range_text_def digit_not_space)
  qed
qed (simp_all add: range_text_def is_ascii_space_def)

lemma parse_range_text:
  assumes "a < 2 ^ 64" "\<And>n. b = Some n \<Longrightarrow> n < 2 ^ 64"
  shows "parse_range_header (range_text a b) total_len =
    (case (case b of None \<Rightarrow> Ok total_len | Some n \<Rightarrow> padd 64 n 1) of
       Ok e \<Rightarrow> Ok (if total_len \<le> a \<or> e \<le> a then None else Some (a, min e total_len)) | Err x \<Rightarrow> Err x | Panic \<Rightarrow> Panic)"
proof -
  let ?t = "case b of Some n \<Rightarrow> show_nat n | None \<Rightarrow> []"
  have p: "strip_prefix ''bytes='' (range_text a b) = Some (show_nat a @ CHR ''-'' # ?t)" by (simp add: range_text_def strip_prefix_def)
  have sp: "split_on (CHR ''-'') (show_nat a @ CHR ''-'' # ?t) = [show_nat a, ?t]"
    using show_nat_no_dash by (auto simp: split_on_sep split_on_free split: option.splits)
  have pa: "parse_uint 64 (show_nat a) = Some a" by (rule parse_show_nat [OF assms(1)])
  show ?thesis
  proof (cases b)
    case None
    then show ?thesis using p sp pa by (simp add: parse_range_header_def trim_range_text)
  next
    case (Some n)
    have "parse_uint 64 (show_nat n) = Some n" "show_nat n \<noteq> []" using parse_show_nat [OF assms(2) [OF Some]] show_nat_digits [of n] by simp_all
    then show ?thesis using p sp pa Some by (simp add: parse_range_header_def trim_range_text padd_def)
  qed
qed



section \<open>Assembling a range\<close>

lemma cut_nth: "0 < n \<Longrightarrow> i < length (cut_every n xs) \<Longrightarrow> cut_every n xs ! i = take n (drop (i * n) xs)"
proof (induction n xs arbitrary: i rule: cut_every.induct)
  case (1 n xs)
  then have c: "xs \<noteq> []" "cut_every n xs = take n xs # cut_every n (drop n xs)" by (auto simp: cut_every.simps [of n xs])
  show ?case
  proof (cases i)
    case (Suc j)
    then show ?thesis using 1(1) [of j] 1(2,3) c by (simp add: add.commute)
  qed (simp add: c)
qed

lemma piece_subvec:
  assumes "0 < n" "i < length (cut_every n xs)"
  shows "cut_every n xs ! i = subvec (i * n) (min (Suc i * n) (length xs)) xs" "i * n < length xs"
proof -
  have "length (cut_every n xs) = (length xs + n - 1) div n" by (rule length_cut [OF assms(1)])
  then have "Suc i \<le> (length xs + n - 1) div n" using assms(2) by simp
  then have "Suc i * n \<le> length xs + n - 1" using assms(1) by (simp add: less_eq_div_iff_mult_less_eq)
  then show l: "i * n < length xs" using assms(1) by (simp del: mult_Suc) (simp add: mult.commute)
  show "cut_every n xs ! i = subvec (i * n) (min (Suc i * n) (length xs)) xs"
    unfolding cut_nth [OF assms] subvec_def using l by (auto simp: min_def)
qed

lemma range_step_piece:
  assumes "reads_ok X C s" "room X C A k s" "pieces_stored X C s (cut_every bs body)" "0 < bs" "a < e" "e \<le> length body"
    and "a div bs \<le> i" "i \<le> (e - 1) div bs"
  shows "range_step X C s bs (map (data_cid X) (cut_every bs body)) a e i data
    = Ok (data @ subvec (max a (i * bs)) (min e (Suc i * bs)) body)"
proof -
  let ?ps = "cut_every bs body"
  have ib: "i * bs \<le> e - 1" using assms(4,8) by (simp add: less_eq_div_iff_mult_less_eq)
  have i: "i < length ?ps"
  proof -
    have "Suc i * bs \<le> length body + bs - 1" using ib assms(5,6) by simp
    then show ?thesis unfolding length_cut [OF assms(4)] using assms(4) by (simp add: less_eq_div_iff_mult_less_eq Suc_le_eq [symmetric] del: mult_Suc)
  qed
  note pc = piece_subvec [OF assms(4) i]
  define m where "m = min (Suc i * bs) (length body)"
  have pcm: "?ps ! i = subvec (i * bs) m body" and im: "i * bs < m" "m \<le> length body" using pc assms(4) by (auto simp: m_def)
  have len: "length (?ps ! i) = m - i * bs" unfolding pcm by (rule length_subvec) (use im in auto)
  have get: "store_get X C (data_cid X (?ps ! i)) s = Ok \<lparr>block_cid = data_cid X (?ps ! i), block_data = ?ps ! i\<rparr>"
    by (rule store_get_reads [OF assms(1,2)]) (use assms(3) i in \<open>simp add: pieces_stored_def stored_def\<close>)
  define ss where "ss = (if i = a div bs then a - i * bs else 0)"
  define se where "se = (if i = (e - 1) div bs then min (e - i * bs) (m - i * bs) else m - i * bs)"
  have first: "i = a div bs \<Longrightarrow> i * bs \<le> a" "i \<noteq> a div bs \<Longrightarrow> a < i * bs"
    using assms(4,7) div_times_less_eq_dividend [of a bs] by (auto simp: div_less_iff_less_mult [symmetric])
  have ss: "i * bs + ss = max a (i * bs)"
  proof (cases "i = a div bs")
    case True
    then show ?thesis using first(1) [OF True] unfolding ss_def if_P [OF True] by linarith
  next
    case False
    then show ?thesis using first(2) [OF False] by (simp add: ss_def)
  qed
  have last: "i \<noteq> (e - 1) div bs \<Longrightarrow> Suc i * bs \<le> e"
  proof -
    assume "i \<noteq> (e - 1) div bs"
    then have "Suc i \<le> (e - 1) div bs" using assms(8) by simp
    then have "Suc i * bs \<le> e - 1" using assms(4) by (simp add: less_eq_div_iff_mult_less_eq)
    then show "Suc i * bs \<le> e" by simp
  qed
  have se: "i * bs + se = min e (Suc i * bs)"
  proof (cases "i = (e - 1) div bs")
    case True
    then have "e - 1 < Suc i * bs" using assms(4) by (metis dividend_less_times_div mult.commute mult_Suc_right)
    then show ?thesis using ib im assms(5,6) unfolding se_def if_P [OF True] m_def by linarith
  next
    case False
    then show ?thesis using last [OF False] ib im assms(6) by (auto simp: se_def m_def min_def)
  qed
  have le: "ss \<le> se"
  proof -
    have "a < Suc i * bs"
    proof -
      have "a < Suc (a div bs) * bs" using assms(4) by (metis dividend_less_times_div mult.commute mult_Suc_right)
      also have "\<dots> \<le> Suc i * bs" by (rule mult_le_mono1) (use assms(7) in simp)
      finally show ?thesis .
    qed
    then have "max a (i * bs) \<le> min e (Suc i * bs)" using assms(5) ib by simp
    then show ?thesis using ss se by linarith
  qed
  have sel: "se \<le> m - i * bs" by (auto simp: se_def)
  have sub: "subvec ss se (?ps ! i) = subvec (max a (i * bs)) (min e (Suc i * bs)) body"
    unfolding pcm subvec_subvec [OF sel] ss se ..
  have p1: "(if i = a div bs then psub a (i * bs) else Ok 0) = (Ok ss :: (nat, api_error) result)" using first by (simp add: ss_def psub_def)
  have rb: "rbind (psub e (i * bs)) (\<lambda>e. Ok (min e (length (?ps ! i)))) = (Ok (min (e - i * bs) (m - i * bs)) :: (nat, api_error) result)"
    using ib assms(5) unfolding len psub_def by simp
  have p2: "(if i = (e - 1) div bs then rbind (psub e (i * bs)) (\<lambda>e. Ok (min e (length (?ps ! i)))) else Ok (length (?ps ! i)))
      = (Ok se :: (nat, api_error) result)"
  proof (cases "i = (e - 1) div bs")
    case True
    show ?thesis unfolding se_def if_P [OF True] by (rule rb)
  next
    case False
    show ?thesis unfolding se_def if_not_P [OF False] len ..
  qed
  have ix: "index_vec (map (data_cid X) ?ps) i = (Ok (data_cid X (?ps ! i)) :: (_, api_error) result)" using i by (simp add: index_vec_def)
  show ?thesis
    unfolding range_step_def ix rbind.simps get map_err.simps Let_def block.simps p1 p2 using le sel sub len by simp
qed

lemma range_fold:
  assumes "reads_ok X C s" "room X C A k s" "pieces_stored X C s (cut_every bs body)" "0 < bs" "a < e" "e \<le> length body"
  shows "a div bs \<le> j \<Longrightarrow> j \<le> Suc ((e - 1) div bs) \<Longrightarrow>
    try_fold (range_step X C s bs (map (data_cid X) (cut_every bs body)) a e) [a div bs..<j] [] = Ok (subvec a (min e (j * bs)) body)"
proof (induction j)
  case 0
  then show ?case by (simp add: subvec_def)
next
  case (Suc j)
  show ?case
  proof (cases "a div bs \<le> j")
    case True
    note st = range_step_piece [OF assms True, of "subvec a (min e (j * bs)) body"]
    have IH: "try_fold (range_step X C s bs (map (data_cid X) (cut_every bs body)) a e) [a div bs..<j] [] = Ok (subvec a (min e (j * bs)) body)"
      using Suc True by simp
    have jb: "j * bs \<le> e - 1" using Suc(3) assms(4) by (simp add: less_eq_div_iff_mult_less_eq)
    have "subvec a (min e (j * bs)) body @ subvec (max a (j * bs)) (min e (Suc j * bs)) body = subvec a (min e (Suc j * bs)) body"
    proof (cases "a \<le> j * bs")
      case True
      have "min e (j * bs) = j * bs" "max a (j * bs) = j * bs" "j * bs \<le> min e (Suc j * bs)" using True jb assms(5) by auto
      then show ?thesis using True by simp
    next
      case False
      then have "min e (j * bs) \<le> a" "max a (j * bs) = a" by auto
      then show ?thesis by (simp add: subvec_def)
    qed
    then show ?thesis using IH st Suc(3) True by (simp add: try_fold_append)
  next
    case False
    then have "Suc j = a div bs" using Suc(2) by simp
    then have "Suc j * bs \<le> a" using div_times_less_eq_dividend [of a bs] by simp
    then have "min e (Suc j * bs) - a = 0" by linarith
    then show ?thesis using \<open>Suc j = a div bs\<close> by (simp add: subvec_def del: mult_Suc)
  qed
qed

lemma retrieve_range:
  assumes "reads_ok X C s" "room X C A k s" "pieces_stored X C s (cut_every bs body)" "0 < bs" "a < e" "e \<le> length body"
    and "m_block_size m = bs"
  shows "retrieve_manifest_range X C s m (map (data_cid X) (cut_every bs body)) a e = Ok (subvec a e body)"
proof -
  let ?last = "(e - 1) div bs" and ?ps = "cut_every bs body"
  have "body \<noteq> []" using assms(5,6) by auto
  then have ne: "?ps \<noteq> []" using assms(4) by (simp add: cut_every.simps [of bs body])
  have "?last * bs \<le> e - 1" by (rule div_times_less_eq_dividend)
  then have "Suc ?last * bs \<le> length body + bs - 1" using assms(4,5,6) unfolding mult_Suc by linarith
  then have "Suc ?last \<le> length ?ps" unfolding length_cut [OF assms(4)] using assms(4) by (simp add: less_eq_div_iff_mult_less_eq del: mult_Suc)
  then have mn: "min ?last (length ?ps - 1) = ?last" by simp
  have ord: "a div bs \<le> Suc ?last" using assms(5) div_le_mono [of a "e - 1" bs] by linarith
  have "e - 1 < Suc ?last * bs" using assms(4) by (metis dividend_less_times_div mult.commute mult_Suc_right)
  then have "e \<le> Suc ?last * bs" by linarith
  then have mi: "min e (Suc ?last * bs) = e" by simp
  have p: "psub e 1 = Ok (e - 1)" "psub e a = Ok (e - a)" "psub (length (map (data_cid X) ?ps)) 1 = Ok (length ?ps - 1)"
    using assms(5) ne by (auto simp: psub_def Suc_le_eq)
  show ?thesis
    using range_fold [OF assms(1-6) ord le_refl] assms(4,7) mn [folded One_nat_def] unfolding mi retrieve_manifest_range_def p rbind.simps Let_def
    by (simp del: upt_Suc)
qed

end
