(* ===== verification/Upload_Live.thy ===== *)
theory Upload_Live
  imports Upload_Download
begin

text \<open>
  An upload on a store that accepts writes succeeds, in both modes and whatever the runtime does
  with the tasks. \<open>W\<close> is any set of stores on which every batch is stored and that is closed under
  storing; the geomtree backend without verification is one.
\<close>

definition writable :: "('c, 'm) crates \<Rightarrow> 't store_cfg \<Rightarrow> 't store_backend set \<Rightarrow> bool" where
  "writable X C W \<longleftrightarrow> (\<forall>s \<in> W. \<forall>blocks. \<exists>s' \<in> W. store_put_many X C blocks s = (Ok (), s'))"

lemma writableD: "writable X C W \<Longrightarrow> s \<in> W \<Longrightarrow> \<exists>s' \<in> W. store_put_many X C blocks s = (Ok (), s')"
  by (simp add: writable_def)

definition live :: "'t store_backend set \<Rightarrow> ('c, 't) upload \<Rightarrow> bool" where
  "live W u \<longleftrightarrow> \<not> doomed u \<and> up_store u \<in> W"

section \<open>Commits\<close>

lemma flush_live:
  assumes "hash_laws X" "writable X C W" "up_store u \<in> W"
  shows "\<exists>v. flush_batch X C workers u = (Ok (), v) \<and> up_store v \<in> W \<and> up_inflight v = up_inflight u"
proof -
  obtain seen cids ts where p: "pick_unseen (map (data_block X) (up_raw_batch u)) (up_seen u) (up_block_cids u) [] = (seen, cids, ts)"
    by (metis prod_cases3)
  obtain s' where s': "s' \<in> W" "store_put_many X C ts (up_store u) = (Ok (), s')" using writableD [OF assms(2,3)] by blast
  show ?thesis using p s' assms(3) by (auto simp: flush_batch_def flush_upload_raw_batch_def hash_batch_Ok [OF assms(1)])
qed

lemma process_live:
  assumes "hash_laws X" "writable X C W" "s \<in> W"
  shows "\<exists>cids s'. process_upload_raw_batch_no_dedupe X C workers b s = (Ok cids, s') \<and> s' \<in> W"
proof -
  obtain s' where "s' \<in> W" "store_put_many X C (map (data_block X) b) s = (Ok (), s')" using writableD [OF assms(2,3)] by blast
  then show ?thesis using assms(3) by (auto simp: process_upload_raw_batch_no_dedupe_def hash_batch_Ok [OF assms(1)])
qed

lemma run_task_live:
  assumes "hash_laws X" "writable X C W" "live W u"
  shows "live W (run_task X C workers i u)"
proof (cases "i < length (up_inflight u) \<and> (\<exists>b. fl_task (up_inflight u ! i) = Todo b)")
  case False
  then have "run_task X C workers i u = u" by (auto simp: run_task_def split: upload_task.splits)
  then show ?thesis using assms(3) by simp
next
  case True
  then obtain b where i: "i < length (up_inflight u)" and b: "fl_task (up_inflight u ! i) = Todo b" by blast
  obtain cids s' where p: "process_upload_raw_batch_no_dedupe X C workers b (up_store u) = (Ok cids, s')" "s' \<in> W"
    using process_live [OF assms(1,2), of "up_store u" workers b] assms(3) by (auto simp: live_def)
  have run: "run_task X C workers i u =
      u\<lparr>up_inflight := (up_inflight u)[i := (up_inflight u ! i)\<lparr>fl_task := Done (Ok cids)\<rparr>], up_store := s'\<rparr>"
    using i b p(1) by (simp add: run_task_def)
  have "set ((up_inflight u)[i := f]) \<subseteq> insert f (set (up_inflight u))" for f by (rule set_update_subset_insert)
  then show ?thesis using assms(3) p(2) unfolding run live_def doomed_def by fastforce
qed

lemma run_tasks_live:
  "hash_laws X \<Longrightarrow> writable X C W \<Longrightarrow> live W u \<Longrightarrow> live W (fold (run_task X C workers) is u)"
  by (induction "is" arbitrary: u) (auto intro: run_task_live)

lemma drain_live:
  assumes "hash_laws X" "inj_on (sha256 X) A" "set PS \<subseteq> A" "length PS < 2 ^ 64" "writable X C W"
  shows "parallel_inv X C A k PS u \<Longrightarrow> live W u \<Longrightarrow> \<exists>z. drain_inflight X C workers sched limit u = (Ok (), z) \<and> live W z"
proof (induction "length (up_inflight u)" arbitrary: u rule: less_induct)
  case less
  show ?case
  proof (cases "limit < length (up_inflight u)")
    case False
    then show ?thesis using less(3) by (simp add: drain_inflight.simps [of _ _ _ _ _ u])
  next
    case True
    let ?i = "snd (sched (up_awaits u)) mod length (up_inflight u)"
    let ?v = "run_task X C workers ?i (fold (run_task X C workers) (fst (sched (up_awaits u))) u)"
    let ?w = "?v\<lparr>up_inflight := take ?i (up_inflight ?v) @ drop (Suc ?i) (up_inflight ?v), up_awaits := Suc (up_awaits ?v)\<rparr>"
    have nc: "next_completed X C workers sched u = (up_inflight ?v ! ?i, ?w)" by (simp add: next_completed_def Let_def)
    have "0 < length (up_inflight u)" using True by linarith
    then have i: "?i < length (up_inflight ?v)" by simp
    have inv: "parallel_inv X C A k PS ?v" by (intro run_task_inv run_tasks_inv assms(1-3) less(2))
    have lv: "live W ?v" by (intro run_task_live run_tasks_live assms(1,5) less(3))
    then have g: "good_inv X C A k PS ?v" using inv by (simp add: live_def parallel_inv_def)
    obtain r0 where r0: "fl_task (up_inflight ?v ! ?i) = Done r0"
      using run_task_done [of ?i "fold (run_task X C workers) (fst (sched (up_awaits u))) u" X C workers] i by auto
    let ?f = "up_inflight ?v ! ?i"
    have fi: "flight_inv X C (up_store ?v) PS ?f" using g i by (simp add: good_inv_def)
    then have r: "r0 = Ok (map (data_cid X) (subvec (fl_start ?f) (fl_start ?f + fl_len ?f) PS))" and bd: "fl_start ?f + fl_len ?f \<le> length PS"
      using r0 by (auto simp: flight_inv_def Let_def)
    have len: "length (subvec (fl_start ?f) (fl_start ?f + fl_len ?f) PS) = fl_len ?f" using bd by (simp add: length_subvec)
    have "length (up_slots ?v) = length PS" using g by (simp add: good_inv_def)
    then obtain slots where "fill_slots (fl_start ?f) 0 (map (data_cid X) (subvec (fl_start ?f) (fl_start ?f + fl_len ?f) PS)) (up_slots ?v)
        = (Ok (), slots)"
      using fill_slots_spec [of "fl_start ?f" 0 "map (data_cid X) (subvec (fl_start ?f) (fl_start ?f + fl_len ?f) PS)" "up_slots ?v"] bd len assms(4)
      by auto
    then have c: "collect_flight ?f ?w = (Ok (), ?w\<lparr>up_slots := slots\<rparr>)" using r0 r len by (simp add: collect_flight_def)
    let ?z = "?w\<lparr>up_slots := slots\<rparr>"
    have "parallel_inv X C A k PS ?z" by (rule collect_inv [OF inv i r0 assms(4) refl c])
    moreover have "length (up_inflight ?z) < length (up_inflight u)" by (rule await_step [OF True nc [symmetric] c [symmetric]])
    moreover have "live W ?z" using lv by (auto simp: live_def doomed_def dest: in_set_takeD in_set_dropD)
    moreover have "drain_inflight X C workers sched limit u = drain_inflight X C workers sched limit ?z"
      using True nc c by (simp add: drain_inflight.simps [of _ _ _ _ _ u])
    ultimately show ?thesis using less(1) by metis
  qed
qed

lemma commit_live:
  assumes "hash_laws X" "inj_on (sha256 X) A" "set PS \<subseteq> A" "length PS < 2 ^ 64" "writable X C W" "up_inv X C A K k PS u" "live W u"
  shows "\<exists>v. commit_batch X C K sched u = (Ok (), v) \<and> live W v"
proof (cases "uc_dedupe K")
  case True
  obtain v where "flush_batch X C (uc_workers K) u = (Ok (), v)" "up_store v \<in> W" "up_inflight v = up_inflight u"
    using flush_live [OF assms(1,5), of u] assms(7) by (auto simp: live_def)
  then show ?thesis using True assms(7) by (auto simp: commit_batch_def live_def doomed_def)
next
  case False
  have p: "parallel_inv X C A k PS (spawn_batch u)" using spawn_inv [of X C A k PS u] assms(4,6) False by (simp add: up_inv_def)
  have "live W (spawn_batch u)" using assms(7) by (auto simp: live_def doomed_def spawn_batch_def)
  then show ?thesis using drain_live [OF assms(1-5) p] False assms(7) by (auto simp: commit_batch_def)
qed

section \<open>The stream\<close>

lemma live_frame [simp]:
  "live W (u\<lparr>up_size := n\<rparr>) = live W u" "live W (u\<lparr>up_current := c\<rparr>) = live W u" "live W (push_full K u) = live W u"
  by (simp_all add: live_def doomed_def push_full_def)

lemma fill_round_live:
  assumes "upload_ok X A K body" "stream_inv X C A K body (rem @ fut) u" "writable X C W" "live W u"
  shows "\<exists>rem' v. fill_round X C K sched rem u = (Ok (), rem', v) \<and> live W v"
proof -
  define n where "n = min (uc_block_size K - length (up_current u)) (length rem)"
  define c0 where "c0 = up_current u @ take n rem"
  define w where "w = (if length c0 = uc_block_size K then push_full K (u\<lparr>up_current := c0\<rparr>) else u\<lparr>up_current := c0\<rparr>)"
  let ?bs = "uc_block_size K"
  obtain PS where cur: "length (up_current u) < ?bs" and cut: "cut_every ?bs body = PS @ cut_every ?bs (up_current u @ rem @ fut)"
    and inv: "up_inv X C A K (length (cut_every ?bs (up_current u @ rem @ fut)) + 2) PS u"
    using assms(2) by (auto simp: stream_inv_def)
  have join: "up_current u @ rem @ fut = c0 @ drop n rem @ fut"
    unfolding c0_def using append_take_drop_id [of n rem] by (metis append.assoc)
  have ok: "hash_laws X" "inj_on (sha256 X) A" "set (cut_every ?bs body) \<subseteq> A" "length (cut_every ?bs body) < 2 ^ 64"
    using assms(1) by (auto simp: upload_ok_def)
  have "\<exists>k PS'. up_inv X C A K k PS' w \<and> set PS' \<subseteq> A \<and> length PS' < 2 ^ 64"
  proof (cases "length c0 = ?bs")
    case True
    have full: "cut_every ?bs (c0 @ drop n rem @ fut) = c0 # cut_every ?bs (drop n rem @ fut)"
      by (rule cut_full [OF True]) (use cur in simp)
    have "up_inv X C A K (Suc (length (cut_every ?bs (drop n rem @ fut)) + 2)) PS (u\<lparr>up_current := c0\<rparr>)"
      using inv unfolding join full by simp
    from push_full_inv [OF this] show ?thesis using True ok(3,4) cut unfolding join full w_def by fastforce
  next
    case False
    then show ?thesis using inv ok(3,4) cut unfolding w_def by fastforce
  qed
  then obtain k PS' where "up_inv X C A K k PS' w" "set PS' \<subseteq> A" "length PS' < 2 ^ 64" by blast
  moreover have "live W w" using assms(4) by (simp add: w_def)
  ultimately obtain v where "commit_batch X C K sched w = (Ok (), v)" "live W v" using commit_live [OF ok(1,2) _ _ assms(3)] by blast
  moreover have "fill_round X C K sched rem u = (case commit_batch X C K sched w of (r, z) \<Rightarrow> (r, drop n rem, z))"
    by (auto simp: fill_round_def Let_def n_def w_def c0_def)
  ultimately show ?thesis by simp
qed

lemma fill_loop_live:
  assumes "upload_ok X A K body" "writable X C W"
  shows "stream_inv X C A K body (rem @ fut) u \<Longrightarrow> live W u \<Longrightarrow> \<exists>v. fill_loop X C K sched rem u = Some (Ok (), v) \<and> live W v"
proof (induction "length rem" arbitrary: rem u rule: less_induct)
  case less
  show ?case
  proof (cases "rem = []")
    case True
    then show ?thesis using less(3) by (simp add: fill_loop.simps)
  next
    case False
    obtain rem' w where f: "fill_round X C K sched rem u = (Ok (), rem', w)" "live W w"
      using fill_round_live [OF assms(1) less(2) assms(2) less(3)] by blast
    have cur: "length (up_current u) < uc_block_size K" using less(2) by (simp add: stream_inv_def)
    have "fill_loop X C K sched rem u = fill_loop X C K sched rem' w" using False f(1) by (simp add: fill_loop.simps [of _ _ _ _ rem])
    then show ?thesis
      using less(1) [of rem' w] fill_round_progress [OF cur False f(1)] fill_round_inv [OF assms(1) less(2) f(1)] f(2) by auto
  qed
qed

lemma upload_stream_live:
  assumes "upload_ok X A K body" "writable X C W"
  shows "stream_inv X C A K body (contents evs) u \<Longrightarrow> live W u \<Longrightarrow> up_size u + length (contents evs) < 2 ^ 64 \<Longrightarrow> Fail \<notin> set evs \<Longrightarrow>
    \<exists>v. upload_stream X C K sched evs u = Some (Ok (), v) \<and> live W v"
proof (induction evs arbitrary: u)
  case (Cons ev evs)
  then obtain chunk where Data: "ev = Data chunk" by (cases ev) auto
  have ct: "contents (ev # evs) = chunk @ contents evs" by (simp add: contents_def piece_def Data)
  show ?case
  proof (cases "chunk = []")
    case True
    then show ?thesis using Cons Data ct by simp
  next
    case False
    let ?u = "u\<lparr>up_size := up_size u + length chunk\<rparr>"
    have su: "stream_inv X C A K body (chunk @ contents evs) ?u" using Cons(2) unfolding ct by (simp add: stream_inv_def)
    obtain w where w: "fill_loop X C K sched chunk ?u = Some (Ok (), w)" "live W w"
      using fill_loop_live [OF assms su] Cons(3) by auto
    have "length (up_current ?u) < uc_block_size K" using su by (simp add: stream_inv_def)
    then have sz: "up_size w = up_size u + length chunk" using fill_loop_ends [of ?u K X C sched chunk] w(1) by auto
    have "\<exists>v. upload_stream X C K sched evs w = Some (Ok (), v) \<and> live W v"
      by (rule Cons(1) [OF fill_loop_inv [OF assms(1) su w(1)] w(2)]) (use sz Cons(4,5) ct in auto)
    moreover have "checked_add 64 (up_size u) (length chunk) = Some (up_size u + length chunk)" using Cons(4) ct by simp
    ultimately show ?thesis using Data False w(1) by (simp del: checked_add_Some)
  qed
qed simp

lemma finish_live:
  assumes "upload_ok X A K body" "writable X C W" "stream_inv X C A K body [] u" "live W u"
  shows "\<exists>cids w. finish_blocks X C K sched u = (Ok cids, w) \<and> up_store w \<in> W"
proof -
  let ?PS = "cut_every (uc_block_size K) body"
  have ok: "hash_laws X" "inj_on (sha256 X) A" "set ?PS \<subseteq> A" "length ?PS < 2 ^ 64" using assms(1) by (auto simp: upload_ok_def)
  define v where "v = (if up_current u \<noteq> [] then push_full K u else u)"
  have lv: "live W v" using assms(4) by (simp add: v_def)
  show ?thesis
  proof (cases "uc_dedupe K")
    case True
    obtain w where "flush_batch X C (uc_workers K) v = (Ok (), w)" "up_store w \<in> W"
      using flush_live [OF ok(1) assms(2), of v] lv by (auto simp: live_def)
    then show ?thesis using True by (simp add: finish_blocks_def Let_def v_def [symmetric])
  next
    case False
    let ?u = "if up_raw_batch v \<noteq> [] then spawn_batch v else v"
    have inv: "parallel_inv X C A 2 ?PS v"
      using finish_inv [OF assms(3)] False by (simp add: up_inv_def v_def)
    have "parallel_inv X C A 2 ?PS ?u" "live W ?u"
      using inv spawn_inv [OF inv ok(4)] lv by (auto simp: live_def doomed_def spawn_batch_def)
    then obtain w where w: "drain_inflight X C (uc_workers K) sched 0 ?u = (Ok (), w)" "live W w"
      using drain_live [OF ok assms(2)] by blast
    have "length (up_slots w) = length ?PS \<and> (\<forall>i < length ?PS. settled X C ?PS w i)"
      using parallel_finish [OF ok inv w(1)] by blast
    then have "try_map (\<lambda>maybe. ok_or maybe (Internal ''Upload pipeline missing CID slot'')) (up_slots w) = Ok (map (data_cid X) ?PS)"
      by (intro try_map_slots) (auto simp: settled_def)
    then show ?thesis using False w by (simp add: finish_blocks_def Let_def v_def [symmetric] live_def)
  qed
qed

end
