(* ===== verification/Api_Roundtrip.thy ===== *)
theory Api_Roundtrip
  imports Range_Download Upload_Live
begin

text \<open>
  The upload and download handlers composed: an upload terminates, succeeds on a store that accepts
  writes, and both download handlers answer with the bytes that were uploaded, in full and by range.
  A deleted dataset is gone, and data fetched from another node is checked before it is stored.
\<close>

section \<open>Publishing\<close>

lemma dataset_blocks_Ok:
  assumes "api_laws X P base58" "cids \<noteq> []"
  obtains mb fb where "dataset_blocks X P bs n cids = Ok (mb, Ok fb)"
proof -
  have laws: "digest_law X" "mh_wrap_law X" "cid_new_law X" "cid_v1_law X" "cid_bytes_law X" "prost_law P" "hash_laws X"
    using assms(1) by (auto simp: api_laws_def hash_laws_def)
  obtain ls where t: "tree_new X cids = Some (Ok \<lparr>at_layers = map (tree_leaf X) cids # ls, at_block_cids = cids\<rparr>)"
    by (rule tower_new [OF assms(2)])
  let ?t = "\<lparr>at_layers = map (tree_leaf X) cids # ls, at_block_cids = cids\<rparr>"
  obtain tc where r: "root_cid X ?t = Ok tc" using tree_shape [OF t laws(1,2)] by blast
  let ?mb = "data_block X (serialize_block_list X ?t)"
  let ?m = "dataset_manifest X bs n tc (block_cid ?mb)"
  have m: "m_version ?m = 1" "m_hcodec ?m \<in> {BLAKE3_CODEC, SHA256_CODEC}" by (simp_all add: dataset_manifest_def manifest_new_def)
  obtain fb where "to_block X P ?m = Ok fb" using manifest_block [OF laws(6,5,4,3,2,1) m(1)] m(2) by blast
  then have "dataset_blocks X P bs n cids = Ok (?mb, Ok fb)"
    by (simp add: dataset_blocks_def t r data_block_new [OF laws(7)])
  then show ?thesis by (rule that)
qed

lemma publish_live:
  assumes "api_laws X P base58" "cids \<noteq> []" "writable X C W" "s \<in> W"
  shows "\<exists>c s'. publish_dataset X P C bs n cids s = (Ok c, s') \<and> s' \<in> W"
proof -
  obtain mb fb where db: "dataset_blocks X P bs n cids = Ok (mb, Ok fb)" by (rule dataset_blocks_Ok [OF assms(1,2)])
  obtain s1 where s1: "s1 \<in> W" "store_put X C mb s = (Ok (), s1)" using writableD [OF assms(3,4)] by (auto simp: store_put_def)
  obtain s2 where "s2 \<in> W" "store_put X C fb s1 = (Ok (), s2)" using writableD [OF assms(3) s1(1)] by (auto simp: store_put_def)
  then show ?thesis using db s1(2) by (simp add: publish_dataset_def put_or_def)
qed

section \<open>The handlers\<close>

lemma download_dataset:
  assumes "api_laws X P base58" "upload_fits K body" "dataset_in X P C s (uc_block_size K) body c" "reads_ok X C s" "room X C A k s"
    and "cid_parse X cid_str = Some c"
  shows "archivist_download_local X P D page C s headers cid_str = build_range_response headers body ''application/octet-stream''"
    and "archivist_download X P http peers C headers cid_str s = (build_range_response headers body ''application/octet-stream'', s)"
proof -
  let ?cids = "map (data_cid X) (cut_every (uc_block_size K) body)"
  obtain m block where ld: "load_manifest_metadata X P C s c cid_str = Ok (m, ?cids)" "m_block_size m = uc_block_size K"
    "m_dataset_size m = length body" "cid_codec X c = 0xcd01" by (rule load_dataset [OF assms(1-5), of cid_str])
  have nd: "\<not> is_directory X c" using ld(4) by (simp add: is_directory_def DIRECTORY_CODEC_def)
  have pos: "0 < uc_block_size K" using assms(2) by (simp add: upload_fits_def)
  have ps: "pieces_stored X C s (cut_every (uc_block_size K) body)" using assms(3) by (simp add: dataset_in_def)
  note rd = retrieve_dataset [OF assms(1-5), of cid_str]
  have rg: "manifest_range_response X C s m ?cids a e = Ok (partial_response ''application/octet-stream'' a e (length body) (subvec a e body))"
    if "parse_range_header r (length body) = (Ok (Some (a, e)) :: (_, api_error) result)" for r a e
    using retrieve_range [OF assms(4,5) ps pos _ _ ld(2)] parse_range_bounds [OF that] by (simp add: manifest_range_response_def ld(3))
  have path: "parse_cid_path X cid_str = Ok c" using assms(6) by (simp add: parse_cid_path_def)
  let ?local = "archivist_download_local X P D page C s headers cid_str" and ?net = "archivist_download X P http peers C headers cid_str s"
  let ?resp = "build_range_response headers body ''application/octet-stream''"
  have "?local = ?resp \<and> ?net = (?resp, s)"
  proof (cases "rh_range headers")
    case None
    then show ?thesis
      by (simp add: archivist_download_local_def archivist_download_def try_manifest_range_def path nd ld rd Let_def)
  next
    case (Some r)
    show ?thesis
    proof (cases "parse_range_header r (length body) :: (_, api_error) result")
      case (Ok parsed)
      then show ?thesis using Some rg [of r]
        by (cases parsed)
          (auto simp: archivist_download_local_def archivist_download_def try_manifest_range_def path nd ld rd Let_def build_range_response_def)
    next
      case Panic
      then show ?thesis using Some
        by (simp add: archivist_download_local_def archivist_download_def try_manifest_range_def path nd ld build_range_response_def)
    qed (simp add: parse_range_not_Err)
  qed
  then show "?local = ?resp" "?net = (?resp, s)" by auto
qed

section \<open>Termination and success\<close>

lemma upload_ends:
  assumes "0 < uc_block_size K"
  shows "\<exists>r u. archivist_upload X P base58 C K sched body s = Some (r, u)"
proof -
  have "length (up_current (start_upload K s :: ('a, _) upload)) < uc_block_size K" using assms by (simp add: start_upload_def)
  then obtain r u where "upload_stream X C K sched body (start_upload K s) = Some (r, u)" using upload_stream_ends by blast
  then show ?thesis by (auto simp: archivist_upload_def split: result.splits prod.splits)
qed

lemma upload_goes_through:
  assumes "api_laws X P base58" "upload_fits K (contents body)"
    and "inj_on (sha256 X) (stored_data X C s \<union> upload_data X P K (contents body))"
    and "room X C (stored_data X C s \<union> upload_data X P K (contents body)) (length (cut_every (uc_block_size K) (contents body)) + 2) s"
    and "writable X C W" "s \<in> W" "Fail \<notin> set body" "contents body \<noteq> []"
  shows "\<exists>cid_str u. archivist_upload X P base58 C K sched body s = Some (Ok cid_str, u) \<and> up_store u \<in> W"
proof -
  let ?A = "stored_data X C s \<union> upload_data X P K (contents body)" and ?ps = "cut_every (uc_block_size K) (contents body)"
  have fits: "0 < uc_block_size K" "length ?ps < 2 ^ 64" "length (contents body) < 2 ^ 64" using assms(2) by (auto simp: upload_fits_def)
  have uok: "upload_ok X ?A K (contents body)"
    using assms(1,3) fits by (auto simp: upload_ok_def api_laws_def upload_data_def)
  have inv: "stream_inv X C ?A K (contents body) (contents body) (start_upload K s)" by (rule start_inv [OF fits(1) assms(4)])
  have lv: "live W (start_upload K s)" using assms(6) by (simp add: live_def doomed_def start_upload_def)
  have "up_size (start_upload K s) + length (contents body) < 2 ^ 64" using fits(3) by (simp add: start_upload_def)
  then obtain u where u: "upload_stream X C K sched body (start_upload K s) = Some (Ok (), u)" "live W u"
    using upload_stream_live [OF uok assms(5) inv lv _ assms(7)] by blast
  have su: "stream_inv X C ?A K (contents body) [] u" "up_size u = length (contents body)"
    using upload_stream_inv [OF uok inv u(1)] by (auto simp: start_upload_def)
  obtain cids w where w: "finish_blocks X C K sched u = (Ok cids, w)" "up_store w \<in> W"
    using finish_live [OF uok assms(5) su(1) u(2)] by blast
  note fb = finish_blocks_correct [OF uok su(1) w(1)]
  have "?ps \<noteq> []" using fits(1) assms(8) by (simp add: cut_every.simps [of _ "contents body"])
  then have ne: "cids \<noteq> []" using fb(1) by simp
  obtain c s' where "publish_dataset X P C (uc_block_size K) (up_size w) cids (up_store w) = (Ok c, s')" "s' \<in> W"
    using publish_live [OF assms(1) ne assms(5) w(2)] by blast
  then show ?thesis using u(1) w(1) fb(4) su(2) assms(8) by (simp add: archivist_upload_def)
qed

section \<open>A concrete node\<close>

text \<open>A geomtree store without verification, blocks of two bytes, three bytes uploaded in two reads.\<close>

definition demo_plain_store :: "(string \<times> bytes) list store_cfg" where
  "demo_plain_store = demo_store\<lparr>sc_geom := demo_geom\<rparr>"

definition demo_upload_cfg :: "bool \<Rightarrow> upload_cfg" where
  "demo_upload_cfg dedupe = \<lparr>uc_block_size = 2, uc_commit_batch = 1, uc_dedupe = dedupe, uc_workers = 1, uc_max_inflight = 1\<rparr>"

definition demo_body :: "read_event list" where
  "demo_body = [Data [7, 8], Data [9]]"

lemma demo_contents [simp]: "contents demo_body = [7, 8, 9]"
  by (simp add: demo_body_def contents_def piece_def)

lemma demo_pieces: "cut_every 2 [7, 8, 9 :: u8] = [[7, 8], [9]]"
  by (simp add: cut_every.simps)

lemma verify_on_write_False: "verify_on_write X False blocks = Ok ()"
  by (induction X False blocks rule: verify_on_write.induct) auto

lemma demo_writable: "writable demo_crates demo_plain_store (range GeomB)"
  by (auto simp: writable_def demo_plain_store_def demo_store_def demo_geom_def geom_put_many_def verify_on_write_False)

lemma demo_room: "room demo_crates demo_plain_store A k (GeomB [])"
  by (auto simp: room_def geom_inv_def stored_data_def addressed_store_def geom_look_def)

lemma demo_api_laws: "api_laws demo_crates demo_prost (\<lambda>_. None)"
proof -
  have len: "length (demo_digest d) = 32" for d by (auto simp: demo_digest_def)
  then have "cid_to_bytes demo_crates (data_cid demo_crates d) = demo_to_bytes (0xcd02, 0x12, demo_digest d)" for d
    by (simp add: data_cid_def codec_defs demo_crates_def)
  then show ?thesis
    using len by (simp add: api_laws_def hash_laws_def demo_to_bytes_def demo_varint.simps)
qed

lemma demo_sha_inj: "inj_on hd A \<Longrightarrow> [] \<notin> A \<Longrightarrow> inj_on (sha256 demo_crates) A"
proof (rule inj_onI)
  fix x y assume a: "inj_on hd A" "[] \<notin> A" "x \<in> A" "y \<in> A" "sha256 demo_crates x = sha256 demo_crates y"
  then have "x \<noteq> []" "y \<noteq> []" by auto
  moreover have "hd (demo_digest x) = hd (demo_digest y)" using a(5) by (simp add: demo_crates_def)
  ultimately have "hd x = hd y" by (cases x; cases y) (auto simp: demo_digest_def)
  then show "x = y" using a by (auto dest: inj_onD)
qed

lemma demo_upload_data:
  obtains d d' where "upload_data demo_crates demo_prost (demo_upload_cfg dedupe) [7, 8, 9] = {[7, 8], [9], d, d'}"
    "d \<noteq> []" "hd d = 2" "d' \<noteq> []" "hd d' = 38"
proof -
  let ?cids = "map (data_cid demo_crates) [[7, 8], [9]]"
  obtain mb fb where db: "dataset_blocks demo_crates demo_prost 2 3 ?cids = Ok (mb, Ok fb)"
    by (rule dataset_blocks_Ok [OF demo_api_laws, of ?cids]) auto
  have l: "hash_laws demo_crates" by (simp add: hash_laws_def)
  obtain tree tree_cid where t: "tree_new demo_crates ?cids = Some (Ok tree)" "root_cid demo_crates tree = Ok tree_cid"
    and mb: "block_data mb = serialize_block_list demo_crates tree"
    and fb: "to_block demo_crates demo_prost (dataset_manifest demo_crates 2 3 tree_cid (block_cid mb)) = Ok fb"
    using db by (auto simp: dataset_blocks_def data_block_new [OF l] result_simps split: option.splits)
  have "at_block_cids tree = ?cids" by (rule tree_newD [OF t(1)]) simp
  moreover have "le_bytes 4 n = word_of_nat n # le_bytes 3 (n div 256)" for n using le_bytes.simps(2) [of 3 n] by simp
  ultimately have m: "block_data mb \<noteq> []" "hd (block_data mb) = 2" by (simp_all add: mb serialize_block_list_def)
  obtain w where w: "mh_wrap demo_crates 0x12 (hd (last (at_layers tree))) = Some w" "tree_cid = cid_new_v1 demo_crates 0xcd03 w"
    and lay: "length (hd (last (at_layers tree))) = 32"
    using tree_shape [OF t(1) demo_digest_law demo_mh_wrap_law] t(2) by auto
  have "length (cid_to_bytes demo_crates tree_cid) = 38"
    using w lay by (auto simp: demo_crates_def demo_to_bytes_def demo_varint.simps)
  then have "\<exists>rest. block_data fb = 38 # rest"
    using to_block_addressed(4) [OF l demo_cid_v1_law _ _ fb, THEN sym]
    by (auto simp: dataset_manifest_def manifest_new_def manifest_encode_def demo_prost_def manifest_to_header_def
        w_header_def w_iso_def w_pair_def w_bytes_def header_tuple_def demo_varint.simps [of 38])
  then have f: "block_data fb \<noteq> []" "hd (block_data fb) = 38" by auto
  have "upload_data demo_crates demo_prost (demo_upload_cfg dedupe) [7, 8, 9] = {[7, 8], [9], block_data mb, block_data fb}"
    using db by (auto simp: upload_data_def demo_upload_cfg_def demo_pieces closing_data_def numeral_3_eq_3)
  then show ?thesis using that m f by blast
qed

lemma demo_ready:
  "upload_fits (demo_upload_cfg dedupe) (contents demo_body)"
  "inj_on (sha256 demo_crates) (stored_data demo_crates demo_plain_store (GeomB [])
     \<union> upload_data demo_crates demo_prost (demo_upload_cfg dedupe) (contents demo_body))"
  "Fail \<notin> set demo_body" "contents demo_body \<noteq> []"
proof -
  show "upload_fits (demo_upload_cfg dedupe) (contents demo_body)" by (simp add: upload_fits_def demo_upload_cfg_def demo_pieces)
  have none: "stored_data demo_crates demo_plain_store (GeomB []) = {}" by (simp add: stored_data_def geom_look_def)
  obtain d d' where d: "upload_data demo_crates demo_prost (demo_upload_cfg dedupe) [7, 8, 9] = {[7, 8], [9], d, d'}"
    "d \<noteq> []" "hd d = 2" "d' \<noteq> []" "hd d' = 38" by (rule demo_upload_data)
  have "inj_on (sha256 demo_crates) {[7, 8], [9], d, d'}" by (rule demo_sha_inj) (use d(2-5) in auto)
  then show "inj_on (sha256 demo_crates) (stored_data demo_crates demo_plain_store (GeomB [])
     \<union> upload_data demo_crates demo_prost (demo_upload_cfg dedupe) (contents demo_body))" by (simp add: none d(1))
qed (simp_all add: demo_body_def contents_def piece_def)

lemma demo_upload:
  obtains cid_str u where "archivist_upload demo_crates demo_prost (\<lambda>_. None) demo_plain_store (demo_upload_cfg dedupe) sched demo_body (GeomB [])
    = Some (Ok cid_str, u)" "up_store u \<in> range GeomB"
  using upload_goes_through [OF demo_api_laws demo_ready(1,2) demo_room demo_writable _ demo_ready(3,4)] by blast

lemma demo_reads: "reads_ok demo_crates demo_plain_store (GeomB t)"
  by (auto simp: reads_ok_def geom_look_def geom_get_def split: option.splits)

section \<open>Claims\<close>


text \<open>
  C37. An upload to a store that accepts writes succeeds: when the stream does not fail and is not
  empty, the sizes fit their integers and the data does not collide under SHA-256, the handler
  answers with a CID, with and without deduplication and for every schedule of its tasks.
\<close>

theorem upload_succeeds:
  assumes "api_laws X P base58" "upload_fits K (contents body)"
    and "inj_on (sha256 X) (stored_data X C s \<union> upload_data X P K (contents body))"
    and "room X C (stored_data X C s \<union> upload_data X P K (contents body)) (length (cut_every (uc_block_size K) (contents body)) + 2) s"
    and "writable X C W" "s \<in> W" "Fail \<notin> set body" "contents body \<noteq> []"
  shows "\<exists>cid_str u. archivist_upload X P base58 C K sched body s = Some (Ok cid_str, u)"
  using upload_goes_through [OF assms] by blast

theorem upload_succeeds_witness:
  "\<exists>cid_str u. archivist_upload demo_crates demo_prost (\<lambda>_. None) demo_plain_store (demo_upload_cfg False) (\<lambda>n. ([1, 0], n)) demo_body (GeomB [])
     = Some (Ok cid_str, u)"
  by (rule upload_succeeds [OF demo_api_laws demo_ready(1,2) demo_room demo_writable _ demo_ready(3,4)]) simp

text \<open>
  C2. What was uploaded is downloaded: after a successful upload of any body in any number of reads
  both download handlers answer the returned CID with the response built from exactly the uploaded
  bytes (the whole body without a range header, the requested slice with one), whichever backend
  stores the blocks and in whatever order the tasks of the upload ran; the network handler asks no
  other node and leaves the store as it is.
\<close>

theorem upload_download:
  assumes "api_laws X P base58" "upload_fits K (contents body)"
    and "inj_on (sha256 X) (stored_data X C s \<union> upload_data X P K (contents body))"
    and "room X C (stored_data X C s \<union> upload_data X P K (contents body)) (length (cut_every (uc_block_size K) (contents body)) + 2) s"
    and "archivist_upload X P base58 C K sched body s = Some (Ok cid_str, u)" "reads_ok X C (up_store u)"
  shows "archivist_download_local X P D page C (up_store u) headers cid_str
      = build_range_response headers (contents body) ''application/octet-stream''
    \<and> archivist_download X P http peers C headers cid_str (up_store u)
      = (build_range_response headers (contents body) ''application/octet-stream'', up_store u)"
proof -
  obtain c where c: "cid_parse X cid_str = Some c" "dataset_in X P C (up_store u) (uc_block_size K) (contents body) c"
    "room X C (stored_data X C s \<union> upload_data X P K (contents body)) 0 (up_store u)" by (rule upload_dataset [OF assms(1-5)])
  show ?thesis using download_dataset [OF assms(1,2) c(2) assms(6) c(3,1)] by blast
qed

theorem upload_download_witness:
  "\<exists>cid_str u. archivist_upload demo_crates demo_prost (\<lambda>_. None) demo_plain_store (demo_upload_cfg True) (\<lambda>n. ([], 0)) demo_body (GeomB [])
       = Some (Ok cid_str, u)
     \<and> archivist_download demo_crates demo_prost (\<lambda>_. None) [] demo_plain_store \<lparr>rh_range = None, rh_accept = None\<rparr> cid_str (up_store u)
       = (Ok (full_response ''application/octet-stream'' [7, 8, 9]), up_store u)"
proof -
  obtain cid_str u where u: "archivist_upload demo_crates demo_prost (\<lambda>_. None) demo_plain_store (demo_upload_cfg True) (\<lambda>n. ([], 0)) demo_body (GeomB [])
       = Some (Ok cid_str, u)" and w: "up_store u \<in> range GeomB" by (rule demo_upload)
  have "reads_ok demo_crates demo_plain_store (up_store u)" using w demo_reads by auto
  then show ?thesis
    using u upload_download [OF demo_api_laws demo_ready(1,2) demo_room u]
    by (auto simp: build_range_response_def)
qed

text \<open>
  C12. Range requests of an uploaded dataset: \<open>bytes=a-b\<close> is answered by both download handlers with
  status 206 and exactly the bytes from \<open>a\<close> to \<open>b\<close> inclusive, cut at the end of the dataset, although
  the local handler assembles them from the blocks that overlap the range; a range that starts
  beyond the end is answered with status 416.
\<close>

theorem upload_range_download:
  assumes "api_laws X P base58" "upload_fits K (contents body)"
    and "inj_on (sha256 X) (stored_data X C s \<union> upload_data X P K (contents body))"
    and "room X C (stored_data X C s \<union> upload_data X P K (contents body)) (length (cut_every (uc_block_size K) (contents body)) + 2) s"
    and "archivist_upload X P base58 C K sched body s = Some (Ok cid_str, u)" "reads_ok X C (up_store u)"
    and "a \<le> b" "b < 2 ^ 64 - 1" "n = length (contents body)" "e = min (b + 1) n" "rh_range headers = Some (range_text a (Some b))"
  shows "archivist_download_local X P D page C (up_store u) headers cid_str =
      Ok (if a < n then partial_response ''application/octet-stream'' a e n (take (e - a) (drop a (contents body))) else unsatisfiable_response n)
    \<and> fst (archivist_download X P http peers C headers cid_str (up_store u)) =
      archivist_download_local X P D page C (up_store u) headers cid_str"
proof -
  obtain c where c: "cid_parse X cid_str = Some c" "dataset_in X P C (up_store u) (uc_block_size K) (contents body) c"
    "room X C (stored_data X C s \<union> upload_data X P K (contents body)) 0 (up_store u)" by (rule upload_dataset [OF assms(1-5)])
  have "parse_range_header (range_text a (Some b)) n = (Ok (if a < n then Some (a, e) else None) :: (_, api_error) result)"
    using assms(7,8,10) by (subst parse_range_text) (auto simp: padd_def)
  then show ?thesis
    using download_dataset [OF assms(1,2) c(2) assms(6) c(3,1)] assms(9,11)
    by (simp add: build_range_response_def subvec_def)
qed

theorem upload_range_download_witness:
  "\<exists>cid_str u. archivist_upload demo_crates demo_prost (\<lambda>_. None) demo_plain_store (demo_upload_cfg False) (\<lambda>n. ([1], n)) demo_body (GeomB [])
       = Some (Ok cid_str, u)
     \<and> archivist_download_local demo_crates demo_prost demo_dir_prost (\<lambda>_ _. []) demo_plain_store (up_store u)
         \<lparr>rh_range = Some (range_text 1 (Some 9)), rh_accept = None\<rparr> cid_str
       = Ok (partial_response ''application/octet-stream'' 1 3 3 [8, 9])"
proof -
  obtain cid_str u where u: "archivist_upload demo_crates demo_prost (\<lambda>_. None) demo_plain_store (demo_upload_cfg False) (\<lambda>n. ([1], n)) demo_body (GeomB [])
       = Some (Ok cid_str, u)" and w: "up_store u \<in> range GeomB" by (rule demo_upload)
  have "reads_ok demo_crates demo_plain_store (up_store u)" using w demo_reads by auto
  then show ?thesis
    using u upload_range_download [OF demo_api_laws demo_ready(1,2) demo_room u, of 1 9 3 3
        "\<lparr>rh_range = Some (range_text 1 (Some 9)), rh_accept = None\<rparr>"] by auto
qed

end
