(* ===== verification/Api_Delete.thy ===== *)
theory Api_Delete
  imports Api_Roundtrip
begin

text \<open>
  Deletion of a dataset and data that comes from other nodes. \<open>W\<close> is a set of stores on which every
  deletion of a stored block succeeds, and one of an absent block changes nothing.
\<close>

section \<open>Deletion\<close>

definition deletable :: "('c, 'm) crates \<Rightarrow> 't store_cfg \<Rightarrow> 't store_backend set \<Rightarrow> bool" where
  "deletable X C W \<longleftrightarrow> (\<forall>s \<in> W. \<forall>c.
     if store_look X C s c = None then snd (store_delete X C c s) = s
     else \<exists>s' \<in> W. store_delete X C c s = (Ok (), s'))"

lemma delete_quietly_look:
  assumes "deletable X C W" "s \<in> W" "store_inv X C dsize k s"
  shows "delete_quietly X C c s \<in> W" "store_inv X C dsize k (delete_quietly X C c s)"
    "store_look X C (delete_quietly X C c s) x = (if x = c then None else store_look X C s x)"
proof -
  have "delete_quietly X C c s \<in> W \<and> store_inv X C dsize k (delete_quietly X C c s)
    \<and> store_look X C (delete_quietly X C c s) x = (if x = c then None else store_look X C s x)"
  proof (cases "store_look X C s c")
    case None
    then have "delete_quietly X C c s = s" using assms(1,2) by (auto simp: deletable_def delete_quietly_def)
    then show ?thesis using None assms(2,3) by simp
  next
    case (Some d)
    then obtain s' where s': "s' \<in> W" "store_delete X C c s = (Ok (), s')" using assms(1,2) unfolding deletable_def by (metis option.distinct(1))
    then have "ok_state (store_delete X C c s) = Some s'" by (simp add: ok_state_def)
    from store_del_step [OF assms(3) this] show ?thesis using s' by (simp add: delete_quietly_def)
  qed
  then show "delete_quietly X C c s \<in> W" "store_inv X C dsize k (delete_quietly X C c s)"
    "store_look X C (delete_quietly X C c s) x = (if x = c then None else store_look X C s x)" by auto
qed

lemma delete_all_look:
  assumes "deletable X C W"
  shows "s \<in> W \<Longrightarrow> store_inv X C dsize k s \<Longrightarrow> fold (delete_quietly X C) cs s \<in> W
    \<and> store_inv X C dsize k (fold (delete_quietly X C) cs s)
    \<and> (\<forall>x. store_look X C (fold (delete_quietly X C) cs s) x = (if x \<in> set cs then None else store_look X C s x))"
proof (induction cs arbitrary: s)
  case (Cons c cs)
  note d = delete_quietly_look [OF assms Cons(2,3)]
  show ?case using Cons(1) [OF d(1,2)] d(3) by simp
qed simp


lemma demo_deletable: "deletable demo_crates demo_plain_store (range GeomB)"
  by (auto simp: deletable_def geom_look_def geom_delete_def split: option.splits)


section \<open>Data from other nodes\<close>

lemma ask_peers_checked:
  "ask_peers X http C cid cid_str peers s = (r, s') \<Longrightarrow>
     (\<forall>data. r = Ok data \<longrightarrow> cid_codec X cid \<noteq> 0xcd01 \<longrightarrow>
        verify_blake3 X data cid = Ok () \<and> store_put X C \<lparr>block_cid = cid, block_data = data\<rparr> s = (Ok (), s'))
     \<and> (cid_codec X cid = 0xcd01 \<longrightarrow> s' = s)"
proof (induction peers)
  case (Cons p ps)
  then show ?case
    by (auto simp: from_cid_and_data_def put_or_def result_simps split: option.splits prod.splits if_splits result.splits)
qed auto

text \<open>
  C24. What another node sends is checked: when a dataset block is missing locally, the data that the
  download returns from a peer hashes to the CID that was asked for and has been stored under it,
  whatever the peers answer. For a manifest CID nothing is stored and nothing is checked: the first
  peer that answers with success decides the bytes that are returned.
\<close>

theorem peer_data_checked:
  assumes "retrieve_local_cid_data X P C s cid cid_str = Err (NotFound msg)" "cid_parse X cid_str = Some cid"
    and "archivist_download X P http peers C \<lparr>rh_range = None, rh_accept = acc\<rparr> cid_str s = (Ok resp, s')"
  shows "\<exists>data. resp = full_response ''application/octet-stream'' data
    \<and> (cid_codec X cid \<noteq> 0xcd01 \<longrightarrow>
        verify_blake3 X data cid = Ok () \<and> store_put X C \<lparr>block_cid = cid, block_data = data\<rparr> s = (Ok (), s'))
    \<and> (cid_codec X cid = 0xcd01 \<longrightarrow> s' = s \<and> (\<forall>evil. peers \<noteq> [] \<longrightarrow>
        fetch_cid_from_peers X (\<lambda>_. Some (200, Some evil)) peers C cid cid_str s = (Ok evil, s)))"
proof -
  obtain r t where f: "fetch_cid_from_peers X http peers C cid cid_str s = (r, t)" by (rule prod.exhaust)
  have path: "parse_cid_path X cid_str = Ok cid" using assms(2) by (simp add: parse_cid_path_def)
  have tr: "try_manifest_range X P C s \<lparr>rh_range = None, rh_accept = acc\<rparr> cid cid_str \<in> {Ok None, Panic}"
    by (auto simp: try_manifest_range_def split: result.splits)
  then obtain data where d: "r = Ok data" "resp = full_response ''application/octet-stream'' data" "s' = t"
    using assms(1,3) f path by (auto simp: archivist_download_def build_range_response_def result_simps)
  have "fetch_cid_from_peers X (\<lambda>_. Some (200, Some evil)) peers C cid cid_str s = (Ok evil, s)"
    if "cid_codec X cid = 0xcd01" "peers \<noteq> []" for evil
    using that by (cases peers) (simp_all add: fetch_cid_from_peers_def is_success_def take_Cons')
  then show ?thesis
    using ask_peers_checked [OF f [unfolded fetch_cid_from_peers_def]] d by auto
qed

theorem peer_data_checked_witness:
  "\<exists>resp s'. archivist_download demo_crates demo_prost (\<lambda>_. Some (200, Some [7, 8])) [''http://a''] demo_plain_store
       \<lparr>rh_range = None, rh_accept = None\<rparr> (cid_to_string demo_crates (data_cid demo_crates [7, 8])) (GeomB []) = (Ok resp, s')
     \<and> verify_blake3 demo_crates [7, 8] (data_cid demo_crates [7, 8]) = Ok ()"
proof -
  let ?c = "data_cid demo_crates [7, 8]" and ?h = "\<lparr>rh_range = None, rh_accept = None\<rparr>"
  have l: "hash_laws demo_crates" by (simp add: hash_laws_def)
  note cp = data_cid_parts [OF l, of "[7, 8]"]
  have codec: "cid_codec demo_crates ?c \<noteq> 0xcd01" using cp(4) by (simp add: codec_defs)
  have v: "verify_blake3 demo_crates [7, 8] ?c = Ok ()"
    using data_block_new [OF l, of "[7, 8]"] cp(2)
    by (auto simp: verify_blake3_Ok_iff block_new_sha256_def data_block_def result_simps)
  have miss: "retrieve_local_cid_data demo_crates demo_prost demo_plain_store (GeomB []) ?c str = Err (NotFound str)" for str
    by (simp add: retrieve_local_cid_data_def geom_get_def)
  have p: "cid_parse demo_crates (cid_to_string demo_crates ?c) = Some ?c"
    using demo_cid_string_law unfolding cid_string_law_def by blast
  obtain s' where put: "store_put demo_crates demo_plain_store \<lparr>block_cid = ?c, block_data = [7, 8]\<rparr> (GeomB []) = (Ok (), s')"
    using writableD [OF demo_writable, of "GeomB []"] by (auto simp: store_put_def)
  have "archivist_download demo_crates demo_prost (\<lambda>_. Some (200, Some [7, 8])) [''http://a''] demo_plain_store
      ?h (cid_to_string demo_crates ?c) (GeomB []) = (Ok (full_response ''application/octet-stream'' [7, 8]), s')"
    using put codec v miss
    by (simp add: archivist_download_def parse_cid_path_def p try_manifest_range_def fetch_cid_from_peers_def is_success_def
        from_cid_and_data_def put_or_def build_range_response_def)
  with peer_data_checked [OF miss p this] codec show ?thesis by (auto simp: full_response_def)
qed

end
