(* ===== verification/Api_Directory.thy ===== *)
theory Api_Directory
  imports Api_Roundtrip Ord_Map
begin

text \<open>
  \<open>archivist_create_directory\<close> of \<open>api.rs\<close>: a list of paths with CIDs becomes a tree of directory
  manifests. The subdirectories of a node are a \<open>BTreeMap\<close>, a list with increasing names.
\<close>

section \<open>The request\<close>

record create_entry =
  ce_path :: string
  ce_cid :: string
  ce_size :: "nat option"
  ce_mimetype :: "string option"

record 'c input_entry =
  ie_parts :: "string list"
  ie_cid :: 'c
  ie_size :: nat
  ie_mimetype :: string

definition path_parts :: "string \<Rightarrow> string list" where
  "path_parts path = filter (\<lambda>s. s \<noteq> []) (split_on (CHR ''/'') (map (\<lambda>c. if c = CHR 0x5C then CHR ''/'' else c) path))"

definition resolve_size :: "('c, 'm) crates \<Rightarrow> prost \<Rightarrow> 't store_cfg \<Rightarrow> 't store_backend \<Rightarrow> 'c \<Rightarrow> nat option \<Rightarrow> nat" where
  "resolve_size X P C s cid given =
     (case given of
        Some n \<Rightarrow> n
      | None \<Rightarrow>
        (case store_get X C cid s of
           Ok block \<Rightarrow>
             if cid_codec X cid = 0xcd01
             then (case from_block X P block of Ok m \<Rightarrow> m_dataset_size m | _ \<Rightarrow> length (block_data block))
             else length (block_data block)
         | _ \<Rightarrow> 0))"

text \<open>One round of the validation loop; an entry whose path has no parts is left out.\<close>

definition parse_entry ::
  "('c, 'm) crates \<Rightarrow> prost \<Rightarrow> 't store_cfg \<Rightarrow> 't store_backend \<Rightarrow> create_entry \<Rightarrow> ('c input_entry list, api_error) result" where
  "parse_entry X P C s entry =
     rbind (ok_or (cid_parse X (ce_cid entry)) (BadRequest ''Entry invalid CID'')) (\<lambda>cid.
       (let parts = path_parts (ce_path entry) in
        if parts = [] then Ok []
        else if ''..'' \<in> set parts then Err (BadRequest ''Invalid path (directory traversal)'')
        else Ok [\<lparr>ie_parts = parts, ie_cid = cid, ie_size = resolve_size X P C s cid (ce_size entry),
                  ie_mimetype = (case ce_mimetype entry of Some m \<Rightarrow> m | None \<Rightarrow> [])\<rparr>]))"

definition parse_entries ::
  "('c, 'm) crates \<Rightarrow> prost \<Rightarrow> 't store_cfg \<Rightarrow> 't store_backend \<Rightarrow> create_entry list \<Rightarrow> ('c input_entry list, api_error) result" where
  "parse_entries X P C s entries = rbind (try_map (parse_entry X P C s) entries) (\<lambda>lists. Ok (concat lists))"

section \<open>The tree of directories\<close>

type_synonym 'c dir_file = "'c \<times> nat \<times> string"

datatype 'c dir_node = DirNode (dn_name: string) (dn_files: "(string \<times> 'c dir_file) list") (dn_subdirs: "(string \<times> 'c dir_node) list")

definition empty_dir :: "string \<Rightarrow> 'c dir_node" where
  "empty_dir name = DirNode name [] []"

fun insert_file :: "string list \<Rightarrow> 'c dir_file \<Rightarrow> 'c dir_node \<Rightarrow> 'c dir_node" where
  "insert_file [] f node = node"
| "insert_file [filename] f (DirNode name files subdirs) = DirNode name (files @ [(filename, f)]) subdirs"
| "insert_file (part # parts) f (DirNode name files subdirs) =
     (let current = (case om_get subdirs part of Some d \<Rightarrow> d | None \<Rightarrow> empty_dir part)
      in DirNode name files (om_insert part (insert_file parts f current) subdirs))"

definition entry_file :: "'c input_entry \<Rightarrow> 'c dir_file" where
  "entry_file e = (ie_cid e, ie_size e, ie_mimetype e)"

definition build_tree :: "string \<Rightarrow> 'c input_entry list \<Rightarrow> 'c dir_node" where
  "build_tree name entries = fold (\<lambda>e. insert_file (ie_parts e) (entry_file e)) entries (empty_dir name)"

text \<open>While the root has exactly one subdirectory and no files, that subdirectory becomes the root.\<close>

fun promote :: "'c dir_node \<Rightarrow> 'c dir_node" where
  "promote (DirNode name [] [(k, d)]) = promote d"
| "promote node = node"

definition file_entry :: "string \<times> 'c dir_file \<Rightarrow> 'c directory_entry" where
  "file_entry = (\<lambda>(name, cid, n, mimetype). \<lparr>de_name = name, de_cid = cid, de_size = n, de_is_directory = False, de_mimetype = mimetype\<rparr>)"

definition subdir_entry :: "string \<Rightarrow> 'c \<times> nat \<Rightarrow> 'c directory_entry" where
  "subdir_entry name r = \<lparr>de_name = name, de_cid = fst r, de_size = snd r, de_is_directory = True, de_mimetype = []\<rparr>"

text \<open>\<open>put\<close> is what \<open>build_inner\<close> uses of the block store.\<close>

definition store_directory ::
  "('c, 'm) crates \<Rightarrow> dir_prost \<Rightarrow> ('c block \<Rightarrow> 's \<Rightarrow> (unit, api_error) result \<times> 's) \<Rightarrow> 'c directory_entry list \<Rightarrow> string \<Rightarrow> 's \<Rightarrow>
     ('c \<times> nat, api_error) result \<times> 's" where
  "store_directory X D put entries name s =
     (case rbind (directory_new (sort_entries entries) name) (\<lambda>dir.
         rbind (map_err (\<lambda>_. Internal ''Failed to create directory block'') (directory_to_block X D dir)) (\<lambda>b. Ok (b, dm_total_size dir))) of
        Err e \<Rightarrow> (Err e, s)
      | Panic \<Rightarrow> (Panic, s)
      | Ok (b, n) \<Rightarrow> (case put b s of (r, s') \<Rightarrow> (rbind r (\<lambda>_. Ok (block_cid b, n)), s')))"

fun build_inner ::
  "('c, 'm) crates \<Rightarrow> dir_prost \<Rightarrow> ('c block \<Rightarrow> 's \<Rightarrow> (unit, api_error) result \<times> 's) \<Rightarrow> 'c dir_node \<Rightarrow> 's \<Rightarrow>
     ('c \<times> nat, api_error) result \<times> 's"
and build_subdirs ::
  "('c, 'm) crates \<Rightarrow> dir_prost \<Rightarrow> ('c block \<Rightarrow> 's \<Rightarrow> (unit, api_error) result \<times> 's) \<Rightarrow> (string \<times> 'c dir_node) list \<Rightarrow> 's \<Rightarrow>
     ('c directory_entry list, api_error) result \<times> 's" where
  "build_inner X D put (DirNode name files subdirs) s =
     (case build_subdirs X D put subdirs s of
        (Ok entries, s') \<Rightarrow> store_directory X D put (entries @ map file_entry files) name s'
      | (Err e, s') \<Rightarrow> (Err e, s')
      | (Panic, s') \<Rightarrow> (Panic, s'))"
| "build_subdirs X D put [] s = (Ok [], s)"
| "build_subdirs X D put ((name, subdir) # rest) s =
     (case build_inner X D put subdir s of
        (Ok r, s') \<Rightarrow>
          (case build_subdirs X D put rest s' of
             (Ok entries, s'') \<Rightarrow> (Ok (subdir_entry name r # entries), s'')
           | (Err e, s'') \<Rightarrow> (Err e, s'')
           | (Panic, s'') \<Rightarrow> (Panic, s''))
      | (Err e, s') \<Rightarrow> (Err e, s')
      | (Panic, s') \<Rightarrow> (Panic, s'))"

definition archivist_create_directory ::
  "('c, 'm) crates \<Rightarrow> prost \<Rightarrow> dir_prost \<Rightarrow> 't store_cfg \<Rightarrow> create_entry list \<Rightarrow> string option \<Rightarrow> 't store_backend \<Rightarrow>
     (string \<times> nat \<times> nat, api_error) result \<times> 't store_backend" where
  "archivist_create_directory X P D C entries name s =
     (if entries = [] then (Err (BadRequest ''No entries provided''), s)
      else case parse_entries X P C s entries of
        Err e \<Rightarrow> (Err e, s)
      | Panic \<Rightarrow> (Panic, s)
      | Ok inputs \<Rightarrow>
        (let root = promote (build_tree (case name of Some n \<Rightarrow> n | None \<Rightarrow> []) inputs) in
         case build_inner X D (put_or ''Failed to store directory block'' X C) root s of
           (r, s') \<Rightarrow> (rbind r (\<lambda>(c, n). Ok (cid_to_string X c, n, length inputs)), s')))"

section \<open>The files of a tree\<close>

fun node_files :: "'c dir_node \<Rightarrow> (string list \<times> 'c dir_file) set" where
  "node_files (DirNode name files subdirs) =
     {([n], f) | n f. (n, f) \<in> set files} \<union> (\<Union>(k, d) \<in> set subdirs. {(k # p, f) | p f. (p, f) \<in> node_files d})"

fun node_size :: "'c dir_node \<Rightarrow> nat" where
  "node_size (DirNode name files subdirs) =
     sum_list (map (\<lambda>(n, c, k, m). k) files) + sum_list (map (\<lambda>(k, d). node_size d) subdirs)"

fun node_ok :: "'c dir_node \<Rightarrow> bool" where
  "node_ok (DirNode name files subdirs) \<longleftrightarrow> om_inv subdirs \<and> (\<forall>(k, d) \<in> set subdirs. node_ok d)"

lemma node_files_path: "(p, f) \<in> node_files d \<Longrightarrow> p \<noteq> []"
  by (cases d) auto

end
