(* ===== verification/Directory_Tree.thy ===== *)
theory Directory_Tree
  imports Api_Directory
begin

text \<open>
  The directory tree that \<open>archivist_create_directory\<close> stores holds exactly the files of the request,
  below a common prefix that promotion removed, and its total size is the sum of their sizes.
\<close>

section \<open>Inserting files\<close>

lemma om_insert_set: "om_inv m \<Longrightarrow> set (om_insert k v m) = insert (k, v) {(k', v'). (k', v') \<in> set m \<and> k' \<noteq> k}"
proof (induction k v m rule: om_insert.induct)
  case (2 k v k' v' m)
  have "om_inv m" "\<And>x y. (x, y) \<in> set m \<Longrightarrow> k' < x" using 2(2) by (auto simp: om_inv_def)
  then show ?case using 2(1) by (cases "k < k'"; cases "k = k'") fastforce+
qed auto

lemma om_insert_sum:
  "om_inv m \<Longrightarrow> sum_list (map (\<lambda>(k, d). g d) (om_insert k v m)) + (case om_get m k of Some w \<Rightarrow> g w | None \<Rightarrow> (0 :: nat))
     = g v + sum_list (map (\<lambda>(k, d). g d) m)"
proof (induction k v m rule: om_insert.induct)
  case (2 k v k' v' m)
  have inv: "om_inv m" "\<And>x y. (x, y) \<in> set m \<Longrightarrow> k' < x" using 2(2) by (auto simp: om_inv_def)
  have none: "k < k' \<Longrightarrow> om_get m k = None" using inv(2) by (fastforce simp: om_get_def map_of_eq_None_iff)
  show ?case using 2(1) [OF _ _ inv(1)] none by (auto simp: om_get_def)
qed simp

lemma insert_file_ok:
  "parts \<noteq> [] \<Longrightarrow> node_ok d \<Longrightarrow> node_ok (insert_file parts f d)"
proof (induction parts f d rule: insert_file.induct)
  case (3 part p2 ps f name files subdirs)
  let ?cur = "case om_get subdirs part of Some d \<Rightarrow> d | None \<Rightarrow> empty_dir part"
  have ok: "om_inv subdirs" "\<And>k d. (k, d) \<in> set subdirs \<Longrightarrow> node_ok d" using 3(3) by auto
  have "node_ok ?cur" using ok by (auto simp: om_get_in_set empty_dir_def split: option.splits)
  then have "node_ok (insert_file (p2 # ps) f ?cur)" using 3(1) [OF refl] by simp
  then show ?case using ok by (auto simp: Let_def om_insert_set)
qed auto

lemma insert_file_files:
  "parts \<noteq> [] \<Longrightarrow> node_ok d \<Longrightarrow> node_files (insert_file parts f d) = insert (parts, f) (node_files d)"
proof (induction parts f d rule: insert_file.induct)
  case (3 part p2 ps f name files subdirs)
  let ?cur = "case om_get subdirs part of Some d \<Rightarrow> d | None \<Rightarrow> empty_dir part"
  have ok: "om_inv subdirs" "\<And>k d. (k, d) \<in> set subdirs \<Longrightarrow> node_ok d" using 3(3) by auto
  have "node_ok ?cur" using ok by (auto simp: om_get_in_set empty_dir_def split: option.splits)
  then have IH: "node_files (insert_file (p2 # ps) f ?cur) = insert (p2 # ps, f) (node_files ?cur)" using 3(1) [OF refl] by simp
  have cur: "(p, g) \<in> node_files ?cur \<longleftrightarrow> (\<exists>d. (part, d) \<in> set subdirs \<and> (p, g) \<in> node_files d)" for p g
  proof (cases "om_get subdirs part")
    case None
    then have "(part, d) \<notin> set subdirs" for d using ok(1) by (metis om_get_in_set option.distinct(1))
    then show ?thesis using None by (simp add: empty_dir_def)
  next
    case (Some d)
    then show ?thesis using ok(1) by (auto simp: om_get_in_set [symmetric])
  qed
  show ?case using ok(1) by (auto simp: Let_def om_insert_set IH cur)
qed auto

lemma insert_file_size:
  "parts \<noteq> [] \<Longrightarrow> node_ok d \<Longrightarrow> node_size (insert_file parts f d) = node_size d + fst (snd f)"
proof (induction parts f d rule: insert_file.induct)
  case (3 part p2 ps f name files subdirs)
  let ?cur = "case om_get subdirs part of Some d \<Rightarrow> d | None \<Rightarrow> empty_dir part"
  have ok: "om_inv subdirs" "\<And>k d. (k, d) \<in> set subdirs \<Longrightarrow> node_ok d" using 3(3) by auto
  have "node_ok ?cur" using ok by (auto simp: om_get_in_set empty_dir_def split: option.splits)
  then have IH: "node_size (insert_file (p2 # ps) f ?cur) = node_size ?cur + fst (snd f)" using 3(1) [OF refl] by simp
  show ?case
    using om_insert_sum [OF ok(1), of node_size part "insert_file (p2 # ps) f ?cur"] IH
    by (auto simp: Let_def empty_dir_def split: option.splits)
qed (auto split: prod.splits)

lemma build_tree_files:
  assumes "\<And>e. e \<in> set es \<Longrightarrow> ie_parts e \<noteq> []"
  shows "node_ok (build_tree name es)"
    "node_files (build_tree name es) = (\<lambda>e. (ie_parts e, entry_file e)) ` set es"
    "node_size (build_tree name es) = sum_list (map ie_size es)"
proof -
  have "node_ok (fold (\<lambda>e. insert_file (ie_parts e) (entry_file e)) es d)
    \<and> node_files (fold (\<lambda>e. insert_file (ie_parts e) (entry_file e)) es d) = (\<lambda>e. (ie_parts e, entry_file e)) ` set es \<union> node_files d
    \<and> node_size (fold (\<lambda>e. insert_file (ie_parts e) (entry_file e)) es d) = sum_list (map ie_size es) + node_size d"
    if "node_ok d" for d
    using assms that
    by (induction es arbitrary: d) (auto simp: insert_file_ok insert_file_files insert_file_size entry_file_def)
  from this [of "empty_dir name"] show "node_ok (build_tree name es)"
    "node_files (build_tree name es) = (\<lambda>e. (ie_parts e, entry_file e)) ` set es"
    "node_size (build_tree name es) = sum_list (map ie_size es)"
    by (auto simp: build_tree_def empty_dir_def)
qed

lemma promote_files:
  "\<exists>prefix. node_files d = (\<lambda>(p, f). (prefix @ p, f)) ` node_files (promote d) \<and> node_size (promote d) = node_size d"
proof (induction d rule: promote.induct)
  case (1 name k d)
  then obtain prefix where "node_files d = (\<lambda>(p, f). (prefix @ p, f)) ` node_files (promote d)" "node_size (promote d) = node_size d" by blast
  then show ?case by (intro exI [of _ "k # prefix"]) force
qed (rule exI [of _ "[]"], simp del: node_files.simps node_size.simps add: id_def [symmetric])+

section \<open>Following a path\<close>

text \<open>The entries a client sees of a directory, and the files it reaches by following names.\<close>

definition open_directory :: "('c, 'm) crates \<Rightarrow> dir_prost \<Rightarrow> 't store_cfg \<Rightarrow> 't store_backend \<Rightarrow> 'c \<Rightarrow> 'c directory_entry list" where
  "open_directory X D C s c =
     (case store_get X C c s of
        Ok b \<Rightarrow> (case directory_from_block X D b of Ok d \<Rightarrow> dm_entries d | _ \<Rightarrow> [])
      | _ \<Rightarrow> [])"

fun dir_holds :: "('c, 'm) crates \<Rightarrow> dir_prost \<Rightarrow> 't store_cfg \<Rightarrow> 't store_backend \<Rightarrow> 'c \<Rightarrow> string list \<Rightarrow> 'c dir_file \<Rightarrow> bool" where
  "dir_holds X D C s c [] f = False"
| "dir_holds X D C s c [name] f =
     (\<exists>e \<in> set (open_directory X D C s c). de_name e = name \<and> \<not> de_is_directory e \<and> (de_cid e, de_size e, de_mimetype e) = f)"
| "dir_holds X D C s c (name # path) f =
     (\<exists>e \<in> set (open_directory X D C s c). de_name e = name \<and> de_is_directory e \<and> dir_holds X D C s (de_cid e) path f)"

definition dir_laws :: "('c, 'm) crates \<Rightarrow> dir_prost \<Rightarrow> bool" where
  "dir_laws X D \<longleftrightarrow> dir_prost_law D \<and> cid_bytes_law X \<and> cid_v1_law X \<and> cid_new_law X \<and> mh_wrap_law X \<and> digest_law X"

lemma directory_to_blockD:
  assumes "dir_laws X D" "directory_to_block X D d = Ok b"
  shows "directory_from_block X D b = Ok d" "sha_block X b"
proof -
  have l: "dir_prost_law D" "cid_bytes_law X" "cid_v1_law X" "cid_new_law X" "mh_wrap_law X" "digest_law X"
    using assms(1) by (simp_all add: dir_laws_def)
  obtain b' where "directory_to_block X D d = Ok b'" "cid_codec X (block_cid b') = DIRECTORY_CODEC" "sha_block X b'"
    "directory_decode X D (block_data b') = Ok d" by (rule directory_block [OF l])
  then show "directory_from_block X D b = Ok d" "sha_block X b" using assms(2) by (simp_all add: directory_from_block_def)
qed

section \<open>Building\<close>

lemma store_directory_Ok:
  assumes "store_directory X D put entries name s = (Ok r, s')"
  obtains dir b where "directory_new (sort_entries entries) name = (Ok dir :: (_, api_error) result)" "directory_to_block X D dir = Ok b"
    "r = (block_cid b, dm_total_size dir)" "put b s = (Ok (), s')"
  using assms by (auto simp: store_directory_def result_simps split: result.splits prod.splits)

text \<open>The blocks that a build writes, in order: the build run with a list for the store.\<close>

definition record_put :: "'c block \<Rightarrow> 'c block list \<Rightarrow> (unit, api_error) result \<times> 'c block list" where
  "record_put b bs = (Ok (), bs @ [b])"

fun store_puts :: "('c, 'm) crates \<Rightarrow> 't store_cfg \<Rightarrow> 'c block list \<Rightarrow> 't store_backend \<Rightarrow> 't store_backend option" where
  "store_puts X C [] s = Some s"
| "store_puts X C (b # bs) s = Option.bind (ok_state (store_put X C b s)) (store_puts X C bs)"

lemma store_puts_append: "store_puts X C (as @ bs) s = Option.bind (store_puts X C as s) (store_puts X C bs)"
proof (induction as arbitrary: s)
  case (Cons a as)
  then have "store_puts X C (as @ bs) = (\<lambda>y. Option.bind (store_puts X C as y) (store_puts X C bs))" by (rule ext)
  then show ?case by simp
qed simp

lemma store_directory_record:
  assumes "store_directory X D (put_or msg X C) entries name s = (Ok r, s')"
  shows "\<exists>b. (\<forall>bs. store_directory X D record_put entries name bs = (Ok r, bs @ [b])) \<and> store_puts X C [b] s = Some s'"
proof -
  obtain dir b where "directory_new (sort_entries entries) name = (Ok dir :: (_, api_error) result)" "directory_to_block X D dir = Ok b"
    "r = (block_cid b, dm_total_size dir)" "put_or msg X C b s = (Ok (), s')" by (rule store_directory_Ok [OF assms])
  then show ?thesis by (auto simp: store_directory_def record_put_def put_or_Ok ok_state_def)
qed

lemma build_inner_Ok:
  "build_inner X D put (DirNode name files subdirs) s = (Ok r, s') \<longleftrightarrow>
     (\<exists>es s1. build_subdirs X D put subdirs s = (Ok es, s1) \<and> store_directory X D put (es @ map file_entry files) name s1 = (Ok r, s'))"
  by (auto split: prod.splits result.splits)

lemma build_subdirs_Ok:
  "build_subdirs X D put ((name, d) # ds) s = (Ok es, s') \<longleftrightarrow>
     (\<exists>r s1 es'. build_inner X D put d s = (Ok r, s1) \<and> build_subdirs X D put ds s1 = (Ok es', s') \<and> es = subdir_entry name r # es')"
  by (auto split: prod.splits result.splits)

lemma build_record:
  fixes C :: "'t store_cfg"
  shows "put = put_or msg X C \<Longrightarrow> build_inner X D put d s = (Ok r, s') \<Longrightarrow>
      \<exists>new. (\<forall>bs. build_inner X D record_put d bs = (Ok r, bs @ new)) \<and> store_puts X C new s = Some s'"
    "put = put_or msg X C \<Longrightarrow> build_subdirs X D put ds s = (Ok es, s') \<Longrightarrow>
      \<exists>new. (\<forall>bs. build_subdirs X D record_put ds bs = (Ok es, bs @ new)) \<and> store_puts X C new s = Some s'"
proof (induction X D put d s and X D put ds s arbitrary: r s' and es s' rule: build_inner_build_subdirs.induct)
  case (1 X D put name files subdirs s)
  obtain es s1 where b: "build_subdirs X D put subdirs s = (Ok es, s1)"
    and d: "store_directory X D put (es @ map file_entry files) name s1 = (Ok r, s')" using 1(3) unfolding build_inner_Ok by blast
  obtain new where n: "\<And>bs. build_subdirs X D record_put subdirs bs = (Ok es, bs @ new)" "store_puts X C new s = Some s1"
    using 1(1) [OF 1(2) b] by blast
  obtain blk where "\<And>bs. store_directory X D record_put (es @ map file_entry files) name bs = (Ok r, bs @ [blk])" "store_puts X C [blk] s1 = Some s'"
    using store_directory_record d unfolding 1(2) by blast
  then show ?case using n by (intro exI [of _ "new @ [blk]"]) (simp add: store_puts_append)
next
  case (3 X D put name subdir rest s)
  obtain q s1 es' where b: "build_inner X D put subdir s = (Ok q, s1)" "build_subdirs X D put rest s1 = (Ok es', s')"
    "es = subdir_entry name q # es'" using 3(4) unfolding build_subdirs_Ok by blast
  obtain n1 where n1: "\<And>bs. build_inner X D record_put subdir bs = (Ok q, bs @ n1)" "store_puts X C n1 s = Some s1"
    using 3(1) [OF 3(3) b(1)] by blast
  obtain n2 where "\<And>bs. build_subdirs X D record_put rest bs = (Ok es', bs @ n2)" "store_puts X C n2 s1 = Some s'"
    using 3(2) [OF b(1) [symmetric] refl 3(3) b(2)] by blast
  then show ?case using n1 b(3) by (intro exI [of _ "n1 @ n2"]) (simp add: store_puts_append)
qed auto

section \<open>What was built\<close>

definition blocks_in :: "('c, 'm) crates \<Rightarrow> 't store_cfg \<Rightarrow> 't store_backend \<Rightarrow> 'c block list \<Rightarrow> bool" where
  "blocks_in X C s bs \<longleftrightarrow> (\<forall>b \<in> set bs. store_get X C (block_cid b) s = Ok b)"

text \<open>The entries \<open>es\<close> hold what the subdirectories \<open>ds\<close> have.\<close>

definition subs_hold ::
  "('c, 'm) crates \<Rightarrow> dir_prost \<Rightarrow> 't store_cfg \<Rightarrow> 't store_backend \<Rightarrow> 'c directory_entry list \<Rightarrow> (string \<times> 'c dir_node) list \<Rightarrow> bool" where
  "subs_hold X D C s es ds \<longleftrightarrow> (\<forall>k p f. (\<exists>e \<in> set es. de_name e = k \<and> dir_holds X D C s (de_cid e) p f)
     \<longleftrightarrow> (\<exists>d. (k, d) \<in> set ds \<and> (p, f) \<in> node_files d))"

lemma dir_holds_node:
  assumes "\<And>e. e \<in> set es \<Longrightarrow> de_is_directory e" "open_directory X D C s c = sort_entries (es @ map file_entry files)"
    and "subs_hold X D C s es subdirs"
  shows "dir_holds X D C s c path f \<longleftrightarrow> (path, f) \<in> node_files (DirNode name files subdirs)"
proof -
  have open': "set (open_directory X D C s c) = set es \<union> file_entry ` set files" using assms(2) by (simp add: sort_entries_def)
  have fe: "\<not> de_is_directory (file_entry x)" "de_name (file_entry x) = fst x"
    "(de_cid (file_entry x), de_size (file_entry x), de_mimetype (file_entry x)) = snd x"
    for x :: "string \<times> 'a dir_file" by (simp_all add: file_entry_def split: prod.splits)
  consider "path = []" | n where "path = [n]" | k p2 ps where "path = k # p2 # ps" by (metis list.exhaust)
  then show ?thesis
  proof cases
    case (2 n)
    have "dir_holds X D C s c path f \<longleftrightarrow> (\<exists>x \<in> set files. de_name (file_entry x) = n
        \<and> (de_cid (file_entry x), de_size (file_entry x), de_mimetype (file_entry x)) = f)"
      unfolding 2 dir_holds.simps open' using assms(1) fe(1) by blast
    also have "\<dots> \<longleftrightarrow> (n, f) \<in> set files" unfolding fe(2,3) by force
    also have "\<dots> \<longleftrightarrow> (path, f) \<in> node_files (DirNode name files subdirs)" using 2 by (cases f) (auto dest: node_files_path)
    finally show ?thesis .
  next
    case (3 k p2 ps)
    have "dir_holds X D C s c path f \<longleftrightarrow> (\<exists>e \<in> set es. de_name e = k \<and> dir_holds X D C s (de_cid e) (p2 # ps) f)"
      unfolding 3 dir_holds.simps open' using assms(1) fe(1) by blast
    also have "\<dots> \<longleftrightarrow> (\<exists>d. (k, d) \<in> set subdirs \<and> (p2 # ps, f) \<in> node_files d)" using assms(3) unfolding subs_hold_def by blast
    also have "\<dots> \<longleftrightarrow> (path, f) \<in> node_files (DirNode name files subdirs)" unfolding 3 by (cases f) fastforce
    finally show ?thesis .
  qed auto
qed

lemma build_holds:
  fixes C :: "'t store_cfg"
  assumes "dir_laws X D"
  shows "put = record_put \<Longrightarrow> build_inner X D put d bs = (Ok r, out) \<Longrightarrow>
      \<exists>new. out = bs @ new \<and> (\<forall>b \<in> set new. sha_block X b) \<and> snd r = node_size d \<and>
        (blocks_in X C s new \<longrightarrow> (\<forall>path f. dir_holds X D C s (fst r) path f \<longleftrightarrow> (path, f) \<in> node_files d))"
    "put = record_put \<Longrightarrow> build_subdirs X D put ds bs = (Ok es, out) \<Longrightarrow>
      \<exists>new. out = bs @ new \<and> (\<forall>b \<in> set new. sha_block X b) \<and> (\<forall>e \<in> set es. de_is_directory e)
        \<and> sum_list (map de_size es) = sum_list (map (\<lambda>(k, d). node_size d) ds) \<and>
        (blocks_in X C s new \<longrightarrow> subs_hold X D C s es ds)"
  using assms
proof (induction X D put d bs and X D put ds bs arbitrary: r out and es out rule: build_inner_build_subdirs.induct)
  case (1 X D put name files subdirs bs)
  obtain es mid where b: "build_subdirs X D put subdirs bs = (Ok es, mid)"
    and d: "store_directory X D put (es @ map file_entry files) name mid = (Ok r, out)" using 1(3) unfolding build_inner_Ok by blast
  obtain new where n: "mid = bs @ new" "\<And>b. b \<in> set new \<Longrightarrow> sha_block X b" "\<And>e. e \<in> set es \<Longrightarrow> de_is_directory e"
    "sum_list (map de_size es) = sum_list (map (\<lambda>(k, d). node_size d) subdirs)"
    and h: "blocks_in X C s new \<Longrightarrow> subs_hold X D C s es subdirs"
    using 1(1) [OF 1(2) b 1(4)] by blast
  obtain dir blk where dir: "directory_new (sort_entries (es @ map file_entry files)) name = (Ok dir :: (_, api_error) result)"
    and blk: "directory_to_block X D dir = Ok blk" "r = (block_cid blk, dm_total_size dir)" "put blk mid = (Ok (), out)"
    by (rule store_directory_Ok [OF d])
  note db = directory_to_blockD [OF 1(4) blk(1)]
  have ents: "dm_entries dir = sort_entries (es @ map file_entry files)"
    and tot: "dm_total_size dir = sum_list (map de_size (sort_entries (es @ map file_entry files)))"
    using dir by (auto simp: directory_new_def sum_u64_eq split: if_splits)
  have "mset (map de_size (sort_entries (es @ map file_entry files))) = mset (map de_size (es @ map file_entry files))"
    by (simp add: sort_entries_def multiset.map_comp)
  then have "dm_total_size dir = sum_list (map de_size (es @ map file_entry files))"
    unfolding tot sum_mset_sum_list [symmetric] by (rule arg_cong)
  moreover have "sum_list (map de_size (map file_entry files)) = sum_list (map (\<lambda>(n, c, k, m). k) files)"
    by (induction files) (auto simp: file_entry_def)
  ultimately have size: "snd r = node_size (DirNode name files subdirs)" using n(4) blk(2) by simp
  have "dir_holds X D C s (fst r) path f \<longleftrightarrow> (path, f) \<in> node_files (DirNode name files subdirs)"
    if "blocks_in X C s (new @ [blk])" for path f
  proof (rule dir_holds_node [OF n(3)])
    show "open_directory X D C s (fst r) = sort_entries (es @ map file_entry files)"
      using that db(1) ents blk(2) by (simp add: blocks_in_def open_directory_def)
    show "subs_hold X D C s es subdirs" by (rule h) (use that in \<open>simp add: blocks_in_def\<close>)
  qed
  moreover have "out = bs @ new @ [blk]" using blk(3) n(1) 1(2) by (simp add: record_put_def)
  ultimately show ?case using n(2) db(2) size by (intro exI [of _ "new @ [blk]"]) auto
next
  case (3 X D put name subdir rest bs)
  obtain q mid es' where b: "build_inner X D put subdir bs = (Ok q, mid)" "build_subdirs X D put rest mid = (Ok es', out)"
    "es = subdir_entry name q # es'" using 3(4) unfolding build_subdirs_Ok by blast
  obtain n1 where n1: "mid = bs @ n1" "\<And>b. b \<in> set n1 \<Longrightarrow> sha_block X b" "snd q = node_size subdir"
    and h1: "blocks_in X C s n1 \<Longrightarrow> dir_holds X D C s (fst q) p f \<longleftrightarrow> (p, f) \<in> node_files subdir" for p f
    using 3(1) [OF 3(3) b(1) 3(5)] by blast
  obtain n2 where n2: "out = mid @ n2" "\<And>b. b \<in> set n2 \<Longrightarrow> sha_block X b" "\<And>e. e \<in> set es' \<Longrightarrow> de_is_directory e"
    "sum_list (map de_size es') = sum_list (map (\<lambda>(k, d). node_size d) rest)"
    and h2: "blocks_in X C s n2 \<Longrightarrow> subs_hold X D C s es' rest"
    using 3(2) [OF b(1) [symmetric] refl 3(3) b(2) 3(5)] by blast
  have "subs_hold X D C s es ((name, subdir) # rest)" if "blocks_in X C s (n1 @ n2)"
  proof -
    have "blocks_in X C s n1" "blocks_in X C s n2" using that by (auto simp: blocks_in_def)
    then show ?thesis using h1 h2 unfolding b(3) subs_hold_def subdir_entry_def by fastforce
  qed
  then show ?case using n1 n2 b(3) by (intro exI [of _ "n1 @ n2"]) (auto simp: subdir_entry_def)
qed (auto simp: subs_hold_def)

section \<open>Paths\<close>

lemma path_parts_plain: "p \<in> set (path_parts path) \<Longrightarrow> p \<noteq> [] \<and> CHR ''/'' \<notin> set p"
  by (auto simp: path_parts_def dest: split_on_pieces)

lemma parse_entries_Ok:
  assumes "parse_entries X P C s entries = Ok inputs" "e \<in> set inputs"
  shows "ie_parts e \<noteq> []" "p \<in> set (ie_parts e) \<Longrightarrow> p \<noteq> [] \<and> p \<noteq> ''..'' \<and> CHR ''/'' \<notin> set p"
proof -
  obtain lists where l: "try_map (parse_entry X P C s) entries = Ok lists" "inputs = concat lists"
    using assms(1) by (auto simp: parse_entries_def result_simps)
  have "es \<in> set lists \<Longrightarrow> \<exists>entry. parse_entry X P C s entry = Ok es" for es
    using l(1) by (induction entries arbitrary: lists) (auto simp: result_simps)
  moreover obtain es where "es \<in> set lists" "e \<in> set es" using assms(2) l(2) by auto
  ultimately obtain entry where "parse_entry X P C s entry = Ok es" "e \<in> set es" by blast
  then have "ie_parts e = path_parts (ce_path entry)" "ie_parts e \<noteq> []" "''..'' \<notin> set (ie_parts e)"
    by (auto simp: parse_entry_def result_simps Let_def split: if_splits)
  then show "ie_parts e \<noteq> []" "p \<in> set (ie_parts e) \<Longrightarrow> p \<noteq> [] \<and> p \<noteq> ''..'' \<and> CHR ''/'' \<notin> set p"
    using path_parts_plain by auto
qed

section \<open>The handler\<close>

text \<open>The blocks a request writes.\<close>

definition directory_blocks :: "('c, 'm) crates \<Rightarrow> dir_prost \<Rightarrow> string option \<Rightarrow> 'c input_entry list \<Rightarrow> 'c block list" where
  "directory_blocks X D name inputs =
     snd (build_inner X D record_put (promote (build_tree (case name of Some n \<Rightarrow> n | None \<Rightarrow> []) inputs)) [])"

lemma store_puts_stored:
  assumes "inj_on (sha256 X) A"
  shows "room X C A (length bs + k) s \<Longrightarrow> (\<And>b. b \<in> set bs \<Longrightarrow> sha_block X b \<and> block_data b \<in> A) \<Longrightarrow> store_puts X C bs s = Some s' \<Longrightarrow>
    room X C A k s' \<and> (\<forall>b \<in> set bs. store_look X C s' (block_cid b) = Some (block_data b))
    \<and> (\<forall>x d. store_look X C s x = Some d \<longrightarrow> store_look X C s' x = Some d)"
proof (induction bs arbitrary: s)
  case (Cons b bs)
  obtain s1 where s1: "store_put X C b s = (Ok (), s1)" "store_puts X C bs s1 = Some s'"
    using Cons(4) by (auto simp: bind_eq_Some_conv ok_state_def split: prod.splits result.splits)
  have b: "sha_block X b" "block_data b \<in> A" using Cons(3) by auto
  have r: "room X C A (Suc (length bs + k)) s" using Cons(2) by simp
  note p = put_one [OF assms r b s1(1)]
  show ?case using Cons(1) [OF p(1) _ s1(2)] Cons(3) p(2,3) by auto
qed simp

lemma create_directory_holds:
  assumes "dir_laws X D" "parse_entries X P C s entries = Ok inputs"
    and "A = stored_data X C s \<union> block_data ` set (directory_blocks X D name inputs)" "inj_on (sha256 X) A"
    and "room X C A (length (directory_blocks X D name inputs)) s"
    and "archivist_create_directory X P D C entries name s = (Ok (cid_str, total_bytes, files_count), s')" "reads_ok X C s'"
  shows "\<exists>c prefix. cid_str = cid_to_string X c
    \<and> (\<forall>path f. dir_holds X D C s' c path f \<longleftrightarrow> (\<exists>e \<in> set inputs. ie_parts e = prefix @ path \<and> entry_file e = f))
    \<and> total_bytes = sum_list (map ie_size inputs) \<and> files_count = length inputs"
proof -
  let ?tree = "build_tree (case name of Some n \<Rightarrow> n | None \<Rightarrow> []) inputs"
  let ?put = "put_or ''Failed to store directory block'' X C"
  obtain c where b: "build_inner X D ?put (promote ?tree) s = (Ok (c, total_bytes), s')" "cid_str = cid_to_string X c" "files_count = length inputs"
    using assms(2,6) by (auto simp: archivist_create_directory_def Let_def result_simps split: if_splits prod.splits)
  obtain new where n: "\<And>bs. build_inner X D record_put (promote ?tree) bs = (Ok (c, total_bytes), bs @ new)" "store_puts X C new s = Some s'"
    using build_record(1) [OF refl b(1)] by blast
  have new: "directory_blocks X D name inputs = new" using n(1) [of "[]"] by (simp add: directory_blocks_def)
  have h: "\<forall>x \<in> set new. sha_block X x" "total_bytes = node_size (promote ?tree)"
    "blocks_in X C s' new \<longrightarrow> (\<forall>path f. dir_holds X D C s' c path f \<longleftrightarrow> (path, f) \<in> node_files (promote ?tree))"
    using build_holds(1) [OF assms(1) refl n(1) [of "[]"], of C s'] by auto
  have st: "room X C A 0 s'" "\<forall>x \<in> set new. store_look X C s' (block_cid x) = Some (block_data x)"
    using store_puts_stored [OF assms(4), of C new 0 s s'] assms(3,5) h(1) n(2) by (auto simp: new)
  have "blocks_in X C s' new" unfolding blocks_in_def
  proof
    fix x assume "x \<in> set new"
    then show "store_get X C (block_cid x) s' = Ok x" using store_get_reads [OF assms(7) st(1)] st(2) by simp
  qed
  then have hold: "dir_holds X D C s' c path f \<longleftrightarrow> (path, f) \<in> node_files (promote ?tree)" for path f using h(3) by blast
  have ne: "ie_parts e \<noteq> []" if "e \<in> set inputs" for e using parse_entries_Ok(1) [OF assms(2) that] .
  have tf: "node_files ?tree = (\<lambda>e. (ie_parts e, entry_file e)) ` set inputs" "node_size ?tree = sum_list (map ie_size inputs)"
    using build_tree_files(2,3) ne by blast+
  obtain prefix where p: "node_files ?tree = (\<lambda>(p, f). (prefix @ p, f)) ` node_files (promote ?tree)" "node_size (promote ?tree) = node_size ?tree"
    using promote_files by blast
  have sub: "(path, f) \<in> node_files (promote ?tree) \<longleftrightarrow> (prefix @ path, f) \<in> node_files ?tree" for path f unfolding p(1) by force
  have "dir_holds X D C s' c path f \<longleftrightarrow> (\<exists>e \<in> set inputs. ie_parts e = prefix @ path \<and> entry_file e = f)" for path f
    unfolding hold sub tf(1) image_iff prod.inject by metis
  then show ?thesis using b(2,3) h(2) p(2) tf(2) by auto
qed


section \<open>A concrete request\<close>

lemma store_directory_live:
  assumes "dir_laws X D" "writable X C W" "s \<in> W" "sum_list (map de_size entries) < 2 ^ 64"
  shows "\<exists>c s'. store_directory X D (put_or msg X C) entries name s = (Ok (c, sum_list (map de_size entries)), s') \<and> s' \<in> W"
proof -
  let ?dir = "\<lparr>dm_entries = sort_entries entries, dm_total_size = sum_list (map de_size entries), dm_name = name\<rparr>"
  have "mset (map de_size (sort_entries entries)) = mset (map de_size entries)" by (simp add: sort_entries_def)
  then have "sum_list (map de_size (sort_entries entries)) = sum_list (map de_size entries)"
    unfolding sum_mset_sum_list [symmetric] by (rule arg_cong)
  then have "directory_new (sort_entries entries) name = (Ok ?dir :: (_, api_error) result)"
    using assms(4) by (simp add: directory_new_def sum_u64_eq)
  moreover obtain b where "directory_to_block X D ?dir = Ok b"
    using assms(1) directory_block [of D X] unfolding dir_laws_def by metis
  moreover obtain s' where "s' \<in> W" "store_put X C b s = (Ok (), s')" using writableD [OF assms(2,3)] by (auto simp: store_put_def)
  ultimately show ?thesis by (auto simp: store_directory_def put_or_def)
qed

lemma build_live:
  fixes C :: "'t store_cfg"
  assumes "dir_laws X D"
  shows "put = put_or msg X C \<Longrightarrow> writable X C W \<Longrightarrow> s \<in> W \<Longrightarrow> node_size d < 2 ^ 64 \<Longrightarrow>
      \<exists>c s'. build_inner X D put d s = (Ok (c, node_size d), s') \<and> s' \<in> W"
    "put = put_or msg X C \<Longrightarrow> writable X C W \<Longrightarrow> s \<in> W \<Longrightarrow> sum_list (map (\<lambda>(k, d). node_size d) ds) < 2 ^ 64 \<Longrightarrow>
      \<exists>es s'. build_subdirs X D put ds s = (Ok es, s') \<and> s' \<in> W \<and> sum_list (map de_size es) = sum_list (map (\<lambda>(k, d). node_size d) ds)"
  using assms
proof (induction X D put d s and X D put ds s rule: build_inner_build_subdirs.induct)
  case (1 X D put name files subdirs s)
  have fs: "sum_list (map de_size (map file_entry files)) = sum_list (map (\<lambda>(n, c, k, m). k) files)"
    by (induction files) (auto simp: file_entry_def)
  have "sum_list (map (\<lambda>(k, d). node_size d) subdirs) < 2 ^ 64" using 1(5) by simp
  then obtain es s1 where es: "build_subdirs X D put subdirs s = (Ok es, s1)" "s1 \<in> W"
    "sum_list (map de_size es) = sum_list (map (\<lambda>(k, d). node_size d) subdirs)" using 1(1) [OF 1(2-4) _ 1(6)] by blast
  have sz: "sum_list (map de_size (es @ map file_entry files)) = node_size (DirNode name files subdirs)" using es(3) fs by simp
  then have "sum_list (map de_size (es @ map file_entry files)) < 2 ^ 64" using 1(5) by simp
  then show ?case using store_directory_live [OF 1(6,3) es(2), of "es @ map file_entry files" msg name] es(1) 1(2) sz by auto
next
  case (3 X D put name subdir rest s)
  have sz: "node_size subdir < 2 ^ 64" "sum_list (map (\<lambda>(k, d). node_size d) rest) < 2 ^ 64" using 3(6) by auto
  obtain c s1 where c: "build_inner X D put subdir s = (Ok (c, node_size subdir), s1)" "s1 \<in> W"
    using 3(1) [OF 3(3,4,5) sz(1) 3(7)] by blast
  obtain es s2 where "build_subdirs X D put rest s1 = (Ok es, s2)" "s2 \<in> W"
    "sum_list (map de_size es) = sum_list (map (\<lambda>(k, d). node_size d) rest)"
    using 3(2) [OF c(1) [symmetric] refl 3(3,4) c(2) sz(2) 3(7)] by blast
  then show ?case using c(1) by (simp add: subdir_entry_def)
qed auto

definition demo_request :: "create_entry list" where
  "demo_request =
     [\<lparr>ce_path = ''m/d/y'', ce_cid = cid_to_string demo_crates (0xcd01, 0x12, [2]), ce_size = Some 7, ce_mimetype = None\<rparr>,
      \<lparr>ce_path = ''m/x'', ce_cid = cid_to_string demo_crates (0xcd01, 0x12, [1]), ce_size = Some 5, ce_mimetype = None\<rparr>]"

definition demo_inputs :: "(nat \<times> nat \<times> bytes) input_entry list" where
  "demo_inputs =
     [\<lparr>ie_parts = [''m'', ''d'', ''y''], ie_cid = (0xcd01, 0x12, [2]), ie_size = 7, ie_mimetype = []\<rparr>,
      \<lparr>ie_parts = [''m'', ''x''], ie_cid = (0xcd01, 0x12, [1]), ie_size = 5, ie_mimetype = []\<rparr>]"

lemma demo_parse: "parse_entries demo_crates P C s demo_request = Ok demo_inputs"
proof -
  have p: "cid_parse demo_crates (cid_to_string demo_crates c) = Some c" for c
    using demo_cid_string_law unfolding cid_string_law_def by blast
  show ?thesis
    by (simp add: parse_entries_def parse_entry_def demo_request_def demo_inputs_def path_parts_def p resolve_size_def)
qed

lemma demo_dir_laws: "dir_laws demo_crates demo_dir_prost"
  by (simp add: dir_laws_def)

lemma demo_tree: "promote (build_tree [] demo_inputs)
  = DirNode ''m'' [(''x'', (0xcd01, 0x12, [1]), 5, [])] [(''d'', DirNode ''d'' [(''y'', (0xcd01, 0x12, [2]), 7, [])] [])]"
  by (simp add: build_tree_def demo_inputs_def empty_dir_def entry_file_def om_get_def)

lemma demo_directory_blocks:
  obtains b b' where "directory_blocks demo_crates demo_dir_prost None demo_inputs = [b, b']"
    "block_data b \<noteq> []" "hd (block_data b) = 1" "block_data b' \<noteq> []" "hd (block_data b') = 2"
proof -
  have blk: "\<exists>b. (\<forall>bs. store_directory demo_crates demo_dir_prost record_put entries name bs
        = (Ok (block_cid b, sum_list (map de_size entries)), bs @ [b])) \<and> block_data b \<noteq> [] \<and> hd (block_data b) = word_of_nat (length entries)"
    if "sum_list (map de_size entries) < 2 ^ 64" "length entries < 128" for entries name
  proof -
    let ?dir = "\<lparr>dm_entries = sort_entries entries, dm_total_size = sum_list (map de_size entries), dm_name = name\<rparr>"
    have "mset (map de_size (sort_entries entries)) = mset (map de_size entries)" by (simp add: sort_entries_def)
    then have "sum_list (map de_size (sort_entries entries)) = sum_list (map de_size entries)"
      unfolding sum_mset_sum_list [symmetric] by (rule arg_cong)
    then have d: "directory_new (sort_entries entries) name = (Ok ?dir :: (_, api_error) result)"
      using that(1) by (simp add: directory_new_def sum_u64_eq)
    obtain b where b: "directory_to_block demo_crates demo_dir_prost ?dir = Ok b"
      using demo_dir_laws directory_block [of demo_dir_prost demo_crates] unfolding dir_laws_def by metis
    then have "directory_encode demo_crates demo_dir_prost ?dir = Ok (block_data b)"
      by (auto simp: directory_to_block_def Let_def result_simps)
    then have "block_data b = w_dir_header \<lparr>pdh_entries = map (entry_to_proto demo_crates) (sort_entries entries),
        pdh_total_size = sum_list (map de_size entries), pdh_name = name\<rparr>" by (simp add: directory_encode_def demo_dir_prost_def)
    moreover have "length (sort_entries entries) = length entries" by (simp add: sort_entries_def)
    ultimately have "\<exists>rest. block_data b = word_of_nat (length entries) # rest"
      using that(2) by (simp add: w_dir_header_def w_iso_def w_pair_def dir_header_tuple_def demo_varint.simps)
    then show ?thesis using d b by (auto simp: store_directory_def record_put_def)
  qed
  let ?y = "file_entry (''y'', (0xcd01, 0x12, [2]), 7, [])" and ?x = "file_entry (''x'', (0xcd01, 0x12, [1]), 5, [])"
  obtain b where b: "\<And>bs. store_directory demo_crates demo_dir_prost record_put [?y] ''d'' bs = (Ok (block_cid b, 7), bs @ [b])"
    "block_data b \<noteq> []" "hd (block_data b) = 1" using blk [of "[?y]" "''d''"] by (auto simp: file_entry_def)
  obtain b' where "\<And>bs. store_directory demo_crates demo_dir_prost record_put [subdir_entry ''d'' (block_cid b, 7), ?x] ''m'' bs
      = (Ok (block_cid b', 12), bs @ [b'])" "block_data b' \<noteq> []" "hd (block_data b') = 2"
    using blk [of "[subdir_entry ''d'' (block_cid b, 7), ?x]" "''m''"] by (auto simp: file_entry_def subdir_entry_def)
  then show ?thesis using that b by (simp add: directory_blocks_def demo_tree)
qed


end
