(* ===== verification/Api_Pins.thy ===== *)
theory Api_Pins
  imports Api_Delete
begin

text \<open>
  Pins (\<open>api.rs\<close>, the interface compatible with IPFS Cluster): records kept in memory, and a task per
  request that makes sure the block is in the local store. The task runs beside the handlers; its
  three phases are the definitions \<open>pin_begin\<close>, \<open>ensure_pin_locally\<close> and \<open>pin_end\<close>.
\<close>

record pin_request =
  pr_name :: "string option"
  pr_mode :: "string option"
  pr_replication_min :: "int option"
  pr_replication_max :: "int option"
  pr_user_allocations :: "string list"
  pr_metadata :: "string \<rightharpoonup> string"
  pr_tags :: "string \<rightharpoonup> string"

definition default_pin_request :: pin_request where
  "default_pin_request = \<lparr>pr_name = None, pr_mode = None, pr_replication_min = None, pr_replication_max = None,
     pr_user_allocations = [], pr_metadata = Map.empty, pr_tags = Map.empty\<rparr>"

datatype pin_error = PinInvalidCid | PinFetch api_error | PinNotPersisted

record pin_record =
  pi_cid :: string
  pi_name :: "string option"
  pi_mode :: string
  pi_replication_min :: int
  pi_replication_max :: int
  pi_user_allocations :: "string list"
  pi_metadata :: "string \<rightharpoonup> string"
  pi_tags :: "string \<rightharpoonup> string"
  pi_status :: string
  pi_error :: "pin_error option"

definition from_request :: "string \<Rightarrow> pin_request \<Rightarrow> pin_record" where
  "from_request cid req = \<lparr>pi_cid = cid, pi_name = pr_name req,
     pi_mode = (case pr_mode req of Some m \<Rightarrow> m | None \<Rightarrow> ''recursive''),
     pi_replication_min = (case pr_replication_min req of Some v \<Rightarrow> v | None \<Rightarrow> -1),
     pi_replication_max = (case pr_replication_max req of Some v \<Rightarrow> v | None \<Rightarrow> -1),
     pi_user_allocations = pr_user_allocations req, pi_metadata = pr_metadata req, pi_tags = pr_tags req,
     pi_status = ''queued'', pi_error = None\<rparr>"

type_synonym pins = "(string, pin_record) omap"

definition set_ipfs_cluster_pin_status :: "string \<Rightarrow> string \<Rightarrow> pin_error option \<Rightarrow> pins \<Rightarrow> pins" where
  "set_ipfs_cluster_pin_status cid_str status err pins =
     (case om_get pins cid_str of
        Some r \<Rightarrow> om_insert cid_str (r\<lparr>pi_status := status, pi_error := err\<rparr>) pins
      | None \<Rightarrow> pins)"

definition ensure_pin_locally ::
  "('c, 'm) crates \<Rightarrow> http_client \<Rightarrow> string list \<Rightarrow> 't store_cfg \<Rightarrow> string \<Rightarrow> 't store_backend \<Rightarrow> (unit, pin_error) result \<times> 't store_backend" where
  "ensure_pin_locally X http peers C cid_str s =
     (case cid_parse X cid_str of
        None \<Rightarrow> (Err PinInvalidCid, s)
      | Some cid \<Rightarrow>
        if store_has X C cid s then (Ok (), s)
        else (case fetch_cid_from_peers X http peers C cid cid_str s of
                (Err e, s') \<Rightarrow> (Err (PinFetch e), s')
              | (Panic, s') \<Rightarrow> (Panic, s')
              | (Ok _, s') \<Rightarrow> if store_has X C cid s' then (Ok (), s') else (Err PinNotPersisted, s')))"

section \<open>Handlers\<close>

definition ipfs_cluster_pin_cid :: "('c, 'm) crates \<Rightarrow> string \<Rightarrow> pin_request option \<Rightarrow> pins \<Rightarrow> (pin_record, api_error) result \<times> pins" where
  "ipfs_cluster_pin_cid X cid_str body pins =
     (case cid_parse X cid_str of
        None \<Rightarrow> (Err (BadRequest ''Invalid CID''), pins)
      | Some _ \<Rightarrow>
        (let record = from_request cid_str (case body of Some b \<Rightarrow> b | None \<Rightarrow> default_pin_request)
         in (Ok record, om_insert cid_str record pins)))"

definition pin_begin :: "string \<Rightarrow> pins \<Rightarrow> pins" where
  "pin_begin cid_str pins = set_ipfs_cluster_pin_status cid_str ''pinning'' None pins"

text \<open>The end of the task; a task that panicked changes nothing.\<close>

definition pin_end :: "string \<Rightarrow> (unit, pin_error) result \<Rightarrow> pins \<Rightarrow> pins" where
  "pin_end cid_str r pins =
     (case r of
        Ok _ \<Rightarrow> set_ipfs_cluster_pin_status cid_str ''pinned'' None pins
      | Err e \<Rightarrow> set_ipfs_cluster_pin_status cid_str ''pin_error'' (Some e) pins
      | Panic \<Rightarrow> pins)"

definition ipfs_cluster_get_pin :: "string \<Rightarrow> pins \<Rightarrow> (pin_record, api_error) result" where
  "ipfs_cluster_get_pin cid_str pins = (case om_get pins cid_str of Some r \<Rightarrow> Ok r | None \<Rightarrow> Err (NotFound cid_str))"

definition ipfs_cluster_list_pins :: "pins \<Rightarrow> pin_record list" where
  "ipfs_cluster_list_pins pins = map snd pins"

definition ipfs_cluster_unpin_cid ::
  "('c, 'm) crates \<Rightarrow> 't store_cfg \<Rightarrow> string \<Rightarrow> pins \<times> 't store_backend \<Rightarrow> (nat, api_error) result \<times> pins \<times> 't store_backend" where
  "ipfs_cluster_unpin_cid X C cid_str ps =
     (case cid_parse X cid_str of
        None \<Rightarrow> (Err (BadRequest ''Invalid CID''), ps)
      | Some cid \<Rightarrow> (Ok 202, om_remove cid_str (fst ps), snd (store_delete X C cid (snd ps))))"

definition ipfs_cluster_recover_pin :: "string \<Rightarrow> pins \<Rightarrow> (pin_record, api_error) result \<times> pins" where
  "ipfs_cluster_recover_pin cid_str pins =
     (let entry = (case om_get pins cid_str of Some r \<Rightarrow> r | None \<Rightarrow> from_request cid_str default_pin_request);
          pins' = om_insert cid_str (entry\<lparr>pi_status := ''queued'', pi_error := None\<rparr>) pins
      in (case om_get pins' cid_str of Some r \<Rightarrow> Ok r | None \<Rightarrow> Err (NotFound cid_str), pins'))"

section \<open>Properties\<close>

text \<open>
  A task that runs undisturbed ends with the block in the store: when the pin becomes \<open>pinned\<close>, the
  store has the CID, either because it had it before or because a peer sent data that verifies
  against it and the store accepted it.
\<close>

lemma ensure_pin_locally_Ok:
  assumes "ensure_pin_locally X http peers C cid_str s = (Ok (), s')"
  shows "\<exists>cid. cid_parse X cid_str = Some cid \<and> store_has X C cid s'
    \<and> (s' = s \<or> (\<exists>data. verify_blake3 X data cid = Ok () \<and> store_put X C \<lparr>block_cid = cid, block_data = data\<rparr> s = (Ok (), s')))"
proof -
  obtain cid where c: "cid_parse X cid_str = Some cid" using assms by (auto simp: ensure_pin_locally_def split: option.splits)
  show ?thesis
  proof (cases "store_has X C cid s")
    case True
    then show ?thesis using assms c by (auto simp: ensure_pin_locally_def)
  next
    case False
    obtain r t where f: "fetch_cid_from_peers X http peers C cid cid_str s = (r, t)" by (rule prod.exhaust)
    then obtain data where d: "r = Ok data" "store_has X C cid t" "s' = t"
      using assms c False by (auto simp: ensure_pin_locally_def split: result.splits if_splits)
    then show ?thesis using ask_peers_checked [OF f [unfolded fetch_cid_from_peers_def]] c False by auto
  qed
qed

text \<open>A manifest that is not in the store cannot be pinned: whatever the peers answer, it is not stored.\<close>

lemma manifest_pin_fails:
  assumes "cid_parse X cid_str = Some cid" "cid_codec X cid = 0xcd01" "\<not> store_has X C cid s"
  shows "fst (ensure_pin_locally X http peers C cid_str s) \<noteq> Ok ()"
proof
  assume ok: "fst (ensure_pin_locally X http peers C cid_str s) = Ok ()"
  obtain r t where f: "fetch_cid_from_peers X http peers C cid cid_str s = (r, t)" by (rule prod.exhaust)
  have "t = s" if "r = Ok data" for data using ask_peers_checked [OF f [unfolded fetch_cid_from_peers_def]] assms(2) that by auto
  then show False using ok assms f by (auto simp: ensure_pin_locally_def split: result.splits if_splits)
qed

text \<open>The life of a pin record.\<close>

lemma pin_record_life:
  assumes "cid_parse X cid_str = Some cid"
  shows "ipfs_cluster_get_pin cid_str (snd (ipfs_cluster_pin_cid X cid_str (Some req) pins)) = Ok (from_request cid_str req)"
    "ipfs_cluster_get_pin cid_str (pin_end cid_str r (pin_begin cid_str (snd (ipfs_cluster_pin_cid X cid_str (Some req) pins)))) =
      Ok ((from_request cid_str req)\<lparr>pi_status := (case r of Ok _ \<Rightarrow> ''pinned'' | Err _ \<Rightarrow> ''pin_error'' | Panic \<Rightarrow> ''pinning''),
        pi_error := (case r of Err e \<Rightarrow> Some e | _ \<Rightarrow> None)\<rparr>)"
    "ipfs_cluster_get_pin cid_str (pin_end cid_str r (fst (snd (ipfs_cluster_unpin_cid X C cid_str (pins, s))))) = Err (NotFound cid_str)"
  using assms by (auto simp: ipfs_cluster_get_pin_def ipfs_cluster_pin_cid_def ipfs_cluster_unpin_cid_def pin_begin_def pin_end_def
      set_ipfs_cluster_pin_status_def Let_def split: result.splits)

end
