(* ===== verification/Marketplace.thy ===== *)
theory Marketplace
  imports Api_Download Ord_Map
begin

text \<open>
  \<open>marketplace.rs\<close> and the handlers of \<open>api.rs\<close> over it: the availability a node offers, purchases
  and slots, kept in memory and persisted to a JSON file by writing a temporary file and renaming
  it. \<open>serde_json\<close> is a parameter; the fields marked \<open>serde(skip)\<close> do not survive it. The random
  identifiers, the clock and the outcome of the file operations are arguments.
\<close>

section \<open>Records\<close>

definition decimal_gt_zero :: "string \<Rightarrow> bool" where
  "decimal_gt_zero value_str =
     (let trimmed = trim value_str
      in trimmed \<noteq> [] \<and> list_all is_digit trimmed \<and> list_ex (\<lambda>c. c \<noteq> CHR ''0'') trimmed)"

record availability_input =
  ai_min_price :: string
  ai_max_collateral :: string
  ai_max_duration :: nat
  ai_available_until :: "int option"

record availability =
  av_total_size :: nat
  av_min_price :: string
  av_max_collateral :: string
  av_max_duration :: nat
  av_available_until :: "int option"
  av_updated_at :: nat

definition availability_from_input :: "nat \<Rightarrow> availability_input \<Rightarrow> nat \<Rightarrow> (availability, string) result" where
  "availability_from_input now input default_total_size =
     (if default_total_size = 0 then Err ''not enough node storage quota available''
      else if ai_max_duration input = 0 then Err ''maximumDuration must be larger than zero''
      else if \<not> decimal_gt_zero (ai_min_price input) then Err ''minimumPricePerBytePerSecond must be larger than zero''
      else if \<not> decimal_gt_zero (ai_max_collateral input) then Err ''maximumCollateralPerByte must be larger than zero''
      else if (case ai_available_until input of Some t \<Rightarrow> t < 0 | None \<Rightarrow> False) then Err ''availableUntil must not be negative''
      else Ok \<lparr>av_total_size = default_total_size, av_min_price = ai_min_price input, av_max_collateral = ai_max_collateral input,
               av_max_duration = ai_max_duration input, av_available_until = ai_available_until input, av_updated_at = now\<rparr>)"

definition availability_to_input :: "availability \<Rightarrow> availability_input" where
  "availability_to_input a =
     \<lparr>ai_min_price = av_min_price a, ai_max_collateral = av_max_collateral a, ai_max_duration = av_max_duration a,
      ai_available_until = av_available_until a\<rparr>"

record request_input =
  ri_duration :: nat
  ri_proof_probability :: string
  ri_price :: string
  ri_collateral :: string
  ri_expiry :: nat
  ri_nodes :: "nat option"
  ri_tolerance :: "nat option"

record storage_ask =
  sa_slots :: nat
  sa_slot_size :: nat
  sa_duration :: nat
  sa_proof_probability :: string
  sa_price :: string
  sa_collateral :: string
  sa_max_slot_loss :: nat

record storage_request =
  sr_id :: string
  sr_client :: string
  sr_ask :: storage_ask
  sr_cid :: string
  sr_merkle_root :: string
  sr_expiry :: nat
  sr_nonce :: string

datatype purchase_state = Cancelled | Errored | Failed | Finished | PendingPurchase | Started | Submitted | UnknownPurchase

fun purchase_state_str :: "purchase_state \<Rightarrow> string" where
  "purchase_state_str Cancelled = ''cancelled''"
| "purchase_state_str Errored = ''errored''"
| "purchase_state_str Failed = ''failed''"
| "purchase_state_str Finished = ''finished''"
| "purchase_state_str PendingPurchase = ''pending''"
| "purchase_state_str Started = ''started''"
| "purchase_state_str Submitted = ''submitted''"
| "purchase_state_str UnknownPurchase = ''unknown''"

datatype slot_state = SaleCancelled | SaleDownloading | SaleErrored | SaleFailed | SaleFilled | SaleFilling | SaleFinished
  | SaleIgnored | SaleInitialProving | SalePayout | SalePreparing | SaleProving | SaleUnknown

fun slot_state_str :: "slot_state \<Rightarrow> string" where
  "slot_state_str SaleCancelled = ''SaleCancelled''"
| "slot_state_str SaleDownloading = ''SaleDownloading''"
| "slot_state_str SaleErrored = ''SaleErrored''"
| "slot_state_str SaleFailed = ''SaleFailed''"
| "slot_state_str SaleFilled = ''SaleFilled''"
| "slot_state_str SaleFilling = ''SaleFilling''"
| "slot_state_str SaleFinished = ''SaleFinished''"
| "slot_state_str SaleIgnored = ''SaleIgnored''"
| "slot_state_str SaleInitialProving = ''SaleInitialProving''"
| "slot_state_str SalePayout = ''SalePayout''"
| "slot_state_str SalePreparing = ''SalePreparing''"
| "slot_state_str SaleProving = ''SaleProving''"
| "slot_state_str SaleUnknown = ''SaleUnknown''"

record purchase =
  pu_request_id :: string
  pu_request :: storage_request
  pu_state :: purchase_state
  pu_error :: "string option"

record sales_slot =
  sl_id :: string
  sl_state :: slot_state
  sl_request_id :: string
  sl_slot_index :: nat
  sl_request :: storage_request

record market_state =
  ms_availability :: "availability option"
  ms_purchases :: "(string, purchase) omap"
  ms_slots :: "(string, sales_slot) omap"
  ms_next_slot_index :: nat

definition market_default :: market_state where
  "market_default = \<lparr>ms_availability = None, ms_purchases = [], ms_slots = [], ms_next_slot_index = 0\<rparr>"

section \<open>Persistence\<close>

record market_json =
  mj_encode :: "market_state \<Rightarrow> bytes option"
  mj_decode :: "bytes \<Rightarrow> market_state option"

text \<open>What is left of a state after writing and reading it: the skipped fields get their defaults.\<close>

definition persisted :: "market_state \<Rightarrow> market_state" where
  "persisted st = st\<lparr>ms_availability := map_option (\<lambda>a. a\<lparr>av_total_size := 0, av_updated_at := 0\<rparr>) (ms_availability st)\<rparr>"

definition market_json_law :: "market_json \<Rightarrow> bool" where
  "market_json_law J \<longleftrightarrow> (\<forall>st. \<exists>bs. mj_encode J st = Some bs \<and> mj_decode J bs = Some (persisted st))"

record market_store =
  mk_inner :: market_state
  mk_file :: "bytes option"
  mk_tmp :: "bytes option"

text \<open>\<open>fs::read\<close> of the file gives its contents, an error of kind \<open>NotFound\<close>, or another error.\<close>

datatype file_read = FileBytes bytes | FileMissing | FileError

definition market_open :: "market_json \<Rightarrow> file_read \<Rightarrow> (market_state, unit) result" where
  "market_open J r =
     (case r of
        FileBytes bs \<Rightarrow> Ok (case mj_decode J bs of Some st \<Rightarrow> st | None \<Rightarrow> market_default)
      | FileMissing \<Rightarrow> Ok market_default
      | FileError \<Rightarrow> Err ())"

text \<open>Whether writing the temporary file and renaming it succeed, and what a failed write leaves in it.\<close>

record market_io =
  io_write :: bool
  io_rename :: bool
  io_partial :: "bytes option"

definition persist_locked :: "market_json \<Rightarrow> market_io \<Rightarrow> market_store \<Rightarrow> (unit, unit) result \<times> market_store" where
  "persist_locked J io ms =
     (case mj_encode J (mk_inner ms) of
        None \<Rightarrow> (Err (), ms)
      | Some json \<Rightarrow>
        if \<not> io_write io then (Err (), ms\<lparr>mk_tmp := io_partial io\<rparr>)
        else if \<not> io_rename io then (Err (), ms\<lparr>mk_tmp := Some json\<rparr>)
        else (Ok (), ms\<lparr>mk_file := Some json, mk_tmp := None\<rparr>))"

section \<open>Operations\<close>

definition set_availability ::
  "market_json \<Rightarrow> market_io \<Rightarrow> nat \<Rightarrow> availability_input \<Rightarrow> nat \<Rightarrow> market_store \<Rightarrow> (availability, string) result \<times> market_store" where
  "set_availability J io now input default_total_size ms =
     (case availability_from_input now input default_total_size of
        Err e \<Rightarrow> (Err e, ms)
      | Panic \<Rightarrow> (Panic, ms)
      | Ok record \<Rightarrow>
        (case persist_locked J io (ms\<lparr>mk_inner := (mk_inner ms)\<lparr>ms_availability := Some record\<rparr>\<rparr>) of
           (r, ms') \<Rightarrow> (rbind (map_err (\<lambda>_. ''failed to persist marketplace availability'') r) (\<lambda>_. Ok record), ms')))"

definition list_purchase_ids :: "market_store \<Rightarrow> string list" where
  "list_purchase_ids ms = om_keys (ms_purchases (mk_inner ms))"

definition get_purchase :: "market_store \<Rightarrow> string \<Rightarrow> purchase option" where
  "get_purchase ms key = om_get (ms_purchases (mk_inner ms)) key"

definition list_active_slots :: "market_store \<Rightarrow> (string \<times> storage_request \<times> nat) list" where
  "list_active_slots ms = map (\<lambda>(_, slot). (sl_id slot, sl_request slot, sl_slot_index slot)) (ms_slots (mk_inner ms))"

definition get_slot :: "market_store \<Rightarrow> string \<Rightarrow> (string \<times> string \<times> nat \<times> storage_request) option" where
  "get_slot ms key =
     map_option (\<lambda>slot. (slot_state_str (sl_state slot), sl_request_id slot, sl_slot_index slot, sl_request slot))
       (om_get (ms_slots (mk_inner ms)) key)"

definition ZERO_ADDRESS :: string where
  "ZERO_ADDRESS = ''0x0000000000000000000000000000000000000000''"

definition request_nodes :: "request_input \<Rightarrow> nat" where
  "request_nodes r = (case ri_nodes r of Some n \<Rightarrow> n | None \<Rightarrow> 3)"

definition request_tolerance :: "request_input \<Rightarrow> nat" where
  "request_tolerance r = (case ri_tolerance r of Some n \<Rightarrow> n | None \<Rightarrow> 1)"

text \<open>The checks of \<open>reserve_request\<close>, in order.\<close>

definition check_request :: "request_input \<Rightarrow> (unit, string) result" where
  "check_request r =
     (if ri_duration r = 0 then Err ''duration must be greater than zero''
      else if ri_expiry r = 0 \<or> ri_duration r \<le> ri_expiry r
        then Err ''Expiry must be greater than zero and less than the request's duration''
      else if \<not> decimal_gt_zero (ri_proof_probability r) then Err ''Proof probability must be greater than zero''
      else if \<not> decimal_gt_zero (ri_collateral r) then Err ''Collateral per byte must be greater than zero''
      else if \<not> decimal_gt_zero (ri_price r) then Err ''Price per byte per second must be greater than zero''
      else (let nodes = request_nodes r; tolerance = request_tolerance r in
        if nodes < 3 then Err ''nodes must be at least 3''
        else if tolerance = 0 then Err ''Tolerance needs to be bigger then zero''
        else if nodes < tolerance then Err ''Invalid parameters: tolerance cannot be greater than nodes''
        else (let ec_k = nodes - tolerance; ec_m = tolerance in
          if ec_k \<le> 1 \<or> ec_k < ec_m then Err ''Invalid parameters'' else Ok ())))"

definition request_record :: "string \<Rightarrow> string \<Rightarrow> string \<Rightarrow> request_input \<Rightarrow> nat \<Rightarrow> string option \<Rightarrow> storage_request" where
  "request_record request_id nonce cid r slot_size client =
     \<lparr>sr_id = request_id, sr_client = (case client of Some c \<Rightarrow> c | None \<Rightarrow> ZERO_ADDRESS),
      sr_ask = \<lparr>sa_slots = request_nodes r, sa_slot_size = slot_size, sa_duration = ri_duration r,
        sa_proof_probability = ri_proof_probability r, sa_price = ri_price r, sa_collateral = ri_collateral r,
        sa_max_slot_loss = request_tolerance r\<rparr>,
      sr_cid = cid, sr_merkle_root = cid, sr_expiry = ri_expiry r, sr_nonce = nonce\<rparr>"

text \<open>The changes under the write lock, before the state is persisted.\<close>

definition add_request :: "string \<Rightarrow> string \<Rightarrow> storage_request \<Rightarrow> market_state \<Rightarrow> market_state" where
  "add_request request_id slot_id rq st =
     (let slot_index = ms_next_slot_index st;
          st1 = st\<lparr>ms_next_slot_index := sat_add 64 slot_index 1,
            ms_purchases := om_insert request_id
              \<lparr>pu_request_id = request_id, pu_request = rq, pu_state = Submitted, pu_error = None\<rparr> (ms_purchases st)\<rparr>
      in if ms_availability st1 = None then st1
         else st1\<lparr>ms_slots := om_insert slot_id
           \<lparr>sl_id = slot_id, sl_state = SaleDownloading, sl_request_id = request_id, sl_slot_index = slot_index, sl_request = rq\<rparr>
           (ms_slots st1)\<rparr>)"

record market_random =
  mr_request_id :: bytes
  mr_nonce :: bytes
  mr_slot_id :: bytes

definition reserve_request ::
  "market_json \<Rightarrow> market_io \<Rightarrow> market_random \<Rightarrow> string \<Rightarrow> request_input \<Rightarrow> nat \<Rightarrow> string option \<Rightarrow> market_store \<Rightarrow>
     (string, string) result \<times> market_store" where
  "reserve_request J io rnd cid request slot_size client ms =
     (case check_request request of
        Err e \<Rightarrow> (Err e, ms)
      | Panic \<Rightarrow> (Panic, ms)
      | Ok _ \<Rightarrow>
        (let request_id = hex_lower (mr_request_id rnd);
             rq = request_record request_id (hex_lower (mr_nonce rnd)) cid request slot_size client
         in case persist_locked J io (ms\<lparr>mk_inner := add_request request_id (hex_lower (mr_slot_id rnd)) rq (mk_inner ms)\<rparr>) of
              (r, ms') \<Rightarrow> (rbind (map_err (\<lambda>_. ''failed to persist marketplace purchase'') r) (\<lambda>_. Ok request_id), ms')))"

section \<open>The handlers\<close>

definition marketplace_store :: "market_store option \<Rightarrow> (market_store, api_error) result" where
  "marketplace_store ms = ok_or ms (ServiceUnavailable ''Persistence is not enabled'')"

definition get_sales_availability :: "market_store option \<Rightarrow> (availability_input, api_error) result" where
  "get_sales_availability ms =
     rbind (marketplace_store ms) (\<lambda>store.
     rbind (ok_or (ms_availability (mk_inner store)) (NotFound ''sales availability not configured'')) (\<lambda>a.
       Ok (availability_to_input a)))"

definition set_sales_availability ::
  "market_json \<Rightarrow> market_io \<Rightarrow> nat \<Rightarrow> nat \<Rightarrow> availability_input \<Rightarrow> market_store option \<Rightarrow> (nat, api_error) result \<times> market_store option" where
  "set_sales_availability J io now quota_max_bytes input ms =
     (case ms of
        None \<Rightarrow> (Err (ServiceUnavailable ''Persistence is not enabled''), None)
      | Some store \<Rightarrow>
        (case set_availability J io now input quota_max_bytes store of
           (r, store') \<Rightarrow> (rbind (map_err Unprocessable r) (\<lambda>_. Ok 201), Some store')))"

definition list_sales_slots :: "market_store option \<Rightarrow> ((string \<times> storage_request \<times> nat) list, api_error) result" where
  "list_sales_slots ms = rbind (marketplace_store ms) (\<lambda>store. Ok (list_active_slots store))"

definition get_sales_slot :: "market_store option \<Rightarrow> string \<Rightarrow> (string \<times> string \<times> nat \<times> storage_request, api_error) result" where
  "get_sales_slot ms slot_id = rbind (marketplace_store ms) (\<lambda>store. ok_or (get_slot store slot_id) (NotFound slot_id))"

definition list_storage_purchases :: "market_store option \<Rightarrow> (string list, api_error) result" where
  "list_storage_purchases ms = rbind (marketplace_store ms) (\<lambda>store. Ok (list_purchase_ids store))"

definition get_storage_purchase ::
  "market_store option \<Rightarrow> string \<Rightarrow> (string \<times> storage_request option \<times> string \<times> string option, api_error) result" where
  "get_storage_purchase ms key =
     rbind (marketplace_store ms) (\<lambda>store.
     rbind (ok_or (get_purchase store key) (NotFound key)) (\<lambda>p.
       Ok (pu_request_id p, Some (pu_request p), purchase_state_str (pu_state p), pu_error p)))"

definition marketplace_slot_size :: "('c, 'm) crates \<Rightarrow> prost \<Rightarrow> 't store_cfg \<Rightarrow> 't store_backend \<Rightarrow> 'c \<Rightarrow> (nat, api_error) result" where
  "marketplace_slot_size X P C s cid =
     (case store_get X C cid s of
        Ok block \<Rightarrow> (case from_block X P block of Ok m \<Rightarrow> Ok (m_dataset_size m) | _ \<Rightarrow> Ok (length (block_data block)))
      | Err e \<Rightarrow> Err (read_err (cid_to_string X cid) ''Failed to inspect marketplace request content'' e)
      | Panic \<Rightarrow> Panic)"

definition create_storage_request ::
  "('c, 'm) crates \<Rightarrow> prost \<Rightarrow> ('c \<Rightarrow> string option) \<Rightarrow> 't store_cfg \<Rightarrow> 't store_backend \<Rightarrow> market_json \<Rightarrow> market_io \<Rightarrow> market_random \<Rightarrow>
     string option \<Rightarrow> string \<Rightarrow> request_input \<Rightarrow> market_store option \<Rightarrow> (string, api_error) result \<times> market_store option" where
  "create_storage_request X P base58 C s J io rnd eth_account cid_str request ms =
     (case ms of
        None \<Rightarrow> (Err (ServiceUnavailable ''Persistence is not enabled''), None)
      | Some store \<Rightarrow>
        (case rbind (parse_cid_path X cid_str) (\<lambda>cid. rbind (marketplace_slot_size X P C s cid) (\<lambda>n. Ok (cid, n))) of
           Err e \<Rightarrow> (Err e, ms)
         | Panic \<Rightarrow> (Panic, ms)
         | Ok (cid, slot_size) \<Rightarrow>
           (case reserve_request J io rnd (api_cid_string X base58 cid) request slot_size eth_account store of
              (r, store') \<Rightarrow> (map_err Unprocessable r, Some store'))))"

end
