(* ===== verification/Api_Misc.thy ===== *)
theory Api_Misc
  imports Marketplace Metrics
begin

text \<open>
  The remaining handlers of \<open>api.rs\<close> that report on the node, the answers of the interfaces that are
  not wired, and the escaping of names in the HTML page of a directory.
\<close>

section \<open>Reports\<close>

record health_response =
  hr_status :: string
  hr_block_count :: nat
  hr_total_bytes :: nat

definition health_check :: "'t store_cfg \<Rightarrow> 't store_backend \<Rightarrow> health_response" where
  "health_check C s = (let st = store_stats_of C s in \<lparr>hr_status = ''ok'', hr_block_count = block_count st, hr_total_bytes = total_size st\<rparr>)"

record space_response =
  sp_total_blocks :: nat
  sp_quota_max_bytes :: nat
  sp_quota_used_bytes :: nat
  sp_quota_reserved_bytes :: nat

text \<open>\<open>Iterator::sum\<close> of 64-bit numbers: an overflow panics.\<close>

fun usize_sum :: "nat list \<Rightarrow> (nat, 'e) result" where
  "usize_sum [] = Ok 0"
| "usize_sum (x # xs) = rbind (usize_sum xs) (\<lambda>v. if v + x < 2 ^ 64 then Ok (v + x) else Panic)"

definition archivist_space :: "'t store_cfg \<Rightarrow> nat \<Rightarrow> market_store option \<Rightarrow> 't store_backend \<Rightarrow> (space_response, api_error) result" where
  "archivist_space C quota_max_bytes ms s =
     (let st = store_stats_of C s in
      rbind (case ms of Some store \<Rightarrow> usize_sum (map (\<lambda>(_, request, _). sa_slot_size (sr_ask request)) (list_active_slots store)) | None \<Rightarrow> Ok 0)
        (\<lambda>reserved. Ok \<lparr>sp_total_blocks = block_count st, sp_quota_max_bytes = quota_max_bytes, sp_quota_used_bytes = total_size st,
           sp_quota_reserved_bytes = reserved\<rparr>))"

definition archivist_stats :: "'t store_cfg \<Rightarrow> 't store_backend \<Rightarrow> nat \<times> nat" where
  "archivist_stats C s = (let st = store_stats_of C s in (block_count st, total_size st))"

definition connect_not_supported :: "(nat, api_error) result" where
  "connect_not_supported = Err (NotImplemented ''Peer connect API is not wired yet in neverust runtime'')"

definition loglevel_not_supported :: "(nat, api_error) result" where
  "loglevel_not_supported = Err (NotImplemented ''Runtime log level updates are not implemented'')"

definition debug_peer_not_supported :: "(nat, api_error) result" where
  "debug_peer_not_supported = Err (NotImplemented ''Debug peer lookup is not implemented'')"

definition debug_testing_not_supported :: "(nat, api_error) result" where
  "debug_testing_not_supported = Err (NotImplemented ''System testing options are not implemented'')"

section \<open>Escaping\<close>

definition replace_char :: "char \<Rightarrow> string \<Rightarrow> string \<Rightarrow> string" where
  "replace_char c by s = concat (map (\<lambda>x. if x = c then by else [x]) s)"

definition html_escape :: "string \<Rightarrow> string" where
  "html_escape s =
     replace_char (CHR 0x27) ''&#39;'' (replace_char (CHR 0x22) ''&quot;'' (replace_char (CHR ''>'') ''&gt;''
       (replace_char (CHR ''<'') ''&lt;'' (replace_char (CHR ''&'') ''&amp;'' s))))"

text \<open>What one character becomes.\<close>

definition escape_char :: "char \<Rightarrow> string" where
  "escape_char c =
     (if c = CHR ''&'' then ''&amp;'' else if c = CHR ''<'' then ''&lt;'' else if c = CHR ''>'' then ''&gt;''
      else if c = CHR 0x22 then ''&quot;'' else if c = CHR 0x27 then ''&#39;'' else [c])"

lemma replace_char_append [simp]: "replace_char c r (s @ t) = replace_char c r s @ replace_char c r t"
  by (simp add: replace_char_def)

lemma replace_char_Nil [simp]: "replace_char c r [] = []"
  by (simp add: replace_char_def)

lemma html_escape_append: "html_escape (s @ t) = html_escape s @ html_escape t"
  by (simp add: html_escape_def)

lemma html_escape_char: "html_escape [c] = escape_char c"
  by (auto simp: html_escape_def escape_char_def replace_char_def)

lemma html_escape_concat: "html_escape s = concat (map escape_char s)"
proof (induction s)
  case (Cons c s)
  then show ?case using html_escape_append [of "[c]" s] by (simp add: html_escape_char)
qed (simp add: html_escape_def)

text \<open>Names cannot break out of an attribute or start a tag: the five passes act as one, and none of the
  four characters is left.\<close>

lemma html_escape_safe: "set (html_escape s) \<inter> {CHR ''<'', CHR ''>'', CHR 0x22, CHR 0x27} = {}"
  unfolding html_escape_concat by (auto simp: escape_char_def split: if_splits)

text \<open>Nothing is lost either: different names are shown differently.\<close>

lemma escape_char_prefix: "escape_char c @ s = escape_char d @ t \<Longrightarrow> c = d \<and> s = t"
  by (auto simp: escape_char_def split: if_splits)

lemma html_escape_inj: "html_escape s = html_escape t \<Longrightarrow> s = t"
proof (induction s arbitrary: t)
  case Nil
  then show ?case by (cases t) (auto simp: html_escape_concat escape_char_def split: if_splits)
next
  case (Cons c s)
  then obtain d u where t: "t = d # u" by (cases t) (auto simp: html_escape_concat escape_char_def split: if_splits)
  then have "escape_char c @ html_escape s = escape_char d @ html_escape u" using Cons.prems by (simp add: html_escape_concat)
  then show ?case using escape_char_prefix Cons.IH t by blast
qed

end
