(* ===== verification/Marketplace_Safety.thy ===== *)
theory Marketplace_Safety
  imports Marketplace
begin

text \<open>
  The marketplace records over every history of operations, failed writes and restarts: their
  well-formedness, and what a reserved request leaves in memory and on disk.
\<close>

section \<open>Well-formed records\<close>

definition request_ok :: "storage_request \<Rightarrow> bool" where
  "request_ok rq \<longleftrightarrow>
     (let ask = sr_ask rq in
      3 \<le> sa_slots ask \<and> 0 < sa_max_slot_loss ask \<and> 2 * sa_max_slot_loss ask \<le> sa_slots ask
      \<and> 1 < sa_slots ask - sa_max_slot_loss ask
      \<and> 0 < sr_expiry rq \<and> sr_expiry rq < sa_duration ask
      \<and> decimal_gt_zero (sa_proof_probability ask) \<and> decimal_gt_zero (sa_price ask) \<and> decimal_gt_zero (sa_collateral ask)
      \<and> sr_merkle_root rq = sr_cid rq)"

definition availability_ok :: "availability \<Rightarrow> bool" where
  "availability_ok a \<longleftrightarrow> 0 < av_max_duration a \<and> decimal_gt_zero (av_min_price a) \<and> decimal_gt_zero (av_max_collateral a)
     \<and> (case av_available_until a of Some t \<Rightarrow> 0 \<le> t | None \<Rightarrow> True)"

definition purchase_ok :: "string \<Rightarrow> purchase \<Rightarrow> bool" where
  "purchase_ok key p \<longleftrightarrow> pu_request_id p = key \<and> sr_id (pu_request p) = key \<and> request_ok (pu_request p) \<and> pu_state p = Submitted"

definition slot_ok :: "market_state \<Rightarrow> string \<Rightarrow> sales_slot \<Rightarrow> bool" where
  "slot_ok st key sl \<longleftrightarrow> sl_id sl = key \<and> sr_id (sl_request sl) = sl_request_id sl \<and> request_ok (sl_request sl)
     \<and> om_get (ms_purchases st) (sl_request_id sl) \<noteq> None
     \<and> (sl_slot_index sl < ms_next_slot_index st \<or> ms_next_slot_index st = 2 ^ 64 - 1)"

definition market_ok :: "market_state \<Rightarrow> bool" where
  "market_ok st \<longleftrightarrow> om_inv (ms_purchases st) \<and> om_inv (ms_slots st) \<and> ms_next_slot_index st < 2 ^ 64
     \<and> (\<forall>a. ms_availability st = Some a \<longrightarrow> availability_ok a)
     \<and> (\<forall>key p. om_get (ms_purchases st) key = Some p \<longrightarrow> purchase_ok key p)
     \<and> (\<forall>key sl. om_get (ms_slots st) key = Some sl \<longrightarrow> slot_ok st key sl)"

lemma market_ok_default: "market_ok market_default"
  by (simp add: market_ok_def market_default_def)

lemma market_ok_persisted: "market_ok st \<Longrightarrow> market_ok (persisted st)"
  by (auto simp: market_ok_def persisted_def slot_ok_def availability_ok_def)

lemma check_request_Ok:
  assumes "check_request r = Ok ()"
  shows "request_ok (request_record rid nonce cid r n client)"
  using assms by (auto simp: check_request_def request_ok_def request_record_def Let_def split: if_splits)

lemma check_request_not_Panic [simp]: "check_request r \<noteq> Panic"
  by (simp add: check_request_def Let_def)

lemma add_request_get:
  "om_get (ms_purchases (add_request rid sid rq st)) key =
     (if key = rid then Some \<lparr>pu_request_id = rid, pu_request = rq, pu_state = Submitted, pu_error = None\<rparr> else om_get (ms_purchases st) key)"
  "om_get (ms_slots (add_request rid sid rq st)) key =
     (if key = sid \<and> ms_availability st \<noteq> None
      then Some \<lparr>sl_id = sid, sl_state = SaleDownloading, sl_request_id = rid, sl_slot_index = ms_next_slot_index st, sl_request = rq\<rparr>
      else om_get (ms_slots st) key)"
  "ms_availability (add_request rid sid rq st) = ms_availability st"
  "ms_next_slot_index (add_request rid sid rq st) = sat_add 64 (ms_next_slot_index st) 1"
  by (auto simp: add_request_def Let_def)

lemma sat_add_one: "n < 2 ^ 64 \<Longrightarrow> sat_add 64 n 1 < 2 ^ 64 \<and> n \<le> sat_add 64 n 1 \<and> (n < sat_add 64 n 1 \<or> sat_add 64 n 1 = 2 ^ 64 - 1)"
  by (auto simp: sat_add_def min_def)

lemma market_ok_add:
  assumes "market_ok st" "request_ok rq" "sr_id rq = rid"
  shows "market_ok (add_request rid sid rq st)"
proof -
  note sat = sat_add_one [of "ms_next_slot_index st"]
  have st: "ms_next_slot_index st < 2 ^ 64" "\<And>key sl. om_get (ms_slots st) key = Some sl \<Longrightarrow> slot_ok st key sl"
    using assms(1) by (auto simp: market_ok_def)
  have "slot_ok (add_request rid sid rq st) key sl" if "om_get (ms_slots (add_request rid sid rq st)) key = Some sl" for key sl
  proof (cases "key = sid \<and> ms_availability st \<noteq> None")
    case True
    then show ?thesis using that sat st(1) assms(2,3) by (auto simp: slot_ok_def add_request_get)
  next
    case False
    then have "slot_ok st key sl" using that st(2) by (auto simp: add_request_get split: if_splits)
    then show ?thesis using sat st(1) by (auto simp: slot_ok_def add_request_get)
  qed
  moreover have "om_inv (ms_purchases (add_request rid sid rq st))" "om_inv (ms_slots (add_request rid sid rq st))"
    using assms(1) by (auto simp: market_ok_def add_request_def Let_def)
  ultimately show ?thesis
    using assms sat by (auto simp: market_ok_def add_request_get purchase_ok_def)
qed

section \<open>Histories\<close>

text \<open>What a restart reads: the file, whatever was in memory.\<close>

definition reopen :: "market_json \<Rightarrow> market_store \<Rightarrow> market_store" where
  "reopen J ms =
     (case market_open J (case mk_file ms of Some bs \<Rightarrow> FileBytes bs | None \<Rightarrow> FileMissing) of
        Ok st \<Rightarrow> ms\<lparr>mk_inner := st\<rparr>
      | _ \<Rightarrow> ms)"

inductive market_reachable :: "market_json \<Rightarrow> market_store \<Rightarrow> bool" for J where
  fresh: "market_reachable J \<lparr>mk_inner = market_default, mk_file = None, mk_tmp = tmp\<rparr>"
| offered: "market_reachable J ms \<Longrightarrow> set_availability J io now input quota ms = (r, ms') \<Longrightarrow> market_reachable J ms'"
| reserved: "market_reachable J ms \<Longrightarrow> reserve_request J io rnd cid request n client ms = (r, ms') \<Longrightarrow> market_reachable J ms'"
| restarted: "market_reachable J ms \<Longrightarrow> market_reachable J (reopen J ms)"

definition store_ok :: "market_json \<Rightarrow> market_store \<Rightarrow> bool" where
  "store_ok J ms \<longleftrightarrow> market_ok (mk_inner ms)
     \<and> (\<forall>bs. mk_file ms = Some bs \<longrightarrow> (\<exists>st. mj_decode J bs = Some st \<and> market_ok st))"

lemma persist_ok:
  assumes "market_json_law J" "store_ok J ms" "market_ok st" "persist_locked J io (ms\<lparr>mk_inner := st\<rparr>) = (r, ms')"
  shows "store_ok J ms'"
proof -
  obtain bs where bs: "mj_encode J st = Some bs" "mj_decode J bs = Some (persisted st)"
    using assms(1) unfolding market_json_law_def by blast
  then show ?thesis using assms(2-4) market_ok_persisted [OF assms(3)]
    by (auto simp: persist_locked_def store_ok_def split: if_splits)
qed

lemma set_availability_ok:
  assumes "market_json_law J" "store_ok J ms" "set_availability J io now input quota ms = (r, ms')"
  shows "store_ok J ms'"
proof (cases "availability_from_input now input quota")
  case (Ok a)
  have "availability_ok a"
    using Ok by (auto simp: availability_from_input_def availability_ok_def split: if_splits option.splits)
  then have "market_ok ((mk_inner ms)\<lparr>ms_availability := Some a\<rparr>)"
    using assms(2) by (auto simp: store_ok_def market_ok_def slot_ok_def)
  moreover obtain q where "persist_locked J io (ms\<lparr>mk_inner := (mk_inner ms)\<lparr>ms_availability := Some a\<rparr>\<rparr>) = (q, ms')"
    using assms(3) Ok by (auto simp: set_availability_def split: prod.splits)
  ultimately show ?thesis by (rule persist_ok [OF assms(1,2)])
qed (use assms in \<open>auto simp: set_availability_def\<close>)

lemma reserve_request_ok:
  assumes "market_json_law J" "store_ok J ms" "reserve_request J io rnd cid request n client ms = (r, ms')"
  shows "store_ok J ms'"
proof (cases "check_request request")
  case (Ok u)
  let ?rid = "hex_lower (mr_request_id rnd)" and ?sid = "hex_lower (mr_slot_id rnd)"
  let ?rq = "request_record ?rid (hex_lower (mr_nonce rnd)) cid request n client"
  have "market_ok (add_request ?rid ?sid ?rq (mk_inner ms))"
    by (rule market_ok_add) (use assms(2) Ok check_request_Ok in \<open>auto simp: store_ok_def request_record_def\<close>)
  moreover obtain q where "persist_locked J io (ms\<lparr>mk_inner := add_request ?rid ?sid ?rq (mk_inner ms)\<rparr>) = (q, ms')"
    using assms(3) Ok by (auto simp: reserve_request_def Let_def split: prod.splits)
  ultimately show ?thesis by (rule persist_ok [OF assms(1,2)])
qed (use assms in \<open>auto simp: reserve_request_def\<close>)

text \<open>
  C13. The marketplace records stay well-typed: in every state reached by offering storage, reserving
  requests, failing writes and restarts, every purchase and slot is stored under its own identifier,
  every slot belongs to a recorded purchase and has an index below the counter (or the counter is
  saturated), every request satisfies the erasure-coding condition \<open>1 < nodes - tolerance \<ge> tolerance\<close>
  and expires before its end; and what the file holds decodes to such a state too.
\<close>

theorem market_records_typed:
  assumes "market_json_law J" "market_reachable J ms"
  shows "market_ok (mk_inner ms) \<and> (\<forall>bs. mk_file ms = Some bs \<longrightarrow> (\<exists>st. mj_decode J bs = Some st \<and> market_ok st))"
proof -
  have "store_ok J ms"
    using assms(2)
  proof induction
    case (fresh tmp)
    then show ?case by (simp add: store_ok_def market_ok_default)
  next
    case (restarted ms)
    then show ?case
      by (auto simp: store_ok_def reopen_def market_open_def market_ok_default split: option.splits)
  qed (auto intro: set_availability_ok reserve_request_ok assms(1))
  then show ?thesis by (simp add: store_ok_def)
qed

section \<open>Durability\<close>

lemma reopen_persisted:
  assumes "market_json_law J" "mj_encode J st = Some bs" "mk_file ms = Some bs"
  shows "mk_inner (reopen J ms) = persisted st"
proof -
  have "mj_decode J bs = Some (persisted st)" using assms(1,2) unfolding market_json_law_def by (metis option.inject)
  then show ?thesis using assms(3) by (simp add: reopen_def market_open_def)
qed

text \<open>
  C14. Reserving a request: a request that fails a check changes nothing. Otherwise the purchase is
  recorded under the returned identifier, next to all others, and there is a slot for it exactly
  when the node offers storage. When the state was written, a restart finds the same purchases and
  slots; when writing fails the request is refused and the file is as before, so a restart forgets
  it, although until then memory keeps the refused purchase.
\<close>

theorem reserve_request_correct:
  assumes "market_json_law J" "reserve_request J io rnd cid request n client ms = (r, ms')"
    and "rid = hex_lower (mr_request_id rnd)" "rq = request_record rid (hex_lower (mr_nonce rnd)) cid request n client"
  shows "(check_request request \<noteq> Ok () \<longrightarrow> \<not> is_ok r \<and> ms' = ms)
    \<and> (check_request request = Ok () \<longrightarrow>
        (\<forall>key. get_purchase ms' key = (if key = rid then Some \<lparr>pu_request_id = rid, pu_request = rq, pu_state = Submitted, pu_error = None\<rparr>
           else get_purchase ms key))
      \<and> (\<forall>key. get_slot ms' key = (if key = hex_lower (mr_slot_id rnd) \<and> ms_availability (mk_inner ms) \<noteq> None
           then Some (''SaleDownloading'', rid, ms_next_slot_index (mk_inner ms), rq) else get_slot ms key))
      \<and> (if io_write io \<and> io_rename io
         then r = Ok rid \<and> (\<forall>key. get_purchase (reopen J ms') key = get_purchase ms' key \<and> get_slot (reopen J ms') key = get_slot ms' key)
         else \<not> is_ok r \<and> mk_file ms' = mk_file ms))"
proof (cases "check_request request")
  case (Ok u)
  let ?st = "add_request rid (hex_lower (mr_slot_id rnd)) rq (mk_inner ms)"
  obtain bs where bs: "mj_encode J ?st = Some bs" using assms(1) unfolding market_json_law_def by blast
  have res: "ms' = ms\<lparr>mk_inner := ?st, mk_file := if io_write io \<and> io_rename io then Some bs else mk_file ms,
      mk_tmp := if io_write io then (if io_rename io then None else Some bs) else io_partial io\<rparr>"
    "r = (if io_write io \<and> io_rename io then Ok rid else Err ''failed to persist marketplace purchase'')"
    using assms(2) Ok bs by (cases ms; auto simp: reserve_request_def persist_locked_def Let_def assms(3,4) split: if_splits)+
  have in': "mk_inner ms' = ?st" using res(1) by simp
  have ro: "mk_inner (reopen J ms') = persisted ?st" if "io_write io \<and> io_rename io"
    by (rule reopen_persisted [OF assms(1) bs]) (use that res(1) in simp)
  have "get_purchase (reopen J ms') key = get_purchase ms' key" "get_slot (reopen J ms') key = get_slot ms' key"
    if "io_write io \<and> io_rename io" for key
    unfolding get_purchase_def get_slot_def ro [OF that] in' by (simp_all add: persisted_def)
  moreover have "get_purchase ms' key = (if key = rid then Some \<lparr>pu_request_id = rid, pu_request = rq, pu_state = Submitted, pu_error = None\<rparr>
      else get_purchase ms key)" for key unfolding get_purchase_def in' by (simp add: add_request_get)
  moreover have "get_slot ms' key = (if key = hex_lower (mr_slot_id rnd) \<and> ms_availability (mk_inner ms) \<noteq> None
      then Some (''SaleDownloading'', rid, ms_next_slot_index (mk_inner ms), rq) else get_slot ms key)" for key
    unfolding get_slot_def in' by (auto simp: add_request_get)
  ultimately show ?thesis using Ok res by (auto simp: is_ok_iff)
qed (use assms(2) in \<open>auto simp: reserve_request_def is_ok_iff\<close>)

section \<open>A concrete encoding\<close>

definition w_int :: "int \<Rightarrow> bytes" where
  "w_int = w_iso (\<lambda>i. (nat i, nat (- i))) (w_pair demo_varint demo_varint)"

definition r_int :: "bytes \<Rightarrow> (int \<times> bytes) option" where
  "r_int = r_iso (\<lambda>(a, b). int a - int b) (r_pair demo_read_varint demo_read_varint)"

definition purchase_state_of :: "string \<Rightarrow> purchase_state" where
  "purchase_state_of str = hd (filter (\<lambda>x. purchase_state_str x = str)
     [Cancelled, Errored, Failed, Finished, PendingPurchase, Started, Submitted, UnknownPurchase] @ [UnknownPurchase])"

definition slot_state_of :: "string \<Rightarrow> slot_state" where
  "slot_state_of str = hd (filter (\<lambda>x. slot_state_str x = str)
     [SaleCancelled, SaleDownloading, SaleErrored, SaleFailed, SaleFilled, SaleFilling, SaleFinished, SaleIgnored, SaleInitialProving,
      SalePayout, SalePreparing, SaleProving, SaleUnknown] @ [SaleUnknown])"

definition w_availability :: "availability \<Rightarrow> bytes" where
  "w_availability = w_iso (\<lambda>a. (av_total_size a, av_min_price a, av_max_collateral a, av_max_duration a, av_available_until a, av_updated_at a))
     (w_pair demo_varint (w_pair w_string (w_pair w_string (w_pair demo_varint (w_pair (w_option w_int) demo_varint)))))"

definition r_availability :: "bytes \<Rightarrow> (availability \<times> bytes) option" where
  "r_availability = r_iso (\<lambda>(a, b, c, d, e, f). \<lparr>av_total_size = a, av_min_price = b, av_max_collateral = c, av_max_duration = d,
       av_available_until = e, av_updated_at = f\<rparr>)
     (r_pair demo_read_varint (r_pair r_string (r_pair r_string (r_pair demo_read_varint (r_pair (r_option r_int) demo_read_varint)))))"

definition w_ask :: "storage_ask \<Rightarrow> bytes" where
  "w_ask = w_iso (\<lambda>a. (sa_slots a, sa_slot_size a, sa_duration a, sa_proof_probability a, sa_price a, sa_collateral a, sa_max_slot_loss a))
     (w_pair demo_varint (w_pair demo_varint (w_pair demo_varint (w_pair w_string (w_pair w_string (w_pair w_string demo_varint))))))"

definition r_ask :: "bytes \<Rightarrow> (storage_ask \<times> bytes) option" where
  "r_ask = r_iso (\<lambda>(a, b, c, d, e, f, g). \<lparr>sa_slots = a, sa_slot_size = b, sa_duration = c, sa_proof_probability = d, sa_price = e,
       sa_collateral = f, sa_max_slot_loss = g\<rparr>)
     (r_pair demo_read_varint (r_pair demo_read_varint (r_pair demo_read_varint (r_pair r_string (r_pair r_string (r_pair r_string demo_read_varint))))))"

definition w_request :: "storage_request \<Rightarrow> bytes" where
  "w_request = w_iso (\<lambda>q. (sr_id q, sr_client q, sr_ask q, sr_cid q, sr_merkle_root q, sr_expiry q, sr_nonce q))
     (w_pair w_string (w_pair w_string (w_pair w_ask (w_pair w_string (w_pair w_string (w_pair demo_varint w_string))))))"

definition r_request :: "bytes \<Rightarrow> (storage_request \<times> bytes) option" where
  "r_request = r_iso (\<lambda>(a, b, c, d, e, f, g). \<lparr>sr_id = a, sr_client = b, sr_ask = c, sr_cid = d, sr_merkle_root = e, sr_expiry = f, sr_nonce = g\<rparr>)
     (r_pair r_string (r_pair r_string (r_pair r_ask (r_pair r_string (r_pair r_string (r_pair demo_read_varint r_string))))))"

definition w_purchase :: "purchase \<Rightarrow> bytes" where
  "w_purchase = w_iso (\<lambda>p. (pu_request_id p, pu_request p, purchase_state_str (pu_state p), pu_error p))
     (w_pair w_string (w_pair w_request (w_pair w_string (w_option w_string))))"

definition r_purchase :: "bytes \<Rightarrow> (purchase \<times> bytes) option" where
  "r_purchase = r_iso (\<lambda>(a, b, c, d). \<lparr>pu_request_id = a, pu_request = b, pu_state = purchase_state_of c, pu_error = d\<rparr>)
     (r_pair r_string (r_pair r_request (r_pair r_string (r_option r_string))))"

definition w_slot :: "sales_slot \<Rightarrow> bytes" where
  "w_slot = w_iso (\<lambda>p. (sl_id p, slot_state_str (sl_state p), sl_request_id p, sl_slot_index p, sl_request p))
     (w_pair w_string (w_pair w_string (w_pair w_string (w_pair demo_varint w_request))))"

definition r_slot :: "bytes \<Rightarrow> (sales_slot \<times> bytes) option" where
  "r_slot = r_iso (\<lambda>(a, b, c, d, e). \<lparr>sl_id = a, sl_state = slot_state_of b, sl_request_id = c, sl_slot_index = d, sl_request = e\<rparr>)
     (r_pair r_string (r_pair r_string (r_pair r_string (r_pair demo_read_varint r_request))))"

definition w_market :: "market_state \<Rightarrow> bytes" where
  "w_market = w_iso (\<lambda>s. (ms_availability s, ms_purchases s, ms_slots s, ms_next_slot_index s))
     (w_pair (w_option w_availability) (w_pair (w_list (w_pair w_string w_purchase)) (w_pair (w_list (w_pair w_string w_slot)) demo_varint)))"

definition r_market :: "bytes \<Rightarrow> (market_state \<times> bytes) option" where
  "r_market = r_iso (\<lambda>(a, b, c, d). \<lparr>ms_availability = a, ms_purchases = b, ms_slots = c, ms_next_slot_index = d\<rparr>)
     (r_pair (r_option r_availability) (r_pair (r_list (r_pair r_string r_purchase)) (r_pair (r_list (r_pair r_string r_slot)) demo_read_varint)))"

lemma purchase_state_of_str: "purchase_state_of (purchase_state_str x) = x"
  by (cases x) (simp_all add: purchase_state_of_def)

lemma slot_state_of_str: "slot_state_of (slot_state_str x) = x"
  by (cases x) (simp_all add: slot_state_of_def)

lemma int_codec: "self_delimiting w_int r_int"
  unfolding w_int_def r_int_def by (intro iso_codec wire_codecs) auto

lemma availability_codec: "self_delimiting w_availability r_availability"
  unfolding w_availability_def r_availability_def by (intro iso_codec wire_codecs int_codec) simp

lemma request_codec: "self_delimiting w_request r_request"
  unfolding w_request_def r_request_def w_ask_def r_ask_def by (intro iso_codec wire_codecs) simp_all

lemma purchase_codec: "self_delimiting w_purchase r_purchase"
  unfolding w_purchase_def r_purchase_def by (intro iso_codec wire_codecs request_codec) (simp add: purchase_state_of_str)

lemma slot_codec: "self_delimiting w_slot r_slot"
  unfolding w_slot_def r_slot_def by (intro iso_codec wire_codecs request_codec) (simp add: slot_state_of_str)

lemma market_codec: "self_delimiting w_market r_market"
  unfolding w_market_def r_market_def by (intro iso_codec wire_codecs availability_codec purchase_codec slot_codec) simp

definition demo_market_json :: market_json where
  "demo_market_json = \<lparr>mj_encode = Some \<circ> w_market \<circ> persisted, mj_decode = read_whole r_market\<rparr>"

lemma demo_market_json_law: "market_json_law demo_market_json"
  by (simp add: market_json_law_def demo_market_json_def read_whole_put [OF market_codec])

section \<open>A concrete history\<close>

definition demo_market :: market_store where
  "demo_market = \<lparr>mk_inner = market_default, mk_file = None, mk_tmp = None\<rparr>"

definition demo_storage_request :: request_input where
  "demo_storage_request = \<lparr>ri_duration = 3600, ri_proof_probability = ''4'', ri_price = ''42'', ri_collateral = ''7'', ri_expiry = 300,
     ri_nodes = Some 4, ri_tolerance = None\<rparr>"

definition demo_random :: market_random where
  "demo_random = \<lparr>mr_request_id = replicate 16 1, mr_nonce = replicate 16 2, mr_slot_id = replicate 16 3\<rparr>"

definition demo_io :: market_io where
  "demo_io = \<lparr>io_write = True, io_rename = True, io_partial = None\<rparr>"

lemma demo_check: "check_request demo_storage_request = Ok ()"
  by (simp add: check_request_def demo_storage_request_def decimal_gt_zero_def trim_def is_ascii_space_def is_digit_def Let_def
      request_nodes_def request_tolerance_def)

theorem reserve_request_correct_witness:
  "\<exists>r ms'. reserve_request demo_market_json demo_io demo_random ''z1'' demo_storage_request 99 None demo_market = (r, ms')
     \<and> r = Ok (hex_lower (replicate 16 1))
     \<and> (\<exists>p. get_purchase (reopen demo_market_json ms') (hex_lower (replicate 16 1)) = Some p \<and> sa_slot_size (sr_ask (pu_request p)) = 99)"
proof -
  obtain r ms' where rm: "reserve_request demo_market_json demo_io demo_random ''z1'' demo_storage_request 99 None demo_market = (r, ms')"
    by (rule prod.exhaust)
  show ?thesis
    using reserve_request_correct [OF demo_market_json_law rm refl refl] demo_check rm
    by (auto simp: demo_io_def demo_random_def request_record_def)
qed

theorem market_records_typed_witness:
  "\<exists>r ms'. reserve_request demo_market_json demo_io demo_random ''z1'' demo_storage_request 99 None demo_market = (r, ms')
     \<and> market_ok (mk_inner ms')"
proof -
  obtain r ms' where rm: "reserve_request demo_market_json demo_io demo_random ''z1'' demo_storage_request 99 None demo_market = (r, ms')"
    by (rule prod.exhaust)
  have "market_reachable demo_market_json demo_market" unfolding demo_market_def by (rule market_reachable.fresh)
  then have "market_reachable demo_market_json ms'" using rm by (rule market_reachable.reserved)
  then show ?thesis using market_records_typed [OF demo_market_json_law] rm by blast
qed

end
