(* ===== verification/Cluster.thy ===== *)
theory Cluster
  imports Api_Download Ord_Map
begin

text \<open>
  \<open>cluster.rs\<close> and \<open>archivist_cluster.rs\<close>: the deterministic choice of the nodes that hold a CID, and
  pinning a payload on them until enough replicas exist. HTTP is a parameter: what a request to a
  URL returns. The block stores of local members are shared, so they live in a heap of stores and a
  member holds a reference. The tasks of one batch run to completion in an order that the argument
  \<open>sched\<close> gives.
\<close>

section \<open>Placement\<close>

record cluster_node =
  cn_id :: string
  cn_base_url :: string
  cn_weight :: nat

definition cluster_node_new :: "string \<Rightarrow> string \<Rightarrow> cluster_node" where
  "cluster_node_new node_id base_url = \<lparr>cn_id = node_id, cn_base_url = base_url, cn_weight = 1\<rparr>"

definition RAW_PATH :: string where
  "RAW_PATH = ''/api/archivist/v1/data/raw''"

definition upload_path_for_cid_str :: "('c, 'm) crates \<Rightarrow> string \<Rightarrow> string" where
  "upload_path_for_cid_str X cid_str =
     (case cid_parse X cid_str of
        Some cid \<Rightarrow> if cid_codec X cid = 0xcd01 then ''/api/archivist/v1/data'' else RAW_PATH
      | None \<Rightarrow> RAW_PATH)"

text \<open>The first sixteen bytes of the digest as two little-endian words, the first one the high half.\<close>

definition node_score :: "('c, 'm) crates \<Rightarrow> string \<Rightarrow> cluster_node \<Rightarrow> nat" where
  "node_score X cid_str node =
     (let bs = blake3 X (ascii cid_str @ ascii (cn_id node) @ ascii (cn_base_url node));
          hi = le_nat (take 8 bs);
          lo = le_nat (take 8 (drop 8 bs));
          base = hi * 2 ^ 64 + lo
      in min (base * max (cn_weight node) 1) (2 ^ 128 - 1))"

text \<open>The order of \<open>sort_unstable_by\<close>: highest score first, then by name.\<close>

definition placement_key :: "('c, 'm) crates \<Rightarrow> string \<Rightarrow> cluster_node \<Rightarrow> nat \<times> string" where
  "placement_key X cid_str node = (2 ^ 128 - 1 - node_score X cid_str node, cn_id node)"

definition select_replicas :: "('c, 'm) crates \<Rightarrow> string \<Rightarrow> cluster_node list \<Rightarrow> nat \<Rightarrow> cluster_node list" where
  "select_replicas X cid_str nodes replicas =
     (if nodes = [] \<or> replicas = 0 then []
      else take (min replicas (length nodes)) (sort_key (placement_key X cid_str) nodes))"

section \<open>Members\<close>

datatype cluster_error = ClusterInvalidCid | SourceFetch | ClusterHttp | ClusterStorage | Unsupported

datatype member_backend = HttpApi | LocalNeverust nat

record cluster_member =
  cm_node :: cluster_node
  cm_backend :: member_backend
  cm_healthy :: bool

definition member_http :: "cluster_node \<Rightarrow> cluster_member" where
  "member_http node = \<lparr>cm_node = node, cm_backend = HttpApi, cm_healthy = True\<rparr>"

definition member_local :: "cluster_node \<Rightarrow> nat \<Rightarrow> cluster_member" where
  "member_local node store_ref = \<lparr>cm_node = node, cm_backend = LocalNeverust store_ref, cm_healthy = True\<rparr>"

record pin_outcome =
  po_cid :: string
  po_requested :: nat
  po_achieved :: nat
  po_pinned :: "string list"
  po_failed :: "(string \<times> cluster_error) list"

record archivist_cluster =
  ac_members :: "cluster_member list"
  ac_parallelism :: nat

definition cluster_new :: "cluster_member list \<Rightarrow> nat \<Rightarrow> archivist_cluster" where
  "cluster_new members parallelism = \<lparr>ac_members = members, ac_parallelism = max parallelism 1\<rparr>"

definition set_member_health :: "string \<Rightarrow> bool \<Rightarrow> archivist_cluster \<Rightarrow> archivist_cluster" where
  "set_member_health node_id healthy cl =
     cl\<lparr>ac_members := map (\<lambda>m. if cn_id (cm_node m) = node_id then m\<lparr>cm_healthy := healthy\<rparr> else m) (ac_members cl)\<rparr>"

section \<open>Pinning\<close>

text \<open>A POST of a body to a URL: \<open>None\<close> for a transport error, the status, and the text when it can be read.\<close>

type_synonym http_post = "string \<Rightarrow> bytes \<Rightarrow> (nat \<times> string option) option"

type_synonym 't store_heap = "nat \<Rightarrow> 't store_backend"

definition pin_http :: "http_post \<Rightarrow> cluster_node \<Rightarrow> string \<Rightarrow> string \<Rightarrow> bytes \<Rightarrow> (unit, cluster_error) result" where
  "pin_http post node cid upload_path payload =
     (let base = trim_end_slash (cn_base_url node) in
      if base = [] then Err ClusterHttp
      else case post (base @ upload_path) payload of
        None \<Rightarrow> Err ClusterHttp
      | Some (status, text) \<Rightarrow>
        if \<not> is_success status then Err ClusterHttp
        else case text of
          None \<Rightarrow> Err ClusterHttp
        | Some returned \<Rightarrow> if trim returned \<noteq> cid then Err ClusterHttp else Ok ())"

definition pin_local ::
  "('c, 'm) crates \<Rightarrow> 't store_cfg \<Rightarrow> string \<Rightarrow> string \<Rightarrow> bytes \<Rightarrow> 't store_backend \<Rightarrow> (unit, cluster_error) result \<times> 't store_backend" where
  "pin_local X C cid upload_path payload s =
     (case cid_parse X cid of
        None \<Rightarrow> (Err ClusterInvalidCid, s)
      | Some expected \<Rightarrow>
        if upload_path \<noteq> RAW_PATH then (Err Unsupported, s)
        else (case from_cid_and_data X expected payload of
                Err _ \<Rightarrow> (Err ClusterStorage, s)
              | Panic \<Rightarrow> (Panic, s)
              | Ok block \<Rightarrow> (case store_put X C block s of (r, s') \<Rightarrow> (map_err (\<lambda>_. ClusterStorage) r, s'))))"

definition pin_to_member ::
  "('c, 'm) crates \<Rightarrow> http_post \<Rightarrow> 't store_cfg \<Rightarrow> cluster_member \<Rightarrow> string \<Rightarrow> string \<Rightarrow> bytes \<Rightarrow> 't store_heap \<Rightarrow>
     (unit, cluster_error) result \<times> 't store_heap" where
  "pin_to_member X post C member cid upload_path payload heap =
     (case cm_backend member of
        HttpApi \<Rightarrow> (pin_http post (cm_node member) cid upload_path payload, heap)
      | LocalNeverust ref \<Rightarrow>
        (case pin_local X C cid upload_path payload (heap ref) of (r, s') \<Rightarrow> (r, heap(ref := s'))))"

text \<open>One finished task: a panic of the task is a join error.\<close>

definition record_pin :: "string \<Rightarrow> (unit, cluster_error) result \<Rightarrow> pin_outcome \<Rightarrow> pin_outcome" where
  "record_pin node_id r po =
     (case r of
        Ok _ \<Rightarrow> po\<lparr>po_pinned := po_pinned po @ [node_id], po_achieved := Suc (po_achieved po)\<rparr>
      | Err e \<Rightarrow> po\<lparr>po_failed := po_failed po @ [(node_id, e)]\<rparr>
      | Panic \<Rightarrow> po\<lparr>po_failed := po_failed po @ [(''join'', Unsupported)]\<rparr>)"

definition pin_one ::
  "('c, 'm) crates \<Rightarrow> http_post \<Rightarrow> 't store_cfg \<Rightarrow> string \<Rightarrow> bytes \<Rightarrow> cluster_member \<Rightarrow> pin_outcome \<times> 't store_heap \<Rightarrow> pin_outcome \<times> 't store_heap" where
  "pin_one X post C cid payload member acc =
     (case acc of (po, heap) \<Rightarrow>
        (case pin_to_member X post C member cid (upload_path_for_cid_str X cid) payload heap of
           (r, heap') \<Rightarrow> (record_pin (cn_id (cm_node member)) r po, heap')))"

definition members_by_id :: "cluster_member list \<Rightarrow> (string, cluster_member) omap" where
  "members_by_id healthy = fold (\<lambda>m. om_insert (cn_id (cm_node m)) m) healthy []"

type_synonym pin_scheduler = "nat \<Rightarrow> cluster_member list \<Rightarrow> cluster_member list"

partial_function (option) pin_loop ::
  "('c, 'm) crates \<Rightarrow> http_post \<Rightarrow> 't store_cfg \<Rightarrow> pin_scheduler \<Rightarrow> nat \<Rightarrow> string \<Rightarrow> bytes \<Rightarrow> nat \<Rightarrow> (string, cluster_member) omap \<Rightarrow>
     cluster_node list \<Rightarrow> nat \<Rightarrow> pin_outcome \<times> 't store_heap \<Rightarrow> (pin_outcome \<times> 't store_heap) option" where
  "pin_loop X post C sched parallelism cid payload replicas by_id ordered cursor acc =
     (if po_achieved (fst acc) < replicas \<and> cursor < length ordered
      then (let need = replicas - po_achieved (fst acc);
                remaining = length ordered - cursor;
                batch_size = min (min need remaining) parallelism;
                jobs = List.map_filter (\<lambda>node. om_get by_id (cn_id node)) (take batch_size (drop cursor ordered))
            in pin_loop X post C sched parallelism cid payload replicas by_id ordered (cursor + batch_size)
                 (fold (pin_one X post C cid payload) (sched cursor jobs) acc))
      else Some acc)"

declare pin_loop.simps [code]

definition pin_payload ::
  "('c, 'm) crates \<Rightarrow> http_post \<Rightarrow> 't store_cfg \<Rightarrow> pin_scheduler \<Rightarrow> archivist_cluster \<Rightarrow> string \<Rightarrow> bytes \<Rightarrow> nat \<Rightarrow> 't store_heap \<Rightarrow>
     ((pin_outcome, cluster_error) result \<times> 't store_heap) option" where
  "pin_payload X post C sched cl cid payload replicas0 heap =
     (if trim cid = [] then Some (Err ClusterInvalidCid, heap)
      else let replicas = max replicas0 1;
               healthy = filter cm_healthy (ac_members cl)
           in if healthy = [] then Some (Err Unsupported, heap)
              else let placement_nodes = map cm_node healthy;
                       ordered = select_replicas X cid placement_nodes (length placement_nodes);
                       outcome = \<lparr>po_cid = cid, po_requested = replicas, po_achieved = 0, po_pinned = [], po_failed = []\<rparr>
                   in map_option (\<lambda>(po, heap'). (Ok po, heap'))
                        (pin_loop X post C sched (ac_parallelism cl) cid payload replicas (members_by_id healthy) ordered 0 (outcome, heap)))"

definition pin_from_source ::
  "('c, 'm) crates \<Rightarrow> http_client \<Rightarrow> http_post \<Rightarrow> 't store_cfg \<Rightarrow> pin_scheduler \<Rightarrow> archivist_cluster \<Rightarrow> string \<Rightarrow> string \<Rightarrow> nat \<Rightarrow> 't store_heap \<Rightarrow>
     ((pin_outcome, cluster_error) result \<times> 't store_heap) option" where
  "pin_from_source X http post C sched cl cid source_base_url replicas heap =
     (case http (trim_end_slash source_base_url @ ''/api/archivist/v1/data/'' @ cid @ ''/network/stream'') of
        None \<Rightarrow> Some (Err SourceFetch, heap)
      | Some (status, body) \<Rightarrow>
        if \<not> is_success status then Some (Err SourceFetch, heap)
        else (case body of
                None \<Rightarrow> Some (Err SourceFetch, heap)
              | Some payload \<Rightarrow> pin_payload X post C sched cl cid payload replicas heap))"

section \<open>Properties of the placement\<close>

lemma take_insort_subset: "set (take k (insort_key f x xs)) \<subseteq> insert x (set (take k xs))"
proof (induction xs arbitrary: k)
  case (Cons y ys)
  show ?case
  proof (cases "f x \<le> f y")
    case True
    have "set (take (k - 1) (y # ys)) \<subseteq> set (take k (y # ys))" by (simp add: set_take_subset_set_take)
    then show ?thesis using True by (cases k) auto
  next
    case False
    then show ?thesis using Cons by (cases k) auto
  qed
next
  case Nil
  show ?case by (cases k) simp_all
qed

lemma take_insort_keep: "x \<notin> set (take k (insort_key f x xs)) \<Longrightarrow> take k (insort_key f x xs) = take k xs"
proof (induction xs arbitrary: k)
  case (Cons y ys)
  then show ?case by (cases k) (auto split: if_splits)
next
  case Nil
  then show ?case by (cases k) simp_all
qed

lemma select_replicas_take:
  "select_replicas X cid nodes k = take k (sort_key (placement_key X cid) nodes)"
  by (auto simp: select_replicas_def min_def)

lemma placement_key_inj: "distinct (map cn_id nodes) \<Longrightarrow> inj_on (placement_key X cid) (set nodes)"
  by (auto simp: placement_key_def distinct_map inj_on_def)

text \<open>
  C26. The placement of a CID is stable. It has as many nodes as asked for (all when there are
  fewer), each at most once, and depends on the set of nodes only, not on the order in which they
  are listed. When a node joins, the only node that can newly be chosen is that one; when it is not
  chosen, and so also when an unchosen node leaves, the placement does not change at all.
\<close>

theorem placement_stable:
  assumes "distinct (map cn_id (node # nodes))" "mset nodes' = mset nodes"
  shows "length (select_replicas X cid nodes k) = min k (length nodes)
    \<and> set (select_replicas X cid nodes k) \<subseteq> set nodes \<and> distinct (select_replicas X cid nodes k)
    \<and> select_replicas X cid nodes' k = select_replicas X cid nodes k
    \<and> set (select_replicas X cid (node # nodes) k) \<subseteq> insert node (set (select_replicas X cid nodes k))
    \<and> (node \<notin> set (select_replicas X cid (node # nodes) k) \<longrightarrow>
        select_replicas X cid (node # nodes) k = select_replicas X cid nodes k)"
proof -
  let ?f = "placement_key X cid"
  have d: "distinct nodes" "distinct (map cn_id nodes)" using assms(1) by (auto simp: distinct_map)
  have "sort_key ?f nodes' = sort_key ?f nodes"
  proof (rule sort_key_inj_key_eq)
    show "inj_on ?f (set nodes')" using placement_key_inj [OF d(2)] mset_eq_setD [OF assms(2)] by metis
  qed (use assms(2) in simp_all)
  then show ?thesis
    using d(1) take_insort_subset [of k ?f node "sort_key ?f nodes"] take_insort_keep [of node k ?f "sort_key ?f nodes"]
    unfolding select_replicas_take by (auto simp: min_def dest: in_set_takeD)
qed

theorem placement_stable_witness:
  "length (select_replicas demo_crates ''z'' [cluster_node_new ''a'' ''u'', cluster_node_new ''b'' ''v''] 1) = 1
   \<and> select_replicas demo_crates ''z'' [cluster_node_new ''b'' ''v'', cluster_node_new ''a'' ''u''] 1
     = select_replicas demo_crates ''z'' [cluster_node_new ''a'' ''u'', cluster_node_new ''b'' ''v''] 1"
  using placement_stable [of "cluster_node_new ''c'' ''w''" "[cluster_node_new ''a'' ''u'', cluster_node_new ''b'' ''v'']"
      "[cluster_node_new ''b'' ''v'', cluster_node_new ''a'' ''u'']" demo_crates "''z''" 1]
  by (simp add: cluster_node_new_def)

end
