(* ===== verification/Cluster_Pin.thy ===== *)
theory Cluster_Pin
  imports Cluster Blockexc_Fetch
begin

text \<open>
  Pinning a payload on a cluster (\<open>archivist_cluster.rs\<close>): the loop ends whatever the members
  answer, it reaches the wanted number of replicas whenever that many healthy members accept the
  payload, and a member that counts as pinned really stores it.
\<close>

definition member_refs :: "cluster_member list \<Rightarrow> nat list" where
  "member_refs ms = List.map_filter (\<lambda>m. case cm_backend m of HttpApi \<Rightarrow> None | LocalNeverust r \<Rightarrow> Some r) ms"

text \<open>Whether a member accepts the payload, asked in the stores as they are at the start.\<close>

definition accepts ::
  "('c, 'm) crates \<Rightarrow> http_post \<Rightarrow> 't store_cfg \<Rightarrow> string \<Rightarrow> bytes \<Rightarrow> 't store_heap \<Rightarrow> cluster_member \<Rightarrow> bool" where
  "accepts X post C cid payload heap m \<longleftrightarrow> fst (pin_to_member X post C m cid (upload_path_for_cid_str X cid) payload heap) = Ok ()"

definition member_id :: "cluster_member \<Rightarrow> string" where
  "member_id m = cn_id (cm_node m)"

lemma member_refs_simps [simp]:
  "member_refs [] = []"
  "member_refs (m # ms) = (case cm_backend m of HttpApi \<Rightarrow> member_refs ms | LocalNeverust r \<Rightarrow> r # member_refs ms)"
  by (auto simp: member_refs_def map_filter_simps split: member_backend.splits)

lemma member_refs_append [simp]: "member_refs (ms @ ms') = member_refs ms @ member_refs ms'"
  by (induction ms) (auto split: member_backend.splits)

lemma member_refs_mset: "mset ms = mset ms' \<Longrightarrow> mset (member_refs ms) = mset (member_refs ms')"
  by (simp add: member_refs_def map_filter_def)

lemma set_member_refs: "r \<in> set (member_refs ms) \<longleftrightarrow> (\<exists>m \<in> set ms. cm_backend m = LocalNeverust r)"
  by (induction ms) (auto split: member_backend.splits)

section \<open>One batch\<close>

text \<open>What a run over the members \<open>js\<close> leaves of an outcome and of the stores.\<close>

definition batch_done ::
  "('c, 'm) crates \<Rightarrow> http_post \<Rightarrow> 't store_cfg \<Rightarrow> string \<Rightarrow> bytes \<Rightarrow> 't store_heap \<Rightarrow> cluster_member list \<Rightarrow>
     pin_outcome \<times> 't store_heap \<Rightarrow> pin_outcome \<times> 't store_heap \<Rightarrow> bool" where
  "batch_done X post C cid payload heap0 js acc acc' \<longleftrightarrow>
     po_pinned (fst acc') = po_pinned (fst acc) @ map member_id (filter (accepts X post C cid payload heap0) js)
   \<and> po_achieved (fst acc') = po_achieved (fst acc) + length (filter (accepts X post C cid payload heap0) js)
   \<and> length (po_failed (fst acc')) = length (po_failed (fst acc)) + length (filter (Not \<circ> accepts X post C cid payload heap0) js)
   \<and> po_requested (fst acc') = po_requested (fst acc) \<and> po_cid (fst acc') = po_cid (fst acc)
   \<and> (\<forall>r. snd acc' r = (if r \<in> set (member_refs js)
        then snd (pin_local X C cid (upload_path_for_cid_str X cid) payload (heap0 r)) else snd acc r))"

lemma accepts_backend:
  "accepts X post C cid payload heap m \<longleftrightarrow> (case cm_backend m of
     HttpApi \<Rightarrow> pin_http post (cm_node m) cid (upload_path_for_cid_str X cid) payload = Ok ()
   | LocalNeverust r \<Rightarrow> fst (pin_local X C cid (upload_path_for_cid_str X cid) payload (heap r)) = Ok ())"
  by (auto simp: accepts_def pin_to_member_def split: member_backend.splits prod.splits)

lemma record_pin_fields:
  "po_pinned (record_pin i r po) = po_pinned po @ (if r = Ok () then [i] else [])"
  "po_achieved (record_pin i r po) = po_achieved po + (if r = Ok () then 1 else 0)"
  "length (po_failed (record_pin i r po)) = length (po_failed po) + (if r = Ok () then 0 else 1)"
  "po_requested (record_pin i r po) = po_requested po" "po_cid (record_pin i r po) = po_cid po"
  by (auto simp: record_pin_def split: result.splits)

lemma pin_one_done:
  assumes "\<And>r. r \<in> set (member_refs [m]) \<Longrightarrow> snd acc r = heap0 r"
  shows "batch_done X post C cid payload heap0 [m] acc (pin_one X post C cid payload m acc)"
  using assms unfolding batch_done_def pin_one_def
  by (auto simp: pin_to_member_def accepts_backend record_pin_fields member_id_def split: prod.splits member_backend.splits)

lemma batch_done_trans:
  "batch_done X post C cid payload h js a b \<Longrightarrow> batch_done X post C cid payload h ks b c \<Longrightarrow>
   batch_done X post C cid payload h (js @ ks) a c"
  unfolding batch_done_def by simp

lemma pin_fold_done:
  assumes "distinct (member_refs js)" "\<And>r. r \<in> set (member_refs js) \<Longrightarrow> snd acc r = heap0 r"
  shows "batch_done X post C cid payload heap0 js acc (fold (pin_one X post C cid payload) js acc)"
  using assms
proof (induction js arbitrary: acc)
  case Nil
  then show ?case by (simp add: batch_done_def)
next
  case (Cons m js)
  have one: "batch_done X post C cid payload heap0 [m] acc (pin_one X post C cid payload m acc)"
    by (rule pin_one_done) (use Cons.prems(2) in \<open>auto split: member_backend.splits\<close>)
  have "batch_done X post C cid payload heap0 js (pin_one X post C cid payload m acc)
      (fold (pin_one X post C cid payload) js (pin_one X post C cid payload m acc))"
    by (rule Cons.IH) (use Cons.prems one in \<open>auto simp: batch_done_def split: member_backend.splits\<close>)
  then show ?case using batch_done_trans [OF one] by simp
qed

lemma batch_done_mset:
  assumes "batch_done X post C cid payload h js a b" "mset js = mset ks"
  shows "mset (po_pinned (fst b)) = mset (po_pinned (fst a)) + image_mset member_id (filter_mset (accepts X post C cid payload h) (mset ks))"
    "po_achieved (fst b) = po_achieved (fst a) + length (filter (accepts X post C cid payload h) ks)"
  using assms unfolding batch_done_def by (metis mset_append mset_map mset_filter, metis mset_filter size_mset)

section \<open>The loop\<close>

text \<open>The state at the head of the loop: the members \<open>tried\<close> so far have been run.\<close>

definition pin_inv where
  "pin_inv X post C cid payload heap0 replicas tried acc \<longleftrightarrow>
     mset (po_pinned (fst acc)) = image_mset member_id (filter_mset (accepts X post C cid payload heap0) (mset tried))
   \<and> po_achieved (fst acc) = length (filter (accepts X post C cid payload heap0) tried)
   \<and> length (po_failed (fst acc)) = length (filter (Not \<circ> accepts X post C cid payload heap0) tried)
   \<and> po_requested (fst acc) = replicas \<and> po_cid (fst acc) = cid \<and> po_achieved (fst acc) \<le> replicas
   \<and> (\<forall>r. snd acc r = (if r \<in> set (member_refs tried)
        then snd (pin_local X C cid (upload_path_for_cid_str X cid) payload (heap0 r)) else heap0 r))"

lemma pin_inv_step:
  assumes "pin_inv X post C cid payload heap0 replicas tried acc" "distinct (member_refs (tried @ js))" "mset js' = mset js"
    and "length js \<le> replicas - po_achieved (fst acc)"
  shows "pin_inv X post C cid payload heap0 replicas (tried @ js) (fold (pin_one X post C cid payload) js' acc)"
proof -
  have refs: "set (member_refs js') = set (member_refs js)" "distinct (member_refs js')"
    using member_refs_mset [OF assms(3)] assms(2) by (auto dest: mset_eq_setD mset_eq_imp_distinct_iff)
  have "batch_done X post C cid payload heap0 js' acc (fold (pin_one X post C cid payload) js' acc)"
    by (rule pin_fold_done) (use refs assms(1,2) in \<open>auto simp: pin_inv_def\<close>)
  note d = this batch_done_mset [OF this assms(3)]
  have f: "length (filter (Not \<circ> accepts X post C cid payload heap0) js') = length (filter (Not \<circ> accepts X post C cid payload heap0) js)"
    using assms(3) by (metis mset_filter size_mset)
  have le: "length (filter (accepts X post C cid payload heap0) js) \<le> replicas - po_achieved (fst acc)"
    using assms(4) length_filter_le order_trans by blast
  show ?thesis using d f le refs(1) assms(1) unfolding pin_inv_def batch_done_def by auto
qed

lemma pin_loop_ends:
  assumes "1 \<le> par" "\<And>n js. mset (sched n js) = mset js" "distinct (member_refs members)"
    and "\<And>m. m \<in> set members \<Longrightarrow> om_get by_id (member_id m) = Some m"
    and "cursor \<le> length members" "pin_inv X post C cid payload heap0 replicas (take cursor members) acc"
  shows "\<exists>acc' n. pin_loop X post C sched par cid payload replicas by_id (map cm_node members) cursor acc = Some acc'
    \<and> pin_inv X post C cid payload heap0 replicas (take n members) acc' \<and> (po_achieved (fst acc') < replicas \<longrightarrow> length members \<le> n)"
  using assms(5,6)
proof (induction "length members - cursor" arbitrary: cursor acc rule: less_induct)
  case less
  show ?case
  proof (cases "po_achieved (fst acc) < replicas \<and> cursor < length members")
    case False
    then have "pin_loop X post C sched par cid payload replicas by_id (map cm_node members) cursor acc = Some acc"
      by (subst pin_loop.simps) auto
    moreover have "po_achieved (fst acc) < replicas \<longrightarrow> length members \<le> cursor" using False by auto
    ultimately show ?thesis using less.prems(2) by blast
  next
    case True
    define b where "b = min (min (replicas - po_achieved (fst acc)) (length members - cursor)) par"
    define js where "js = take b (drop cursor members)"
    have b: "0 < b" "cursor + b \<le> length members" "b \<le> replicas - po_achieved (fst acc)" using True assms(1) by (auto simp: b_def)
    have split: "take (cursor + b) members = take cursor members @ js" by (simp add: js_def take_add)
    have "set js \<subseteq> set members" unfolding js_def by (meson in_set_dropD in_set_takeD subsetI)
    then have jobs: "List.map_filter (\<lambda>node. om_get by_id (cn_id node)) (take b (drop cursor (map cm_node members))) = js"
      using assms(4) unfolding member_id_def
      by (simp add: take_map drop_map js_def [symmetric] map_filter_def comp_def filter_id_conv map_idI subset_iff)
    have dist: "distinct (member_refs (take cursor members @ js))"
      using assms(3) append_take_drop_id [of "cursor + b" members] unfolding split [symmetric]
      by (metis distinct_append member_refs_append)
    have inv: "pin_inv X post C cid payload heap0 replicas (take (cursor + b) members) (fold (pin_one X post C cid payload) (sched cursor js) acc)"
      unfolding split by (rule pin_inv_step [OF less.prems(2) dist assms(2)]) (use b(2,3) in \<open>simp add: js_def\<close>)
    have less: "length members - (cursor + b) < length members - cursor" using b True by auto
    have "pin_loop X post C sched par cid payload replicas by_id (map cm_node members) cursor acc =
      pin_loop X post C sched par cid payload replicas by_id (map cm_node members) (cursor + b)
        (fold (pin_one X post C cid payload) (sched cursor js) acc)"
      using True jobs by (subst pin_loop.simps) (simp add: Let_def b_def [symmetric])
    then show ?thesis using less.hyps [OF less b(2) inv] by simp
  qed
qed

section \<open>The whole operation\<close>

lemma insort_map: "insort_key f (g x) (map g xs) = map g (insort_key (f \<circ> g) x xs)"
  by (induction xs) auto

lemma sort_map: "sort_key f (map g xs) = map g (sort_key (f \<circ> g) xs)"
  by (induction xs) (auto simp: insort_map comp_def)

lemma members_by_id_get:
  assumes "distinct (map member_id ms)" "m \<in> set ms"
  shows "om_get (members_by_id ms) (member_id m) = Some m"
proof -
  have keep: "om_get (fold (\<lambda>m. om_insert (cn_id (cm_node m)) m) ms acc) i = om_get acc i" if "i \<notin> member_id ` set ms"
    for i :: string and ms acc
    using that by (induction ms arbitrary: acc) (auto simp: member_id_def)
  have "om_get (fold (\<lambda>m. om_insert (cn_id (cm_node m)) m) ms acc) (member_id m) = Some m" for acc
    using assms keep by (induction ms arbitrary: acc) (auto simp: member_id_def)
  then show ?thesis by (simp add: members_by_id_def)
qed

lemma pin_local_Ok:
  assumes "fst (pin_local X C cid path payload s) = Ok ()" "cid_parse X cid = Some c"
    and "store_inv X C dsize 1 s" "dsize c = length payload"
  shows "store_look X C (snd (pin_local X C cid path payload s)) c =
    (case store_look X C s c of None \<Rightarrow> Some payload | Some d \<Rightarrow> Some d)"
proof -
  obtain b where b: "from_cid_and_data X c payload = Ok b" "store_put X C b s = (Ok (), snd (pin_local X C cid path payload s))"
    using assms(1,2) by (auto simp: pin_local_def split: result.splits if_splits prod.splits)
  have f: "b = \<lparr>block_cid = c, block_data = payload\<rparr>" using b(1) by (cases "verify_blake3 X payload c") (auto simp: from_cid_and_data_def)
  have "store_look X C (snd (pin_local X C cid path payload s)) c =
    (case store_look X C s c of Some d \<Rightarrow> Some d | None \<Rightarrow> batch_of [b] c)"
    using store_put_batch [of X C dsize "[b]" 0 s _ c] b(2) assms(3,4) f unfolding store_put_def by auto
  then show ?thesis using f by (simp split: option.splits)
qed

lemma pin_payload_runs:
  assumes "1 \<le> ac_parallelism cl" "\<And>n js. mset (sched n js) = mset js" "trim cid \<noteq> []"
    and "healthy = filter cm_healthy (ac_members cl)" "healthy \<noteq> []"
    and "distinct (map member_id healthy)" "distinct (member_refs healthy)"
  obtains po heap' ms n where "pin_payload X post C sched cl cid payload replicas heap = Some (Ok po, heap')"
    "mset ms = mset healthy" "pin_inv X post C cid payload heap (max replicas 1) (take n ms) (po, heap')"
    "po_achieved po < max replicas 1 \<longrightarrow> length ms \<le> n"
proof -
  let ?n = "max replicas 1" and ?po = "\<lparr>po_cid = cid, po_requested = max replicas 1, po_achieved = 0, po_pinned = [], po_failed = []\<rparr>"
  define ms where "ms = sort_key (placement_key X cid \<circ> cm_node) healthy"
  have ms: "mset ms = mset healthy" "set ms = set healthy" by (simp_all add: ms_def)
  have ordered: "select_replicas X cid (map cm_node healthy) (length healthy) = map cm_node ms"
    unfolding select_replicas_take sort_map ms_def by simp
  have dist: "distinct (member_refs ms)" using member_refs_mset [OF ms(1)] assms(7) by (metis mset_eq_imp_distinct_iff)
  have init: "pin_inv X post C cid payload heap ?n (take 0 ms) (?po, heap)" by (simp add: pin_inv_def)
  have "\<exists>acc' n. pin_loop X post C sched (ac_parallelism cl) cid payload ?n (members_by_id healthy) (map cm_node ms) 0 (?po, heap) = Some acc'
    \<and> pin_inv X post C cid payload heap ?n (take n ms) acc' \<and> (po_achieved (fst acc') < ?n \<longrightarrow> length ms \<le> n)"
    by (rule pin_loop_ends [OF assms(1,2) dist _ _ init]) (use members_by_id_get [OF assms(6)] ms(2) in auto)
  then obtain po heap' n where run: "pin_loop X post C sched (ac_parallelism cl) cid payload ?n (members_by_id healthy) (map cm_node ms) 0 (?po, heap) = Some (po, heap')"
    and inv: "pin_inv X post C cid payload heap ?n (take n ms) (po, heap')" and all: "po_achieved po < ?n \<longrightarrow> length ms \<le> n"
    by (metis prod.collapse fst_conv)
  have "pin_payload X post C sched cl cid payload replicas heap = Some (Ok po, heap')"
    using run assms(3,5) ordered unfolding pin_payload_def assms(4) [symmetric] by (simp add: Let_def)
  then show ?thesis using that ms(1) inv all by blast
qed

text \<open>
  C11. Pinning a payload on a cluster whose members have their own names and stores always comes to
  an end, whatever the members answer and in whatever order their answers arrive. The number of
  replicas achieved is the number asked for (at least one), or the number of healthy members that
  accept the payload if there are fewer: failures are made up by the next members. The pinned names
  are distinct healthy members that accepted, and the local store of each of them holds the CID
  afterwards; a CID it did not hold before now has the payload.
\<close>

theorem pin_payload_correct:
  assumes "1 \<le> ac_parallelism cl" "\<And>n js. mset (sched n js) = mset js" "trim cid \<noteq> []"
    and "healthy = filter cm_healthy (ac_members cl)" "healthy \<noteq> []"
    and "distinct (map member_id healthy)" "distinct (member_refs healthy)"
  shows "\<exists>po heap'. pin_payload X post C sched cl cid payload replicas heap = Some (Ok po, heap')
    \<and> po_requested po = max replicas 1
    \<and> po_achieved po = min (max replicas 1) (length (filter (accepts X post C cid payload heap) healthy))
    \<and> length (po_pinned po) = po_achieved po \<and> distinct (po_pinned po)
    \<and> (\<forall>i \<in> set (po_pinned po). \<exists>m \<in> set healthy. member_id m = i \<and> accepts X post C cid payload heap m)
    \<and> (\<forall>m c r dsize. m \<in> set healthy \<and> member_id m \<in> set (po_pinned po) \<and> cm_backend m = LocalNeverust r
         \<and> cid_parse X cid = Some c \<and> store_inv X C dsize 1 (heap r) \<and> dsize c = length payload \<longrightarrow>
         store_look X C (heap' r) c = (case store_look X C (heap r) c of None \<Rightarrow> Some payload | Some d \<Rightarrow> Some d))"
proof -
  let ?acc = "accepts X post C cid payload heap" and ?n = "max replicas 1"
  obtain po heap' ms n where res: "pin_payload X post C sched cl cid payload replicas heap = Some (Ok po, heap')"
    and ms: "mset ms = mset healthy" and inv: "pin_inv X post C cid payload heap ?n (take n ms) (po, heap')"
    and all: "po_achieved po < ?n \<longrightarrow> length ms \<le> n"
    by (rule pin_payload_runs [OF assms])
  have size: "length (filter ?acc ms) = length (filter ?acc healthy)" using ms by (metis mset_filter size_mset)
  have pre: "length (filter ?acc (take n ms)) \<le> length (filter ?acc ms)"
    by (metis append_take_drop_id filter_append le_add1 length_append)
  have ach: "po_achieved po = min ?n (length (filter ?acc healthy))"
  proof (cases "po_achieved po < ?n")
    case True
    then show ?thesis using all inv size by (auto simp: pin_inv_def min_def)
  next
    case False
    then show ?thesis using inv size pre by (auto simp: pin_inv_def)
  qed
  have pinned: "mset (po_pinned po) = mset (map member_id (filter ?acc (take n ms)))" using inv by (simp add: pin_inv_def)
  have len: "length (po_pinned po) = po_achieved po" using inv mset_eq_length [OF pinned] by (simp add: pin_inv_def)
  have "distinct (map member_id ms)" using assms(6) mset_eq_imp_distinct_iff [of "map member_id ms" "map member_id healthy"] ms by simp
  then have "distinct (map member_id (take n ms))" by (simp add: take_map [symmetric])
  then have "distinct (map member_id (filter ?acc (take n ms)))" by (simp add: distinct_map_filter)
  then have dp: "distinct (po_pinned po)" using mset_eq_imp_distinct_iff [OF pinned] by simp
  have ids: "set (po_pinned po) = member_id ` set (filter ?acc (take n ms))" using mset_eq_setD [OF pinned] by simp
  have tried: "set (take n ms) \<subseteq> set healthy" using mset_eq_setD [OF ms] set_take_subset by metis
  have inj: "inj_on member_id (set healthy)" using assms(6) by (simp add: distinct_map)
  have st: "store_look X C (heap' r) c = (case store_look X C (heap r) c of None \<Rightarrow> Some payload | Some d \<Rightarrow> Some d)"
    if m: "m \<in> set healthy" "member_id m \<in> set (po_pinned po)" "cm_backend m = LocalNeverust r"
      and c: "cid_parse X cid = Some c" "store_inv X C dsize 1 (heap r)" "dsize c = length payload" for m c r dsize
  proof -
    have "m \<in> set (filter ?acc (take n ms))" using m(1,2) ids tried inj by (auto simp: inj_on_def)
    then have "?acc m" "r \<in> set (member_refs (take n ms))" using m(3) by (auto simp: set_member_refs)
    then have "fst (pin_local X C cid (upload_path_for_cid_str X cid) payload (heap r)) = Ok ()"
      "heap' r = snd (pin_local X C cid (upload_path_for_cid_str X cid) payload (heap r))"
      using m(3) inv by (simp_all add: accepts_backend pin_inv_def)
    then show ?thesis using pin_local_Ok [OF _ c] by simp
  qed
  have who: "\<forall>i \<in> set (po_pinned po). \<exists>m \<in> set healthy. member_id m = i \<and> ?acc m" using ids tried by auto
  have "po_requested po = ?n" using inv by (simp add: pin_inv_def)
  then show ?thesis using res ach len dp who st by blast
qed

section \<open>A cluster of two members, one of which refuses\<close>

definition demo_pin_cid :: string where
  "demo_pin_cid = cid_to_string demo_crates demo_good"

definition demo_cluster :: archivist_cluster where
  "demo_cluster = cluster_new [member_http (cluster_node_new ''a'' ''http://a''), member_local (cluster_node_new ''b'' []) 0] 8"

lemma demo_pin_trim: "trim demo_pin_cid \<noteq> []"
  by (simp add: demo_pin_cid_def demo_crates_def demo_to_bytes_def demo_varint.simps demo_good_def trim_def is_ascii_space_def dropWhile_eq_Nil_conv)

lemma demo_pin_parse [simp]: "cid_parse demo_crates demo_pin_cid = Some demo_good"
  using demo_cid_string_law unfolding cid_string_law_def demo_pin_cid_def by blast

lemma demo_pin_path [simp]: "upload_path_for_cid_str demo_crates demo_pin_cid = RAW_PATH"
  by (simp add: upload_path_for_cid_str_def) (simp add: demo_crates_def demo_good_def)

lemma demo_pin_accepts:
  "\<not> accepts demo_crates (\<lambda>_ _. Some (503, None)) demo_store demo_pin_cid [7, 8] (\<lambda>_. GeomB []) (member_http (cluster_node_new ''a'' ''http://a''))"
  "accepts demo_crates (\<lambda>_ _. Some (503, None)) demo_store demo_pin_cid [7, 8] (\<lambda>_. GeomB []) (member_local (cluster_node_new ''b'' []) 0)"
proof -
  obtain t' where "store_put demo_crates demo_store \<lparr>block_cid = demo_good, block_data = [7, 8]\<rparr> (GeomB []) = (Ok (), t')"
    by (rule demo_geom_put)
  then show "accepts demo_crates (\<lambda>_ _. Some (503, None)) demo_store demo_pin_cid [7, 8] (\<lambda>_. GeomB []) (member_local (cluster_node_new ''b'' []) 0)"
    by (simp add: accepts_backend member_local_def pin_local_def from_cid_and_data_def)
qed (simp add: accepts_backend member_http_def pin_http_def is_success_def)

theorem pin_payload_correct_witness:
  "\<exists>po heap'. pin_payload demo_crates (\<lambda>_ _. Some (503, None)) demo_store (\<lambda>_. rev) demo_cluster demo_pin_cid [7, 8] 2 (\<lambda>_. GeomB []) = Some (Ok po, heap')
     \<and> po_requested po = 2 \<and> po_achieved po = 1 \<and> length (po_pinned po) = 1"
  using pin_payload_correct [of demo_cluster "\<lambda>_. rev" demo_pin_cid "ac_members demo_cluster" demo_crates "\<lambda>_ _. Some (503, None)" demo_store
      "[7, 8]" 2 "\<lambda>_. GeomB []"] demo_pin_accepts demo_pin_trim
  by (auto simp: demo_cluster_def cluster_new_def member_http_def member_local_def cluster_node_new_def member_id_def)

end
