(* ===== verification/Botg.thy ===== *)
theory Botg
  imports Block_Batch Metrics Ord_Map
begin

text \<open>
  \<open>botg.rs\<close>: blocks are announced, requested and sent as JSON messages over UDP. The JSON codec is a
  parameter, as is whether the socket accepts a datagram; what was handed to the socket is kept in
  \<open>bt_sent\<close>. Addresses are an arbitrary type.
\<close>

unbundle bit_operations_syntax

section \<open>Data\<close>

datatype botg_message = Announce "bytes list" | Request "bytes list" | Response bytes bytes

datatype botg_error = TgpError | NoPeerConnection nat | EncodingError | DecodingError

record botg_config =
  bc_max_rollup_size :: nat
  bc_max_rollup_bytes :: nat
  bc_mtu :: nat
  bc_local_peer_id :: nat
  bc_epoch :: nat

text \<open>The default, up to the random identifier of the node.\<close>

definition default_botg_config :: "nat \<Rightarrow> botg_config" where
  "default_botg_config local_peer_id = \<lparr>bc_max_rollup_size = 1000, bc_max_rollup_bytes = 100 * 1024 * 1024, bc_mtu = 1200,
     bc_local_peer_id = local_peer_id, bc_epoch = 0\<rparr>"

record block_rollup =
  br_id :: nat
  br_blocks :: "bytes list"
  br_total_size :: nat
  br_priority :: nat

record tgp_config =
  tg_stream_id :: "128 word"
  tg_epoch :: nat
  tg_local_id :: nat
  tg_peer_id :: nat
  tg_mtu :: nat
  tg_target_mbps :: nat

text \<open>
  The state of the protocol. A block identifier is the bytes of a CID; the sets are lists without
  duplicates. \<open>bt_socket\<close> and \<open>bt_store_set\<close> tell whether the socket and the store have been set; the
  store itself is shared with the rest of the node.
\<close>

record ('a, 't) botg =
  bt_config :: botg_config
  bt_handles :: "nat list"
  bt_pending_rollups :: "block_rollup list"
  bt_local_blocks :: "bytes list"
  bt_want_blocks :: "bytes list"
  bt_peer_addrs :: "'a list"
  bt_socket :: bool
  bt_store_set :: bool
  bt_store :: "'t store_backend"
  bt_metrics :: "metrics option"
  bt_sent :: "('a \<times> bytes) list"

record 'a botg_io =
  io_encode :: "botg_message \<Rightarrow> bytes option"
  io_decode :: "bytes \<Rightarrow> botg_message option"
  io_send :: "'a \<Rightarrow> bytes \<Rightarrow> bool"

definition json_law :: "'a botg_io \<Rightarrow> bool" where
  "json_law J \<longleftrightarrow> (\<forall>m bs. io_encode J m = Some bs \<longrightarrow> io_decode J bs = Some m)"

definition botg_new :: "botg_config \<Rightarrow> 't store_backend \<Rightarrow> ('a, 't) botg" where
  "botg_new config s = \<lparr>bt_config = config, bt_handles = [], bt_pending_rollups = [], bt_local_blocks = [], bt_want_blocks = [],
     bt_peer_addrs = [], bt_socket = False, bt_store_set = False, bt_store = s, bt_metrics = None, bt_sent = []\<rparr>"

definition set_udp_socket :: "('a, 't) botg \<Rightarrow> ('a, 't) botg" where
  "set_udp_socket B = B\<lparr>bt_socket := True\<rparr>"

definition botg_set_block_store :: "('a, 't) botg \<Rightarrow> ('a, 't) botg" where
  "botg_set_block_store B = B\<lparr>bt_store_set := True\<rparr>"

definition set_metrics :: "metrics \<Rightarrow> ('a, 't) botg \<Rightarrow> ('a, 't) botg" where
  "set_metrics m B = B\<lparr>bt_metrics := Some m\<rparr>"

definition add_peer :: "'a \<Rightarrow> ('a, 't) botg \<Rightarrow> ('a, 't) botg" where
  "add_peer addr B = (if addr \<in> set (bt_peer_addrs B) then B else B\<lparr>bt_peer_addrs := bt_peer_addrs B @ [addr]\<rparr>)"

definition set_add :: "'b \<Rightarrow> 'b list \<Rightarrow> 'b list" where
  "set_add x xs = (if x \<in> set xs then xs else xs @ [x])"

section \<open>Sending\<close>

definition send_message ::
  "'a botg_io \<Rightarrow> 'a \<Rightarrow> botg_message \<Rightarrow> ('a, 't) botg \<Rightarrow> (unit, botg_error) result \<times> ('a, 't) botg" where
  "send_message J addr msg B =
     (if \<not> bt_socket B then (Err TgpError, B)
      else case io_encode J msg of
        None \<Rightarrow> (Err EncodingError, B)
      | Some bs \<Rightarrow>
        if io_send J addr bs
        then (Ok (), B\<lparr>bt_sent := bt_sent B @ [(addr, bs)], bt_metrics := map_option (block_sent (length bs)) (bt_metrics B)\<rparr>)
        else (Err TgpError, B))"

definition send_all :: "'a botg_io \<Rightarrow> botg_message \<Rightarrow> 'a list \<Rightarrow> ('a, 't) botg \<Rightarrow> ('a, 't) botg" where
  "send_all J msg addrs B = fold (\<lambda>addr B. snd (send_message J addr msg B)) addrs B"

definition cid_to_block_id :: "('c, 'm) crates \<Rightarrow> 'c \<Rightarrow> bytes" where
  "cid_to_block_id X cid = cid_to_bytes X cid"

definition block_id_to_cid :: "('c, 'm) crates \<Rightarrow> bytes \<Rightarrow> ('c, botg_error) result" where
  "block_id_to_cid X bid = (case cid_try_from X bid of Some c \<Rightarrow> Ok c | None \<Rightarrow> Err EncodingError)"

definition announce_blocks :: "('c, 'm) crates \<Rightarrow> 'a botg_io \<Rightarrow> 'c list \<Rightarrow> ('a, 't) botg \<Rightarrow> ('a, 't) botg" where
  "announce_blocks X J cids B =
     (let B1 = B\<lparr>bt_local_blocks := fold set_add (map (cid_to_block_id X) cids) (bt_local_blocks B)\<rparr>
      in if bt_peer_addrs B = [] then B1 else send_all J (Announce (map (cid_to_bytes X) cids)) (bt_peer_addrs B) B1)"

definition request_blocks_by_cid :: "('c, 'm) crates \<Rightarrow> 'a botg_io \<Rightarrow> 'c list \<Rightarrow> ('a, 't) botg \<Rightarrow> ('a, 't) botg" where
  "request_blocks_by_cid X J cids B =
     (let B1 = B\<lparr>bt_want_blocks := fold set_add (map (cid_to_block_id X) cids) (bt_want_blocks B)\<rparr>
      in if bt_peer_addrs B = [] then B1 else send_all J (Request (map (cid_to_bytes X) cids)) (bt_peer_addrs B) B1)"

section \<open>Rollups\<close>

text \<open>The identifiers are 32, 64 and 64 bits wide.\<close>

definition stream_id :: "32 word \<Rightarrow> 64 word \<Rightarrow> 64 word \<Rightarrow> 128 word" where
  "stream_id epoch local_id peer_id = push_bit 96 (ucast epoch) OR push_bit 32 (ucast local_id) OR ucast peer_id"

text \<open>The session configuration is built and dropped: no handle is ever stored.\<close>

definition session_config :: "nat \<Rightarrow> botg_config \<Rightarrow> tgp_config" where
  "session_config peer_id cfg = \<lparr>tg_stream_id = stream_id (word_of_nat (bc_epoch cfg)) (word_of_nat (bc_local_peer_id cfg)) (word_of_nat peer_id),
     tg_epoch = bc_epoch cfg, tg_local_id = bc_local_peer_id cfg, tg_peer_id = peer_id, tg_mtu = bc_mtu cfg, tg_target_mbps = 100\<rparr>"

definition connect_to_peer :: "nat \<Rightarrow> ('a, 't) botg \<Rightarrow> (unit, botg_error) result \<times> ('a, 't) botg" where
  "connect_to_peer peer_id B = (let _ = session_config peer_id (bt_config B) in (Ok (), B))"

definition encode_rollup_request :: "block_rollup \<Rightarrow> (bytes, botg_error) result" where
  "encode_rollup_request r =
     Ok (le_bytes 8 (br_id r) @ le_bytes 4 (length (br_blocks r) mod 2 ^ 32)
         @ concat (map (\<lambda>c. le_bytes 4 (length c mod 2 ^ 32) @ c) (br_blocks r)))"

definition decode_rollup_response :: "bytes \<Rightarrow> (bytes list, botg_error) result" where
  "decode_rollup_response data = Ok []"

text \<open>\<open>rollup_id\<close> is the random number drawn.\<close>

definition request_blocks :: "nat \<Rightarrow> nat \<Rightarrow> bytes list \<Rightarrow> ('a, 't) botg \<Rightarrow> (unit, botg_error) result \<times> ('a, 't) botg" where
  "request_blocks rollup_id peer_id blocks B =
     (let rollup = \<lparr>br_id = rollup_id, br_blocks = blocks, br_total_size = 0, br_priority = 128\<rparr>;
          B1 = B\<lparr>bt_pending_rollups := bt_pending_rollups B @ [rollup]\<rparr>
      in if peer_id \<in> set (bt_handles B) then (rbind (encode_rollup_request rollup) (\<lambda>_. Ok ()), B1)
         else (Err (NoPeerConnection peer_id), B1))"

definition add_local_blocks :: "bytes list \<Rightarrow> ('a, 't) botg \<Rightarrow> ('a, 't) botg" where
  "add_local_blocks blocks B = B\<lparr>bt_local_blocks := fold set_add blocks (bt_local_blocks B)\<rparr>"

definition add_wanted_blocks :: "bytes list \<Rightarrow> ('a, 't) botg \<Rightarrow> ('a, 't) botg" where
  "add_wanted_blocks blocks B = B\<lparr>bt_want_blocks := fold set_add blocks (bt_want_blocks B)\<rparr>"

definition handle_rollup_response :: "bytes \<Rightarrow> ('a, 't) botg \<Rightarrow> (unit, botg_error) result \<times> ('a, 't) botg" where
  "handle_rollup_response data B =
     (case decode_rollup_response data of
        Ok blocks \<Rightarrow> (Ok (), B\<lparr>bt_local_blocks := fold set_add blocks (bt_local_blocks B)\<rparr>)
      | Err e \<Rightarrow> (Err e, B)
      | Panic \<Rightarrow> (Panic, B))"

section \<open>Receiving\<close>

fun handle_block_request ::
  "('c, 'm) crates \<Rightarrow> 'a botg_io \<Rightarrow> 't store_cfg \<Rightarrow> 'a \<Rightarrow> bytes list \<Rightarrow> ('a, 't) botg \<Rightarrow> (unit, botg_error) result \<times> ('a, 't) botg" where
  "handle_block_request X J C peer [] B = (Ok (), B)"
| "handle_block_request X J C peer (cid_bytes # cids) B =
     (if \<not> bt_store_set B then (Ok (), B)
      else case cid_try_from X cid_bytes of
        None \<Rightarrow> handle_block_request X J C peer cids B
      | Some cid \<Rightarrow>
        (case store_get X C cid (bt_store B) of
           Panic \<Rightarrow> (Panic, B)
         | Err _ \<Rightarrow> handle_block_request X J C peer cids B
         | Ok block \<Rightarrow>
           (case send_message J peer (Response cid_bytes (block_data block)) B of
              (Ok _, B') \<Rightarrow> handle_block_request X J C peer cids B'
            | (Err e, B') \<Rightarrow> (Err e, B')
            | (Panic, B') \<Rightarrow> (Panic, B'))))"

definition handle_block_response ::
  "('c, 'm) crates \<Rightarrow> 't store_cfg \<Rightarrow> bytes \<Rightarrow> bytes \<Rightarrow> ('a, 't) botg \<Rightarrow> (unit, botg_error) result \<times> ('a, 't) botg" where
  "handle_block_response X C cid_bytes data B =
     (if \<not> bt_store_set B then (Err TgpError, B)
      else case cid_try_from X cid_bytes of
        None \<Rightarrow> (Err DecodingError, B)
      | Some cid \<Rightarrow> (case store_put X C \<lparr>block_cid = cid, block_data = data\<rparr> (bt_store B) of
          (r, s') \<Rightarrow> (map_err (\<lambda>_. TgpError) r, B\<lparr>bt_store := s'\<rparr>)))"

fun botg_handle_message ::
  "('c, 'm) crates \<Rightarrow> 'a botg_io \<Rightarrow> 't store_cfg \<Rightarrow> 'a \<Rightarrow> botg_message \<Rightarrow> ('a, 't) botg \<Rightarrow> (unit, botg_error) result \<times> ('a, 't) botg" where
  "botg_handle_message X J C peer (Announce cids) B = (Ok (), add_peer peer B)"
| "botg_handle_message X J C peer (Request cids) B = handle_block_request X J C peer cids B"
| "botg_handle_message X J C peer (Response cid data) B = handle_block_response X C cid data B"

text \<open>One turn of the receive loop; the buffer holds 65536 bytes, the rest of a datagram is lost.\<close>

definition botg_receive :: "('c, 'm) crates \<Rightarrow> 'a botg_io \<Rightarrow> 't store_cfg \<Rightarrow> 'a \<Rightarrow> bytes \<Rightarrow> ('a, 't) botg \<Rightarrow> ('a, 't) botg" where
  "botg_receive X J C peer datagram B =
     (let buf = take 65536 datagram;
          B1 = B\<lparr>bt_metrics := map_option (block_received (length buf)) (bt_metrics B)\<rparr>
      in case io_decode J buf of
           None \<Rightarrow> B1
         | Some msg \<Rightarrow> snd (botg_handle_message X J C peer msg B1))"

end
