(* ===== verification/Citadel_Mesh.thy ===== *)
theory Citadel_Mesh
  imports Citadel_Sync Api_Download
begin

text \<open>
  The citadel node behind its HTTP interface: the handlers of \<open>api.rs\<close> for the graph and for
  synchronisation, and the loop of \<open>citadel_sync.rs\<close> that visits the peers. The network is a
  parameter: what a peer answers to a request, if anything.
\<close>

section \<open>Handlers\<close>

datatype citadel_body =
    CitadelError
  | StatusBody node_status
  | ViewBody nat nat nat string
  | OpBody nat nat nat bool

type_synonym citadel_reply = "(nat \<times> citadel_body) \<times> node option"

definition citadel_status :: "node option \<Rightarrow> citadel_reply" where
  "citadel_status st = (case st of None \<Rightarrow> ((503, CitadelError), st) | Some n \<Rightarrow> ((200, StatusBody (status n)), st))"

definition citadel_view :: "('c, 'm) crates \<Rightarrow> nat \<Rightarrow> node option \<Rightarrow> citadel_reply" where
  "citadel_view X site_id st =
     (case st of
        None \<Rightarrow> ((503, CitadelError), st)
      | Some n \<Rightarrow> ((200, ViewBody site_id (length (reachable_sites (graph n) site_id)) (length (visible_content (graph n) site_id))
                       (node_view_digest_hex X n site_id)), st))"

definition citadel_follow :: "('c, 'm) crates \<Rightarrow> nat \<Rightarrow> node option \<Rightarrow> citadel_reply option" where
  "citadel_follow X site_id st =
     (case st of
        None \<Rightarrow> Some ((503, CitadelError), st)
      | Some n \<Rightarrow> map_option (\<lambda>(op, n'). ((200, OpBody (op_origin op) (op_counter op) site_id True), Some n'))
                   (emit_local_follow X site_id True n))"

definition citadel_unfollow :: "('c, 'm) crates \<Rightarrow> nat \<Rightarrow> node option \<Rightarrow> citadel_reply option" where
  "citadel_unfollow X site_id st =
     (case st of
        None \<Rightarrow> Some ((503, CitadelError), st)
      | Some n \<Rightarrow> map_option (\<lambda>(op, n'). ((200, OpBody (op_origin op) (op_counter op) site_id False), Some n'))
                   (emit_local_follow X site_id False n))"

definition parse_boolish :: "string \<Rightarrow> bool option" where
  "parse_boolish s =
     (let l = map char_lower s in
      if l \<in> {''1'', ''true'', ''yes'', ''on''} then Some True
      else if l \<in> {''0'', ''false'', ''no'', ''off''} then Some False
      else None)"

definition citadel_content :: "('c, 'm) crates \<Rightarrow> nat \<Rightarrow> string \<Rightarrow> node option \<Rightarrow> citadel_reply option" where
  "citadel_content X content_slot present_raw st =
     (case st of
        None \<Rightarrow> Some ((503, CitadelError), st)
      | Some n \<Rightarrow>
        (case parse_boolish present_raw of
           None \<Rightarrow> Some ((400, CitadelError), st)
         | Some present \<Rightarrow> map_option (\<lambda>(op, n'). ((200, OpBody (op_origin op) (op_counter op) content_slot present), Some n'))
                           (emit_local_content X content_slot present n)))"

section \<open>Synchronisation requests\<close>

record pull_request =
  pl_round :: nat
  pl_frontier :: "(nat, nat) omap"
  pl_max_ops :: "nat option"

record push_request =
  ps_round :: nat
  ps_frontier :: "(nat, nat) omap"
  ps_ops :: "lens_op list"
  ps_max_ops :: "nat option"

text \<open>The two responses have the same fields; \<open>sr_accepted\<close> is \<open>accepted_local_ops\<close> or \<open>accepted_ops\<close>.\<close>

record sync_response =
  sr_node_id :: nat
  sr_round :: nat
  sr_accepted :: nat
  sr_provided :: nat
  sr_frontier :: "(nat, nat) omap"
  sr_ops :: "lens_op list"
  sr_status :: node_status

definition request_max_ops :: "nat option \<Rightarrow> nat" where
  "request_max_ops m = clamp 1 4096 (case m of Some v \<Rightarrow> v | None \<Rightarrow> 256)"

definition sync_answer :: "nat \<Rightarrow> nat \<Rightarrow> (nat, nat) omap \<Rightarrow> nat option \<Rightarrow> node \<Rightarrow> sync_response option" where
  "sync_answer round accepted peer_frontier max_ops n =
     map_option (\<lambda>ops. \<lparr>sr_node_id = st_node_id (status n), sr_round = round, sr_accepted = accepted, sr_provided = length ops,
         sr_frontier = frontier_snapshot n, sr_ops = ops, sr_status = status n\<rparr>)
       (missing_ops_for_frontier peer_frontier (request_max_ops max_ops) n)"

type_synonym sync_reply = "(nat \<times> sync_response option) \<times> node option"

definition citadel_sync_pull :: "pull_request \<Rightarrow> node option \<Rightarrow> sync_reply option" where
  "citadel_sync_pull req st =
     (case st of
        None \<Rightarrow> Some ((503, None), st)
      | Some n \<Rightarrow> map_option (\<lambda>r. ((200, Some r), st)) (sync_answer (pl_round req) 0 (pl_frontier req) (pl_max_ops req) n))"

definition citadel_sync_push :: "('c, 'm) crates \<Rightarrow> push_request \<Rightarrow> node option \<Rightarrow> sync_reply option" where
  "citadel_sync_push X req st =
     (case st of
        None \<Rightarrow> Some ((503, None), st)
      | Some n \<Rightarrow>
        (case ingest_batch X (ps_round req) (ps_ops req) n of
           (n', accepted) \<Rightarrow>
             map_option (\<lambda>r. ((200, Some r), Some n')) (sync_answer (ps_round req) accepted (ps_frontier req) (ps_max_ops req) n')))"

section \<open>The settings of the loop\<close>

record mesh_sync_config =
  ms_peers :: "string list"
  ms_interval :: nat
  ms_request_timeout :: nat
  ms_startup_delay :: nat
  ms_max_ops :: nat
  ms_max_peers :: nat

definition parse_csv_urls :: "string \<Rightarrow> string list" where
  "parse_csv_urls raw = map trim_end_slash (filter (\<lambda>s. s \<noteq> []) (map trim (split_on (CHR '','') raw)))"

text \<open>\<open>filter\<close> with a set of what was seen: only the first of equal entries stays.\<close>

fun keep_first :: "'a list \<Rightarrow> 'a list \<Rightarrow> 'a list" where
  "keep_first seen [] = []"
| "keep_first seen (x # xs) = (if x \<in> set seen then keep_first seen xs else x # keep_first (x # seen) xs)"

definition env_urls :: "(string \<rightharpoonup> string) \<Rightarrow> string \<Rightarrow> string list" where
  "env_urls env name = (case env name of Some raw \<Rightarrow> parse_csv_urls raw | None \<Rightarrow> [])"

definition configured_citadel_mesh_sync :: "(string \<rightharpoonup> string) \<Rightarrow> nat \<Rightarrow> mesh_sync_config option" where
  "configured_citadel_mesh_sync env api_port =
     (let peers0 = env_urls env ''NEVERUST_CITADEL_SYNC_PEERS'';
          peers1 = (if peers0 = [] then env_urls env ''NEVERUST_HTTP_FALLBACK_PEERS'' else peers0);
          local_markers = map (\<lambda>h. h @ '':'' @ show_nat api_port) [''127.0.0.1'', ''localhost'', ''0.0.0.0''];
          max_peers = clamp 1 4096 (env_usize env ''NEVERUST_CITADEL_SYNC_MAX_PEERS'' 32);
          interval = env_u64 env ''NEVERUST_CITADEL_SYNC_INTERVAL_MS'' 500;
          request_timeout = env_u64 env ''NEVERUST_CITADEL_SYNC_TIMEOUT_MS'' 2000;
          startup_delay = (case Option.bind (env ''NEVERUST_CITADEL_SYNC_STARTUP_DELAY_MS'') (parse_uint 64) of Some v \<Rightarrow> v | None \<Rightarrow> 1200);
          max_ops = clamp 1 16384 (env_usize env ''NEVERUST_CITADEL_SYNC_MAX_OPS'' 1024);
          peers = take max_peers (keep_first [] (filter (\<lambda>p. \<not> list_ex (contains p) local_markers) peers1))
      in if peers = [] then None
         else Some \<lparr>ms_peers = peers, ms_interval = interval, ms_request_timeout = request_timeout,
                    ms_startup_delay = startup_delay, ms_max_ops = max_ops, ms_max_peers = max_peers\<rparr>)"

section \<open>The loop\<close>

text \<open>
  What a POST to a URL returns: \<open>None\<close> for a transport error, otherwise the status and the body when
  it parses.
\<close>

record mesh_net =
  net_push :: "string \<Rightarrow> push_request \<Rightarrow> (nat \<times> sync_response option) option"
  net_pull :: "string \<Rightarrow> pull_request \<Rightarrow> (nat \<times> sync_response option) option"

type_synonym mesh_state = "node \<times> (string, (nat, nat) omap) omap"

definition merge_response :: "('c, 'm) crates \<Rightarrow> nat \<Rightarrow> string \<Rightarrow> sync_response \<Rightarrow> mesh_state \<Rightarrow> mesh_state" where
  "merge_response X round base sync s =
     (case s of (n, frontiers) \<Rightarrow>
        (if sr_ops sync = [] then n else fst (ingest_batch X round (sr_ops sync) n), om_insert base (sr_frontier sync) frontiers))"

definition sync_peer :: "('c, 'm) crates \<Rightarrow> mesh_net \<Rightarrow> mesh_sync_config \<Rightarrow> nat \<Rightarrow> string \<Rightarrow> mesh_state \<Rightarrow> mesh_state option" where
  "sync_peer X net cfg round base s =
     (let local_frontier = frontier_snapshot (fst s);
          peer_frontier = om_get_or [] (snd s) base
      in Option.bind (missing_ops_for_frontier peer_frontier (ms_max_ops cfg) (fst s)) (\<lambda>outbound_ops.
         let push_req = \<lparr>ps_round = round, ps_frontier = local_frontier, ps_ops = outbound_ops, ps_max_ops = Some (ms_max_ops cfg)\<rparr>;
             pushed = (case net_push net (base @ ''/api/citadel/v1/sync/push'') push_req of
                         Some (code, Some sync) \<Rightarrow> if is_success code then Some sync else None
                       | _ \<Rightarrow> None)
         in case pushed of
              Some sync \<Rightarrow> Some (merge_response X round base sync s)
            | None \<Rightarrow>
              (let pull_req = \<lparr>pl_round = round, pl_frontier = local_frontier, pl_max_ops = Some (ms_max_ops cfg)\<rparr>
               in case net_pull net (base @ ''/api/citadel/v1/sync/pull'') pull_req of
                    Some (code, Some sync) \<Rightarrow> Some (if is_success code then merge_response X round base sync s else s)
                  | _ \<Rightarrow> Some s)))"

fun mesh_peers :: "('c, 'm) crates \<Rightarrow> mesh_net \<Rightarrow> mesh_sync_config \<Rightarrow> nat \<Rightarrow> string list \<Rightarrow> mesh_state \<Rightarrow> mesh_state option" where
  "mesh_peers X net cfg round [] s = Some s"
| "mesh_peers X net cfg round (base # bases) s = Option.bind (sync_peer X net cfg round base s) (mesh_peers X net cfg round bases)"

text \<open>One tick: every peer in turn, then the next round. The network may answer differently each time.\<close>

definition mesh_turn :: "('c, 'm) crates \<Rightarrow> mesh_net \<Rightarrow> mesh_sync_config \<Rightarrow> nat \<times> mesh_state \<Rightarrow> (nat \<times> mesh_state) option" where
  "mesh_turn X net cfg rs =
     (case rs of (round, s) \<Rightarrow> map_option (\<lambda>s'. (sat_add 64 round 1, s')) (mesh_peers X net cfg round (ms_peers cfg) s))"

end
