(* ===== verification/Citadel_Mesh_Safety.thy ===== *)
theory Citadel_Mesh_Safety
  imports Citadel_Mesh
begin

text \<open>
  The synchronisation loop: a turn always ends and keeps every reachable node reachable, whatever
  the peers answer; an exchange with a peer that runs the same code brings both nodes at least to
  what either of them knew.
\<close>

section \<open>The query always answers\<close>

lemma missing_loop_total:
  assumes "0 < c" "length out \<le> k" "src \<le> length log"
  shows "\<exists>xs. missing_loop log src k c out = Some (out @ xs) \<and> set xs \<subseteq> set log \<and> length (out @ xs) \<le> k"
  using assms(1,2)
proof (induction "k - length out" arbitrary: c out)
  case 0
  then show ?case by (subst missing_loop.simps) simp
next
  case (Suc d)
  show ?case
  proof (cases "c \<le> src")
    case True
    let ?x = "log ! (c - 1)"
    have get: "get_opt log (c - 1) = Some ?x" and mem: "?x \<in> set log" using True Suc.prems assms(3) by (auto simp: get_opt_def)
    have "d = k - length (out @ [?x])" "length (out @ [?x]) \<le> k" "0 < sat_add 64 c 1"
      using Suc.hyps(2) by (simp_all add: sat_add_def)
    then obtain xs where xs: "missing_loop log src k (sat_add 64 c 1) (out @ [?x]) = Some ((out @ [?x]) @ xs)"
      "set xs \<subseteq> set log" "length ((out @ [?x]) @ xs) \<le> k"
      using Suc.hyps(1) by blast
    have lt: "length out < k" using Suc.hyps(2) by simp
    have "missing_loop log src k c out = missing_loop log src k (sat_add 64 c 1) (out @ [?x])"
      by (subst missing_loop.simps) (simp only: True lt get option.case simp_thms if_True)
    then show ?thesis using xs mem by (intro exI [of _ "?x # xs"]) simp
  qed (use Suc.prems in \<open>subst missing_loop.simps, simp\<close>)
qed

lemma missing_origins_total:
  assumes "log_ok n" "length out \<le> k" "set out \<subseteq> log_ops n"
  shows "\<exists>ops. missing_origins n pf (op_log n) k origins out = Some ops \<and> set ops \<subseteq> log_ops n \<and> length ops \<le> k"
  using assms(2,3)
proof (induction origins arbitrary: out)
  case (Cons o' origins)
  show ?case
  proof (cases "k \<le> length out \<or> frontier_for n o' \<le> om_get_or 0 pf o' \<or> om_get (op_log n) o' = None")
    case True
    then show ?thesis using Cons by (auto simp: Let_def)
  next
    case False
    then obtain log where log: "om_get (op_log n) o' = Some log" by auto
    have l: "log_for n o' = log" using log by (simp add: log_for_def om_get_or_def)
    then have len: "frontier_for n o' \<le> length log" "set log \<subseteq> log_ops n" using assms(1) by (auto simp: log_ok_def log_ops_def)
    have pos: "0 < sat_add 64 (om_get_or 0 pf o') 1" by (simp add: sat_add_def)
    obtain xs where "missing_loop log (frontier_for n o') k (sat_add 64 (om_get_or 0 pf o') 1) out = Some (out @ xs)"
      "set xs \<subseteq> set log" "length (out @ xs) \<le> k"
      using missing_loop_total [OF pos Cons.prems(1) len(1)] by blast
    then show ?thesis using Cons.IH [of "out @ xs"] Cons.prems(2) len(2) log False by auto
  qed
qed simp

lemma missing_ops_total:
  assumes "node_inv n"
  obtains ops where "missing_ops_for_frontier pf k n = Some ops" "set ops \<subseteq> log_ops n" "length ops \<le> k"
proof (cases "k = 0")
  case True
  then show ?thesis using that [of "[]"] by (simp add: missing_ops_for_frontier_def)
next
  case False
  have "log_ok n" using assms by (simp add: node_inv_def core_inv_def)
  then show ?thesis using missing_origins_total [of n "[]" k pf "sort (om_keys (op_log n))"] False that
    by (auto simp: missing_ops_for_frontier_def)
qed

section \<open>Safety of a turn\<close>

text \<open>
  Operations that can reach a node: counters are 64 bits wide, and nobody makes up operations in the
  node's own name, beyond the ones it issued (operations are not signed).
\<close>

definition honest :: "nat \<Rightarrow> nat \<Rightarrow> lens_op list \<Rightarrow> bool" where
  "honest nid issued ops \<longleftrightarrow> (\<forall>op \<in> set ops. op_counter op < 2 ^ 64 \<and> (op_origin op = nid \<longrightarrow> op_counter op \<le> issued))"

definition honest_net :: "nat \<Rightarrow> nat \<Rightarrow> mesh_net \<Rightarrow> bool" where
  "honest_net nid issued net \<longleftrightarrow>
     (\<forall>url req code sync. net_push net url req = Some (code, Some sync) \<longrightarrow> honest nid issued (sr_ops sync))
   \<and> (\<forall>url req code sync. net_pull net url req = Some (code, Some sync) \<longrightarrow> honest nid issued (sr_ops sync))"

text \<open>How a node may change during a turn.\<close>

definition advanced :: "('c, 'm) crates \<Rightarrow> node \<Rightarrow> node \<Rightarrow> bool" where
  "advanced X n n' \<longleftrightarrow> node_reachable X n' \<and> node_id n' = node_id n \<and> local_counter n' = local_counter n
     \<and> guard_cfg n' = guard_cfg n \<and> log_ops n \<subseteq> log_ops n' \<and> (\<forall>o'. frontier_for n o' \<le> frontier_for n' o')"

lemma advanced_refl: "node_reachable X n \<Longrightarrow> advanced X n n"
  by (simp add: advanced_def)

lemma advanced_trans:
  assumes "advanced X n m" "advanced X m k"
  shows "advanced X n k"
proof -
  have "frontier_for n o' \<le> frontier_for k o'" for o'
    using assms order_trans [of "frontier_for n o'" "frontier_for m o'"] unfolding advanced_def by blast
  then show ?thesis using assms unfolding advanced_def by auto
qed

lemma advanced_ingest:
  assumes "node_reachable X n" "honest (node_id n) (local_counter n) ops"
  shows "advanced X n (fst (ingest_batch X round ops n))"
proof -
  have inv: "run_inv X n" by (rule reachable_run_inv [OF assms(1)])
  have b: "batch_spec X (set ops) (roll_node round n) (fst (ingest_batch X round ops n))"
    by (rule ingest_batch_spec) (use inv assms(2) in \<open>auto simp: run_inv_def honest_def\<close>)
  have q: "quiet n (roll_node round n)" by (rule quiet_roll)
  have "node_step X n (fst (ingest_batch X round ops n))"
    by (rule node_step.step_ingest) (use assms(2) in \<open>auto simp: honest_def\<close>)
  then have "node_reachable X (fst (ingest_batch X round ops n))" by (rule node_reachable.reach_step [OF assms(1)])
  then show ?thesis using b q quiet_ops [OF q] unfolding advanced_def batch_spec_def quiet_def by simp
qed

lemma merge_advanced:
  assumes "node_reachable X n" "honest (node_id n) (local_counter n) (sr_ops sync)"
  shows "advanced X n (fst (merge_response X round base sync (n, frs)))"
  using advanced_refl [OF assms(1)] advanced_ingest [OF assms] by (simp add: merge_response_def)

lemma sync_peer_advanced:
  assumes "node_reachable X n" "honest_net (node_id n) (local_counter n) net"
  shows "\<exists>n' frs'. sync_peer X net cfg round base (n, frs) = Some (n', frs') \<and> advanced X n n'"
proof -
  have inv: "node_inv n" using reachable_run_inv [OF assms(1)] by (simp add: run_inv_def)
  obtain ops where "missing_ops_for_frontier (om_get_or [] frs base) (ms_max_ops cfg) n = Some ops" using missing_ops_total [OF inv] by blast
  then have ops: "missing_ops_for_frontier (om_get_or [] frs base) (ms_max_ops cfg) n = Some ops" .
  have "honest (node_id n) (local_counter n) (sr_ops sync)"
    if "net_push net url req = Some (code, Some sync) \<or> net_pull net url' req' = Some (code, Some sync)" for url req url' req' code sync
    using assms(2) that unfolding honest_net_def by blast
  then have adv: "\<And>url req code sync n' frs'. net_push net url req = Some (code, Some sync) \<Longrightarrow> merge_response X round base sync (n, frs) = (n', frs') \<Longrightarrow> advanced X n n'"
    "\<And>url req code sync n' frs'. net_pull net url req = Some (code, Some sync) \<Longrightarrow> merge_response X round base sync (n, frs) = (n', frs') \<Longrightarrow> advanced X n n'"
    using merge_advanced [OF assms(1), of _ round base frs] by (metis fst_conv)+
  have "case sync_peer X net cfg round base (n, frs) of None \<Rightarrow> False | Some s' \<Rightarrow> advanced X n (fst s')"
    unfolding sync_peer_def Let_def fst_conv snd_conv ops bind.bind_lunit
    using advanced_refl [OF assms(1)] by (auto split: option.split if_split dest: adv)
  then show ?thesis by (auto split: option.splits)
qed

lemma mesh_peers_advanced:
  assumes "node_reachable X n" "honest_net (node_id n) (local_counter n) net"
  shows "\<exists>n' frs'. mesh_peers X net cfg round bases (n, frs) = Some (n', frs') \<and> advanced X n n'"
  using assms
proof (induction bases arbitrary: n frs)
  case (Cons base bases)
  obtain n1 frs1 where s: "sync_peer X net cfg round base (n, frs) = Some (n1, frs1)" "advanced X n n1"
    using sync_peer_advanced [OF Cons.prems] by blast
  then have "node_reachable X n1" "honest_net (node_id n1) (local_counter n1) net" using Cons.prems(2) by (simp_all add: advanced_def)
  then show ?case using Cons.IH s advanced_trans by fastforce
qed (simp add: advanced_refl)


section \<open>An exchange with a peer that runs the same code\<close>

text \<open>
  C10. One exchange brings two nodes together. Node \<open>m\<close> visits a peer that answers with the push
  handler of node \<open>n\<close>, remembering a frontier of \<open>n\<close> that is not ahead of it. If neither list of
  operations is cut off and both guards have room for them, then afterwards \<open>n\<close> knows at least what
  both knew, \<open>m\<close> at least what \<open>n\<close> then knows, and \<open>m\<close> remembers the frontier \<open>n\<close> has now.
\<close>

theorem mesh_exchange:
  assumes "node_reachable X m" "node_reachable X n" "\<And>o'. frontier_for m o' < 2 ^ 64 - 1"
    and "net_push net (base @ ''/api/citadel/v1/sync/push'') = (\<lambda>req. map_option fst (citadel_sync_push X req (Some n)))"
    and "\<And>o'. om_get_or 0 (om_get_or [] frs base) o' \<le> frontier_for n o'"
    and "missing_ops_for_frontier (om_get_or [] frs base) (ms_max_ops cfg) m = Some out" "length out < ms_max_ops cfg"
    and "welcomes X (roll_node round n) out" "n' = fst (ingest_batch X round out n)" "\<And>o'. frontier_for n' o' < 2 ^ 64 - 1"
    and "missing_ops_for_frontier (frontier_snapshot m) (request_max_ops (Some (ms_max_ops cfg))) n' = Some back"
    and "length back < request_max_ops (Some (ms_max_ops cfg))" "welcomes X (roll_node round m) back"
  shows "\<exists>m' frs'. sync_peer X net cfg round base (m, frs) = Some (m', frs') \<and> om_get frs' base = Some (frontier_snapshot n')
    \<and> (\<forall>o'. frontier_for m o' \<le> frontier_for n' o' \<and> frontier_for n o' \<le> frontier_for n' o' \<and> frontier_for n' o' \<le> frontier_for m' o')"
proof -
  have im: "node_inv m" "stats_ok m" and i: "node_inv n" "stats_ok n"
    using reachable_run_inv [OF assms(1)] reachable_run_inv [OF assms(2)] by (auto simp: run_inv_def)
  have b: "batch_spec X (set out) (roll_node round n) n'"
    unfolding assms(9) by (rule ingest_batch_spec [OF i]) (use assms(8) in \<open>simp add: welcomes_def\<close>)
  then have i': "node_inv n'" and grow: "frontier_for n o' \<le> frontier_for n' o'" for o'
    using quiet_roll [of n round] unfolding batch_spec_def quiet_def by auto
  have to_n: "frontier_for m o' \<le> frontier_for n' o'" for o'
    unfolding assms(9) by (rule ingest_catches_up [OF im(1) i assms(3,5,6,7,8)])
  have snap: "om_get_or 0 (frontier_snapshot m) o' \<le> frontier_for m o'" for o' by (simp add: frontier_snapshot_def frontier_for_def)
  have to_m: "frontier_for n' o' \<le> frontier_for (fst (ingest_batch X round back m)) o'" for o'
    by (rule ingest_catches_up [OF i' im assms(10) snap assms(11,12,13)])
  define m' where "m' = (if back = [] then m else fst (ingest_batch X round back m))"
  have m': "frontier_for m' o' = frontier_for (fst (ingest_batch X round back m)) o'" for o'
    using quiet_roll [of m round] by (auto simp: m'_def ingest_batch_def roll_node_def quiet_def)
  have "sync_peer X net cfg round base (m, frs) = Some (m', om_insert base (frontier_snapshot n') frs)"
    using assms(4,6,9,11)
    by (cases "ingest_batch X round out n") (auto simp: sync_peer_def Let_def citadel_sync_push_def sync_answer_def is_success_def merge_response_def m'_def)
  then show ?thesis using grow to_n to_m m' by auto
qed

section \<open>Two concrete nodes\<close>

definition demo_mesh_cfg :: mesh_sync_config where
  "demo_mesh_cfg = \<lparr>ms_peers = [''http://a''], ms_interval = 500, ms_request_timeout = 2000, ms_startup_delay = 1200,
     ms_max_ops = 10, ms_max_peers = 32\<rparr>"

definition demo_mesh_net :: mesh_net where
  "demo_mesh_net = \<lparr>net_push = (\<lambda>url req. map_option fst (citadel_sync_push demo_crates req (Some demo_a))),
     net_pull = (\<lambda>url req. Some (500, None))\<rparr>"

text \<open>A peer without the push interface that answers a pull with one operation.\<close>

definition demo_pull_net :: mesh_net where
  "demo_pull_net = \<lparr>net_push = (\<lambda>url req. None), net_pull = (\<lambda>url req. Some (200, Some
     \<lparr>sr_node_id = 1, sr_round = 1, sr_accepted = 0, sr_provided = 1, sr_frontier = [(256, 2)], sr_ops = [demo_op2], sr_status = status demo_a\<rparr>))\<rparr>"


lemma demo_c_log: "op_log demo_c = [(256, [demo_op])]"
  by (simp add: demo_c_def node_eval)

lemma demo_a_eval: "known_origins demo_a = [1, 256]" "guard_cfg demo_a = demo_cfg" "gs_round (guard_st demo_a) = 1"
  by (simp_all add: demo_a_def demo_op2_def node_eval)

theorem mesh_exchange_witness:
  "\<exists>m' frs'. sync_peer demo_crates demo_mesh_net demo_mesh_cfg 2 ''http://a'' (demo_c, []) = Some (m', frs')
     \<and> 2 \<le> frontier_for m' 256"
proof -
  define n' where "n' = fst (ingest_batch demo_crates 2 [demo_op] demo_a)"
  have n': "frontier n' = [(256, 2)]" "op_log n' = [(256, [demo_op, demo_op2])]"
    by (simp_all add: n'_def demo_a_def demo_op2_def node_eval)
  have f: "frontier_for demo_c o' < 2 ^ 64 - 1" "frontier_for n' o' < 2 ^ 64 - 1" for o'
    by (simp_all add: frontier_for_def demo_c_eval n' om_get_or_def om_get_def)
  have out: "missing_ops_for_frontier (om_get_or [] [] ''http://a'') 10 demo_c = Some [demo_op]"
    by (simp add: missing_ops_for_frontier_def demo_c_eval demo_c_log om_keys_def frontier_for_def om_get_or_def om_get_def sat_add_def
        missing_loop.simps get_opt_def Let_def)
  have ret: "missing_ops_for_frontier (frontier_snapshot demo_c) (request_max_ops (Some 10)) n' = Some [demo_op2]"
    by (simp add: missing_ops_for_frontier_def frontier_snapshot_def demo_c_eval n' om_keys_def request_max_ops_def clamp_def
        frontier_for_def om_get_or_def om_get_def sat_add_def missing_loop.simps get_opt_def Let_def)
  have wel: "welcomes demo_crates (roll_node 2 demo_a) [demo_op]" "welcomes demo_crates (roll_node 2 demo_c) [demo_op2]"
    by (simp_all add: welcomes_def roll_node_def demo_c_eval demo_a_eval demo_op_def demo_op2_def demo_cfg_def valid_pow_def origin_count_def roll_to_def)
  have "\<exists>m' frs'. sync_peer demo_crates demo_mesh_net demo_mesh_cfg 2 ''http://a'' (demo_c, []) = Some (m', frs')
    \<and> om_get frs' ''http://a'' = Some (frontier_snapshot n')
    \<and> (\<forall>o'. frontier_for demo_c o' \<le> frontier_for n' o' \<and> frontier_for demo_a o' \<le> frontier_for n' o' \<and> frontier_for n' o' \<le> frontier_for m' o')"
    by (rule mesh_exchange [OF demo_c_reachable demo_ab_reachable(1) f(1) _ _ _ _ wel(1) n'_def f(2) _ _ wel(2)])
       (use out ret in \<open>simp_all add: demo_mesh_net_def demo_mesh_cfg_def request_max_ops_def clamp_def om_get_or_def\<close>)
  moreover have "frontier_for n' 256 = 2" by (simp add: frontier_for_def n' om_get_or_def om_get_def)
  ultimately show ?thesis by metis
qed

end
