(* ===== verification/Citadel_Topology.thy ===== *)
theory Citadel_Topology
  imports Citadel_Node
begin

text \<open>
  The parts of the simulation in \<open>citadel.rs\<close> that do not use floating point: the network of two
  hosts and the operations of the attackers. The rounds of the simulation and the bandwidth gate,
  which rests on logarithms of floating-point numbers, are not modelled.
\<close>

text \<open>
  One of the two loops that pick the peers of node \<open>i\<close>: \<open>a\<close> and \<open>b\<close> are the multipliers of the node
  and of the step, \<open>base\<close> and \<open>len\<close> the range of the candidates. Arithmetic wraps at 64 bits.
\<close>

partial_function (option) pick_peers :: "nat \<Rightarrow> nat \<Rightarrow> nat \<Rightarrow> nat \<Rightarrow> nat \<Rightarrow> nat \<Rightarrow> nat \<Rightarrow> nat list \<Rightarrow> nat list option" where
  "pick_peers i a b base len target step peers =
     (if length peers < target
      then (let offset = (i * a + step * b) mod 2 ^ 64 mod len;
                peer = base + offset
            in pick_peers i a b base len target ((step + 1) mod 2 ^ 64) (if peer \<noteq> i then List.insert peer peers else peers))
      else Some peers)"

declare pick_peers.simps [code]

definition node_peers :: "nat \<Rightarrow> nat \<Rightarrow> nat \<Rightarrow> nat list option" where
  "node_peers node_count fanout i =
     (let half = node_count div 2;
          local_base = (if i < half then 0 else half);
          remote_base = (if i < half then half else 0);
          local_len = (if i < half then max half 1 else max (node_count - half) 1);
          remote_len = (if i < half then max (node_count - half) 1 else max half 1)
      in Option.bind (pick_peers i 131 17 local_base local_len (fanout div 2) 1 [])
           (pick_peers i 977 593 remote_base remote_len fanout 1))"

fun all_some :: "'a option list \<Rightarrow> 'a list option" where
  "all_some [] = Some []"
| "all_some (x # xs) = Option.bind x (\<lambda>y. map_option ((#) y) (all_some xs))"

definition build_two_host_topology :: "nat \<Rightarrow> nat \<Rightarrow> nat list list option" where
  "build_two_host_topology node_count fanout =
     (if node_count < 2 then Some (replicate node_count [])
      else all_some (map (node_peers node_count (max fanout 2)) [0..<node_count]))"

definition make_invalid_spam_op :: "nat \<Rightarrow> nat \<Rightarrow> u8 \<Rightarrow> nat \<Rightarrow> lens_op" where
  "make_invalid_spam_op origin counter host_id' target_site_id =
     \<lparr>op_origin = origin, op_counter = counter, op_host_id = host_id', op_kind = ContentOp target_site_id 0 True, op_pow_nonce = 0\<rparr>"

definition make_sybil_op :: "('c, 'm) crates \<Rightarrow> nat \<Rightarrow> nat \<Rightarrow> u8 \<Rightarrow> nat \<Rightarrow> nat \<Rightarrow> lens_op option" where
  "make_sybil_op X origin counter host_id' site_id bits =
     mine_nonce X \<lparr>op_origin = origin, op_counter = counter, op_host_id = host_id', op_kind = FollowOp site_id 1 True, op_pow_nonce = 0\<rparr> bits"

section \<open>Properties\<close>

text \<open>The peers that are picked are enough, different, in range and never the node itself.\<close>

lemma pick_peers_correct:
  assumes "pick_peers i a b base len target step peers = Some ps" "distinct peers" "i \<notin> set peers" "0 < len"
  shows "target \<le> length ps \<and> distinct ps \<and> i \<notin> set ps \<and> set peers \<subseteq> set ps \<and> set ps \<subseteq> set peers \<union> {base..<base + len}"
proof -
  let ?P = "\<lambda>(i :: nat) (a :: nat) (b :: nat) base len target (step :: nat) peers ps. distinct peers \<longrightarrow> i \<notin> set peers \<longrightarrow> 0 < len \<longrightarrow>
    target \<le> length ps \<and> distinct ps \<and> i \<notin> set ps \<and> set peers \<subseteq> set ps \<and> set ps \<subseteq> set peers \<union> {base..<base + len}"
  have "?P i a b base len target step peers ps"
  proof (rule pick_peers.raw_induct [where P = ?P, OF _ assms(1)], intro impI)
    fix pick and i a b base len target step :: nat and peers ps
    assume ih: "\<And>i a b base len target step peers ps. pick i a b base len target step peers = Some ps \<Longrightarrow> ?P i a b base len target step peers ps"
      and run: "(if length peers < target then let offset = (i * a + step * b) mod 2 ^ 64 mod len; peer = base + offset
        in pick i a b base len target ((step + 1) mod 2 ^ 64) (if peer \<noteq> i then List.insert peer peers else peers) else Some peers) = Some ps"
      and prem: "distinct peers" "i \<notin> set peers" "0 < len"
    let ?p = "base + (i * a + step * b) mod 2 ^ 64 mod len"
    let ?ps = "if ?p \<noteq> i then List.insert ?p peers else peers"
    show "target \<le> length ps \<and> distinct ps \<and> i \<notin> set ps \<and> set peers \<subseteq> set ps \<and> set ps \<subseteq> set peers \<union> {base..<base + len}"
    proof (cases "length peers < target")
      case True
      then have "pick i a b base len target ((step + 1) mod 2 ^ 64) ?ps = Some ps" using run unfolding Let_def by simp
      then have "?P i a b base len target ((step + 1) mod 2 ^ 64) ?ps ps" by (rule ih)
      moreover have "distinct ?ps" "i \<notin> set ?ps" "?p \<in> {base..<base + len}" "set ?ps \<subseteq> insert ?p (set peers)" "set peers \<subseteq> set ?ps"
        using prem by auto
      ultimately show ?thesis using prem(3) by blast
    qed (use run prem in auto)
  qed
  then show ?thesis using assms(2-4) by blast
qed

text \<open>
  With two nodes the first loop never ends: the only candidate on the node's own host is the node
  itself.
\<close>

lemma pick_peers_stuck: "pick_peers i a b i 1 target step [] = Some ps \<Longrightarrow> target = 0"
proof -
  let ?P = "\<lambda>(i :: nat) (a :: nat) (b :: nat) base (len :: nat) (target :: nat) (step :: nat) (peers :: nat list) (ps :: nat list). len = 1 \<longrightarrow> base = i \<longrightarrow> peers = [] \<longrightarrow> target = 0"
  assume run: "pick_peers i a b i 1 target step [] = Some ps"
  have "?P i a b i 1 target step [] ps"
    by (rule pick_peers.raw_induct [where P = ?P, OF _ run]) (auto simp: Let_def split: if_splits)
  then show "target = 0" by simp
qed

theorem two_node_topology_diverges: "build_two_host_topology 2 fanout = None"
proof -
  have "pick_peers 0 131 17 0 1 (max fanout 2 div 2) 1 [] \<noteq> Some ps" for ps
    using pick_peers_stuck [of 0 131 17 "max fanout 2 div 2" 1 ps] by auto
  then have "node_peers 2 (max fanout 2) 0 = None" by (cases "pick_peers 0 131 17 0 1 (max fanout 2 div 2) 1 []") (auto simp: node_peers_def Let_def)
  then show ?thesis by (simp add: build_two_host_topology_def upt_rec)
qed

end
