(* ===== verification/Dht_Provider.thy ===== *)
theory Dht_Provider
  imports Ord_Map Crates "HOL-Library.List_Lexorder" "HOL-Library.Multiset"
begin

text \<open>
  Provider records: \<open>dht_provider.rs\<close>, the store of who provides which content, and \<open>discovery.rs\<close>,
  which fills and asks it. The discv5 crate and keccak are parameters. Instants are numbers of
  seconds, handed in as \<open>now\<close>.
\<close>

section \<open>The store\<close>

definition MAX_PROVIDERS_PER_ENTRY :: nat where
  "MAX_PROVIDERS_PER_ENTRY = 20"

definition PROVIDER_TTL :: nat where
  "PROVIDER_TTL = 24 * 60 * 60"

record provider_record =
  pv_spr :: bytes
  pv_expires :: nat

text \<open>The records by node identifier, 32 bytes.\<close>

type_synonym provider_store = "(bytes, provider_record list) omap"

definition new_provider_store :: provider_store where
  "new_provider_store = []"

definition retain_live :: "nat \<Rightarrow> provider_record list \<Rightarrow> provider_record list" where
  "retain_live now rs = filter (\<lambda>r. now < pv_expires r) rs"

text \<open>The first record with these bytes gets the new expiry.\<close>

fun refresh :: "bytes \<Rightarrow> nat \<Rightarrow> provider_record list \<Rightarrow> provider_record list" where
  "refresh spr t [] = []"
| "refresh spr t (r # rs) = (if pv_spr r = spr then r\<lparr>pv_expires := t\<rparr> # rs else r # refresh spr t rs)"

definition provider_add :: "nat \<Rightarrow> bytes \<Rightarrow> bytes \<Rightarrow> provider_store \<Rightarrow> provider_store" where
  "provider_add now content_id spr st =
     (let live = retain_live now (om_get_or [] st content_id) in
      if spr \<in> set (map pv_spr live) then om_insert content_id (refresh spr (now + PROVIDER_TTL) live) st
      else let kept = (if MAX_PROVIDERS_PER_ENTRY \<le> length live then tl (sort_key pv_expires live) else live)
           in om_insert content_id (kept @ [\<lparr>pv_spr = spr, pv_expires = now + PROVIDER_TTL\<rparr>]) st)"

definition provider_get :: "nat \<Rightarrow> bytes \<Rightarrow> provider_store \<Rightarrow> bytes list \<times> provider_store" where
  "provider_get now content_id st =
     (case om_get st content_id of
        Some rs \<Rightarrow> (let live = retain_live now rs in (map pv_spr live, om_insert content_id live st))
      | None \<Rightarrow> ([], st))"

definition provider_len :: "provider_store \<Rightarrow> nat" where
  "provider_len st = length st"

definition handle_add_provider :: "nat \<Rightarrow> bytes \<Rightarrow> bytes \<Rightarrow> provider_store \<Rightarrow> provider_store" where
  "handle_add_provider now content_id provider_record st =
     (if length content_id \<noteq> 32 then st else provider_add now content_id provider_record st)"

definition handle_get_providers :: "nat \<Rightarrow> bytes \<Rightarrow> provider_store \<Rightarrow> (nat \<times> bytes list) \<times> provider_store" where
  "handle_get_providers now content_id st =
     (if length content_id \<noteq> 32 then ((0, []), st)
      else case provider_get now content_id st of (providers, st') \<Rightarrow> ((length providers mod 2 ^ 32, providers), st'))"

section \<open>The discovery service\<close>

definition cid_to_node_id :: "('c, 'm) crates \<Rightarrow> (bytes \<Rightarrow> bytes) \<Rightarrow> 'c \<Rightarrow> bytes" where
  "cid_to_node_id X keccak256 cid = keccak256 (cid_to_bytes X cid)"

text \<open>
  What the code asks of discv5: the nodes closest to an identifier, the routing table, whether a
  record can be contacted, and the answer of a node to \<open>GetProviders\<close>.
\<close>

record 'e discv5 =
  dv_find_node :: "bytes \<Rightarrow> 'e list option"
  dv_table_entries :: "'e list"
  dv_contactable :: "'e \<Rightarrow> bool"
  dv_get_providers :: "'e \<Rightarrow> bytes \<Rightarrow> (nat \<times> bytes list) option"

definition closest_or_table :: "'e discv5 \<Rightarrow> bytes \<Rightarrow> 'e list" where
  "closest_or_table D node_id =
     (case dv_find_node D node_id of
        Some nodes \<Rightarrow> if nodes \<noteq> [] then nodes else dv_table_entries D
      | None \<Rightarrow> dv_table_entries D)"

text \<open>\<open>provide\<close>: the new store and the \<open>AddProvider\<close> messages sent, each to a node with the content and the record.\<close>

definition provide ::
  "('c, 'm) crates \<Rightarrow> (bytes \<Rightarrow> bytes) \<Rightarrow> 'e discv5 \<Rightarrow> bytes \<Rightarrow> nat \<Rightarrow> 'c \<Rightarrow> provider_store \<Rightarrow> provider_store \<times> ('e \<times> bytes \<times> bytes) list" where
  "provide X keccak256 D local_record now cid st =
     (let content_id = cid_to_node_id X keccak256 cid;
          st' = handle_add_provider now content_id local_record st
      in (st', map (\<lambda>e. (e, content_id, local_record)) (filter (dv_contactable D) (closest_or_table D content_id))))"

definition find_providers ::
  "('c, 'm) crates \<Rightarrow> (bytes \<Rightarrow> bytes) \<Rightarrow> 'e discv5 \<Rightarrow> nat \<Rightarrow> 'c \<Rightarrow> provider_store \<Rightarrow> (bytes list, unit) result \<times> provider_store" where
  "find_providers X keccak256 D now cid st =
     (let content_id = cid_to_node_id X keccak256 cid in
      case handle_get_providers now content_id st of
        ((_, local), st') \<Rightarrow>
          if local \<noteq> [] then (Ok local, st')
          else (let found = concat (map (\<lambda>e. case dv_get_providers D e content_id of Some (_, ps) \<Rightarrow> ps | None \<Rightarrow> []) (closest_or_table D content_id))
                in (if found = [] then Err () else Ok found, st')))"

text \<open>The requests of other nodes; a response is the number of providers and the records.\<close>

datatype provider_request = AddProvider bytes bytes | GetProviders bytes | OtherRequest

fun handle_provider_request :: "nat \<Rightarrow> provider_request \<Rightarrow> provider_store \<Rightarrow> (nat \<times> bytes list) option \<times> provider_store" where
  "handle_provider_request now (AddProvider content_id provider_record) st = (None, handle_add_provider now content_id provider_record st)"
| "handle_provider_request now (GetProviders content_id) st =
     (case handle_get_providers now content_id st of (r, st') \<Rightarrow> (Some r, st'))"
| "handle_provider_request now OtherRequest st = (None, st)"

section \<open>Invariant\<close>

definition entry_ok :: "provider_record list \<Rightarrow> bool" where
  "entry_ok rs \<longleftrightarrow> length rs \<le> MAX_PROVIDERS_PER_ENTRY \<and> distinct (map pv_spr rs)"

definition store_ok :: "provider_store \<Rightarrow> bool" where
  "store_ok st \<longleftrightarrow> (\<forall>k. entry_ok (om_get_or [] st k) \<and> (om_get st k \<noteq> None \<longrightarrow> length k = 32))"

text \<open>The records of a content identifier that have not expired.\<close>

definition live_records :: "nat \<Rightarrow> provider_store \<Rightarrow> bytes \<Rightarrow> provider_record list" where
  "live_records now st k = retain_live now (om_get_or [] st k)"

lemma refresh_spr [simp]: "map pv_spr (refresh spr t rs) = map pv_spr rs"
  by (induction rs) auto

lemma length_refresh [simp]: "length (refresh spr t rs) = length rs"
  by (induction rs) auto

lemma refresh_set: "distinct (map pv_spr rs) \<Longrightarrow> spr \<in> set (map pv_spr rs) \<Longrightarrow>
   set (refresh spr t rs) = insert \<lparr>pv_spr = spr, pv_expires = t\<rparr> {r \<in> set rs. pv_spr r \<noteq> spr}"
proof (induction rs)
  case (Cons r rs)
  then show ?case by (cases r) (auto simp: image_iff)
qed simp

lemma retain_live_ok: "entry_ok rs \<Longrightarrow> entry_ok (retain_live now rs)"
  by (auto simp: entry_ok_def retain_live_def distinct_map_filter intro: order_trans [OF length_filter_le])

lemma om_get_or_insert_same [simp]: "om_get_or d (om_insert k v m) k' = (if k' = k then v else om_get_or d m k')"
  by (simp add: om_get_or_def)

text \<open>The list that \<open>add\<close> appends to: with 20 live records the one that expires first goes.\<close>

definition make_room :: "provider_record list \<Rightarrow> provider_record list" where
  "make_room live = (if MAX_PROVIDERS_PER_ENTRY \<le> length live then tl (sort_key pv_expires live) else live)"

lemma make_room_short:
  assumes "entry_ok live"
  shows "length (make_room live) < MAX_PROVIDERS_PER_ENTRY" "distinct (map pv_spr (make_room live))"
    "set (make_room live) \<subseteq> set live"
    "\<forall>r \<in> set live - set (make_room live). length live = MAX_PROVIDERS_PER_ENTRY \<and> (\<forall>s \<in> set live. pv_expires r \<le> pv_expires s)"
proof -
  let ?s = "sort_key pv_expires live"
  have d: "distinct (map pv_spr ?s)"
    using assms mset_eq_imp_distinct_iff [of "map pv_spr ?s" "map pv_spr live"] by (simp add: entry_ok_def)
  have len: "length live \<le> MAX_PROVIDERS_PER_ENTRY" using assms by (simp add: entry_ok_def)
  have pos: "0 < MAX_PROVIDERS_PER_ENTRY" by (simp add: MAX_PROVIDERS_PER_ENTRY_def)
  show "length (make_room live) < MAX_PROVIDERS_PER_ENTRY" using len pos by (simp add: make_room_def)
  show "distinct (map pv_spr (make_room live))" using d assms by (simp add: make_room_def map_tl distinct_tl entry_ok_def)
  show "set (make_room live) \<subseteq> set live"
    using list.set_sel(2) [of ?s] by (cases ?s) (auto simp: make_room_def dest: arg_cong [of _ _ set])
  show "\<forall>r \<in> set live - set (make_room live). length live = MAX_PROVIDERS_PER_ENTRY \<and> (\<forall>s \<in> set live. pv_expires r \<le> pv_expires s)"
  proof
    fix r assume r: "r \<in> set live - set (make_room live)"
    then have full: "MAX_PROVIDERS_PER_ENTRY \<le> length live" by (auto simp: make_room_def split: if_splits)
    then obtain h t where ht: "?s = h # t" using pos by (cases ?s) (auto dest: arg_cong [of _ _ length])
    have sets: "set live = insert h (set t)" using arg_cong [OF ht, of set] by simp
    then have "r = h" using r ht full by (auto simp: make_room_def)
    moreover have "\<forall>s \<in> set t. pv_expires h \<le> pv_expires s" using sorted_sort_key [of pv_expires live] ht by simp
    ultimately show "length live = MAX_PROVIDERS_PER_ENTRY \<and> (\<forall>s \<in> set live. pv_expires r \<le> pv_expires s)"
      using sets len full by auto
  qed
qed

lemma provider_add_entry:
  "om_get (provider_add now k spr st) k' =
     (if k' = k then
        Some (let live = live_records now st k in
              if spr \<in> set (map pv_spr live) then refresh spr (now + PROVIDER_TTL) live
              else make_room live @ [\<lparr>pv_spr = spr, pv_expires = now + PROVIDER_TTL\<rparr>])
      else om_get st k')"
  by (simp add: provider_add_def live_records_def make_room_def Let_def)

lemma provider_add_live:
  fixes now :: nat and k spr :: bytes
  assumes "store_ok st"
  defines "live \<equiv> live_records now st k" and "new \<equiv> om_get_or [] (provider_add now k spr st) k"
  shows "entry_ok new" "\<lparr>pv_spr = spr, pv_expires = now + PROVIDER_TTL\<rparr> \<in> set new"
    "\<forall>r \<in> set live. pv_spr r = spr \<or> r \<in> set new \<or> length live = MAX_PROVIDERS_PER_ENTRY \<and> (\<forall>s \<in> set live. pv_expires r \<le> pv_expires s)"
    "set new \<subseteq> insert \<lparr>pv_spr = spr, pv_expires = now + PROVIDER_TTL\<rparr> (set live)"
proof -
  have ok: "entry_ok live" using assms(1) unfolding live_def live_records_def by (simp add: store_ok_def retain_live_ok)
  have n: "new = (if spr \<in> set (map pv_spr live) then refresh spr (now + PROVIDER_TTL) live
      else make_room live @ [\<lparr>pv_spr = spr, pv_expires = now + PROVIDER_TTL\<rparr>])"
    unfolding new_def om_get_or_def provider_add_entry live_def Let_def by simp
  note room = make_room_short [OF ok]
  have dist: "distinct (map pv_spr live)" using ok by (simp add: entry_ok_def)
  show "entry_ok new" using ok room(1-3) unfolding n entry_ok_def by auto
  show "\<lparr>pv_spr = spr, pv_expires = now + PROVIDER_TTL\<rparr> \<in> set new"
    "\<forall>r \<in> set live. pv_spr r = spr \<or> r \<in> set new \<or> length live = MAX_PROVIDERS_PER_ENTRY \<and> (\<forall>s \<in> set live. pv_expires r \<le> pv_expires s)"
    "set new \<subseteq> insert \<lparr>pv_spr = spr, pv_expires = now + PROVIDER_TTL\<rparr> (set live)"
    using refresh_set [OF dist] room(3,4) unfolding n by auto
qed

lemma store_ok_get: "store_ok st \<Longrightarrow> store_ok (snd (handle_get_providers now k st))"
proof -
  assume ok: "store_ok st"
  have "entry_ok (retain_live now rs)" if "om_get st k = Some rs" for rs
  proof -
    have "om_get_or [] st k = rs" using that by (simp add: om_get_or_def)
    then show ?thesis using ok retain_live_ok unfolding store_ok_def by blast
  qed
  then show ?thesis using ok
    by (auto simp: handle_get_providers_def provider_get_def store_ok_def Let_def split: option.splits)
qed

lemma store_ok_add: "store_ok st \<Longrightarrow> store_ok (handle_add_provider now k spr st)"
proof (cases "length k = 32")
  case True
  assume ok: "store_ok st"
  have "entry_ok (om_get_or [] (provider_add now k spr st) k') \<and> (om_get (provider_add now k spr st) k' \<noteq> None \<longrightarrow> length k' = 32)" for k'
  proof (cases "k' = k")
    case True
    then show ?thesis using provider_add_live(1) [OF ok] \<open>length k = 32\<close> by simp
  next
    case False
    then show ?thesis using ok unfolding store_ok_def om_get_or_def provider_add_entry by simp
  qed
  then show ?thesis using True by (simp add: handle_add_provider_def store_ok_def)
qed (simp add: handle_add_provider_def)

text \<open>Every sequence of requests keeps the store in order.\<close>

lemma requests_store_ok: "store_ok (fold (\<lambda>(now, req) st. snd (handle_provider_request now req st)) reqs new_provider_store)"
proof -
  have step: "store_ok st \<Longrightarrow> store_ok (snd (handle_provider_request now req st))" for now req st
    by (cases req) (simp_all add: store_ok_add store_ok_get case_prod_unfold)
  have "store_ok st \<Longrightarrow> store_ok (fold (\<lambda>(now, req) st. snd (handle_provider_request now req st)) reqs st)" for st
    using step by (induction reqs arbitrary: st) auto
  moreover have "store_ok new_provider_store" by (simp add: store_ok_def new_provider_store_def om_get_or_def entry_ok_def)
  ultimately show ?thesis by blast
qed


text \<open>A node that announced content itself finds its own record without asking anybody.\<close>

lemma provide_then_find:
  assumes "store_ok st" "length (cid_to_node_id X keccak256 cid) = 32" "now \<le> t" "t < now + PROVIDER_TTL"
  shows "\<exists>found st'. find_providers X keccak256 D t cid (fst (provide X keccak256 D' spr now cid st)) = (Ok found, st') \<and> spr \<in> set found"
proof -
  let ?k = "cid_to_node_id X keccak256 cid"
  have get: "om_get (provider_add now ?k spr st) ?k = Some (om_get_or [] (provider_add now ?k spr st) ?k)"
    unfolding om_get_or_def provider_add_entry by simp
  have "spr \<in> set (map pv_spr (retain_live t (om_get_or [] (provider_add now ?k spr st) ?k)))"
    using provider_add_live(2) [OF assms(1), where now = now and k = ?k and spr = spr] assms(4) unfolding retain_live_def by (force intro: rev_image_eqI)
  then show ?thesis using assms(2) get
    by (auto simp: find_providers_def provide_def handle_add_provider_def handle_get_providers_def provider_get_def Let_def)
qed

text \<open>Two providers of one content; the second announcement is asked for an hour later.\<close>

definition demo_content :: bytes where
  "demo_content = replicate 32 1"


end
