(* ===== verification/Discovery_Engine.thy ===== *)
theory Discovery_Engine
  imports Ord_Map "HOL-Library.Multiset"
begin

text \<open>
  \<open>discovery_engine.rs\<close>: the queue of CIDs whose providers are looked up in the DHT. A query is a
  task of its own; the configuration below holds the engine's state, the requests in its channel,
  the queries that are running and the results sent to the callbacks. What a query returns is a
  label of the step that ends it: the providers, or \<open>None\<close> for an error.
\<close>

section \<open>State\<close>

definition DEFAULT_MAX_CONCURRENT :: nat where
  "DEFAULT_MAX_CONCURRENT = 10"

definition DEFAULT_MIN_PEERS :: nat where
  "DEFAULT_MIN_PEERS = 3"

text \<open>A callback is the name of the channel that receives the results.\<close>

record 'c discovery_request =
  dr_cids :: "'c list"
  dr_callback :: "nat option"

record ('c, 'p) discovery_result =
  rs_cid :: 'c
  rs_providers :: "'p list"
  rs_sufficient :: bool

record ('c, 'p) cid_discovery_state =
  cs_cid :: 'c
  cs_providers :: "'p list"
  cs_in_flight :: bool
  cs_callback :: "nat option"

record ('c, 'p) engine_state =
  es_pending :: "('c, 'p) cid_discovery_state list"
  es_in_flight :: "('c \<times> ('c, 'p) cid_discovery_state) list"
  es_in_flight_count :: nat
  es_max_concurrent :: nat
  es_min_peers :: nat

definition engine_state_new :: "('c, 'p) engine_state" where
  "engine_state_new = \<lparr>es_pending = [], es_in_flight = [], es_in_flight_count = 0,
     es_max_concurrent = DEFAULT_MAX_CONCURRENT, es_min_peers = DEFAULT_MIN_PEERS\<rparr>"

definition engine_with_config :: "nat \<Rightarrow> nat \<Rightarrow> ('c, 'p) engine_state" where
  "engine_with_config max_concurrent min_peers =
     engine_state_new\<lparr>es_max_concurrent := max_concurrent, es_min_peers := min_peers\<rparr>"

section \<open>Operations\<close>

fun handle_cids :: "nat option \<Rightarrow> 'c list \<Rightarrow> ('c, 'p) engine_state \<Rightarrow> ('c, 'p) engine_state" where
  "handle_cids cb [] st = st"
| "handle_cids cb (cid # cids) st =
     (if om_get (es_in_flight st) cid \<noteq> None \<or> cid \<in> set (map cs_cid (es_pending st)) then handle_cids cb cids st
      else handle_cids cb cids
             (st\<lparr>es_pending := es_pending st @ [\<lparr>cs_cid = cid, cs_providers = [], cs_in_flight = False, cs_callback = cb\<rparr>]\<rparr>))"

definition handle_request :: "'c discovery_request \<Rightarrow> ('c, 'p) engine_state \<Rightarrow> ('c, 'p) engine_state" where
  "handle_request request st = handle_cids (dr_callback request) (dr_cids request) st"

text \<open>The loop over the queue: the new state and the queries it starts, each with the peers it needs.\<close>

fun start_queries ::
  "('c, 'p) cid_discovery_state list \<Rightarrow> ('c, 'p) engine_state \<Rightarrow> ('c, 'p) engine_state \<times> ('c \<times> nat) list" where
  "start_queries [] st = (st\<lparr>es_pending := []\<rparr>, [])"
| "start_queries (d # ds) st =
     (if es_in_flight_count st < es_max_concurrent st
      then (let st' = st\<lparr>es_in_flight := (cs_cid d, d\<lparr>cs_in_flight := True\<rparr>) # om_remove (cs_cid d) (es_in_flight st),
                         es_in_flight_count := es_in_flight_count st + 1\<rparr>
            in case start_queries ds st' of (st'', ts) \<Rightarrow> (st'', (cs_cid d, es_min_peers st) # ts))
      else (st\<lparr>es_pending := d # ds\<rparr>, []))"

definition process_pending :: "('c, 'p) engine_state \<Rightarrow> ('c, 'p) engine_state \<times> ('c \<times> nat) list" where
  "process_pending st = start_queries (es_pending st) st"

definition extend_set :: "'p list \<Rightarrow> 'p list \<Rightarrow> 'p list" where
  "extend_set ps new = ps @ filter (\<lambda>p. p \<notin> set ps) (remdups new)"

text \<open>The end of a query: the state and the result for the callback.\<close>

definition query_found ::
  "'c \<Rightarrow> nat \<Rightarrow> 'p list \<Rightarrow> ('c, 'p) engine_state \<Rightarrow> ('c, 'p) engine_state \<times> (nat \<times> ('c, 'p) discovery_result) list" where
  "query_found cid min_peers found st =
     (case om_get (es_in_flight st) cid of
        None \<Rightarrow> (st, [])
      | Some d \<Rightarrow>
        (let st1 = st\<lparr>es_in_flight := om_remove cid (es_in_flight st), es_in_flight_count := es_in_flight_count st - 1\<rparr>;
             providers = extend_set (cs_providers d) found;
             sufficient = (min_peers \<le> length providers);
             sent = (case cs_callback d of None \<Rightarrow> [] | Some cb \<Rightarrow> [(cb, \<lparr>rs_cid = cid, rs_providers = providers, rs_sufficient = sufficient\<rparr>)]);
             d' = d\<lparr>cs_providers := providers, cs_in_flight := False\<rparr>
         in (if sufficient then st1 else st1\<lparr>es_pending := es_pending st1 @ [d']\<rparr>, sent)))"

definition query_failed :: "'c \<Rightarrow> ('c, 'p) engine_state \<Rightarrow> ('c, 'p) engine_state" where
  "query_failed cid st =
     (case om_get (es_in_flight st) cid of
        None \<Rightarrow> st
      | Some d \<Rightarrow> st\<lparr>es_in_flight := om_remove cid (es_in_flight st), es_in_flight_count := es_in_flight_count st - 1,
                   es_pending := es_pending st @ [d\<lparr>cs_in_flight := False\<rparr>]\<rparr>)"

record engine_stats =
  st_pending_count :: nat
  st_in_flight_count :: nat
  st_max_concurrent :: nat
  st_min_peers :: nat

definition engine_stats_of :: "('c, 'p) engine_state \<Rightarrow> engine_stats" where
  "engine_stats_of st = \<lparr>st_pending_count = length (es_pending st), st_in_flight_count = es_in_flight_count st,
     st_max_concurrent = es_max_concurrent st, st_min_peers = es_min_peers st\<rparr>"

section \<open>The running engine\<close>

record ('c, 'p) engine_cfg =
  ec_state :: "('c, 'p) engine_state"
  ec_requests :: "'c discovery_request list"
  ec_tasks :: "('c \<times> nat) list"
  ec_sent :: "(nat \<times> ('c, 'p) discovery_result) list"
  ec_shutdown :: bool
  ec_running :: bool

definition engine_start :: "nat \<Rightarrow> nat \<Rightarrow> ('c, 'p) engine_cfg" where
  "engine_start max_concurrent min_peers = \<lparr>ec_state = engine_with_config max_concurrent min_peers, ec_requests = [],
     ec_tasks = [], ec_sent = [], ec_shutdown = False, ec_running = True\<rparr>"

text \<open>
  The handle: a request is queued while the engine holds the other end of the channel. With a
  callback the caller gets the receiver, named by \<open>cb\<close>.
\<close>

definition queue_find_blocks :: "'c list \<Rightarrow> nat option \<Rightarrow> ('c, 'p) engine_cfg \<Rightarrow> (nat option, unit) result \<times> ('c, 'p) engine_cfg" where
  "queue_find_blocks cids cb E =
     (if ec_running E then (Ok cb, E\<lparr>ec_requests := ec_requests E @ [\<lparr>dr_cids = cids, dr_callback = cb\<rparr>]\<rparr>)
      else (Err (), E))"

definition engine_shutdown :: "('c, 'p) engine_cfg \<Rightarrow> ('c, 'p) engine_cfg" where
  "engine_shutdown E = E\<lparr>ec_shutdown := True\<rparr>"

definition engine_receive :: "('c, 'p) engine_cfg \<Rightarrow> ('c, 'p) engine_cfg" where
  "engine_receive E =
     (case ec_requests E of
        [] \<Rightarrow> E
      | r # rs \<Rightarrow> E\<lparr>ec_requests := rs, ec_state := handle_request r (ec_state E)\<rparr>)"

definition engine_tick :: "('c, 'p) engine_cfg \<Rightarrow> ('c, 'p) engine_cfg" where
  "engine_tick E = (case process_pending (ec_state E) of (st, ts) \<Rightarrow> E\<lparr>ec_state := st, ec_tasks := ec_tasks E @ ts\<rparr>)"

definition task_end :: "'c \<Rightarrow> nat \<Rightarrow> 'p list option \<Rightarrow> ('c, 'p) engine_cfg \<Rightarrow> ('c, 'p) engine_cfg" where
  "task_end cid min_peers found E =
     (let E' = E\<lparr>ec_tasks := remove1 (cid, min_peers) (ec_tasks E)\<rparr> in
      case found of
        None \<Rightarrow> E'\<lparr>ec_state := query_failed cid (ec_state E)\<rparr>
      | Some ps \<Rightarrow> (case query_found cid min_peers ps (ec_state E) of
          (st, sent) \<Rightarrow> E'\<lparr>ec_state := st, ec_sent := ec_sent E @ sent\<rparr>))"

text \<open>
  One step of the system. The loop looks at the shutdown flag before every turn; a turn takes one
  request or, after the interval, starts queries. Queries end in any order, also after the loop.
\<close>

inductive engine_step :: "('c, 'p) engine_cfg \<Rightarrow> ('c, 'p) engine_cfg \<Rightarrow> bool" where
  Queue: "engine_step E (snd (queue_find_blocks cids cb E))"
| Shutdown: "engine_step E (engine_shutdown E)"
| Leave: "ec_running E \<Longrightarrow> ec_shutdown E \<Longrightarrow> engine_step E (E\<lparr>ec_running := False, ec_requests := []\<rparr>)"
| Receive: "ec_running E \<Longrightarrow> \<not> ec_shutdown E \<Longrightarrow> engine_step E (engine_receive E)"
| Tick: "ec_running E \<Longrightarrow> \<not> ec_shutdown E \<Longrightarrow> engine_step E (engine_tick E)"
| TaskEnd: "(cid, min_peers) \<in> set (ec_tasks E) \<Longrightarrow> engine_step E (task_end cid min_peers found E)"

inductive engine_reachable :: "nat \<Rightarrow> nat \<Rightarrow> ('c, 'p) engine_cfg \<Rightarrow> bool" for mc mp where
  Init: "engine_reachable mc mp (engine_start mc mp)"
| Step: "engine_reachable mc mp E \<Longrightarrow> engine_step E E' \<Longrightarrow> engine_reachable mc mp E'"

section \<open>Invariant\<close>

definition tracked :: "('c, 'p) engine_state \<Rightarrow> 'c set" where
  "tracked st = set (map cs_cid (es_pending st)) \<union> set (map fst (es_in_flight st))"

definition state_inv :: "nat \<Rightarrow> nat \<Rightarrow> ('c, 'p) engine_state \<Rightarrow> bool" where
  "state_inv mc mp st \<longleftrightarrow>
     distinct (map cs_cid (es_pending st) @ map fst (es_in_flight st))
   \<and> es_in_flight_count st = length (es_in_flight st) \<and> length (es_in_flight st) \<le> mc
   \<and> es_max_concurrent st = mc \<and> es_min_peers st = mp
   \<and> (\<forall>(c, d) \<in> set (es_in_flight st). cs_cid d = c \<and> cs_in_flight d \<and> distinct (cs_providers d))
   \<and> (\<forall>d \<in> set (es_pending st). \<not> cs_in_flight d \<and> distinct (cs_providers d))"

definition engine_inv :: "nat \<Rightarrow> nat \<Rightarrow> ('c, 'p) engine_cfg \<Rightarrow> bool" where
  "engine_inv mc mp E \<longleftrightarrow> state_inv mc mp (ec_state E)
     \<and> mset (ec_tasks E) = mset (map (\<lambda>(c, _). (c, mp)) (es_in_flight (ec_state E)))"

lemma om_remove_absent: "k \<notin> set (map fst m) \<Longrightarrow> om_remove k m = m"
  by (induction m) (auto simp: om_remove_def)

lemma om_get_absent: "om_get m k = None \<longleftrightarrow> k \<notin> set (map fst m)"
  by (simp add: om_get_def map_of_eq_None_iff)

lemma om_remove_fst: "map fst (om_remove k m) = filter (\<lambda>c. c \<noteq> k) (map fst m)"
  by (induction m) (auto simp: om_remove_def)

lemma om_remove_split:
  assumes "distinct (map fst m)" "om_get m k = Some v"
  shows "mset m = add_mset (k, v) (mset (om_remove k m))" "length m = Suc (length (om_remove k m))"
proof -
  show m: "mset m = add_mset (k, v) (mset (om_remove k m))" using assms
  proof (induction m)
    case (Cons p m)
    obtain a b where p: "p = (a, b)" by (cases p)
    show ?case
    proof (cases "a = k")
      case True
      then have "om_remove k (p # m) = m" "b = v" using Cons.prems p om_remove_absent [of k m] by (auto simp: om_remove_def om_get_def)
      then show ?thesis using p True by simp
    next
      case False
      then have "om_remove k (p # m) = p # om_remove k m" using p by (simp add: om_remove_def)
      then show ?thesis using Cons p False by (simp add: om_get_def)
    qed
  qed (simp add: om_get_def)
  show "length m = Suc (length (om_remove k m))" using arg_cong [OF m, of size] by simp
qed

lemma extend_set_distinct: "distinct ps \<Longrightarrow> distinct (extend_set ps new)"
  by (auto simp: extend_set_def)

lemma handle_cids_correct:
  assumes "state_inv mc mp st"
  shows "state_inv mc mp (handle_cids cb cids st) \<and> tracked (handle_cids cb cids st) = tracked st \<union> set cids
    \<and> es_in_flight (handle_cids cb cids st) = es_in_flight st"
  using assms
proof (induction cids arbitrary: st)
  case (Cons c cids)
  show ?case
  proof (cases "om_get (es_in_flight st) c \<noteq> None \<or> c \<in> set (map cs_cid (es_pending st))")
    case True
    then have "c \<in> tracked st" by (auto simp: tracked_def om_get_absent)
    then show ?thesis using Cons True by auto
  next
    case False
    let ?st = "st\<lparr>es_pending := es_pending st @ [\<lparr>cs_cid = c, cs_providers = [], cs_in_flight = False, cs_callback = cb\<rparr>]\<rparr>"
    have "state_inv mc mp ?st" using Cons.prems False by (auto simp: state_inv_def om_get_absent)
    moreover have "tracked ?st = insert c (tracked st)" by (auto simp: tracked_def)
    ultimately show ?thesis using Cons.IH [of ?st] False by auto
  qed
qed auto

lemma start_queries_correct:
  assumes "state_inv mc mp (st\<lparr>es_pending := ds\<rparr>)" "start_queries ds st = (st', ts)"
  shows "state_inv mc mp st' \<and> tracked st' = tracked (st\<lparr>es_pending := ds\<rparr>)
    \<and> mset (map (\<lambda>(c, _). (c, mp)) (es_in_flight st')) = mset (map (\<lambda>(c, _). (c, mp)) (es_in_flight st)) + mset ts
    \<and> ts = map (\<lambda>d. (cs_cid d, mp)) (take (mc - length (es_in_flight st)) ds) \<and> es_pending st' = drop (mc - length (es_in_flight st)) ds"
  using assms
proof (induction ds arbitrary: st ts)
  case Nil
  then show ?case by (auto simp: state_inv_def tracked_def)
next
  case (Cons d ds)
  have inv: "es_in_flight_count st = length (es_in_flight st)" "es_max_concurrent st = mc" "es_min_peers st = mp"
    using Cons.prems(1) by (auto simp: state_inv_def)
  show ?case
  proof (cases "length (es_in_flight st) < mc")
    case False
    then show ?thesis using Cons.prems inv by auto
  next
    case True
    define st1 where "st1 = st\<lparr>es_in_flight := (cs_cid d, d\<lparr>cs_in_flight := True\<rparr>) # es_in_flight st, es_in_flight_count := es_in_flight_count st + 1\<rparr>"
    have absent: "om_remove (cs_cid d) (es_in_flight st) = es_in_flight st"
      by (rule om_remove_absent) (use Cons.prems(1) in \<open>simp add: state_inv_def\<close>)
    obtain ts1 where ts1: "start_queries ds st1 = (st', ts1)" "ts = (cs_cid d, mp) # ts1"
      using Cons.prems(2) True inv absent by (auto simp: st1_def split: prod.splits)
    have "state_inv mc mp (st1\<lparr>es_pending := ds\<rparr>)" using Cons.prems(1) True by (auto simp: state_inv_def st1_def)
    moreover have "tracked (st1\<lparr>es_pending := ds\<rparr>) = tracked (st\<lparr>es_pending := d # ds\<rparr>)" by (auto simp: tracked_def st1_def)
    moreover have "mc - length (es_in_flight st) = Suc (mc - length (es_in_flight st1))" using True by (simp add: st1_def)
    ultimately show ?thesis using Cons.IH [OF _ ts1(1)] ts1(2) by (simp add: st1_def)
  qed
qed

lemma state_inv_remove:
  assumes "state_inv mc mp st" "om_get (es_in_flight st) c = Some d"
  shows "state_inv mc mp (st\<lparr>es_in_flight := om_remove c (es_in_flight st), es_in_flight_count := es_in_flight_count st - 1\<rparr>)"
    "c \<notin> set (map cs_cid (es_pending st))" "cs_cid d = c" "distinct (cs_providers d)"
    "c \<notin> set (map fst (om_remove c (es_in_flight st)))"
    "insert c (set (map fst (om_remove c (es_in_flight st)))) = set (map fst (es_in_flight st))"
    "mset (map (\<lambda>(c, _). (c, mp)) (es_in_flight st)) = add_mset (c, mp) (mset (map (\<lambda>(c, _). (c, mp)) (om_remove c (es_in_flight st))))"
proof -
  have dist: "distinct (map fst (es_in_flight st))" using assms(1) by (simp add: state_inv_def)
  note sp = om_remove_split [OF dist assms(2)]
  have mem: "(c, d) \<in> set (es_in_flight st)" using assms(2) by (simp add: om_get_def map_of_SomeD)
  have sub: "set (om_remove c (es_in_flight st)) \<subseteq> set (es_in_flight st)" by (auto simp: om_remove_def)
  have f: "distinct (map fst (om_remove c (es_in_flight st)))" "set (map fst (om_remove c (es_in_flight st))) = set (map fst (es_in_flight st)) - {c}"
    using dist unfolding om_remove_fst by auto
  show "state_inv mc mp (st\<lparr>es_in_flight := om_remove c (es_in_flight st), es_in_flight_count := es_in_flight_count st - 1\<rparr>)"
    using assms(1) sub f sp(2) unfolding state_inv_def by (auto simp del: set_map)
  show "c \<notin> set (map fst (om_remove c (es_in_flight st)))"
    "insert c (set (map fst (om_remove c (es_in_flight st)))) = set (map fst (es_in_flight st))"
    using f(2) mem by (simp, metis f(2) fst_conv image_eqI insert_Diff list.set_map)
  have "c \<in> set (map fst (es_in_flight st))" using mem by (metis fst_conv image_eqI list.set_map)
  then show "c \<notin> set (map cs_cid (es_pending st))" using assms(1) unfolding state_inv_def distinct_append by blast
  show "cs_cid d = c" "distinct (cs_providers d)" using assms(1) mem unfolding state_inv_def by auto
  show "mset (map (\<lambda>(c, _). (c, mp)) (es_in_flight st)) = add_mset (c, mp) (mset (map (\<lambda>(c, _). (c, mp)) (om_remove c (es_in_flight st))))"
    using sp(1) by simp
qed

text \<open>A CID that comes back to the queue.\<close>

lemma state_inv_requeue:
  assumes "state_inv mc mp st" "om_get (es_in_flight st) c = Some d" "distinct ps"
  defines "st' \<equiv> st\<lparr>es_in_flight := om_remove c (es_in_flight st), es_in_flight_count := es_in_flight_count st - 1,
     es_pending := es_pending st @ [d\<lparr>cs_providers := ps, cs_in_flight := False\<rparr>]\<rparr>"
  shows "state_inv mc mp st'" "tracked st' = tracked st"
proof -
  note r = state_inv_remove [OF assms(1,2)]
  show "state_inv mc mp st'" using r(1-3,5) assms(3) unfolding st'_def state_inv_def by auto
  show "tracked st' = tracked st" using r(3,6) unfolding st'_def tracked_def by auto
qed

lemma query_failed_correct:
  assumes "state_inv mc mp st" "om_get (es_in_flight st) c = Some d"
  shows "state_inv mc mp (query_failed c st)" "tracked (query_failed c st) = tracked st"
    "es_in_flight (query_failed c st) = om_remove c (es_in_flight st)"
  using state_inv_requeue [OF assms state_inv_remove(4) [OF assms]] assms(2) by (simp_all add: query_failed_def)

lemma query_found_correct:
  assumes "state_inv mc mp st" "om_get (es_in_flight st) c = Some d" "query_found c n ps st = (st', sent)"
  shows "state_inv mc mp st'"
    "tracked st' = (if n \<le> length (extend_set (cs_providers d) ps) then tracked st - {c} else tracked st)"
    "es_in_flight st' = om_remove c (es_in_flight st)"
    "(cb, r) \<in> set sent \<Longrightarrow> rs_cid r = c \<and> distinct (rs_providers r) \<and> rs_sufficient r = (n \<le> length (rs_providers r))"
proof -
  let ?ps = "extend_set (cs_providers d) ps"
  let ?st = "st\<lparr>es_in_flight := om_remove c (es_in_flight st), es_in_flight_count := es_in_flight_count st - 1\<rparr>"
  note r = state_inv_remove [OF assms(1,2)]
  have d: "distinct ?ps" by (rule extend_set_distinct [OF r(4)])
  have st': "st' = (if n \<le> length ?ps then ?st else ?st\<lparr>es_pending := es_pending st @ [d\<lparr>cs_providers := ?ps, cs_in_flight := False\<rparr>]\<rparr>)"
    using assms(2,3) by (auto simp: query_found_def Let_def)
  have t: "tracked ?st = tracked st - {c}" using r(2,5,6) unfolding tracked_def by auto
  show "state_inv mc mp st'" "tracked st' = (if n \<le> length ?ps then tracked st - {c} else tracked st)"
    using state_inv_requeue [OF assms(1,2) d] r(1) t unfolding st' by auto
  show "es_in_flight st' = om_remove c (es_in_flight st)" by (simp add: st')
  show "rs_cid r = c \<and> distinct (rs_providers r) \<and> rs_sufficient r = (n \<le> length (rs_providers r))" if "(cb, r) \<in> set sent"
    using that assms(2,3) d by (auto simp: query_found_def Let_def split: option.splits)
qed

lemma task_in_flight:
  assumes "engine_inv mc mp E" "(c, n) \<in> set (ec_tasks E)"
  obtains d where "om_get (es_in_flight (ec_state E)) c = Some d" "n = mp"
proof -
  have "(c, n) \<in> set (map (\<lambda>(c, _). (c, mp)) (es_in_flight (ec_state E)))"
    using assms unfolding engine_inv_def by (metis set_mset_mset)
  then have "c \<in> set (map fst (es_in_flight (ec_state E)))" "n = mp" by (auto intro: rev_image_eqI)
  then show ?thesis using that om_get_absent [of "es_in_flight (ec_state E)" c] by auto
qed

lemma task_end_correct:
  assumes "engine_inv mc mp E" "(c, n) \<in> set (ec_tasks E)" "om_get (es_in_flight (ec_state E)) c = Some d"
  shows "engine_inv mc mp (task_end c n found E)"
    "tracked (ec_state (task_end c n found E)) =
      (if found \<noteq> None \<and> mp \<le> length (extend_set (cs_providers d) (the found)) then tracked (ec_state E) - {c} else tracked (ec_state E))"
proof -
  have inv: "state_inv mc mp (ec_state E)" and tasks: "mset (ec_tasks E) = mset (map (\<lambda>(c, _). (c, mp)) (es_in_flight (ec_state E)))"
    using assms(1) by (auto simp: engine_inv_def)
  have n: "n = mp" using task_in_flight [OF assms(1,2)] by blast
  have rest: "mset (remove1 (c, n) (ec_tasks E)) = mset (map (\<lambda>(c, _). (c, mp)) (om_remove c (es_in_flight (ec_state E))))"
    unfolding mset_remove1 tasks n by (simp add: state_inv_remove(7) [OF inv assms(3)] del: mset_map)
  show "engine_inv mc mp (task_end c n found E)"
    "tracked (ec_state (task_end c n found E)) =
      (if found \<noteq> None \<and> mp \<le> length (extend_set (cs_providers d) (the found)) then tracked (ec_state E) - {c} else tracked (ec_state E))"
    using query_failed_correct [OF inv assms(3)] query_found_correct(1-3) [OF inv assms(3)] rest n
    by (auto simp: task_end_def engine_inv_def Let_def split: option.splits prod.splits simp del: mset_map mset_remove1)
qed

lemma tick_correct:
  assumes "engine_inv mc mp E"
  shows "engine_inv mc mp (engine_tick E)" "tracked (ec_state (engine_tick E)) = tracked (ec_state E)"
    "ec_tasks (engine_tick E) = ec_tasks E @ map (\<lambda>d. (cs_cid d, mp)) (take (mc - length (ec_tasks E)) (es_pending (ec_state E)))"
    "es_pending (ec_state (engine_tick E)) = drop (mc - length (ec_tasks E)) (es_pending (ec_state E))"
proof -
  obtain st ts where run: "start_queries (es_pending (ec_state E)) (ec_state E) = (st, ts)" by (rule prod.exhaust)
  have inv: "state_inv mc mp (ec_state E)" and tasks: "mset (ec_tasks E) = mset (map (\<lambda>(c, _). (c, mp)) (es_in_flight (ec_state E)))"
    using assms by (auto simp: engine_inv_def)
  have len: "length (ec_tasks E) = length (es_in_flight (ec_state E))" using mset_eq_length [OF tasks] by simp
  have "state_inv mc mp (ec_state E\<lparr>es_pending := es_pending (ec_state E)\<rparr>)" using inv by simp
  note q = start_queries_correct [OF this run]
  show "engine_inv mc mp (engine_tick E)" "tracked (ec_state (engine_tick E)) = tracked (ec_state E)"
    "ec_tasks (engine_tick E) = ec_tasks E @ map (\<lambda>d. (cs_cid d, mp)) (take (mc - length (ec_tasks E)) (es_pending (ec_state E)))"
    "es_pending (ec_state (engine_tick E)) = drop (mc - length (ec_tasks E)) (es_pending (ec_state E))"
    using q tasks len run by (simp_all add: engine_tick_def process_pending_def engine_inv_def)
qed

lemma receive_correct:
  assumes "engine_inv mc mp E"
  shows "engine_inv mc mp (engine_receive E)"
    "tracked (ec_state (engine_receive E)) = tracked (ec_state E) \<union> (case ec_requests E of [] \<Rightarrow> {} | r # _ \<Rightarrow> set (dr_cids r))"
proof -
  have inv: "state_inv mc mp (ec_state E)" using assms by (simp add: engine_inv_def)
  show "engine_inv mc mp (engine_receive E)"
    "tracked (ec_state (engine_receive E)) = tracked (ec_state E) \<union> (case ec_requests E of [] \<Rightarrow> {} | r # _ \<Rightarrow> set (dr_cids r))"
    using assms handle_cids_correct [OF inv]
    by (auto simp: engine_receive_def handle_request_def engine_inv_def split: list.splits)
qed

lemma step_inv: "engine_step E E' \<Longrightarrow> engine_inv mc mp E \<Longrightarrow> engine_inv mc mp E'"
proof (induction rule: engine_step.induct)
  case (Queue E cids cb)
  then show ?case by (simp add: queue_find_blocks_def engine_inv_def)
next
  case (Receive E)
  then show ?case using receive_correct by blast
next
  case (Tick E)
  then show ?case using tick_correct by blast
next
  case (TaskEnd cid n E found)
  then show ?case using task_in_flight task_end_correct(1) by metis
qed (simp_all add: engine_inv_def engine_shutdown_def)

lemma reachable_inv: "engine_reachable mc mp E \<Longrightarrow> engine_inv mc mp E"
proof (induction rule: engine_reachable.induct)
  case Init
  show ?case by (simp add: engine_inv_def engine_start_def engine_with_config_def engine_state_new_def state_inv_def)
next
  case (Step E E')
  then show ?case using step_inv by blast
qed

lemma sent_step:
  assumes "engine_step E E'" "engine_inv mc mp E" "p \<in> set (ec_sent E')" "p \<notin> set (ec_sent E)"
  shows "distinct (rs_providers (snd p)) \<and> rs_sufficient (snd p) = (mp \<le> length (rs_providers (snd p)))"
  using assms
proof (induction rule: engine_step.induct)
  case (TaskEnd cid n E found)
  obtain d where d: "om_get (es_in_flight (ec_state E)) cid = Some d" "n = mp" using task_in_flight [OF TaskEnd(2,1)] by blast
  have inv: "state_inv mc mp (ec_state E)" using TaskEnd(2) by (simp add: engine_inv_def)
  show ?case using TaskEnd(3,4) d(2) query_found_correct(4) [OF inv d(1), of n _ _ _ "fst p" "snd p"]
    by (auto simp: task_end_def Let_def split: option.splits prod.splits)
qed (auto simp: queue_find_blocks_def engine_shutdown_def engine_receive_def engine_tick_def split: list.splits prod.splits if_splits)

lemma sent_reachable:
  "engine_reachable mc mp E \<Longrightarrow> p \<in> set (ec_sent E) \<Longrightarrow> distinct (rs_providers (snd p)) \<and> rs_sufficient (snd p) = (mp \<le> length (rs_providers (snd p)))"
proof (induction rule: engine_reachable.induct)
  case (Step E E')
  then show ?case using sent_step [OF Step.hyps(2) reachable_inv [OF Step.hyps(1)]] by blast
qed (simp add: engine_start_def)

section \<open>Claims\<close>

text \<open>
  C28. In every state the discovery engine can reach, whatever is requested, whatever the DHT answers
  and in whatever order: no CID is queued twice or queued while it is being looked up, at most
  \<open>max_concurrent\<close> queries run, the counter counts exactly the running queries and no two of them
  are for the same CID; every result sent to a callback lists different providers and says truly
  whether there are enough.
\<close>

theorem discovery_invariant:
  assumes "engine_reachable max_concurrent min_peers E"
  shows "distinct (map cs_cid (es_pending (ec_state E)) @ map fst (ec_tasks E))
    \<and> length (ec_tasks E) \<le> max_concurrent
    \<and> es_in_flight_count (ec_state E) = length (ec_tasks E)
    \<and> set (map fst (ec_tasks E)) = set (map fst (es_in_flight (ec_state E)))
    \<and> (\<forall>(cb, r) \<in> set (ec_sent E). distinct (rs_providers r) \<and> rs_sufficient r = (min_peers \<le> length (rs_providers r)))"
proof -
  have i: "state_inv max_concurrent min_peers (ec_state E)"
    and t: "mset (ec_tasks E) = mset (map (\<lambda>(c, _). (c, min_peers)) (es_in_flight (ec_state E)))"
    using reachable_inv [OF assms] by (auto simp: engine_inv_def)
  have keys: "mset (map fst (ec_tasks E)) = mset (map fst (es_in_flight (ec_state E)))"
    using arg_cong [OF t, of "image_mset fst"] by (simp add: case_prod_unfold image_mset.compositionality comp_def)
  have "\<forall>(cb, r) \<in> set (ec_sent E). distinct (rs_providers r) \<and> rs_sufficient r = (min_peers \<le> length (rs_providers r))"
    using sent_reachable [OF assms] by auto
  moreover have "distinct (map cs_cid (es_pending (ec_state E)) @ map fst (ec_tasks E))"
    using i mset_eq_imp_distinct_iff [OF keys] mset_eq_setD [OF keys] unfolding state_inv_def by simp
  moreover have "length (ec_tasks E) \<le> max_concurrent" "es_in_flight_count (ec_state E) = length (ec_tasks E)"
    using i mset_eq_length [OF t] unfolding state_inv_def by simp_all
  ultimately show ?thesis using mset_eq_setD [OF keys] by blast
qed

text \<open>
  The discovery engine loses no CID. Taking a request from the channel makes the engine track
  exactly its CIDs in addition; starting queries takes the oldest queued CIDs, as many as there is
  room for, and loses none; a query that ends drops its CID only if enough different providers are
  known, those of earlier attempts included, and otherwise the CID is queued again.
\<close>

lemma discovery_loses_nothing:
  assumes "engine_reachable max_concurrent min_peers E"
  shows "tracked (ec_state (engine_receive E)) = tracked (ec_state E) \<union> (case ec_requests E of [] \<Rightarrow> {} | r # _ \<Rightarrow> set (dr_cids r))
    \<and> tracked (ec_state (engine_tick E)) = tracked (ec_state E)
    \<and> map fst (ec_tasks (engine_tick E)) = map fst (ec_tasks E) @ map cs_cid (take (max_concurrent - length (ec_tasks E)) (es_pending (ec_state E)))
    \<and> (\<forall>(cid, n) \<in> set (ec_tasks E). \<exists>d. om_get (es_in_flight (ec_state E)) cid = Some d
        \<and> (\<forall>found. tracked (ec_state (task_end cid n found E)) =
             (if found \<noteq> None \<and> min_peers \<le> length (extend_set (cs_providers d) (the found))
              then tracked (ec_state E) - {cid} else tracked (ec_state E))))"
proof -
  have i: "engine_inv max_concurrent min_peers E" by (rule reachable_inv [OF assms])
  have tasks: "\<exists>d. om_get (es_in_flight (ec_state E)) cid = Some d
        \<and> (\<forall>found. tracked (ec_state (task_end cid n found E)) =
             (if found \<noteq> None \<and> min_peers \<le> length (extend_set (cs_providers d) (the found))
              then tracked (ec_state E) - {cid} else tracked (ec_state E)))" if t: "(cid, n) \<in> set (ec_tasks E)" for cid n
  proof -
    obtain d where d: "om_get (es_in_flight (ec_state E)) cid = Some d" using task_in_flight [OF i t] by blast
    show ?thesis using d task_end_correct(2) [OF i t d] by blast
  qed
  show ?thesis using receive_correct(2) [OF i] tick_correct(2,3) [OF i] tasks by (simp add: comp_def split_beta)
qed

text \<open>Two CIDs, one query at a time, two providers needed; the first query has been started.\<close>

definition demo_engine :: "(nat, nat) engine_cfg" where
  "demo_engine = engine_tick (engine_receive (snd (queue_find_blocks [5, 6, 5] (Some 0) (engine_start 1 2))))"

lemma demo_engine_reachable: "engine_reachable 1 2 demo_engine"
proof -
  have "engine_reachable 1 2 (snd (queue_find_blocks [5, 6, 5] (Some 0) (engine_start 1 2)) :: (nat, nat) engine_cfg)"
    by (rule engine_reachable.Step [OF engine_reachable.Init engine_step.Queue])
  then show ?thesis unfolding demo_engine_def
    by (rule engine_reachable.Step [OF engine_reachable.Step [OF _ engine_step.Receive] engine_step.Tick])
       (simp_all add: queue_find_blocks_def engine_start_def engine_receive_def)
qed

lemmas demo_engine_defs = demo_engine_def engine_start_def engine_with_config_def engine_state_new_def queue_find_blocks_def
  engine_receive_def handle_request_def engine_tick_def process_pending_def om_remove_def om_get_def

lemma demo_engine_eval:
  "map fst (ec_tasks demo_engine) = [5]" "map cs_cid (es_pending (ec_state demo_engine)) = [6]" "ec_tasks demo_engine = [(5, 2)]"
  "map_option cs_providers (om_get (es_in_flight (ec_state demo_engine)) 5) = Some []"
  by (simp_all add: demo_engine_defs)

theorem discovery_invariant_witness:
  "distinct (map cs_cid (es_pending (ec_state demo_engine)) @ map fst (ec_tasks demo_engine))
   \<and> es_in_flight_count (ec_state demo_engine) = 1 \<and> map fst (ec_tasks demo_engine) = [5]"
  using discovery_invariant [OF demo_engine_reachable] demo_engine_eval(1,3) by (metis length_Cons list.size(3) One_nat_def)

end
