(* ===== verification/Advertiser.thy ===== *)
theory Advertiser
  imports Block_Store "HOL-Library.Multiset"
begin

text \<open>
  \<open>advertiser.rs\<close>: blocks are queued, taken from the queue by one loop and announced to the DHT by
  tasks of their own, at most \<open>max_concurrent\<close> at a time; a second loop queues the blocks of the
  local store again and again. Calls of \<open>start\<close> and \<open>stop\<close> do not overlap. What the DHT answers has
  no influence: a failure is only logged.
\<close>

section \<open>State\<close>

datatype advertiser_error = NotRunning | AlreadyRunning

datatype 'c advertise_message = Advertise 'c | Stop

text \<open>
  Where the advertisement loop is: before the test of \<open>running\<close>, at the receiver, waiting for a
  permit for a CID, or ended.
\<close>

datatype 'c loop_phase = Head | Receiving | Acquiring 'c | Ended

text \<open>
  \<open>ad_tasks\<close> are the tasks that hold a permit of the current loop, \<open>ad_old_tasks\<close> those of loops that
  have been stopped; \<open>ad_announced\<close> lists the calls of \<open>Discovery::provide\<close>. \<open>ad_stopping\<close>: a call of
  \<open>stop\<close> waits for the loop.
\<close>

record 'c advertiser =
  ad_store_set :: bool
  ad_queue :: "'c advertise_message list"
  ad_in_flight :: "'c list"
  ad_max_concurrent :: nat
  ad_running :: bool
  ad_phase :: "'c loop_phase"
  ad_tasks :: "'c list"
  ad_old_tasks :: "'c list"
  ad_announced :: "'c list"
  ad_local_loop :: bool
  ad_stopping :: bool

definition advertiser_new :: "nat \<Rightarrow> 'c advertiser" where
  "advertiser_new max_concurrent = \<lparr>ad_store_set = False, ad_queue = [], ad_in_flight = [], ad_max_concurrent = max_concurrent,
     ad_running = False, ad_phase = Ended, ad_tasks = [], ad_old_tasks = [], ad_announced = [], ad_local_loop = False, ad_stopping = False\<rparr>"

definition advertiser_with_defaults :: "'c advertiser" where
  "advertiser_with_defaults = advertiser_new 10"

definition set_block_store :: "'c advertiser \<Rightarrow> 'c advertiser" where
  "set_block_store a = a\<lparr>ad_store_set := True\<rparr>"

section \<open>Operations\<close>

definition advertiser_start :: "'c advertiser \<Rightarrow> (unit, advertiser_error) result \<times> 'c advertiser" where
  "advertiser_start a =
     (if ad_running a then (Err AlreadyRunning, a)
      else (Ok (), a\<lparr>ad_running := True, ad_phase := Head, ad_tasks := [], ad_old_tasks := ad_old_tasks a @ ad_tasks a,
                     ad_local_loop := ad_store_set a\<rparr>))"

text \<open>\<open>stop\<close> up to the wait for the loop, and from there to its end.\<close>

definition advertiser_stop :: "'c advertiser \<Rightarrow> 'c advertiser" where
  "advertiser_stop a =
     (if \<not> ad_running a then a else a\<lparr>ad_running := False, ad_queue := ad_queue a @ [Stop], ad_stopping := True\<rparr>)"

definition advertiser_stopped :: "'c advertiser \<Rightarrow> 'c advertiser" where
  "advertiser_stopped a = a\<lparr>ad_stopping := False, ad_local_loop := False\<rparr>"

definition advertise_block :: "'c \<Rightarrow> 'c advertiser \<Rightarrow> (unit, advertiser_error) result \<times> 'c advertiser" where
  "advertise_block cid a =
     (if \<not> ad_running a then (Err NotRunning, a) else (Ok (), a\<lparr>ad_queue := ad_queue a @ [Advertise cid]\<rparr>))"

definition in_flight_count :: "'c advertiser \<Rightarrow> nat" where
  "in_flight_count a = length (ad_in_flight a)"

definition is_in_flight :: "'c advertiser \<Rightarrow> 'c \<Rightarrow> bool" where
  "is_in_flight a cid \<longleftrightarrow> cid \<in> set (ad_in_flight a)"

text \<open>The next move of the advertisement loop; it stays where it is when it has to wait.\<close>

definition loop_move :: "'c advertiser \<Rightarrow> 'c advertiser" where
  "loop_move a =
     (case ad_phase a of
        Head \<Rightarrow> a\<lparr>ad_phase := (if ad_running a then Receiving else Ended)\<rparr>
      | Receiving \<Rightarrow>
        (case ad_queue a of
           [] \<Rightarrow> a
         | Stop # q \<Rightarrow> a\<lparr>ad_queue := q, ad_phase := Ended\<rparr>
         | Advertise cid # q \<Rightarrow>
           if cid \<in> set (ad_in_flight a) then a\<lparr>ad_queue := q, ad_phase := Head\<rparr>
           else a\<lparr>ad_queue := q, ad_in_flight := ad_in_flight a @ [cid], ad_phase := Acquiring cid\<rparr>)
      | Acquiring cid \<Rightarrow>
        if length (ad_tasks a) < ad_max_concurrent a
        then a\<lparr>ad_tasks := ad_tasks a @ [cid], ad_announced := ad_announced a @ [cid], ad_phase := Head\<rparr> else a
      | Ended \<Rightarrow> a)"

text \<open>An announcement ends and gives its permit back.\<close>

definition task_done :: "'c \<Rightarrow> 'c advertiser \<Rightarrow> 'c advertiser" where
  "task_done cid a =
     (if cid \<in> set (ad_tasks a)
      then a\<lparr>ad_tasks := remove1 cid (ad_tasks a), ad_in_flight := removeAll cid (ad_in_flight a)\<rparr>
      else a\<lparr>ad_old_tasks := remove1 cid (ad_old_tasks a), ad_in_flight := removeAll cid (ad_in_flight a)\<rparr>)"

text \<open>One turn of the loop over the local store, which holds \<open>cids\<close>.\<close>

definition local_store_turn :: "'c list \<Rightarrow> 'c advertiser \<Rightarrow> 'c advertiser" where
  "local_store_turn cids a =
     (if \<not> ad_running a then a\<lparr>ad_local_loop := False\<rparr> else a\<lparr>ad_queue := ad_queue a @ map Advertise cids\<rparr>)"

section \<open>The running advertiser\<close>

inductive ad_step :: "'c advertiser \<Rightarrow> 'c advertiser \<Rightarrow> bool" where
  SetStore: "ad_step a (set_block_store a)"
| Start: "\<not> ad_stopping a \<Longrightarrow> ad_step a (snd (advertiser_start a))"
| StopCall: "\<not> ad_stopping a \<Longrightarrow> ad_step a (advertiser_stop a)"
| Stopped: "ad_stopping a \<Longrightarrow> ad_phase a = Ended \<Longrightarrow> ad_step a (advertiser_stopped a)"
| Queue: "ad_step a (snd (advertise_block cid a))"
| Loop: "ad_step a (loop_move a)"
| TaskDone: "cid \<in> set (ad_tasks a) \<union> set (ad_old_tasks a) \<Longrightarrow> ad_step a (task_done cid a)"
| LocalStore: "ad_local_loop a \<Longrightarrow> ad_step a (local_store_turn cids a)"

inductive ad_reachable :: "nat \<Rightarrow> 'c advertiser \<Rightarrow> bool" for mc where
  Init: "ad_reachable mc (advertiser_new mc)"
| Step: "ad_reachable mc a \<Longrightarrow> ad_step a b \<Longrightarrow> ad_reachable mc b"

section \<open>Invariant\<close>

definition acquiring :: "'c advertiser \<Rightarrow> 'c list" where
  "acquiring a = (case ad_phase a of Acquiring cid \<Rightarrow> [cid] | _ \<Rightarrow> [])"

definition ad_inv :: "nat \<Rightarrow> 'c advertiser \<Rightarrow> bool" where
  "ad_inv mc a \<longleftrightarrow> distinct (ad_in_flight a)
     \<and> mset (ad_in_flight a) = mset (ad_tasks a @ ad_old_tasks a @ acquiring a)
     \<and> length (ad_tasks a) \<le> mc \<and> ad_max_concurrent a = mc
     \<and> (\<not> ad_running a \<and> \<not> ad_stopping a \<longrightarrow> ad_phase a = Ended)
     \<and> (ad_running a \<longrightarrow> \<not> ad_stopping a)"

lemma ad_inv_distinct: "ad_inv mc a \<Longrightarrow> distinct (ad_tasks a @ ad_old_tasks a @ acquiring a)"
  unfolding ad_inv_def using mset_eq_imp_distinct_iff by blast

lemma ad_inv_set: "ad_inv mc a \<Longrightarrow> set (ad_in_flight a) = set (ad_tasks a @ ad_old_tasks a @ acquiring a)"
  unfolding ad_inv_def using mset_eq_setD by blast

lemma loop_move_inv:
  assumes "ad_inv mc a"
  shows "ad_inv mc (loop_move a)"
proof (cases "ad_phase a")
  case Receiving
  then show ?thesis
  proof (cases "ad_queue a")
    case (Cons m q)
    then show ?thesis using assms Receiving by (cases m) (auto simp: loop_move_def ad_inv_def acquiring_def)
  qed (use assms Receiving in \<open>simp add: loop_move_def\<close>)
qed (use assms in \<open>auto simp: loop_move_def ad_inv_def acquiring_def\<close>)

lemma task_done_inv:
  assumes "ad_inv mc a" "cid \<in> set (ad_tasks a) \<union> set (ad_old_tasks a)"
  shows "ad_inv mc (task_done cid a)"
proof -
  have "cid \<in> set (ad_in_flight a)" "distinct (ad_in_flight a)" using assms ad_inv_set [OF assms(1)] by (auto simp: ad_inv_def)
  then have r: "mset (removeAll cid (ad_in_flight a)) = mset (ad_in_flight a) - {#cid#}" "distinct (removeAll cid (ad_in_flight a))"
    by (simp_all add: distinct_remove1_removeAll [symmetric])
  have split: "mset xs = add_mset cid (mset (remove1 cid xs))" if "cid \<in> set xs" for xs using that by simp
  have eq: "mset (ad_in_flight a) = mset (ad_tasks a) + (mset (ad_old_tasks a) + mset (acquiring a))"
    using assms(1) by (simp add: ad_inv_def)
  have "mset (ad_in_flight (task_done cid a)) = mset (ad_tasks (task_done cid a) @ ad_old_tasks (task_done cid a) @ acquiring a)"
    using assms(2) r(1) split [of "ad_tasks a"] split [of "ad_old_tasks a"]
    by (cases "cid \<in> set (ad_tasks a)") (simp_all add: task_done_def eq del: mset_remove1)
  moreover have "length (ad_tasks (task_done cid a)) \<le> length (ad_tasks a)" by (simp add: task_done_def length_remove1)
  moreover have "distinct (ad_in_flight (task_done cid a))" "ad_max_concurrent (task_done cid a) = ad_max_concurrent a"
    "ad_running (task_done cid a) = ad_running a" "ad_stopping (task_done cid a) = ad_stopping a"
    "ad_phase (task_done cid a) = ad_phase a" "acquiring (task_done cid a) = acquiring a"
    using r(2) by (simp_all add: task_done_def acquiring_def)
  ultimately show ?thesis using assms(1) unfolding ad_inv_def by simp
qed

lemma ad_step_inv: "ad_step a b \<Longrightarrow> ad_inv mc a \<Longrightarrow> ad_inv mc b"
proof (induction rule: ad_step.induct)
  case (Loop a)
  then show ?case by (rule loop_move_inv)
next
  case (TaskDone cid a)
  show ?case by (rule task_done_inv [OF TaskDone(2,1)])
qed (auto simp: ad_inv_def acquiring_def set_block_store_def advertiser_start_def advertiser_stop_def advertiser_stopped_def
       advertise_block_def local_store_turn_def split: if_splits)

lemma ad_reachable_inv: "ad_reachable mc a \<Longrightarrow> ad_inv mc a"
proof (induction rule: ad_reachable.induct)
  case Init
  show ?case by (simp add: ad_inv_def advertiser_new_def acquiring_def)
next
  case (Step a b)
  then show ?case using ad_step_inv by blast
qed

text \<open>
  In every state the advertiser can reach, the set of blocks in flight is exactly the blocks
  that are being announced or wait for a permit; no block is announced twice at the same time, and
  the current loop never has more than \<open>max_concurrent\<close> announcements running. A block taken from the
  queue is in flight afterwards, and a loop that has a permit for it announces it.
\<close>

lemma advertiser_invariant:
  assumes "ad_reachable max_concurrent a"
  shows "set (ad_in_flight a) = set (ad_tasks a) \<union> set (ad_old_tasks a) \<union> set (acquiring a)
    \<and> in_flight_count a = length (ad_tasks a) + length (ad_old_tasks a) + length (acquiring a)
    \<and> distinct (ad_tasks a @ ad_old_tasks a @ acquiring a)
    \<and> length (ad_tasks a) \<le> max_concurrent
    \<and> (ad_phase a = Receiving \<and> ad_queue a = Advertise cid # q \<longrightarrow> is_in_flight (loop_move a) cid \<and> ad_queue (loop_move a) = q)
    \<and> (ad_phase a = Acquiring cid \<and> length (ad_tasks a) < max_concurrent \<longrightarrow>
        ad_announced (loop_move a) = ad_announced a @ [cid] \<and> is_in_flight (loop_move a) cid)"
proof -
  have i: "ad_inv max_concurrent a" by (rule ad_reachable_inv [OF assms])
  have l: "length (ad_in_flight a) = length (ad_tasks a @ ad_old_tasks a @ acquiring a)" "ad_max_concurrent a = max_concurrent"
      "length (ad_tasks a) \<le> max_concurrent"
    using i mset_eq_length unfolding ad_inv_def by blast+
  have s: "set (ad_in_flight a) = set (ad_tasks a) \<union> set (ad_old_tasks a) \<union> set (acquiring a)"
    using ad_inv_set [OF i] by auto
  have "is_in_flight (loop_move a) cid \<and> ad_queue (loop_move a) = q" if "ad_phase a = Receiving" "ad_queue a = Advertise cid # q"
    using that by (auto simp: loop_move_def is_in_flight_def)
  moreover have "ad_announced (loop_move a) = ad_announced a @ [cid] \<and> is_in_flight (loop_move a) cid"
    if "ad_phase a = Acquiring cid" "length (ad_tasks a) < max_concurrent"
    using that l(2) s by (auto simp: loop_move_def is_in_flight_def acquiring_def)
  ultimately show ?thesis using s l(1,3) ad_inv_distinct [OF i] by (auto simp: in_flight_count_def)
qed

section \<open>A stop that outlives its loop\<close>

text \<open>
  A block is queued and taken from the queue, then the advertiser is stopped while its loop waits
  for a permit. The loop announces the block, sees that the advertiser is not running and ends
  without taking the \<open>Stop\<close> from the queue.
\<close>

definition demo_stopped :: "nat advertiser" where
  "demo_stopped = advertiser_stopped (loop_move (loop_move (advertiser_stop (loop_move (loop_move
     (snd (advertise_block 5 (snd (advertiser_start (advertiser_new 1))))))))))"

lemmas ad_eval = demo_stopped_def advertiser_stopped_def loop_move_def advertiser_stop_def advertise_block_def advertiser_start_def
  advertiser_new_def

lemma demo_stopped_reachable: "ad_reachable 1 demo_stopped"
  unfolding demo_stopped_def
  by (rule ad_reachable.Step [OF _ ad_step.Stopped], (rule ad_reachable.Step [OF _ ad_step.Loop])+,
      rule ad_reachable.Step [OF _ ad_step.StopCall], (rule ad_reachable.Step [OF _ ad_step.Loop])+,
      rule ad_reachable.Step [OF _ ad_step.Queue], rule ad_reachable.Step [OF ad_reachable.Init ad_step.Start])
     (simp_all add: ad_eval)

text \<open>
  When it is started again, the new loop finds that message and ends at once: the advertiser is
  running and accepts blocks, but nothing takes them from the queue any more.
\<close>

theorem restart_stale_stop:
  "\<exists>a :: nat advertiser. ad_reachable 1 a \<and> ad_running a \<and> ad_phase a = Ended \<and> \<not> ad_stopping a \<and> fst (advertise_block 6 a) = Ok ()"
proof -
  let ?a = "loop_move (loop_move (snd (advertiser_start demo_stopped)))"
  have "ad_reachable 1 (snd (advertiser_start demo_stopped))"
    by (rule ad_reachable.Step [OF demo_stopped_reachable ad_step.Start]) (simp add: ad_eval)
  then have "ad_reachable 1 ?a" by (intro ad_reachable.Step [OF _ ad_step.Loop])
  moreover have "ad_running ?a \<and> ad_phase ?a = Ended \<and> \<not> ad_stopping ?a \<and> fst (advertise_block 6 ?a) = Ok ()"
    by (simp add: ad_eval)
  ultimately show ?thesis by blast
qed

end
