(* ===== verification/Traffic.thy ===== *)
theory Traffic
  imports Block_Store
begin

text \<open>
  \<open>traffic.rs\<close>: the generator of test traffic. One turn of each of its three loops, with the random
  numbers as arguments; the known CIDs are a list without duplicates, the commands sent to the
  network a list.
\<close>

record traffic_config =
  tc_node_id :: string
  tc_upload_rate :: nat
  tc_request_rate :: nat
  tc_block_size :: nat
  tc_api_port :: nat

definition default_traffic_config :: traffic_config where
  "default_traffic_config = \<lparr>tc_node_id = ''unknown'', tc_upload_rate = 10, tc_request_rate = 20, tc_block_size = 1024 * 1024, tc_api_port = 8080\<rparr>"

datatype 'c p2p_command = RequestBlock 'c | AdvertiseBlock 'c

section \<open>Settings\<close>

text \<open>A number in front of a suffix of \<open>k\<close> characters, times \<open>factor\<close>; the product may overflow.\<close>

definition scaled :: "string \<Rightarrow> nat \<Rightarrow> nat \<Rightarrow> (nat option, unit) result" where
  "scaled s k factor =
     (case parse_uint 64 (take (length s - k) s) of
        None \<Rightarrow> Ok None
      | Some n \<Rightarrow> if n * factor < 2 ^ 64 then Ok (Some (n * factor)) else Panic)"

definition parse_size :: "string \<Rightarrow> (nat option, unit) result" where
  "parse_size s0 =
     (let s = map char_lower (trim s0) in
      case parse_uint 64 s of
        Some n \<Rightarrow> Ok (Some n)
      | None \<Rightarrow>
        if ends_with s ''m'' then scaled s 1 (1024 * 1024)
        else if ends_with s ''k'' then scaled s 1 1024
        else if ends_with s ''mb'' then scaled s 2 (1024 * 1024)
        else if ends_with s ''kb'' then scaled s 2 1024
        else Ok None)"

definition traffic_is_enabled :: "(string \<rightharpoonup> string) \<Rightarrow> bool" where
  "traffic_is_enabled env = (case env ''ENABLE_TRAFFIC_GEN'' of Some v \<Rightarrow> map char_lower v = ''true'' \<or> v = ''1'' | None \<Rightarrow> False)"

definition traffic_config_from_env :: "(string \<rightharpoonup> string) \<Rightarrow> string \<Rightarrow> nat \<Rightarrow> (traffic_config, unit) result" where
  "traffic_config_from_env env node_id api_port =
     rbind (case env ''TRAFFIC_BLOCK_SIZE'' of Some v \<Rightarrow> parse_size v | None \<Rightarrow> Ok None) (\<lambda>sz.
       Ok \<lparr>tc_node_id = node_id,
           tc_upload_rate = (case Option.bind (env ''TRAFFIC_UPLOAD_RATE'') (parse_uint 32) of Some v \<Rightarrow> v | None \<Rightarrow> 10),
           tc_request_rate = (case Option.bind (env ''TRAFFIC_REQUEST_RATE'') (parse_uint 32) of Some v \<Rightarrow> v | None \<Rightarrow> 20),
           tc_block_size = (case sz of Some v \<Rightarrow> v | None \<Rightarrow> 1024 * 1024), tc_api_port = api_port\<rparr>)"

section \<open>The loops\<close>

text \<open>
  The pause after a turn, in milliseconds: \<open>Duration::from_secs(60) / rate\<close>, computed in nanoseconds,
  plus up to half of it. The division by the rate and the remainder may be by zero, which panics.
\<close>

definition pause :: "nat \<Rightarrow> nat \<Rightarrow> (nat, unit) result" where
  "pause rate random =
     (if rate = 0 then Panic
      else let base = (60 * 10 ^ 9) div rate div 10 ^ 6
           in if base div 2 = 0 then Panic else Ok (base + random mod (base div 2)))"

definition upload_turn ::
  "('c, 'm) crates \<Rightarrow> 't store_cfg \<Rightarrow> bytes \<Rightarrow> 't store_backend \<times> 'c list \<times> 'c p2p_command list \<Rightarrow> 't store_backend \<times> 'c list \<times> 'c p2p_command list" where
  "upload_turn X C data st =
     (case st of (s, known, sent) \<Rightarrow>
        (case block_new X data of
           Ok block \<Rightarrow>
             (case store_put X C block s of
                (Ok _, s') \<Rightarrow> (s', List.insert (block_cid block) known, sent @ [AdvertiseBlock (block_cid block)])
              | (_, s') \<Rightarrow> (s', known, sent))
         | _ \<Rightarrow> (s, known, sent)))"

definition request_turn ::
  "('c, 'm) crates \<Rightarrow> 't store_cfg \<Rightarrow> nat \<Rightarrow> 't store_backend \<times> 'c list \<times> 'c p2p_command list \<Rightarrow> 't store_backend \<times> 'c list \<times> 'c p2p_command list" where
  "request_turn X C random st =
     (case st of (s, known, sent) \<Rightarrow>
        (if known = [] then st
         else let cid = known ! (random mod length known)
              in if store_has X C cid s then st else (s, known, sent @ [RequestBlock cid])))"

definition discovery_turn ::
  "('c, 'm) crates \<Rightarrow> 't store_cfg \<Rightarrow> 't store_backend \<times> 'c list \<times> 'c p2p_command list \<Rightarrow> 't store_backend \<times> 'c list \<times> 'c p2p_command list" where
  "discovery_turn X C st = (case st of (s, known, sent) \<Rightarrow> (s, fold List.insert (store_list_cids X C s) known, sent))"

text \<open>The loops run without a panic exactly for the rates from 1 to 30000.\<close>

lemma pause_total: "pause rate random = Panic \<longleftrightarrow> rate = 0 \<or> 30000 < rate"
proof (cases "rate = 0")
  case False
  then have "rate \<le> 30000 \<longleftrightarrow> 2 \<le> (60 * 10 ^ 9) div rate div 10 ^ 6"
    by (simp add: less_eq_div_iff_mult_less_eq)
  then show ?thesis using False by (auto simp: pause_def Let_def)
qed (simp add: pause_def)

text \<open>The request loop asks only for known CIDs that the store does not have.\<close>

lemma request_turn_new:
  assumes "request_turn X C random (s, known, sent) = (s', known', sent')"
  shows "s' = s \<and> known' = known \<and> (sent' = sent \<or> (\<exists>c \<in> set known. sent' = sent @ [RequestBlock c] \<and> \<not> store_has X C c s))"
  using assms by (auto simp: request_turn_def Let_def split: if_splits)

end
