(* ===== verification/Spr.thy ===== *)
theory Spr
  imports Api_Base Blockexc_Wire
begin

text \<open>
  Signed peer records: \<open>spr.rs\<close> (the textual records of the bootstrap service) and \<open>identify_spr.rs\<close>
  (the envelope for nim-libp2p). Keys, multiaddrs, base64 and the protobuf codecs are a parameter,
  with the laws the round trip needs.
\<close>

section \<open>Messages and parameters\<close>

datatype spr_error = SprBase64 | SprProtobuf | SprInvalidPeerId | SprSignature | SprEncoding

record archivist_spr =
  as_peer_id :: "bytes option"
  as_seq_bytes :: "bytes option"
  as_peer_record :: "bytes list"
  as_signature :: "bytes list"

record peer_info =
  pf_peer_id :: "bytes option"
  pf_seq :: nat
  pf_addrs :: "bytes list"

text \<open>\<open>AddrWrapper\<close> has one optional field.\<close>

type_synonym addr_wrapper = "bytes option"

record ('i, 'a) spr_record =
  sp_peer_id :: 'i
  sp_addrs :: "'a list"
  sp_secp256k1_pubkey :: "bytes option"

text \<open>
  The key types \<open>'k\<close> (pair) and \<open>'p\<close> (public), peer identifiers \<open>'i\<close> and multiaddrs \<open>'a\<close>. A codec is
  a pair of functions; encoding into a vector returns a result in Rust, hence the option.
\<close>

record ('k, 'p, 'i, 'a) net_crates =
  kp_public :: "'k \<Rightarrow> 'p"
  kp_sign :: "'k \<Rightarrow> bytes \<Rightarrow> bytes option"
  pk_encode :: "'p \<Rightarrow> bytes"
  pk_decode :: "bytes \<Rightarrow> 'p option"
  pk_to_peer_id :: "'p \<Rightarrow> 'i"
  pk_secp256k1 :: "'p \<Rightarrow> bytes option"
  ma_to_vec :: "'a \<Rightarrow> bytes"
  ma_try_from :: "bytes \<Rightarrow> 'a option"
  b64_encode :: "bytes \<Rightarrow> string"
  b64_decode :: "string \<Rightarrow> bytes option"
  spr_codec :: "(archivist_spr \<Rightarrow> bytes option) \<times> (bytes \<Rightarrow> archivist_spr option)"
  info_codec :: "(peer_info \<Rightarrow> bytes option) \<times> (bytes \<Rightarrow> peer_info option)"
  wrapper_codec :: "(addr_wrapper \<Rightarrow> bytes option) \<times> (bytes \<Rightarrow> addr_wrapper option)"

definition inverts :: "('x \<Rightarrow> bytes option) \<times> (bytes \<Rightarrow> 'x option) \<Rightarrow> bool" where
  "inverts c \<longleftrightarrow> (\<forall>x bs. fst c x = Some bs \<longrightarrow> snd c bs = Some x)"

definition net_laws :: "('k, 'p, 'i, 'a) net_crates \<Rightarrow> bool" where
  "net_laws N \<longleftrightarrow> (\<forall>p. pk_decode N (pk_encode N p) = Some p) \<and> (\<forall>a. ma_try_from N (ma_to_vec N a) = Some a)
     \<and> (\<forall>bs. b64_decode N (b64_encode N bs) = Some bs) \<and> (\<forall>bs. CHR 0x0A \<notin> set (b64_encode N bs) \<and> CHR 0x0D \<notin> set (b64_encode N bs))
     \<and> inverts (spr_codec N) \<and> inverts (info_codec N) \<and> inverts (wrapper_codec N)"

section \<open>Parsing\<close>

text \<open>\<open>str::lines\<close>: what ends with a newline, without it and a carriage return before it, and a last line without one.\<close>

definition strip_cr :: "string \<Rightarrow> string" where
  "strip_cr l = (if l \<noteq> [] \<and> last l = CHR 0x0D then butlast l else l)"

definition lines :: "string \<Rightarrow> string list" where
  "lines text = (let ps = split_on (CHR 0x0A) text in map strip_cr (butlast ps) @ (if last ps = [] then [] else [last ps]))"

definition parse_addrs :: "('k, 'p, 'i, 'a) net_crates \<Rightarrow> bytes list \<Rightarrow> 'a list" where
  "parse_addrs N peer_records =
     concat (map (\<lambda>record_bytes.
        case snd (info_codec N) record_bytes of
          None \<Rightarrow> []
        | Some peer_info \<Rightarrow>
          List.map_filter (\<lambda>addr_bytes.
            case snd (wrapper_codec N) addr_bytes of
              Some (Some raw_addr) \<Rightarrow> ma_try_from N raw_addr
            | _ \<Rightarrow> None) (pf_addrs peer_info)) peer_records)"

definition decode_spr :: "('k, 'p, 'i, 'a) net_crates \<Rightarrow> string \<Rightarrow> (archivist_spr \<times> 'p, spr_error) result" where
  "decode_spr N spr_base64 =
     (case b64_decode N spr_base64 of
        None \<Rightarrow> Err SprBase64
      | Some bytes \<Rightarrow>
        (case snd (spr_codec N) bytes of
           None \<Rightarrow> Err SprProtobuf
         | Some spr \<Rightarrow>
           (case as_peer_id spr of
              None \<Rightarrow> Err SprProtobuf
            | Some peer_id_bytes \<Rightarrow>
              (case pk_decode N peer_id_bytes of
                 None \<Rightarrow> Err SprInvalidPeerId
               | Some public_key \<Rightarrow> Ok (spr, public_key)))))"

definition parse_single_spr :: "('k, 'p, 'i, 'a) net_crates \<Rightarrow> string \<Rightarrow> ('i \<times> 'a list, spr_error) result" where
  "parse_single_spr N spr_base64 =
     rbind (decode_spr N spr_base64) (\<lambda>(spr, public_key). Ok (pk_to_peer_id N public_key, parse_addrs N (as_peer_record spr)))"

definition parse_single_spr_full :: "('k, 'p, 'i, 'a) net_crates \<Rightarrow> string \<Rightarrow> (('i, 'a) spr_record, spr_error) result" where
  "parse_single_spr_full N spr_base64 =
     rbind (decode_spr N spr_base64) (\<lambda>(spr, public_key).
       Ok \<lparr>sp_peer_id = pk_to_peer_id N public_key, sp_addrs = parse_addrs N (as_peer_record spr),
           sp_secp256k1_pubkey = pk_secp256k1 N public_key\<rparr>)"

definition parse_lines :: "(string \<Rightarrow> ('r, spr_error) result) \<Rightarrow> string \<Rightarrow> ('r list, spr_error) result" where
  "parse_lines parse text =
     Ok (List.map_filter (\<lambda>line. case strip_prefix ''spr:'' line of
             None \<Rightarrow> None
           | Some data \<Rightarrow> (case parse data of Ok r \<Rightarrow> Some r | _ \<Rightarrow> None)) (lines text))"

definition parse_spr_records :: "('k, 'p, 'i, 'a) net_crates \<Rightarrow> string \<Rightarrow> (('i \<times> 'a list) list, spr_error) result" where
  "parse_spr_records N text = parse_lines (parse_single_spr N) text"

definition parse_spr_records_full :: "('k, 'p, 'i, 'a) net_crates \<Rightarrow> string \<Rightarrow> (('i, 'a) spr_record list, spr_error) result" where
  "parse_spr_records_full N text = parse_lines (parse_single_spr_full N) text"

section \<open>Generating\<close>

definition or_err :: "'e \<Rightarrow> 'x option \<Rightarrow> ('x, 'e) result" where
  "or_err e x = (case x of Some v \<Rightarrow> Ok v | None \<Rightarrow> Err e)"

fun wrap_addrs :: "('k, 'p, 'i, 'a) net_crates \<Rightarrow> 'a list \<Rightarrow> (bytes list, spr_error) result" where
  "wrap_addrs N [] = Ok []"
| "wrap_addrs N (addr # addrs) =
     rbind (or_err SprEncoding (fst (wrapper_codec N) (Some (ma_to_vec N addr)))) (\<lambda>w.
     rbind (wrap_addrs N addrs) (\<lambda>ws. Ok (w # ws)))"

definition be_bytes2 :: "nat \<Rightarrow> bytes" where
  "be_bytes2 n = rev (le_bytes 2 n)"

definition generate_spr :: "('k, 'p, 'i, 'a) net_crates \<Rightarrow> 'k \<Rightarrow> 'a list \<Rightarrow> nat \<Rightarrow> (string, spr_error) result" where
  "generate_spr N keypair addrs seq =
     (let peer_id_bytes = pk_encode N (kp_public N keypair);
          seq_bytes = be_bytes2 (seq mod 2 ^ 16) in
      rbind (wrap_addrs N addrs) (\<lambda>wrapped.
      rbind (or_err SprEncoding (fst (info_codec N) \<lparr>pf_peer_id = Some peer_id_bytes, pf_seq = seq, pf_addrs = wrapped\<rparr>)) (\<lambda>peer_info_bytes.
      let spr_unsigned = \<lparr>as_peer_id = Some peer_id_bytes, as_seq_bytes = Some seq_bytes, as_peer_record = [peer_info_bytes], as_signature = []\<rparr> in
      rbind (or_err SprEncoding (fst (spr_codec N) spr_unsigned)) (\<lambda>_.
      rbind (or_err SprSignature (kp_sign N keypair peer_info_bytes)) (\<lambda>signature.
      rbind (or_err SprEncoding (fst (spr_codec N) (spr_unsigned\<lparr>as_signature := [signature]\<rparr>))) (\<lambda>final_bytes.
      Ok (''spr:'' @ b64_encode N final_bytes)))))))"

section \<open>The envelope for nim-libp2p\<close>

definition PEER_RECORD_DOMAIN :: string where
  "PEER_RECORD_DOMAIN = ''libp2p-peer-record''"

definition PEER_RECORD_PAYLOAD_TYPE :: bytes where
  "PEER_RECORD_PAYLOAD_TYPE = [0x03, 0x01]"

record nim_peer_record =
  np_peer_id :: bytes
  np_seq :: nat
  np_addresses :: "bytes list"

record nim_envelope =
  ne_public_key :: bytes
  ne_payload_type :: bytes
  ne_payload :: bytes
  ne_signature :: bytes

function spr_write_varint :: "64 word \<Rightarrow> bytes" where
  "spr_write_varint v =
     (let byte = ucast (v AND 0x7F); v' = drop_bit 7 v in
      if v' \<noteq> 0 then (byte OR 0x80) # spr_write_varint v' else [byte])"
  by pat_completeness auto
termination
proof (relation "measure unat")
  fix byte :: u8 and v v' :: "64 word"
  assume "v' = drop_bit 7 v" "v' \<noteq> 0"
  then have "unat v div 128 \<noteq> 0" using unat_eq_zero [of v'] by (simp add: unat_drop_bit_eq drop_bit_nat_def)
  then have "0x80 \<le> unat v" by (meson div_less not_less)
  then show "(v', v) \<in> measure unat" using \<open>v' = drop_bit 7 v\<close> by (simp add: unat_drop_bit_eq drop_bit_nat_def)
qed simp

declare spr_write_varint.simps [simp del]

definition counted :: "bytes \<Rightarrow> bytes" where
  "counted bs = spr_write_varint (word_of_nat (length bs)) @ bs"

definition signature_buffer :: "bytes \<Rightarrow> bytes" where
  "signature_buffer payload = counted (ascii PEER_RECORD_DOMAIN) @ counted PEER_RECORD_PAYLOAD_TYPE @ counted payload"

text \<open>The protobuf codecs of the two messages are the parameters \<open>enc_record\<close> and \<open>enc_envelope\<close>; \<open>seq\<close> is the clock.\<close>

definition create_signed_peer_record ::
  "('k, 'p, 'i, 'a) net_crates \<Rightarrow> ('i \<Rightarrow> bytes) \<Rightarrow> (nim_peer_record \<Rightarrow> bytes option) \<Rightarrow> (nim_envelope \<Rightarrow> bytes option) \<Rightarrow> 'k \<Rightarrow> 'i \<Rightarrow> 'a list \<Rightarrow>
     nat option \<Rightarrow> (bytes, spr_error) result" where
  "create_signed_peer_record N id_bytes enc_record enc_envelope keypair peer_id addrs clock =
     rbind (or_err SprEncoding clock) (\<lambda>seq.
     rbind (or_err SprEncoding (enc_record \<lparr>np_peer_id = id_bytes peer_id, np_seq = seq, np_addresses = map (ma_to_vec N) addrs\<rparr>)) (\<lambda>payload.
     rbind (or_err SprSignature (kp_sign N keypair (signature_buffer payload))) (\<lambda>signature.
     or_err SprEncoding (enc_envelope \<lparr>ne_public_key = pk_encode N (kp_public N keypair), ne_payload_type = PEER_RECORD_PAYLOAD_TYPE,
       ne_payload = payload, ne_signature = signature\<rparr>))))"

section \<open>Properties\<close>

lemma or_err_Ok [simp]: "or_err e x = Ok v \<longleftrightarrow> x = Some v"
  by (simp add: or_err_def split: option.splits)

lemma rbind_Ok: "rbind r f = Ok v \<longleftrightarrow> (\<exists>x. r = Ok x \<and> f x = Ok v)"
  by (cases r) auto

text \<open>The buffer that is signed starts with what the framing of the block exchange would write.\<close>

lemma low_bits: "ucast (v AND 0x7F) OR 0x80 = (ucast v OR 0x80 :: u8)" for v :: "64 word"
  by (rule bit_word_eqI) (auto simp: bit_simps numeral_eq_Suc elim!: less_SucE)

lemma spr_write_varint_eq: "spr_write_varint v = write_varint v"
proof (induction v rule: spr_write_varint.induct)
  case (1 v)
  have hi: "drop_bit 7 v \<noteq> 0 \<longleftrightarrow> 0x80 \<le> v"
    using unat_eq_zero [of "drop_bit 7 v"] div_eq_0_iff [of "unat v" 128]
    by (auto simp: unat_drop_bit_eq drop_bit_nat_def word_le_nat_alt)
  have lo: "ucast (v AND 0x7F) = (ucast v :: u8)" if "\<not> 0x80 \<le> v"
  proof -
    have "v AND 0x7F = take_bit 7 v" by (simp add: take_bit_eq_mask mask_eq_exp_minus_1)
    moreover have "unat (take_bit 7 v) = unat v"
      using that by (simp add: unsigned_take_bit_eq take_bit_nat_eq_self_iff word_le_nat_alt)
    ultimately have "v AND 0x7F = v" by (simp add: word_unat_eq_iff)
    then show ?thesis by simp
  qed
  show ?case using 1 hi lo low_bits [of v] by (simp add: spr_write_varint.simps [of v] write_varint.simps [of v] Let_def)
qed

lemma wrap_addrs_parse:
  assumes "net_laws N" "wrap_addrs N addrs = Ok ws"
  shows "List.map_filter (\<lambda>addr_bytes. case snd (wrapper_codec N) addr_bytes of Some (Some raw_addr) \<Rightarrow> ma_try_from N raw_addr | _ \<Rightarrow> None) ws = addrs"
  using assms(2)
proof (induction addrs arbitrary: ws)
  case (Cons a addrs)
  then obtain w ws' where w: "fst (wrapper_codec N) (Some (ma_to_vec N a)) = Some w" "wrap_addrs N addrs = Ok ws'" "ws = w # ws'"
    by (auto simp: rbind_Ok)
  then have "snd (wrapper_codec N) w = Some (Some (ma_to_vec N a))" "ma_try_from N (ma_to_vec N a) = Some a"
    using assms(1) by (simp_all add: net_laws_def inverts_def)
  then show ?case using w Cons.IH by (simp add: map_filter_simps)
qed (simp add: map_filter_simps)

lemma generated_decodes:
  assumes "net_laws N" "generate_spr N k addrs seq = Ok spr"
  shows "\<exists>data s. spr = ''spr:'' @ data \<and> decode_spr N data = Ok (s, kp_public N k) \<and> parse_addrs N (as_peer_record s) = addrs
    \<and> CHR 0x0A \<notin> set spr \<and> CHR 0x0D \<notin> set spr"
proof -
  obtain ws info s final sig where g: "wrap_addrs N addrs = Ok ws"
    "fst (info_codec N) \<lparr>pf_peer_id = Some (pk_encode N (kp_public N k)), pf_seq = seq, pf_addrs = ws\<rparr> = Some info"
    "s = \<lparr>as_peer_id = Some (pk_encode N (kp_public N k)), as_seq_bytes = Some (be_bytes2 (seq mod 2 ^ 16)), as_peer_record = [info], as_signature = [sig]\<rparr>"
    "fst (spr_codec N) s = Some final" "spr = ''spr:'' @ b64_encode N final"
    using assms(2) by (auto simp: generate_spr_def Let_def rbind_Ok)
  have d: "snd (spr_codec N) final = Some s" "snd (info_codec N) info = Some \<lparr>pf_peer_id = Some (pk_encode N (kp_public N k)), pf_seq = seq, pf_addrs = ws\<rparr>"
    using assms(1) g(2,4) unfolding net_laws_def inverts_def by blast+
  have "decode_spr N (b64_encode N final) = Ok (s, kp_public N k)"
    using assms(1) d(1) g(3) by (simp add: decode_spr_def net_laws_def)
  moreover have "parse_addrs N (as_peer_record s) = addrs"
    using wrap_addrs_parse [OF assms(1) g(1)] d(2) g(3) by (simp add: parse_addrs_def)
  moreover have "CHR 0x0A \<notin> set spr" "CHR 0x0D \<notin> set spr" using assms(1) g(5) by (auto simp: net_laws_def)
  ultimately show ?thesis using g(5) by blast
qed

lemma lines_Cons:
  assumes "CHR 0x0A \<notin> set l" "CHR 0x0D \<notin> set l"
  shows "lines (l @ CHR 0x0A # text) = l # lines text"
proof -
  have "strip_cr l = l" using assms(2) by (metis last_in_set strip_cr_def)
  then show ?thesis using assms(1) by (simp add: lines_def split_on_sep Let_def)
qed

text \<open>
  C27. Signed peer records survive the bootstrap list: of the text made of the generated records of
  any number of nodes, one per line, both parsers return exactly the nodes' peer identifiers with
  their addresses, in order, and the full one their public keys.
\<close>

theorem spr_roundtrip:
  assumes "net_laws N" "\<forall>(k, addrs, seq, spr) \<in> set nodes. generate_spr N k addrs seq = Ok spr"
  shows "parse_spr_records N (concat (map (\<lambda>(_, _, _, spr). spr @ [CHR 0x0A]) nodes))
      = Ok (map (\<lambda>(k, addrs, _, _). (pk_to_peer_id N (kp_public N k), addrs)) nodes)
    \<and> parse_spr_records_full N (concat (map (\<lambda>(_, _, _, spr). spr @ [CHR 0x0A]) nodes))
      = Ok (map (\<lambda>(k, addrs, _, _). \<lparr>sp_peer_id = pk_to_peer_id N (kp_public N k), sp_addrs = addrs,
          sp_secp256k1_pubkey = pk_secp256k1 N (kp_public N k)\<rparr>) nodes)"
  using assms(2)
proof (induction nodes)
  case Nil
  then show ?case by (simp add: parse_spr_records_def parse_spr_records_full_def parse_lines_def lines_def map_filter_simps)
next
  case (Cons node nodes)
  obtain k addrs seq spr where n: "node = (k, addrs, seq, spr)" by (cases node) auto
  obtain data s where g: "spr = ''spr:'' @ data" "decode_spr N data = Ok (s, kp_public N k)" "parse_addrs N (as_peer_record s) = addrs"
    "CHR 0x0A \<notin> set spr" "CHR 0x0D \<notin> set spr"
    using generated_decodes [OF assms(1), of k addrs seq spr] Cons.prems n by auto
  have "strip_prefix ''spr:'' spr = Some data" by (simp add: strip_prefix_def g(1))
  then show ?case using Cons.IH Cons.prems g(2,3) lines_Cons [OF g(4,5)] n
    by (simp add: parse_spr_records_def parse_spr_records_full_def parse_lines_def map_filter_simps parse_single_spr_def parse_single_spr_full_def)
qed

text \<open>The signature is not looked at: the same record with any signatures parses to the same peer.\<close>

lemma spr_signature_ignored:
  assumes "b64_decode N a = Some x" "b64_decode N b = Some y" "snd (spr_codec N) x = Some s" "snd (spr_codec N) y = Some (s\<lparr>as_signature := sigs\<rparr>)"
  shows "parse_single_spr N a = parse_single_spr N b"
  using assms by (auto simp: parse_single_spr_def decode_spr_def split: option.splits)

section \<open>A concrete node\<close>

definition demo_b64 :: "bytes \<Rightarrow> string" where
  "demo_b64 bs = concat (map (\<lambda>b. [char_of (65 + unat b div 16), char_of (65 + unat b mod 16)]) bs)"

fun demo_unb64 :: "string \<Rightarrow> bytes option" where
  "demo_unb64 (a # b # s) = map_option (\<lambda>bs. word_of_nat ((of_char a - 65) * 16 + (of_char b - 65)) # bs) (demo_unb64 s)"
| "demo_unb64 [] = Some []"
| "demo_unb64 [_] = None"

text \<open>One address in one record; the codecs know the messages of that record.\<close>

definition demo_table :: "('x \<times> bytes) list \<Rightarrow> ('x \<Rightarrow> bytes option) \<times> (bytes \<Rightarrow> 'x option)" where
  "demo_table t = (map_of t, map_of (map prod.swap t))"

definition demo_info :: peer_info where
  "demo_info = \<lparr>pf_peer_id = Some [5], pf_seq = 70000, pf_addrs = [[1]]\<rparr>"

definition demo_spr :: "bytes list \<Rightarrow> archivist_spr" where
  "demo_spr sigs = \<lparr>as_peer_id = Some [5], as_seq_bytes = Some (be_bytes2 (70000 mod 2 ^ 16)), as_peer_record = [[2]], as_signature = sigs\<rparr>"

definition demo_net :: "(u8, u8, u8, bytes) net_crates" where
  "demo_net = \<lparr>kp_public = id, kp_sign = (\<lambda>k bs. Some [k]), pk_encode = (\<lambda>p. [p]), pk_decode = (\<lambda>bs. case bs of [p] \<Rightarrow> Some p | _ \<Rightarrow> None),
     pk_to_peer_id = id, pk_secp256k1 = (\<lambda>p. Some [p]), ma_to_vec = id, ma_try_from = Some, b64_encode = demo_b64, b64_decode = demo_unb64,
     spr_codec = demo_table [(demo_spr [], [3]), (demo_spr [[5]], [4])], info_codec = demo_table [(demo_info, [2])],
     wrapper_codec = demo_table [(Some [7], [1])]\<rparr>"

lemma inverts_demo_table: "distinct (map snd t) \<Longrightarrow> inverts (demo_table t)"
  by (auto simp: inverts_def demo_table_def comp_def intro!: map_of_is_SomeI dest!: map_of_SomeD)

lemma demo_unb64_b64: "demo_unb64 (demo_b64 bs) = Some bs"
proof (induction bs)
  case (Cons b bs)
  have "unat b < 256" using unsigned_less [of b] by simp
  then have "unat b div 16 < 16" by simp
  then have "word_of_nat ((of_char (char_of (65 + unat b div 16)) - 65) * 16 + (of_char (char_of (65 + unat b mod 16)) - 65)) = b" by simp
  then show ?case using Cons by (simp add: demo_b64_def)
qed (simp add: demo_b64_def)

lemma demo_b64_chars: "c \<in> set (demo_b64 bs) \<Longrightarrow> 65 \<le> (of_char c :: nat)"
proof -
  have c: "65 \<le> (of_char (char_of (65 + n) :: char) :: nat)" if "n < 16" for n :: nat using that by simp
  have d: "unat b div 16 < 16" for b :: u8
  proof -
    have "unat b < 256" using unsigned_less [of b] by simp
    then show ?thesis by simp
  qed
  assume "c \<in> set (demo_b64 bs)"
  then obtain b :: u8 where "c = char_of (65 + unat b div 16) \<or> c = char_of (65 + unat b mod 16)"
    unfolding demo_b64_def by (simp del: char_of_eq_iff) blast
  then show ?thesis using c [OF d [of b]] c [of "unat b mod 16"] by auto
qed

lemma demo_net_laws: "net_laws demo_net"
proof -
  have "CHR 0x0A \<notin> set (demo_b64 bs)" "CHR 0x0D \<notin> set (demo_b64 bs)" for bs
    using demo_b64_chars [of "CHR 0x0A" bs] demo_b64_chars [of "CHR 0x0D" bs] by auto
  then show ?thesis by (simp add: net_laws_def demo_net_def demo_unb64_b64 inverts_demo_table)
qed

theorem spr_roundtrip_witness:
  "\<exists>spr. generate_spr demo_net 5 [[7]] 70000 = Ok spr \<and> parse_spr_records demo_net (spr @ [CHR 0x0A]) = Ok [(5, [[7]])]"
proof -
  have g: "generate_spr demo_net 5 [[7]] 70000 = Ok (''spr:'' @ demo_b64 [4])"
    by (simp add: generate_spr_def demo_net_def demo_table_def demo_info_def demo_spr_def or_err_def Let_def)
  then show ?thesis
    using spr_roundtrip [OF demo_net_laws, of "[(5, [[7]], 70000, ''spr:'' @ demo_b64 [4])]"] by (simp add: demo_net_def)
qed

end
