(* ===== verification/Node_Config.thy ===== *)
theory Node_Config
  imports Citadel_Mesh Spr
begin

text \<open>
  The configuration of a node (\<open>config.rs\<close>): defaults, the ways to find bootstrap nodes, and what
  \<open>runtime.rs\<close> builds the citadel node from. HTTP (a status and a text when it can be read), name
  resolution and the JSON parser are parameters; the command line and the TOML file are read by
  library code and are not modelled.
\<close>

section \<open>Settings\<close>

record config =
  cf_data_dir :: string
  cf_listen_port :: nat
  cf_disc_port :: nat
  cf_api_port :: nat
  cf_api_bind :: string
  cf_log_level :: string
  cf_bootstrap_nodes :: "string list"
  cf_announce_addrs :: "string list"
  cf_mode :: string
  cf_price_per_byte :: nat
  cf_persistence :: bool
  cf_quota_bytes :: nat
  cf_eth_provider :: "string option"
  cf_eth_account :: "string option"
  cf_eth_private_key :: "string option"
  cf_marketplace_address :: "string option"
  cf_contracts_addresses :: "string option"
  cf_validator :: bool
  cf_prover :: bool
  cf_citadel_mode :: bool
  cf_citadel_site_id :: nat
  cf_citadel_node_id :: nat
  cf_citadel_host_id :: "u8 option"
  cf_citadel_flagship_url :: "string option"
  cf_citadel_trusted_origins :: "nat list"
  cf_citadel_idle_bandwidth_kib :: nat
  cf_citadel_pow_bits :: nat
  cf_citadel_trusted_pow_bits :: nat
  cf_citadel_max_ops_per_origin_per_round :: nat
  cf_citadel_max_new_origins_per_host_per_round :: nat

definition default_config :: config where
  "default_config = \<lparr>cf_data_dir = ''./data'', cf_listen_port = 8070, cf_disc_port = 8090, cf_api_port = 8080, cf_api_bind = ''0.0.0.0'',
     cf_log_level = ''info'', cf_bootstrap_nodes = [], cf_announce_addrs = [], cf_mode = ''altruistic'', cf_price_per_byte = 1,
     cf_persistence = False, cf_quota_bytes = 1024 * 1024 * 1024, cf_eth_provider = None, cf_eth_account = None, cf_eth_private_key = None,
     cf_marketplace_address = None, cf_contracts_addresses = None, cf_validator = False, cf_prover = False, cf_citadel_mode = False,
     cf_citadel_site_id = 1, cf_citadel_node_id = 0, cf_citadel_host_id = None, cf_citadel_flagship_url = None,
     cf_citadel_trusted_origins = [], cf_citadel_idle_bandwidth_kib = 100, cf_citadel_pow_bits = 8, cf_citadel_trusted_pow_bits = 4,
     cf_citadel_max_ops_per_origin_per_round = 96, cf_citadel_max_new_origins_per_host_per_round = 12\<rparr>"

section \<open>Bootstrap nodes\<close>

type_synonym http_text = "string \<Rightarrow> (nat \<times> string option) option"

datatype config_error = ConfigIo | ConfigInvalidData

definition is_discv5_record :: "string \<Rightarrow> bool" where
  "is_discv5_record s \<longleftrightarrow> starts_with ''spr:'' s \<or> starts_with ''enr:'' s"

definition filter_discv5_bootstrap_nodes :: "string list \<Rightarrow> string list" where
  "filter_discv5_bootstrap_nodes nodes = filter is_discv5_record (map trim nodes)"

definition extract_discv5_bootstrap_nodes :: "string \<Rightarrow> string list" where
  "extract_discv5_bootstrap_nodes response = filter is_discv5_record (map trim (lines response))"

definition TESTNET_URL :: string where
  "TESTNET_URL = ''https://spr.archivist.storage/testnet''"

text \<open>\<open>str::replace\<close>, for a pattern that is not empty.\<close>

fun replace_from :: "nat \<Rightarrow> string \<Rightarrow> string \<Rightarrow> string \<Rightarrow> string" where
  "replace_from skip pat by [] = []"
| "replace_from skip pat by (c # s) =
     (if 0 < skip then replace_from (skip - 1) pat by s
      else if starts_with pat (c # s) then by @ replace_from (length pat - 1) pat by s
      else c # replace_from 0 pat by s)"

definition replace_str :: "string \<Rightarrow> string \<Rightarrow> string \<Rightarrow> string" where
  "replace_str s pat by = replace_from 0 pat by s"

text \<open>\<open>show_id\<close> and \<open>show_addr\<close> print peer identifiers and multiaddrs.\<close>

definition testnet_addr :: "('i \<Rightarrow> string) \<Rightarrow> ('a \<Rightarrow> string) \<Rightarrow> 'i \<Rightarrow> 'a \<Rightarrow> string" where
  "testnet_addr show_id show_addr peer_id addr =
     (let s = show_addr addr in
      (if contains s ''/udp/'' then replace_str s ''/udp/'' ''/tcp/'' else s) @ ''/p2p/'' @ show_id peer_id)"

definition fetch_testnet_bootstrap_nodes ::
  "('k, 'p, 'i, 'a) net_crates \<Rightarrow> ('i \<Rightarrow> string) \<Rightarrow> ('a \<Rightarrow> string) \<Rightarrow> http_text \<Rightarrow> (string list, config_error) result" where
  "fetch_testnet_bootstrap_nodes N show_id show_addr http =
     (case http TESTNET_URL of
        Some (_, Some response) \<Rightarrow>
          rbind (map_err (\<lambda>_. ConfigInvalidData) (parse_spr_records N response)) (\<lambda>records.
            Ok (concat (map (\<lambda>(peer_id, addrs). map (testnet_addr show_id show_addr peer_id) addrs) records)))
      | _ \<Rightarrow> Err ConfigIo)"

definition trim_matches :: "(char \<Rightarrow> bool) \<Rightarrow> string \<Rightarrow> string" where
  "trim_matches P s = rev (dropWhile P (rev (dropWhile P s)))"

text \<open>\<open>rsplit_once\<close>: the parts before and after the last separator.\<close>

definition rsplit_once :: "char \<Rightarrow> string \<Rightarrow> (string \<times> string) option" where
  "rsplit_once c s =
     (if c \<in> set s then Some (rev (tl (dropWhile (\<lambda>x. x \<noteq> c) (rev s))), rev (takeWhile (\<lambda>x. x \<noteq> c) (rev s))) else None)"

definition peer_id_of_body :: "(string \<Rightarrow> string option) \<Rightarrow> string \<Rightarrow> string option" where
  "peer_id_of_body json_id body0 =
     (let body = trim body0;
          peer_id = (if starts_with ''{'' body then json_id body else Some (trim_matches (\<lambda>c. c = CHR 0x22) body))
      in case peer_id of Some p \<Rightarrow> if p = [] then None else Some p | None \<Rightarrow> None)"

fun resolve_peer_id :: "(string \<Rightarrow> string option) \<Rightarrow> http_text \<Rightarrow> string list \<Rightarrow> string option" where
  "resolve_peer_id json_id http [] = None"
| "resolve_peer_id json_id http (url # urls) =
     (case http url of
        Some (code, Some body) \<Rightarrow>
          (if is_success code
           then (case peer_id_of_body json_id body of Some p \<Rightarrow> Some p | None \<Rightarrow> resolve_peer_id json_id http urls)
           else resolve_peer_id json_id http urls)
      | _ \<Rightarrow> resolve_peer_id json_id http urls)"

text \<open>\<open>is_ip\<close>: the host is an address; \<open>lookup\<close>: the first address a name resolves to.\<close>

definition bootstrap_multiaddr :: "(string \<rightharpoonup> string) \<Rightarrow> (string \<Rightarrow> bool) \<Rightarrow> (string \<rightharpoonup> string) \<Rightarrow> string \<Rightarrow> string \<Rightarrow> string \<Rightarrow> string" where
  "bootstrap_multiaddr env is_ip lookup host0 api_port_str peer_id =
     (let host = trim_matches (\<lambda>c. c = CHR ''['' \<or> c = CHR '']'') host0;
          p2p_port = (case Option.bind (env ''BOOTSTRAP_P2P_PORT'') (parse_uint 16) of
                        Some v \<Rightarrow> v
                      | None \<Rightarrow> (case parse_uint 16 api_port_str of
                                   Some port \<Rightarrow> if 10 < port then port - 10 else 8070
                                 | None \<Rightarrow> 8070));
          resolved = (if is_ip host then host else case lookup host of Some a \<Rightarrow> a | None \<Rightarrow> host)
      in ''/ip4/'' @ resolved @ ''/tcp/'' @ show_nat p2p_port @ ''/p2p/'' @ peer_id)"

definition fetch_bootstrap_nodes ::
  "('k, 'p, 'i, 'a) net_crates \<Rightarrow> ('i \<Rightarrow> string) \<Rightarrow> ('a \<Rightarrow> string) \<Rightarrow> http_text \<Rightarrow> (string \<Rightarrow> string option) \<Rightarrow> (string \<Rightarrow> bool) \<Rightarrow>
     (string \<rightharpoonup> string) \<Rightarrow> (string \<rightharpoonup> string) \<Rightarrow> (string list, config_error) result" where
  "fetch_bootstrap_nodes N show_id show_addr http json_id is_ip lookup env =
     (case env ''BOOTSTRAP_NODE'' of
        None \<Rightarrow> fetch_testnet_bootstrap_nodes N show_id show_addr http
      | Some node \<Rightarrow>
        (case resolve_peer_id json_id http
                [''http://'' @ node @ ''/api/archivist/v1/peer-id'', ''http://'' @ node @ ''/api/archivist/v1/peerid''] of
           None \<Rightarrow> fetch_testnet_bootstrap_nodes N show_id show_addr http
         | Some peer_id \<Rightarrow>
           (case rsplit_once (CHR '':'') node of
              None \<Rightarrow> fetch_testnet_bootstrap_nodes N show_id show_addr http
            | Some (host, api_port_str) \<Rightarrow> Ok [bootstrap_multiaddr env is_ip lookup host api_port_str peer_id])))"

definition testnet_discv5_nodes :: "http_text \<Rightarrow> (string list, config_error) result" where
  "testnet_discv5_nodes http =
     (case http TESTNET_URL of
        Some (_, Some response) \<Rightarrow>
          (let nodes = extract_discv5_bootstrap_nodes response in if nodes = [] then Err ConfigInvalidData else Ok nodes)
      | _ \<Rightarrow> Err ConfigIo)"

definition fetch_discv5_bootstrap_nodes :: "http_text \<Rightarrow> (string \<rightharpoonup> string) \<Rightarrow> (string list, config_error) result" where
  "fetch_discv5_bootstrap_nodes http env =
     (case env ''BOOTSTRAP_NODE'' of
        None \<Rightarrow> testnet_discv5_nodes http
      | Some node \<Rightarrow>
        (case http (''http://'' @ node @ ''/api/archivist/v1/spr'') of
           Some (code, text) \<Rightarrow>
             (if is_success code
              then (case text of
                      None \<Rightarrow> Err ConfigIo
                    | Some body \<Rightarrow>
                      (let nodes = extract_discv5_bootstrap_nodes body in if nodes \<noteq> [] then Ok nodes else testnet_discv5_nodes http))
              else testnet_discv5_nodes http)
         | None \<Rightarrow> testnet_discv5_nodes http))"

section \<open>Starting the citadel node\<close>

definition derive_citadel_host_id :: "('c, 'm) crates \<Rightarrow> (string \<rightharpoonup> string) \<Rightarrow> config \<Rightarrow> u8" where
  "derive_citadel_host_id X env cfg =
     (case cf_citadel_host_id cfg of
        Some h \<Rightarrow> h
      | None \<Rightarrow>
        (case Option.bind (env ''NEVERUST_CITADEL_HOST_ID'') (parse_uint 8) of
           Some h \<Rightarrow> word_of_nat h
         | None \<Rightarrow> hd (blake3 X (ascii (case env ''HOSTNAME'' of Some h \<Rightarrow> h | None \<Rightarrow> ''unknown-host'')))))"

record trust_snapshot =
  ft_trusted_origins :: "nat list"
  ft_bootstrap_sites :: "nat list"

text \<open>The answer of the flagship: a status and the snapshot when the body parses.\<close>

definition fetch_flagship_trust_snapshot :: "(string \<Rightarrow> (nat \<times> trust_snapshot option) option) \<Rightarrow> string \<Rightarrow> (trust_snapshot, unit) result" where
  "fetch_flagship_trust_snapshot http url =
     (case http url of
        Some (code, Some snapshot) \<Rightarrow> if is_success code then Ok snapshot else Err ()
      | _ \<Rightarrow> Err ())"

fun follow_all :: "('c, 'm) crates \<Rightarrow> nat list \<Rightarrow> node \<Rightarrow> node option" where
  "follow_all X [] n = Some n"
| "follow_all X (site # sites) n = Option.bind (emit_local_follow X site True n) (\<lambda>(_, n'). follow_all X sites n')"

definition trust_all :: "nat list \<Rightarrow> node \<Rightarrow> node" where
  "trust_all origins n = fold (\<lambda>origin. trust_origin origin True) origins n"

definition start_citadel ::
  "('c, 'm) crates \<Rightarrow> (string \<Rightarrow> (nat \<times> trust_snapshot option) option) \<Rightarrow> (string \<rightharpoonup> string) \<Rightarrow> string \<Rightarrow> config \<Rightarrow> node option option" where
  "start_citadel X http env peer_id cfg =
     (if \<not> cf_citadel_mode cfg then Some None
      else let guard = \<lparr>base_pow_bits = cf_citadel_pow_bits cfg, trusted_pow_bits = cf_citadel_trusted_pow_bits cfg,
                 max_ops_per_origin_per_round = cf_citadel_max_ops_per_origin_per_round cfg,
                 max_new_origins_per_host_per_round = cf_citadel_max_new_origins_per_host_per_round cfg, max_pending_per_origin = 512\<rparr>;
               nid = (if cf_citadel_node_id cfg = 0 then le_nat (take 4 (blake3 X (ascii peer_id))) else cf_citadel_node_id cfg);
               node = set_idle_bandwidth (sat_mul 64 (cf_citadel_idle_bandwidth_kib cfg) 1024)
                 (node_new nid (derive_citadel_host_id X env cfg) (cf_citadel_site_id cfg)
                    (fold os_insert (cf_citadel_trusted_origins cfg) []) guard)
           in map_option Some
                (case cf_citadel_flagship_url cfg of
                   None \<Rightarrow> Some node
                 | Some url \<Rightarrow>
                   (case fetch_flagship_trust_snapshot http url of
                      Ok snapshot \<Rightarrow> follow_all X (ft_bootstrap_sites snapshot) (trust_all (ft_trusted_origins snapshot) node)
                    | _ \<Rightarrow> Some node)))"

text \<open>The refresh every two minutes.\<close>

definition flagship_refresh :: "(string \<Rightarrow> (nat \<times> trust_snapshot option) option) \<Rightarrow> string \<Rightarrow> node \<Rightarrow> node" where
  "flagship_refresh http url n =
     (case fetch_flagship_trust_snapshot http url of Ok snapshot \<Rightarrow> trust_all (ft_trusted_origins snapshot) n | _ \<Rightarrow> n)"

section \<open>Properties\<close>

text \<open>A node that starts with a flagship's snapshot, and is refreshed from it, is a reachable node.\<close>

lemma trust_all_reachable: "node_reachable X n \<Longrightarrow> node_reachable X (trust_all origins n)"
  unfolding trust_all_def by (induction origins arbitrary: n) (auto intro: reach_step step_trust)

lemma trust_all_counter [simp]: "local_counter (trust_all origins n) = local_counter n"
  unfolding trust_all_def by (induction origins arbitrary: n) (auto simp: trust_origin_def)

lemma emit_follow_counter:
  "emit_local_follow X site b n = Some (op, n') \<Longrightarrow> local_counter n + 1 < 2 ^ 64 \<Longrightarrow> local_counter n' = local_counter n + 1"
  by (auto simp: emit_local_follow_def emit_local_def next_local_op_def apply_ordered_op_simps sat_add_def Let_def min_def split: bind_splits)

lemma follow_all_reachable:
  assumes "node_reachable X n" "follow_all X sites n = Some n'" "local_counter n + length sites < 2 ^ 64"
  shows "node_reachable X n'"
  using assms
proof (induction sites arbitrary: n)
  case (Cons site sites)
  then obtain op m where e: "emit_local_follow X site True n = Some (op, m)" "follow_all X sites m = Some n'" by (auto split: bind_splits)
  have c: "local_counter n + 1 < 2 ^ 64" using Cons.prems(3) by simp
  have "node_reachable X m" by (rule reach_step [OF Cons.prems(1) step_follow [OF e(1) c]])
  then show ?case using Cons.IH e(2) emit_follow_counter [OF e(1) c] Cons.prems(3) by simp
qed simp

lemma start_citadel_reachable:
  assumes "start_citadel X http env peer_id cfg = Some (Some n)"
    and "\<And>code s. http (the (cf_citadel_flagship_url cfg)) = Some (code, Some s) \<Longrightarrow> length (ft_bootstrap_sites s) < 2 ^ 64"
  shows "node_reachable X n \<and> node_reachable X (flagship_refresh http url n)"
proof -
  have base: "node_reachable X (set_idle_bandwidth b (node_new nid h site tr g))" for b nid h site tr g
    by (rule reach_step [OF reach_new step_idle])
  have c0: "local_counter (set_idle_bandwidth b (node_new nid h site tr g)) = 0" for b nid h site tr g
    by (simp add: set_idle_bandwidth_def node_new_def)
  have "node_reachable X n"
  proof (cases "cf_citadel_flagship_url cfg")
    case None
    then show ?thesis using assms(1) base by (auto simp: start_citadel_def Let_def split: if_splits)
  next
    case (Some u)
    then consider (plain) b nid h site tr g where "n = set_idle_bandwidth b (node_new nid h site tr g)"
      | (snap) s code b nid h site tr g where "http u = Some (code, Some s)"
        "follow_all X (ft_bootstrap_sites s) (trust_all (ft_trusted_origins s) (set_idle_bandwidth b (node_new nid h site tr g))) = Some n"
      using assms(1) by (auto simp: start_citadel_def fetch_flagship_trust_snapshot_def Let_def split: if_splits option.splits)
    then show ?thesis
    proof cases
      case snap
      then show ?thesis using follow_all_reachable [OF trust_all_reachable [OF base] snap(2)] assms(2) Some c0 by simp
    qed (use base in simp)
  qed
  then show ?thesis by (auto simp: flagship_refresh_def trust_all_reachable split: result.splits)
qed

text \<open>The records that the nodes publish are the ones that a node extracts from the list of them.\<close>

lemma extract_generated:
  assumes "\<And>s. s \<in> set sprs \<Longrightarrow> starts_with ''spr:'' s \<and> CHR 0x0A \<notin> set s \<and> CHR 0x0D \<notin> set s \<and> \<not> is_ascii_space (last s)"
  shows "extract_discv5_bootstrap_nodes (concat (map (\<lambda>s. s @ [CHR 0x0A]) sprs)) = sprs"
  using assms
proof (induction sprs)
  case (Cons s sprs)
  have s: "starts_with ''spr:'' s" "CHR 0x0A \<notin> set s" "CHR 0x0D \<notin> set s" "\<not> is_ascii_space (last s)" using Cons.prems by auto
  then obtain t where t: "s = ''spr:'' @ t" by (metis append_take_drop_id starts_with_def)
  have "trim s = s" by (rule trim_id) (use s(4) t in \<open>auto simp: is_ascii_space_def\<close>)
  moreover have "is_discv5_record s" using s(1) by (simp add: is_discv5_record_def)
  ultimately show ?case using Cons lines_Cons [OF s(2,3)] by (simp add: extract_discv5_bootstrap_nodes_def)
qed (simp add: extract_discv5_bootstrap_nodes_def lines_def)

end
