(* ===== verification/Spec2Isabelle.thy ===== *)
theory Spec2Isabelle
  imports Citadel_Lens Citadel_Safety Citadel_Convergence Citadel_Admission Citadel_Sync Chunker Pending_Blocks Blockexc_Peer
    Api_Delete Directory_Tree Api_Pins Api_Misc Marketplace_Safety Cluster_Pin Botg_Safety
    Citadel_Mesh_Safety Citadel_Topology Dht_Provider Discovery_Engine Advertiser Traffic Node_Config
begin

text \<open>
  Verification of the core of neverust, an Archivist storage node written in Rust
  (\<open>neverust-core/src\<close>).

  \<^bold>\<open>The program.\<close> A node cuts data into chunks (\<open>chunker.rs\<close>), stores each as a block under its
  content identifier (\<open>cid_blake3.rs\<close>, \<open>storage.rs\<close>), builds a Merkle tree over the identifiers
  (\<open>archivist_tree.rs\<close>) and describes the dataset by a manifest, itself a block (\<open>manifest.rs\<close>,
  \<open>folder_manifest.rs\<close> for directories). Clients use the REST API (\<open>api.rs\<close>): uploads run through a
  pipeline of batches, downloads collect the blocks again. Peers ask each other for blocks, or for
  leaves of a tree, over length-prefixed protobuf messages (\<open>messages.rs\<close>, \<open>blockexc.rs\<close>,
  \<open>pending_blocks.rs\<close>), or over UDP (\<open>botg.rs\<close>); they find each other by signed peer records (\<open>spr.rs\<close>,
  \<open>identify_spr.rs\<close>), bootstrap lists (\<open>config.rs\<close>) and the provider records of a DHT
  (\<open>dht_provider.rs\<close>, \<open>discovery.rs\<close>). A cluster places and pins payloads on several members
  (\<open>cluster.rs\<close>, \<open>archivist_cluster.rs\<close>), and a marketplace records purchases and slots
  (\<open>marketplace.rs\<close>). Beside all this the nodes keep a replicated graph of follows and content,
  spread by operations with proof of work and anti-entropy (\<open>citadel.rs\<close>, \<open>citadel_sync.rs\<close>). Counters
  are kept in \<open>metrics.rs\<close>; \<open>traffic.rs\<close> generates load.

  \<^bold>\<open>Theories.\<close>
  \<^item> \<open>Prelude\<close>: results with panics, machine integers, little-endian numbers, buffers. \<open>Ord_Map\<close>:
    ordered maps and sets, with the locale \<open>map_interface\<close>. \<open>Wire_Codec\<close>: self-delimiting codecs,
    from which the witnesses build concrete protobuf codecs.
  \<^item> \<open>Crates\<close>: the crates \<open>cid\<close>, \<open>multihash\<close>, \<open>blake3\<close>, \<open>sha2\<close> as a record of functions, with what
    the code relies on as predicates, and one instance of them.
  \<^item> \<open>Cid_Blake3\<close>, \<open>Merkle_Tree\<close>, \<open>Chunker\<close>, \<open>Manifest\<close>, \<open>Metrics\<close>: the files of the same names.
    Shown: content addressing binds up to collisions of the hash; the streaming verifier agrees
    with the one-shot check; proofs of the tree verify, and a proof that verifies is right up to
    collisions; the depth of the tree; the block list and the manifest survive encoding; the
    chunker ends and cuts the data every \<open>chunk_size\<close> bytes.
  \<^item> \<open>Storage_Base\<close> (blocks and size classes), \<open>Block_Store_Spec\<close> (the locale \<open>block_store\<close>: a map
    from identifiers to data in which the first store wins, with a budget of further blocks),
    \<open>Redb_Store\<close>, \<open>Delta_Store\<close> and \<open>Delta_Contract\<close>, \<open>DeltaFlat_Page\<close>, \<open>DeltaFlat_Index\<close>,
    \<open>DeltaFlat_Lane\<close>, \<open>DeltaFlat_Split\<close>, \<open>DeltaFlat_Ops\<close>, \<open>DeltaFlat_Store\<close> and
    \<open>DeltaFlat_Contract\<close>, \<open>Geom_Tree\<close>: the four backends of \<open>storage.rs\<close>, each an interpretation of
    \<open>block_store\<close>. \<open>Block_Store\<close>: the settings, the choice of the backend and the dispatch, again
    an interpretation. Shown: every history of stores and deletes refines the map; batches of redb
    and deltastore are atomic; linear hashing loses no entry when a bucket splits; insertion ends;
    page, control and location codecs invert; range reads agree on all backends; verification on
    write.
  \<^item> \<open>Blockexc_Wire\<close> (varint framing, with the locale \<open>framing\<close>), \<open>Blockexc_Msg\<close> (messages),
    \<open>Blockexc_Serve\<close> (leaves of a tree, want lists in every mode, the inbound loop),
    \<open>Blockexc_Fetch\<close> (the outbound task), \<open>Blockexc_Peer\<close> (handler, behaviour, client and the step
    relation of the swarm around them), \<open>Pending_Blocks\<close>. Shown: framing inverts and respects
    the size limit; only stored data is served, and only paid for in marketplace mode; a delivered
    leaf has a proof that verifies; a fetch stores only verified data whatever the peer sends;
    requests reach every connected peer; receivers and pending requests correspond. The theorem of
    this theory composes them: a fetch between two nodes delivers the block.
  \<^item> \<open>Block_Batch\<close> (reading back a batch of blocks from any store), \<open>Api_Base\<close> (errors and settings),
    \<open>Api_Upload\<close>, \<open>Api_Download\<close>, \<open>Api_Directory\<close>, \<open>Folder_Manifest\<close>, \<open>Api_Pins\<close>, \<open>Api_Misc\<close>: the
    handlers of \<open>api.rs\<close>. \<open>Upload_Hash\<close>, \<open>Upload_Batches\<close>, \<open>Upload_Parallel\<close>,
    \<open>Upload_Stream\<close>, \<open>Upload_Result\<close>, \<open>Upload_Live\<close>, \<open>Upload_Download\<close>, \<open>Range_Download\<close>, \<open>Api_Roundtrip\<close>, \<open>Api_Delete\<close>, \<open>Directory_Tree\<close>: their properties. Shown: an upload always returns
    and, on a store that accepts writes, succeeds; what was uploaded is downloaded, in full and by
    range, for every schedule of the tasks and every backend; parallel hashing agrees with
    sequential hashing; deletion removes exactly the dataset; data of other nodes is checked;
    a directory holds exactly the files asked for; the range header; escaping in HTML.
  \<^item> \<open>Marketplace\<close>, \<open>Marketplace_Safety\<close>: the records, the file and the handlers. Shown: the records
    stay well-typed over restarts and failed writes; the effect of a reservation.
  \<^item> \<open>Cluster\<close>, \<open>Cluster_Pin\<close>: placement and pinning. Shown: placement is stable; pinning ends and
    reaches as many replicas as members accept.
  \<^item> \<open>Botg\<close>, \<open>Botg_Safety\<close>: the UDP protocol. Shown: all a datagram can do; a request delivers.
  \<^item> \<open>Spr\<close>, \<open>Dht_Provider\<close>, \<open>Discovery_Engine\<close>, \<open>Advertiser\<close>, \<open>Node_Config\<close>, \<open>Traffic\<close>: the files of
    these names with \<open>discovery.rs\<close>, \<open>config.rs\<close> and the start of the citadel node in \<open>runtime.rs\<close>.
    Shown: peer records survive the bootstrap list; the provider store finds what was announced
    and evicts the oldest; the invariants of the queues of the engine and the advertiser, whose
    files \<open>lib.rs\<close> does not declare; a started citadel node is a reachable one.
  \<^item> \<open>Citadel_Lens\<close> (the graph), \<open>Citadel_Node\<close> (operations, proof of work, the guarded node,
    anti-entropy), \<open>Citadel_Invariant\<close>, \<open>Citadel_Safety\<close>, \<open>Citadel_Convergence\<close>,
    \<open>Citadel_Admission\<close>, \<open>Citadel_Sync\<close>, \<open>Citadel_Topology\<close>: \<open>citadel.rs\<close>. \<open>Citadel_Mesh\<close>,
    \<open>Citadel_Mesh_Safety\<close>: the citadel handlers of \<open>api.rs\<close> and the task of \<open>citadel_sync.rs\<close>.
    Shown: the invariant of every reachable node; equal frontiers give equal views; the limits per
    origin and per host in a round; the query for missing operations is exact and its answer lets
    the asking node catch up; a turn of the synchronisation ends and is safe whatever the peers
    answer; one exchange brings two nodes to a joint frontier.

  \<^bold>\<open>Conventions.\<close> A struct is a record with the fields of the source under a short prefix, an enum
  a datatype, an operation a function from the old state to the result and the new one. Errors
  are values; a panic (overflow, index, \<open>unwrap\<close>) is \<open>Panic\<close>. Files are byte lists, local stores of
  cluster members a heap. Error texts keep their fixed part only. Locks are not modelled: an
  operation is one step. Where tasks run side by side their order is explicit: a scheduler that
  picks the next finished task (uploads, pinning) or a step relation (discovery engine,
  advertiser, swarm); the lanes of a deltaflat batch run one after another. Third-party code is a
  parameter with named laws: \<open>crates\<close>, \<open>redb\<close>, \<open>prost\<close>, \<open>codec\<close>, the JSON codecs of the marketplace
  and of BoTG, keys, base64 and base58, the HTTP clients, sockets, discv5, random numbers, the
  clock, the environment and the outcome of file operations.

  \<^bold>\<open>Loops and bounds.\<close> No definition uses fuel: loops are structural, have a termination proof
  (\<open>write_varint\<close>, \<open>inbound_loop\<close>, \<open>outbound_loop\<close>, \<open>poll_all\<close>, \<open>chunk_loop\<close>, \<open>drain_inflight\<close>,
  \<open>drain_pending\<close> and others), or are \<open>partial_function (option)\<close> (tree building, the loops over
  readers, mining, anti-entropy, the upload pipeline, pinning) with a theorem that they return. The
  topology of the simulation is one too: it is shown not to end for two nodes, and what it picks
  is right when it ends. Endless loops are modelled by their turn. The number of attempts of the
  deltaflat insertion is the code's own bound, and the budget in \<open>block_store\<close> keeps its file
  numbers within 32 bits.

  \<^bold>\<open>Not modelled.\<close> Routing, the command line, the reading of settings from files, start-up of the
  network, the libp2p behaviours and event loop (\<open>p2p.rs\<close>, \<open>identify_shim.rs\<close>, most of
  \<open>runtime.rs\<close>), key files (\<open>eth_key.rs\<close>), the start and bootstrap of discv5: I/O and frameworks.
  The HTML page of a directory, the rounds of the simulation and the bandwidth gate of
  \<open>citadel.rs\<close>, and the averages of \<open>metrics.rs\<close>: floating point. The vendored crates discv5 and
  enr. The benchmark code of \<open>primitive_lab.rs\<close> and \<open>primitive_pipeline.rs\<close>; \<open>storage_memory.rs\<close>,
  which is not compiled.
\<close>

text \<open>
  C3. A fetch between two nodes delivers. A node asks an altruistic peer for a block over the
  wire: when the peer's store returns the block, its data verifies against the CID, the messages
  are within the size limit and the node's own store accepts the block, then the peer's serving
  loop answers the request bytes with one frame, the fetching task reads that frame without
  panicking, and afterwards the node's store holds the data under the CID (or the data it held
  before), everything else in it unchanged.
\<close>

theorem exchange_delivers:
  assumes "message_law M" "cid_bytes_law X"
    and "store_get X C c s = Ok b" "verify_blake3 X (block_data b) c = Ok ()"
    and "store_put X C' \<lparr>block_cid = c, block_data = block_data b\<rparr> t = (Ok (), t')"
    and "store_inv X C' dsize (Suc k) t" "length (block_data b) = dsize c"
    and "\<And>bs. encode_message M (want_message X c) = Ok bs \<Longrightarrow> frame_fits MAX_MESSAGE bs"
    and "\<And>bs. encode_message M (delivery_message X c (block_data b)) = Ok bs \<Longrightarrow> frame_fits MAX_MESSAGE bs"
    and "outbound X M C' c True [] t mt = (request, rest)"
  shows "\<exists>response t'' mt''.
      fst (inbound_loop X P M C ''altruistic'' price s (\<lambda>_. True) request [] mt2) = response
    \<and> outbound X M C' c True response t mt = (request, t'', mt'', False)
    \<and> store_inv X C' dsize k t''
    \<and> store_look X C' t'' = (if store_look X C' t c = None then (store_look X C' t)(c \<mapsto> block_data b) else store_look X C' t)
    \<and> mt_bytes_received mt'' = fetch_add (mt_bytes_received mt) (length (block_data b))"
proof -
  obtain response where r: "inbound_loop X P M C ''altruistic'' price s (\<lambda>_. True) request [] mt2
      = (response, block_sent (length (block_data b)) mt2, False)"
    "outbound X M C' c True response t mt = (request, t', block_received (length (block_data b)) mt, False)"
    using fetch_from_peer [OF assms(1-5,8-10)] by blast
  have p: "store_put1 X C' c (block_data b) t = Some t'" using assms(5) by (simp add: store_put1_def)
  have "store_inv X C' dsize k t'" by (rule store.put_inv [OF assms(6,7) p])
  moreover have "store_look X C' t' = (if store_look X C' t c = None then (store_look X C' t)(c \<mapsto> block_data b) else store_look X C' t)"
    using store.put_look [OF assms(6,7) p] by (auto simp: fun_eq_iff)
  ultimately show ?thesis using r by (simp add: block_received_def)
qed

theorem exchange_delivers_witness:
  "\<exists>request response t'' mt''. outbound demo_crates demo_codec demo_store demo_good True response (GeomB []) metrics_new = (request, t'', mt'', False)
     \<and> store_look demo_crates demo_store t'' demo_good = Some [7, 8] \<and> mt_bytes_received mt'' = 2"
proof -
  let ?b = "\<lparr>block_cid = demo_good, block_data = [7, 8]\<rparr>"
  let ?dsize = "\<lambda>_ :: nat \<times> nat \<times> bytes. 2 :: nat"
  obtain t' where put: "store_put demo_crates demo_store ?b (GeomB []) = (Ok (), t')" by (rule demo_geom_put)
  obtain request rest where req: "outbound demo_crates demo_codec demo_store demo_good True [] (GeomB []) metrics_new = (request, rest)" by (rule prod.exhaust)
  have i: "store_inv demo_crates demo_store ?dsize (Suc 0) (GeomB [])" by (simp add: geom_inv_def)
  have e: "store_look demo_crates demo_store (GeomB []) demo_good = None" by (simp add: geom_look_def)
  have "\<exists>response t'' mt''.
      fst (inbound_loop demo_crates demo_prost demo_codec demo_store ''altruistic'' 0 demo_peer (\<lambda>_. True) request [] metrics_new) = response
    \<and> outbound demo_crates demo_codec demo_store demo_good True response (GeomB []) metrics_new = (request, t'', mt'', False)
    \<and> store_inv demo_crates demo_store ?dsize 0 t''
    \<and> store_look demo_crates demo_store t'' = (if store_look demo_crates demo_store (GeomB []) demo_good = None
        then (store_look demo_crates demo_store (GeomB []))(demo_good \<mapsto> block_data ?b) else store_look demo_crates demo_store (GeomB []))
    \<and> mt_bytes_received mt'' = fetch_add (mt_bytes_received metrics_new) (length (block_data ?b))"
    by (rule exchange_delivers [OF demo_message_law demo_cid_bytes_law demo_peer_get _ _ i _ _ _ req]) (use put demo_frames in simp_all)
  then obtain response t'' mt'' where
    "outbound demo_crates demo_codec demo_store demo_good True response (GeomB []) metrics_new = (request, t'', mt'', False)"
    "store_look demo_crates demo_store t'' = (store_look demo_crates demo_store (GeomB []))(demo_good \<mapsto> block_data ?b)"
    "mt_bytes_received mt'' = fetch_add (mt_bytes_received metrics_new) (length (block_data ?b))"
    unfolding e by auto
  moreover have "fetch_add (mt_bytes_received metrics_new) (length (block_data ?b)) = 2" by (simp add: fetch_add_def metrics_new_def)
  ultimately show ?thesis by (intro exI [of _ request] exI [of _ response] exI [of _ t''] exI [of _ mt'']) simp
qed

end
